(* ===== verification/Prelude.thy ===== *)
theory Prelude
  imports Complex_Main "HOL-Library.AList" "HOL-Library.Sublist"
begin

text \<open>
  The shared library of the development: a result type for code that may throw,
  association lists as JavaScript property lists, splitting and joining of strings, and the
  collections of simplification rules the component theories extend.
\<close>

named_theorems js_defs "definitions unfolded when a closed model term is evaluated"
named_theorems js_read "reading facts: what a property read returns after a write"

section \<open>Runtime versions\<close>

text \<open>\<open>RuntimeVersion\<close>: which set of scripts a sandbox runs on.\<close>

datatype runtime_version = V1 | V2 | V3

section \<open>Results of code that may throw\<close>

text \<open>A thrown error is the left summand; \<open>rbind\<close> sequences, stopping at the first error.\<close>

definition rbind :: "'e + 'a \<Rightarrow> ('a \<Rightarrow> 'e + 'b) \<Rightarrow> 'e + 'b" where
  "rbind m f = (case m of Inl e \<Rightarrow> Inl e | Inr x \<Rightarrow> f x)"

lemma rbind_simps [simp]:
  "rbind (Inl e) f = Inl e"
  "rbind (Inr x) f = f x"
  by (simp_all add: rbind_def)

lemma rbind_Inr_iff: "rbind m f = Inr y \<longleftrightarrow> (\<exists>x. m = Inr x \<and> f x = Inr y)"
  by (cases m) auto

lemma rbind_Inl_iff: "rbind m f = Inl e \<longleftrightarrow> m = Inl e \<or> (\<exists>x. m = Inr x \<and> f x = Inl e)"
  by (cases m) auto

lemma rbind_assoc: "rbind (rbind m f) g = rbind m (\<lambda>x. rbind (f x) g)"
  by (cases m) auto

text \<open>A loop over a list that threads an accumulator and may throw (\<open>forEach\<close>, \<open>map\<close>).\<close>

fun rfold :: "('x \<Rightarrow> 'a \<Rightarrow> 'e + 'a) \<Rightarrow> 'x list \<Rightarrow> 'a \<Rightarrow> 'e + 'a" where
  "rfold f [] a = Inr a"
| "rfold f (x # xs) a = rbind (f x a) (rfold f xs)"

lemma rfold_append: "rfold f (xs @ ys) a = rbind (rfold f xs a) (rfold f ys)"
proof (induction xs arbitrary: a)
  case (Cons x xs)
  then show ?case by (cases "f x a") auto
qed simp

lemma rfold_total:
  "(\<And>x a. x \<in> set xs \<Longrightarrow> \<exists>b. f x a = Inr b) \<Longrightarrow> \<exists>b. rfold f xs a = Inr b"
proof (induction xs arbitrary: a)
  case (Cons x xs)
  from Cons.prems [of x a] obtain b where "f x a = Inr b" by auto
  with Cons show ?case by auto
qed simp

lemma rfold_invariant:
  assumes step: "\<And>x a b. x \<in> set xs \<Longrightarrow> P a \<Longrightarrow> f x a = Inr b \<Longrightarrow> P b"
    and "P a" and "rfold f xs a = Inr b"
  shows "P b"
  using assms
proof (induction xs arbitrary: a)
  case (Cons x xs)
  from Cons.prems(3) obtain c where "f x a = Inr c" "rfold f xs c = Inr b"
    by (auto simp: rbind_Inr_iff)
  with Cons show ?case by (metis list.set_intros)
qed simp

section \<open>Stateful code that may throw\<close>

text \<open>
  The result and the state after: an error keeps the state reached when it was thrown, so that
  effects before a throw are not lost.
\<close>

type_synonym ('s, 'e, 'a) stm = "'s \<Rightarrow> ('e + 'a) \<times> 's"

definition sret :: "'a \<Rightarrow> ('s, 'e, 'a) stm" where
  "sret x s = (Inr x, s)"

definition sthrow :: "'e \<Rightarrow> ('s, 'e, 'a) stm" where
  "sthrow e s = (Inl e, s)"

definition sbind :: "('s, 'e, 'a) stm \<Rightarrow> ('a \<Rightarrow> ('s, 'e, 'b) stm) \<Rightarrow> ('s, 'e, 'b) stm" where
  "sbind m f s = (case m s of (Inl e, s1) \<Rightarrow> (Inl e, s1) | (Inr x, s1) \<Rightarrow> f x s1)"

text \<open>A computation that only reads the state, and one that only writes it.\<close>

definition sread :: "('s \<Rightarrow> 'e + 'a) \<Rightarrow> ('s, 'e, 'a) stm" where
  "sread f s = (f s, s)"

definition swrite :: "('s \<Rightarrow> 's) \<Rightarrow> ('s, 'e, unit) stm" where
  "swrite f s = (Inr (), f s)"

lemma sret_simp [simp]: "sret x s = (Inr x, s)"
  by (simp add: sret_def)

lemma sthrow_simp [simp]: "sthrow e s = (Inl e, s)"
  by (simp add: sthrow_def)

lemma sread_simp [simp]: "sread f s = (f s, s)"
  by (simp add: sread_def)

lemma swrite_simp [simp]: "swrite f s = (Inr (), f s)"
  by (simp add: swrite_def)

lemma sbind_Inr [simp]: "m s = (Inr x, s1) \<Longrightarrow> sbind m f s = f x s1"
  by (simp add: sbind_def)

lemma sbind_Inl [simp]: "m s = (Inl e, s1) \<Longrightarrow> sbind m f s = (Inl e, s1)"
  by (simp add: sbind_def)

lemma sbind_assoc: "sbind (sbind m f) g = sbind m (\<lambda>x. sbind (f x) g)"
  by (auto simp: sbind_def fun_eq_iff split: prod.splits sum.splits)

text \<open>A loop threading the state, stopping at the first throw.\<close>

fun sfor :: "('x \<Rightarrow> ('s, 'e, unit) stm) \<Rightarrow> 'x list \<Rightarrow> ('s, 'e, unit) stm" where
  "sfor f [] = sret ()"
| "sfor f (x # xs) = sbind (f x) (\<lambda>_. sfor f xs)"

lemma sfor_append: "sfor f (xs @ ys) = sbind (sfor f xs) (\<lambda>_. sfor f ys)"
proof (induction xs)
  case Nil
  show ?case by (rule ext) (simp add: sbind_def)
next
  case (Cons x xs)
  then show ?case by (simp add: sbind_assoc)
qed

lemma sfor_invariant:
  assumes step: "\<And>x s. x \<in> set xs \<Longrightarrow> P s \<Longrightarrow> P (snd (f x s))" and "P s"
  shows "P (snd (sfor f xs s))"
  using assms
proof (induction xs arbitrary: s)
  case (Cons x xs)
  obtain r s1 where fx: "f x s = (r, s1)" by (cases "f x s")
  with Cons.prems have "P s1" by (metis list.set_intros(1) snd_conv)
  with Cons fx show ?case by (cases r) auto
qed simp

text \<open>A loop of pure writes is a fold.\<close>

lemma sfor_swrite: "sfor (\<lambda>x. swrite (g x)) xs s = (Inr (), fold g xs s)"
  by (induction xs arbitrary: s) simp_all

section \<open>Lists updated by index\<close>

lemma nth_update_if: "j < length xs \<Longrightarrow> xs[i := x] ! j = (if i = j then x else xs ! j)"
  by simp

section \<open>Property lists\<close>

text \<open>
  The own properties of an object, in insertion order. A write (\<open>AList.update\<close>) keeps the
  position of an existing key and appends a new one, as JavaScript does.
\<close>

type_synonym 'v props = "(string \<times> 'v) list"

abbreviation pset :: "string \<Rightarrow> 'v \<Rightarrow> 'v props \<Rightarrow> 'v props" where
  "pset \<equiv> AList.update"

abbreviation pkeys :: "'v props \<Rightarrow> string list" where
  "pkeys ps \<equiv> map fst ps"

lemma map_of_pset [simp, js_read]: "map_of (pset k v ps) = (map_of ps)(k \<mapsto> v)"
  by (rule update_conv')

lemma set_pkeys_pset [simp]: "fst ` set (pset k v ps) = insert k (fst ` set ps)"
  using dom_update [of k v ps] by simp

lemma distinct_pset: "distinct (pkeys ps) \<Longrightarrow> distinct (pkeys (pset k v ps))"
  by (rule distinct_update)

lemma pkeys_pset: "pkeys (pset k v ps) = (if k \<in> set (pkeys ps) then pkeys ps else pkeys ps @ [k])"
  by (induction ps) auto

text \<open>A sequence of writes: later writes win.\<close>

lemma map_of_foldl_pset:
  "map_of (foldl (\<lambda>ps (k, v). pset k v ps) ps kvs) k =
     (case map_of (rev kvs) k of Some v \<Rightarrow> Some v | None \<Rightarrow> map_of ps k)"
  by (induction kvs arbitrary: ps) (auto simp: map_add_def split: option.splits)

section \<open>Splitting and joining strings\<close>

text \<open>\<open>s.split(c)\<close> for a one-character separator, and \<open>parts.join(c)\<close>.\<close>

fun split_on :: "char \<Rightarrow> string \<Rightarrow> string list" where
  "split_on c [] = [[]]"
| "split_on c (x # xs) =
     (if x = c then [] # split_on c xs
      else case split_on c xs of [] \<Rightarrow> [[x]] | p # ps \<Rightarrow> (x # p) # ps)"

fun join_with :: "char \<Rightarrow> string list \<Rightarrow> string" where
  "join_with c [] = []"
| "join_with c [p] = p"
| "join_with c (p # q # ps) = p @ c # join_with c (q # ps)"

lemma split_on_nonempty [simp]: "split_on c s \<noteq> []"
  by (induction s) (auto split: list.splits)

lemma split_on_no_sep: "p \<in> set (split_on c s) \<Longrightarrow> c \<notin> set p"
proof (induction s arbitrary: p)
  case (Cons x xs)
  then show ?case
    by (cases "split_on c xs") (auto split: if_splits)
qed simp

lemma join_with_Cons: "ps \<noteq> [] \<Longrightarrow> join_with c (p # ps) = p @ c # join_with c ps"
  by (cases ps) auto

lemma join_with_Cons_char: "join_with c ((x # p) # ps) = x # join_with c (p # ps)"
  by (cases ps) auto

lemma join_split: "join_with c (split_on c s) = s"
proof (induction s)
  case (Cons x xs)
  then show ?case
    by (cases "split_on c xs") (auto simp: join_with_Cons join_with_Cons_char)
qed simp

lemma split_on_single: "c \<notin> set p \<Longrightarrow> split_on c p = [p]"
  by (induction p) auto

lemma split_on_append_sep: "c \<notin> set p \<Longrightarrow> split_on c (p @ c # s) = p # split_on c s"
  by (induction p) auto

lemma split_join:
  "ps \<noteq> [] \<Longrightarrow> \<forall>p \<in> set ps. c \<notin> set p \<Longrightarrow> split_on c (join_with c ps) = ps"
proof (induction ps)
  case (Cons p ps)
  then show ?case
    by (cases ps) (auto simp: split_on_single split_on_append_sep)
qed simp

lemma split_on_app: "split_on c (s @ c # t) = split_on c s @ split_on c t"
proof (induction s)
  case (Cons x xs)
  then show ?case by (cases "split_on c xs") auto
qed simp

lemma join_with_snoc: "ps \<noteq> [] \<Longrightarrow> join_with c (ps @ [p]) = join_with c ps @ c # p"
proof (induction ps)
  case (Cons q ps)
  then show ?case by (cases ps) auto
qed simp

section \<open>Prefixes and suffixes\<close>

definition starts_with :: "string \<Rightarrow> string \<Rightarrow> bool" where
  "starts_with s p \<longleftrightarrow> take (length p) s = p"

definition ends_with :: "string \<Rightarrow> string \<Rightarrow> bool" where
  "ends_with s p \<longleftrightarrow> length p \<le> length s \<and> drop (length s - length p) s = p"

lemma starts_with_prefix: "starts_with s p \<longleftrightarrow> prefix p s"
  by (metis append_eq_conv_conj append_take_drop_id prefix_def starts_with_def)

lemma ends_with_suffix: "ends_with s p \<longleftrightarrow> suffix p s"
proof
  assume "ends_with s p"
  then show "suffix p s"
    by (metis append_take_drop_id ends_with_def suffix_def)
next
  assume "suffix p s"
  then show "ends_with s p" by (auto simp: suffix_def ends_with_def)
qed

lemma starts_with_dots: "starts_with s ''..'' \<Longrightarrow> starts_with s ''.''"
  by (auto simp: starts_with_prefix prefix_def)

section \<open>Searches over indexes\<close>

lemma find_map: "find P (map f xs) = map_option f (find (\<lambda>x. P (f x)) xs)"
  by (induction xs) auto

lemma find_upt_Suc: "find P [0..<Suc n] = (if P 0 then Some 0 else map_option Suc (find (\<lambda>i. P (Suc i)) [0..<n]))"
  by (simp add: upt_conv_Cons map_Suc_upt [symmetric] find_map del: upt_Suc)

end
