(* ===== verification/Libraries.thy ===== *)
theory Libraries
  imports Prelude
begin

text \<open>
  \<open>sandbox-libraries.js\<close>: the libraries injected into the sandbox. \<open>faker\<close>, \<open>_\<close> and
  \<open>moment\<close> are proxies that evaluate their script at the first use; the validator and the
  JSON-schema library are evaluated at once. The engine's evaluation of a library script and
  the operations of library objects are parameters (\<open>lib_env\<close>).
\<close>

section \<open>State\<close>

record libspec =
  lib_version :: string
  lib_file :: string
  lib_object :: string

text \<open>A global variable: undefined, a library object, or the proxy \<open>getLibraryObject\<close> made.\<close>

datatype 'o gval = GUndef | GObj 'o | GProxy libspec

datatype liberr = LibTypeErr | LibStackOverflow | LibFailure string

text \<open>
  \<open>globals\<close> is the global object, \<open>resolved\<close> the \<open>resolvedTarget\<close> variable of each proxy's
  closure, \<open>reads\<close> the calls of \<open>__service.readLibrary\<close> so far.
\<close>

record 'o lstate =
  globals :: "string \<Rightarrow> 'o gval"
  resolved :: "libspec \<Rightarrow> 'o gval"
  reads :: "(string \<times> string) list"

record 'o lib_env =
  le_read :: "string \<Rightarrow> string \<Rightarrow> liberr + string"
  le_eval :: "string \<Rightarrow> (string \<Rightarrow> 'o gval) \<Rightarrow> liberr option \<times> (string \<Rightarrow> 'o gval)"
  le_member :: "'o \<Rightarrow> string \<Rightarrow> liberr + 'o"
  le_call :: "'o \<Rightarrow> 'o list \<Rightarrow> liberr + 'o"
  le_new :: "'o \<Rightarrow> 'o list \<Rightarrow> liberr + 'o"
  le_array :: "'o list \<Rightarrow> 'o"

section \<open>Evaluating a library\<close>

text \<open>Read the script, evaluate it in the global scope, return the global of the given name.\<close>

definition evalLibrary ::
  "'o lib_env \<Rightarrow> libspec \<Rightarrow> 'o lstate \<Rightarrow> (liberr + 'o gval) \<times> 'o lstate" where
  "evalLibrary env sp s =
     (let s1 = s\<lparr>reads := reads s @ [(lib_version sp, lib_file sp)]\<rparr>
      in case le_read env (lib_version sp) (lib_file sp) of
        Inl e \<Rightarrow> (Inl e, s1)
      | Inr src \<Rightarrow>
          (case le_eval env src (globals s1) of
             (Some e, g) \<Rightarrow> (Inl e, s1\<lparr>globals := g\<rparr>)
           | (None, g) \<Rightarrow> (Inr (g (lib_object sp)), s1\<lparr>globals := g\<rparr>)))"

definition resolveLazyTarget ::
  "'o lib_env \<Rightarrow> libspec \<Rightarrow> 'o lstate \<Rightarrow> (liberr + 'o gval) \<times> 'o lstate" where
  "resolveLazyTarget env sp s =
     (case evalLibrary env sp s of
        (Inl e, s1) \<Rightarrow> (Inl e, s1)
      | (Inr _, s1) \<Rightarrow> (Inr (globals s1 (lib_object sp)), s1))"

section \<open>The lazy proxy\<close>

text \<open>The guard every trap starts with: resolve once, keep the target in the closure.\<close>

definition ensure_resolved ::
  "'o lib_env \<Rightarrow> libspec \<Rightarrow> 'o lstate \<Rightarrow> (liberr + 'o gval) \<times> 'o lstate" where
  "ensure_resolved env sp s =
     (if resolved s sp = GUndef
      then (case resolveLazyTarget env sp s of
              (Inl e, s1) \<Rightarrow> (Inl e, s1)
            | (Inr t, s1) \<Rightarrow> (Inr t, s1\<lparr>resolved := (resolved s1)(sp := t)\<rparr>))
      else (Inr (resolved s sp), s))"

text \<open>
  The traps. The target may itself be a proxy (a script that does not define its global leaves
  the proxy there), so an operation on it runs that proxy's trap: \<open>n\<close> bounds the engine's call
  stack, whose overflow is the error \<open>LibStackOverflow\<close>.
\<close>

fun proxy_get ::
  "nat \<Rightarrow> 'o lib_env \<Rightarrow> libspec \<Rightarrow> string \<Rightarrow> 'o lstate \<Rightarrow> (liberr + 'o) \<times> 'o lstate" where
  "proxy_get 0 env sp p s = (Inl LibStackOverflow, s)"
| "proxy_get (Suc n) env sp p s =
     (case ensure_resolved env sp s of
        (Inl e, s1) \<Rightarrow> (Inl e, s1)
      | (Inr GUndef, s1) \<Rightarrow> (Inl LibTypeErr, s1)
      | (Inr (GObj t), s1) \<Rightarrow> (le_member env t p, s1)
      | (Inr (GProxy sp'), s1) \<Rightarrow> proxy_get n env sp' p s1)"

fun proxy_apply ::
  "nat \<Rightarrow> 'o lib_env \<Rightarrow> libspec \<Rightarrow> 'o list \<Rightarrow> 'o lstate \<Rightarrow> (liberr + 'o) \<times> 'o lstate" where
  "proxy_apply 0 env sp args s = (Inl LibStackOverflow, s)"
| "proxy_apply (Suc n) env sp args s =
     (case ensure_resolved env sp s of
        (Inl e, s1) \<Rightarrow> (Inl e, s1)
      | (Inr GUndef, s1) \<Rightarrow> (Inl LibTypeErr, s1)
      | (Inr (GObj t), s1) \<Rightarrow> (le_call env t [le_array env args], s1)
      | (Inr (GProxy sp'), s1) \<Rightarrow> proxy_apply n env sp' [le_array env args] s1)"

fun proxy_construct ::
  "nat \<Rightarrow> 'o lib_env \<Rightarrow> libspec \<Rightarrow> 'o list \<Rightarrow> 'o lstate \<Rightarrow> (liberr + 'o) \<times> 'o lstate" where
  "proxy_construct 0 env sp args s = (Inl LibStackOverflow, s)"
| "proxy_construct (Suc n) env sp args s =
     (case ensure_resolved env sp s of
        (Inl e, s1) \<Rightarrow> (Inl e, s1)
      | (Inr GUndef, s1) \<Rightarrow> (Inl LibTypeErr, s1)
      | (Inr (GObj t), s1) \<Rightarrow> (le_new env t args, s1)
      | (Inr (GProxy sp'), s1) \<Rightarrow> proxy_construct n env sp' args s1)"

text \<open>\<open>getLibraryObject\<close> makes a proxy whose closure variable starts undefined.\<close>

definition getLibraryObject :: "libspec \<Rightarrow> 'o lstate \<Rightarrow> 'o gval \<times> 'o lstate" where
  "getLibraryObject sp s = (GProxy sp, s\<lparr>resolved := (resolved s)(sp := GUndef)\<rparr>)"

section \<open>The scripts of the three runtime versions\<close>

definition set_global :: "string \<Rightarrow> 'o gval \<Rightarrow> 'o lstate \<Rightarrow> 'o lstate" where
  "set_global k v s = s\<lparr>globals := (globals s)(k := v)\<rparr>"

text \<open>\<open>global.k = getLibraryObject(v, f, k)\<close> and \<open>global.k = evalLibrary(v, f, k)\<close>.\<close>

definition lazy_global :: "string \<Rightarrow> string \<Rightarrow> string \<Rightarrow> 'o lstate \<Rightarrow> 'o lstate" where
  "lazy_global v f k s =
     (case getLibraryObject \<lparr>lib_version = v, lib_file = f, lib_object = k\<rparr> s of
        (g, s1) \<Rightarrow> set_global k g s1)"

definition eager_global ::
  "'o lib_env \<Rightarrow> string \<Rightarrow> string \<Rightarrow> string \<Rightarrow> 'o lstate \<Rightarrow> liberr option \<times> 'o lstate" where
  "eager_global env v f k s =
     (case evalLibrary env \<lparr>lib_version = v, lib_file = f, lib_object = k\<rparr> s of
        (Inl e, s1) \<Rightarrow> (Some e, s1)
      | (Inr g, s1) \<Rightarrow> (None, set_global k g s1))"

definition eager_pair ::
  "'o lib_env \<Rightarrow> string \<Rightarrow> string \<times> string \<Rightarrow> string \<times> string \<Rightarrow> 'o lstate \<Rightarrow> liberr option \<times> 'o lstate" where
  "eager_pair env v a b s =
     (case eager_global env v (fst a) (snd a) s of
        (Some e, s1) \<Rightarrow> (Some e, s1)
      | (None, s1) \<Rightarrow> eager_global env v (fst b) (snd b) s1)"

definition libraries_v1 :: "'o lib_env \<Rightarrow> 'o lstate \<Rightarrow> liberr option \<times> 'o lstate" where
  "libraries_v1 env s =
     (let v = ''version_1'';
          s1 = lazy_global v ''faker-2.1.2.min.js'' ''faker'' s;
          s2 = lazy_global v ''lodash-2.4.1.min.js'' ''_'' s1;
          s3 = lazy_global v ''moment-2.8.2.min.js'' ''moment'' s2
      in eager_pair env v (''validator.min.js'', ''validator'')
           (''amanda-0.4.8.min.js'', ''amanda'') s3)"

definition libraries_v2 :: "'o lib_env \<Rightarrow> 'o lstate \<Rightarrow> liberr option \<times> 'o lstate" where
  "libraries_v2 env s =
     (let v = ''version_2'';
          s1 = lazy_global v ''faker-3.0.1.min.js'' ''faker'' s;
          s2 = lazy_global v ''lodash-4.2.1.min.js'' ''_'' s1;
          s3 = lazy_global v ''moment-2.11.2.min.js'' ''moment'' s2
      in eager_pair env v (''validator-4.7.2.min.js'', ''validator'')
           (''amanda-0.4.8.min.js'', ''amanda'') s3)"

definition libraries_v3 :: "'o lib_env \<Rightarrow> 'o lstate \<Rightarrow> liberr option \<times> 'o lstate" where
  "libraries_v3 env s =
     (let v = ''version_3'';
          s1 = lazy_global v ''faker-4.1.0.min.js'' ''faker'' s;
          s2 = lazy_global v ''lodash-4.17.11.min.js'' ''_'' s1;
          s3 = lazy_global v ''moment-2.24.0.min.js'' ''moment'' s2
      in eager_pair env v (''validator-10.11.0.min.js'', ''validator'')
           (''ajv-6.10.0.min.js'', ''Ajv'') s3)"

text \<open>The script of each runtime version, and its files.\<close>

fun libraries :: "runtime_version \<Rightarrow> 'o lib_env \<Rightarrow> 'o lstate \<Rightarrow> liberr option \<times> 'o lstate" where
  "libraries V1 = libraries_v1"
| "libraries V2 = libraries_v2"
| "libraries V3 = libraries_v3"

fun version_dir :: "runtime_version \<Rightarrow> string" where
  "version_dir V1 = ''version_1''"
| "version_dir V2 = ''version_2''"
| "version_dir V3 = ''version_3''"

fun startup_files :: "runtime_version \<Rightarrow> string list" where
  "startup_files V1 = [''validator.min.js'', ''amanda-0.4.8.min.js'']"
| "startup_files V2 = [''validator-4.7.2.min.js'', ''amanda-0.4.8.min.js'']"
| "startup_files V3 = [''validator-10.11.0.min.js'', ''ajv-6.10.0.min.js'']"

fun lazy_files :: "runtime_version \<Rightarrow> (string \<times> string) list" where
  "lazy_files V1 = [(''faker-2.1.2.min.js'', ''faker''), (''lodash-2.4.1.min.js'', ''_''),
     (''moment-2.8.2.min.js'', ''moment'')]"
| "lazy_files V2 = [(''faker-3.0.1.min.js'', ''faker''), (''lodash-4.2.1.min.js'', ''_''),
     (''moment-2.11.2.min.js'', ''moment'')]"
| "lazy_files V3 = [(''faker-4.1.0.min.js'', ''faker''), (''lodash-4.17.11.min.js'', ''_''),
     (''moment-2.24.0.min.js'', ''moment'')]"

section \<open>What evaluation does to the state\<close>

lemma evalLibrary_frame:
  "evalLibrary env sp s = (r, s1) \<Longrightarrow>
     reads s1 = reads s @ [(lib_version sp, lib_file sp)] \<and> resolved s1 = resolved s"
  by (auto simp: evalLibrary_def Let_def split: sum.splits prod.splits option.splits)

text \<open>
  A script provides its object when it can be read and its evaluation, from any global object,
  succeeds and leaves a library object in the global of that name.
\<close>

definition provides :: "'o lib_env \<Rightarrow> libspec \<Rightarrow> 'o \<Rightarrow> bool" where
  "provides env sp t \<longleftrightarrow> (\<exists>src. le_read env (lib_version sp) (lib_file sp) = Inr src \<and>
     (\<forall>g. fst (le_eval env src g) = None \<and> snd (le_eval env src g) (lib_object sp) = GObj t))"

lemma ensure_resolved_hit:
  "resolved s sp \<noteq> GUndef \<Longrightarrow> ensure_resolved env sp s = (Inr (resolved s sp), s)"
  by (simp add: ensure_resolved_def)

lemma evalLibrary_provides:
  assumes "provides env sp t"
  obtains s1 where "evalLibrary env sp s = (Inr (GObj t), s1)"
    and "globals s1 (lib_object sp) = GObj t"
    and "reads s1 = reads s @ [(lib_version sp, lib_file sp)]"
    and "resolved s1 = resolved s"
proof -
  from assms obtain src where src: "le_read env (lib_version sp) (lib_file sp) = Inr src"
    and ev: "\<And>g. fst (le_eval env src g) = None"
    and obj: "\<And>g. snd (le_eval env src g) (lib_object sp) = GObj t"
    unfolding provides_def by auto
  obtain g where g: "le_eval env src (globals s) = (None, g)"
    using ev [of "globals s"] by (metis prod.collapse)
  have gobj: "g (lib_object sp) = GObj t" using obj [of "globals s"] by (simp add: g)
  let ?s1 = "s\<lparr>reads := reads s @ [(lib_version sp, lib_file sp)], globals := g\<rparr>"
  have "evalLibrary env sp s = (Inr (GObj t), ?s1)"
    by (simp add: evalLibrary_def src g gobj)
  then show thesis using gobj by (intro that [of ?s1]) simp_all
qed

lemma ensure_resolved_miss:
  assumes "provides env sp t" and "resolved s sp = GUndef"
  obtains s1 where "ensure_resolved env sp s = (Inr (GObj t), s1)"
    and "resolved s1 sp = GObj t"
    and "reads s1 = reads s @ [(lib_version sp, lib_file sp)]"
proof -
  from assms(1) obtain s1 where "evalLibrary env sp s = (Inr (GObj t), s1)"
    "globals s1 (lib_object sp) = GObj t"
    "reads s1 = reads s @ [(lib_version sp, lib_file sp)]" "resolved s1 = resolved s"
    by (rule evalLibrary_provides)
  with assms(2) show thesis
    by (intro that [of "s1\<lparr>resolved := (resolved s1)(sp := GObj t)\<rparr>"])
      (simp_all add: ensure_resolved_def resolveLazyTarget_def)
qed

text \<open>The three traps on a resolved target.\<close>

lemma traps_resolved:
  assumes "resolved s sp = GObj t"
  shows "proxy_get (Suc n) env sp p s = (le_member env t p, s)"
    and "proxy_apply (Suc n) env sp args s = (le_call env t [le_array env args], s)"
    and "proxy_construct (Suc n) env sp args s = (le_new env t args, s)"
  using assms by (simp_all add: ensure_resolved_hit)

section \<open>Any use of a proxy\<close>

datatype 'o trap = TGet string | TApply "'o list" | TConstruct "'o list"

fun run_trap :: "'o lib_env \<Rightarrow> libspec \<Rightarrow> 'o trap \<Rightarrow> 'o lstate \<Rightarrow> (liberr + 'o) \<times> 'o lstate" where
  "run_trap env sp (TGet p) s = proxy_get 1 env sp p s"
| "run_trap env sp (TApply args) s = proxy_apply 1 env sp args s"
| "run_trap env sp (TConstruct args) s = proxy_construct 1 env sp args s"

fun run_traps :: "'o lib_env \<Rightarrow> libspec \<Rightarrow> 'o trap list \<Rightarrow> 'o lstate \<Rightarrow> 'o lstate" where
  "run_traps env sp [] s = s"
| "run_traps env sp (t # ts) s = run_traps env sp ts (snd (run_trap env sp t s))"

fun target_op :: "'o lib_env \<Rightarrow> 'o \<Rightarrow> 'o trap \<Rightarrow> liberr + 'o" where
  "target_op env t (TGet p) = le_member env t p"
| "target_op env t (TApply args) = le_call env t [le_array env args]"
| "target_op env t (TConstruct args) = le_new env t args"

lemma run_trap_resolved:
  "resolved s sp = GObj t \<Longrightarrow> run_trap env sp op s = (target_op env t op, s)"
  by (cases op) (simp_all add: ensure_resolved_hit)

lemma run_trap_fresh:
  assumes "provides env sp t" and "resolved s sp = GUndef"
  shows "fst (run_trap env sp op s) = target_op env t op \<and>
         resolved (snd (run_trap env sp op s)) sp = GObj t \<and>
         reads (snd (run_trap env sp op s)) = reads s @ [(lib_version sp, lib_file sp)]"
proof -
  from assms obtain s1 where s1: "ensure_resolved env sp s = (Inr (GObj t), s1)"
    "resolved s1 sp = GObj t" "reads s1 = reads s @ [(lib_version sp, lib_file sp)]"
    by (rule ensure_resolved_miss)
  then show ?thesis by (cases op) simp_all
qed

lemma run_traps_resolved: "resolved s sp = GObj t \<Longrightarrow> run_traps env sp ops s = s"
  by (induction ops) (simp_all add: run_trap_resolved)

section \<open>A script that does not define its global\<close>

text \<open>
  The global then still holds the proxy, which becomes its own target: every trap calls itself
  until the call stack is exhausted.
\<close>

lemma proxy_get_self:
  "resolved s sp = GProxy sp \<Longrightarrow> proxy_get n env sp p s = (Inl LibStackOverflow, s)"
  by (induction n) (simp_all add: ensure_resolved_hit)

lemma resolve_inert:
  assumes "le_read env (lib_version sp) (lib_file sp) = Inr src"
    and "le_eval env src (globals s) = (None, globals s)"
    and "resolved s sp = GUndef" and "globals s (lib_object sp) = GProxy sp"
  obtains s1 where "ensure_resolved env sp s = (Inr (GProxy sp), s1)"
    and "resolved s1 sp = GProxy sp"
proof -
  let ?s1 = "s\<lparr>reads := reads s @ [(lib_version sp, lib_file sp)],
               resolved := (resolved s)(sp := GProxy sp)\<rparr>"
  have "ensure_resolved env sp s = (Inr (GProxy sp), ?s1)"
    using assms
    by (simp add: ensure_resolved_def resolveLazyTarget_def evalLibrary_def)
  then show thesis by (rule that) simp
qed

section \<open>The start-up scripts\<close>

lemma lazy_global_frame:
  "reads (lazy_global v f k s) = reads s"
  "globals (lazy_global v f k s) =
     (globals s)(k := GProxy \<lparr>lib_version = v, lib_file = f, lib_object = k\<rparr>)"
  "resolved (lazy_global v f k s) =
     (resolved s)(\<lparr>lib_version = v, lib_file = f, lib_object = k\<rparr> := GUndef)"
  by (simp_all add: lazy_global_def getLibraryObject_def set_global_def)

lemma eager_global_frame:
  "eager_global env v f k s = (r, s1) \<Longrightarrow>
     reads s1 = reads s @ [(v, f)] \<and> resolved s1 = resolved s"
  by (auto simp: eager_global_def set_global_def split: sum.splits prod.splits
      dest!: evalLibrary_frame)

lemma eager_pair_frame:
  "eager_pair env v a b s = (r, s1) \<Longrightarrow>
     reads s1 = reads s @ (v, fst a) #
       (if fst (eager_global env v (fst a) (snd a) s) = None then [(v, fst b)] else []) \<and>
     resolved s1 = resolved s"
  by (auto simp: eager_pair_def split: prod.splits option.splits dest!: eager_global_frame)

section \<open>Properties\<close>

text \<open>
  An example environment: the only script defines \<open>_\<close>; objects are strings, an array of
  arguments is shown in brackets.
\<close>

definition demo_lib_env :: "string lib_env" where
  "demo_lib_env =
     \<lparr>le_read = (\<lambda>v f. Inr f),
      le_eval = (\<lambda>src g. (None, g(''_'' := GObj ''lodash''))),
      le_member = (\<lambda>t p. Inr (t @ ''.'' @ p)),
      le_call = (\<lambda>t args. Inr (t @ concat args)),
      le_new = (\<lambda>t args. Inr (''new '' @ t @ concat args)),
      le_array = (\<lambda>args. ''['' @ concat args @ '']'')\<rparr>"

definition demo_lib :: libspec where
  "demo_lib = \<lparr>lib_version = ''version_2'', lib_file = ''lodash-4.2.1.min.js'', lib_object = ''_''\<rparr>"

definition demo_lstate :: "string lstate" where
  "demo_lstate = lazy_global ''version_2'' ''lodash-4.2.1.min.js'' ''_''
     \<lparr>globals = (\<lambda>_. GUndef), resolved = (\<lambda>_. GUndef), reads = []\<rparr>"

lemma demo_provides: "provides demo_lib_env demo_lib ''lodash''"
  by (simp add: provides_def demo_lib_env_def demo_lib_def)

lemma demo_unresolved: "resolved demo_lstate demo_lib = GUndef"
  by (simp add: demo_lstate_def lazy_global_frame demo_lib_def)

text \<open>C7: a lazily injected library is read and evaluated exactly once, at the first use of
  its proxy: after any non-empty sequence of property reads, calls and constructions the script
  was requested from the service one more time than before, and the proxy holds the library.\<close>
theorem lazy_library_read_once:
  assumes "provides env sp t" and "resolved s sp = GUndef" and "ops \<noteq> []"
  shows "reads (run_traps env sp ops s) = reads s @ [(lib_version sp, lib_file sp)] \<and>
         resolved (run_traps env sp ops s) sp = GObj t"
proof (cases ops)
  case (Cons op ops')
  with run_trap_fresh [OF assms(1,2), of op] show ?thesis
    by (simp add: run_traps_resolved)
qed (use assms in simp)

theorem lazy_library_read_once_witness:
  "reads (run_traps demo_lib_env demo_lib [TGet ''map'', TApply [''x''], TGet ''map''] demo_lstate)
     = [(''version_2'', ''lodash-4.2.1.min.js'')]"
  using lazy_library_read_once [OF demo_provides demo_unresolved,
      of "[TGet ''map'', TApply [''x''], TGet ''map'']"]
  by (simp add: demo_lstate_def lazy_global_frame demo_lib_def)

text \<open>What a trap of the proxy does to the library, whether or not the library was loaded
  before: a property read is the library's own, a construction passes the arguments on, but a
  call passes them as one array argument: \<open>moment(a, b)\<close> runs the library as \<open>moment([a, b])\<close>.\<close>
theorem lazy_library_operations:
  assumes "provides env sp t" and "resolved s sp = GUndef \<or> resolved s sp = GObj t"
  shows "fst (run_trap env sp (TGet p) s) = le_member env t p \<and>
    fst (run_trap env sp (TConstruct args) s) = le_new env t args \<and>
    fst (run_trap env sp (TApply args) s) = le_call env t [le_array env args]"
  using assms(2) run_trap_fresh [OF assms(1), of s] run_trap_resolved [of s sp t env]
  by (intro conjI) (metis fst_conv target_op.simps)+

theorem lazy_library_operations_witness:
  "fst (run_trap demo_lib_env demo_lib (TApply [''a'', ''b'']) demo_lstate) = Inr ''lodash[ab]''"
  using lazy_library_operations [OF demo_provides, of demo_lstate "''p''" "[''a'', ''b'']"]
  by (simp add: demo_unresolved) (simp add: demo_lib_env_def)

text \<open>At start-up the libraries script of every runtime version reads the validator first
  and the JSON-schema library second, nothing else; it reads both when it completes without
  error, and leaves the three lazy libraries unresolved.\<close>
theorem libraries_startup_reads:
  assumes "libraries v env s = (r, s')"
  shows "(\<exists>k \<in> {1, 2}. reads s' = reads s @ map (Pair (version_dir v)) (take k (startup_files v)) \<and>
             (r = None \<longrightarrow> k = 2)) \<and>
    (\<forall>(f, k) \<in> set (lazy_files v).
       resolved s' \<lparr>lib_version = version_dir v, lib_file = f, lib_object = k\<rparr> = GUndef)"
proof
  obtain s0 a b where run: "libraries v env s = eager_pair env (version_dir v) a b s0"
    and files: "startup_files v = [fst a, fst b]"
    and s0: "reads s0 = reads s"
      "\<forall>(f, k) \<in> set (lazy_files v).
         resolved s0 \<lparr>lib_version = version_dir v, lib_file = f, lib_object = k\<rparr> = GUndef"
    by (cases v) (auto simp: libraries_v1_def libraries_v2_def libraries_v3_def Let_def
        lazy_global_frame)
  from assms run eager_pair_frame [of env "version_dir v" a b s0 r s']
  have fr: "reads s' = reads s @ (version_dir v, fst a) #
        (if fst (eager_global env (version_dir v) (fst a) (snd a) s0) = None
         then [(version_dir v, fst b)] else [])" "resolved s' = resolved s0"
    using s0(1) by simp_all
  have "r = None \<Longrightarrow> fst (eager_global env (version_dir v) (fst a) (snd a) s0) = None"
    using assms run by (auto simp: eager_pair_def split: prod.splits option.splits)
  with fr(1) files
  show "\<exists>k \<in> {1, 2}. reads s' = reads s @ map (Pair (version_dir v)) (take k (startup_files v)) \<and>
             (r = None \<longrightarrow> k = 2)"
    by (cases r) (auto simp: numeral_2_eq_2)
  show "\<forall>(f, k) \<in> set (lazy_files v).
       resolved s' \<lparr>lib_version = version_dir v, lib_file = f, lib_object = k\<rparr> = GUndef"
    using s0(2) fr(2) by auto
qed

theorem libraries_startup_reads_witness:
  "\<exists>k \<in> {1, 2}. reads (snd (libraries V2 demo_lib_env demo_lstate)) =
      reads demo_lstate @ map (Pair ''version_2'') (take k (startup_files V2))"
  using libraries_startup_reads [of V2 demo_lib_env demo_lstate,
      OF prod.collapse [symmetric]]
  by auto

text \<open>A library script that leaves its global untouched makes the proxy its own target, and
  every later property read through it overflows the call stack instead of returning.\<close>
theorem lazy_library_missing_global:
  assumes "le_read env (lib_version sp) (lib_file sp) = Inr src"
    and "le_eval env src (globals s) = (None, globals s)"
    and "resolved s sp = GUndef" and "globals s (lib_object sp) = GProxy sp"
  shows "fst (proxy_get n env sp p s) = Inl LibStackOverflow"
proof (cases n)
  case (Suc m)
  from assms obtain s1 where "ensure_resolved env sp s = (Inr (GProxy sp), s1)"
    "resolved s1 sp = GProxy sp"
    by (rule resolve_inert)
  then show ?thesis using Suc by (simp add: proxy_get_self)
qed simp

theorem lazy_library_missing_global_witness:
  "fst (proxy_get 1000 (demo_lib_env\<lparr>le_eval := \<lambda>src g. (None, g)\<rparr>) demo_lib ''map'' demo_lstate)
     = Inl LibStackOverflow"
  by (rule lazy_library_missing_global)
    (simp_all add: demo_lib_env_def demo_unresolved, simp add: demo_lstate_def lazy_global_frame demo_lib_def)

end
