(* ===== verification/JsValue.thy ===== *)
theory JsValue
  imports Prelude
begin

text \<open>
  The JavaScript values the runtime scripts compute with: primitive values, arrays and plain
  objects as trees, functions by a tag naming the closure. Property reads, writes, truthiness,
  \<open>typeof\<close> and the conversion to a string follow ECMAScript 2015 (ES6, the version the worker selects for runtime
  versions 1 and 2); numbers are exact rationals with \<open>NaN\<close> and the infinities, strings are
  lists of characters.
\<close>

section \<open>Values\<close>

datatype jsnum = NaN | PosInf | NegInf | Fin rat

text \<open>
  Function values are closures named by where they come from: a function of the language,
  a function of the sandbox definition, a method of a host object, or one of the closures
  the runtime scripts build.
\<close>

datatype fn =
    FBuiltin string          \<comment> \<open>an inherited built-in method, by name\<close>
  | FUser nat                \<comment> \<open>a function of the user's sandbox definition\<close>
  | FHost nat string         \<comment> \<open>method of the request or response object of request \<open>n\<close>\<close>
  | FWrapReq nat string      \<comment> \<open>the forwarding closure on \<open>wrappedRequest\<close>\<close>
  | FWrapRes nat string      \<comment> \<open>the forwarding closure on \<open>wrappedResponse\<close>\<close>
  | FRender nat              \<comment> \<open>\<open>wrappedResponse.render\<close> for request \<open>n\<close>\<close>
  | FReqApi string           \<comment> \<open>a validation method put on the request\<close>
  | FResApi string           \<comment> \<open>a template method put on the response\<close>
  | FLib string              \<comment> \<open>a function of an injected library, by name\<close>

datatype jsv =
    JUndef
  | JNull
  | JBool bool
  | JNum jsnum
  | JStr string
  | JArr "jsv list" "jsv props"  \<comment> \<open>elements and further own properties\<close>
  | JObj "jsv props"
  | JFun fn

abbreviation jnat :: "nat \<Rightarrow> jsv" where
  "jnat n \<equiv> JNum (Fin (of_nat n))"

text \<open>
  Errors. \<open>Thrown\<close> is \<open>new Error(m)\<close> with the message given by the parts the source
  concatenates.
\<close>

datatype jserr =
    TypeErr
  | ReferenceErr
  | RangeErr
  | SyntaxErr
  | Thrown "jsv list"
  | Foreign string   \<comment> \<open>an exception raised by code outside the scripts\<close>

section \<open>Truthiness and typeof\<close>

fun truthy :: "jsv \<Rightarrow> bool" where
  "truthy JUndef = False"
| "truthy JNull = False"
| "truthy (JBool b) = b"
| "truthy (JNum n) = (n \<noteq> NaN \<and> n \<noteq> Fin 0)"
| "truthy (JStr s) = (s \<noteq> [])"
| "truthy (JArr xs ps) = True"
| "truthy (JObj ps) = True"
| "truthy (JFun f) = True"

definition js_or :: "jsv \<Rightarrow> jsv \<Rightarrow> jsv" where
  "js_or a b = (if truthy a then a else b)"

fun typeof :: "jsv \<Rightarrow> string" where
  "typeof JUndef = ''undefined''"
| "typeof JNull = ''object''"
| "typeof (JBool b) = ''boolean''"
| "typeof (JNum n) = ''number''"
| "typeof (JStr s) = ''string''"
| "typeof (JArr xs ps) = ''object''"
| "typeof (JObj ps) = ''object''"
| "typeof (JFun f) = ''function''"

definition is_nullish :: "jsv \<Rightarrow> bool" where  \<comment> \<open>\<open>v == undefined\<close>, \<open>v == null\<close>\<close>
  "is_nullish v \<longleftrightarrow> v = JUndef \<or> v = JNull"

lemma nullish_not_truthy: "is_nullish v \<Longrightarrow> \<not> truthy v"
  by (auto simp: is_nullish_def)

lemma truthy_not_nullish: "truthy v \<Longrightarrow> v \<noteq> JUndef \<and> v \<noteq> JNull"
  by auto

lemma typeof_string_iff: "typeof v = ''string'' \<longleftrightarrow> (\<exists>s. v = JStr s)"
  by (cases v) auto

lemma typeof_function_iff: "typeof v = ''function'' \<longleftrightarrow> (\<exists>f. v = JFun f)"
  by (cases v) auto

section \<open>Conversion to a string\<close>

definition digit :: "nat \<Rightarrow> char" where
  "digit d = ''0123456789'' ! (d mod 10)"

fun nat_digits :: "nat \<Rightarrow> string" where
  "nat_digits n = (if n < 10 then [digit n] else nat_digits (n div 10) @ [digit (n mod 10)])"

declare nat_digits.simps [simp del]

text \<open>The decimals of a fraction in \<open>[0, 1)\<close>, at most \<open>k\<close> of them.\<close>

fun frac_digits :: "nat \<Rightarrow> rat \<Rightarrow> string" where
  "frac_digits 0 q = []"
| "frac_digits (Suc k) q =
     (if q = 0 then []
      else digit (nat \<lfloor>10 * q\<rfloor>) # frac_digits k (10 * q - of_int \<lfloor>10 * q\<rfloor>))"

fun num_to_string :: "jsnum \<Rightarrow> string" where
  "num_to_string NaN = ''NaN''"
| "num_to_string PosInf = ''Infinity''"
| "num_to_string NegInf = ''-Infinity''"
| "num_to_string (Fin q) =
     (let a = \<bar>q\<bar>; f = a - of_int \<lfloor>a\<rfloor>
      in (if q < 0 then ''-'' else []) @ nat_digits (nat \<lfloor>a\<rfloor>) @
         (if f = 0 then [] else CHR ''.'' # frac_digits 17 f))"

fun js_to_string :: "jsv \<Rightarrow> string" where
  "js_to_string JUndef = ''undefined''"
| "js_to_string JNull = ''null''"
| "js_to_string (JBool b) = (if b then ''true'' else ''false'')"
| "js_to_string (JNum n) = num_to_string n"
| "js_to_string (JStr s) = s"
| "js_to_string (JArr xs ps) =
     join_with (CHR '','') (map (\<lambda>x. if is_nullish x then [] else js_to_string x) xs)"
| "js_to_string (JObj ps) = ''[object Object]''"
| "js_to_string (JFun f) = ''function () { [native code] }''"

section \<open>Property reads\<close>

text \<open>Array indices are the canonical decimal numerals.\<close>

definition is_digit :: "char \<Rightarrow> bool" where
  "is_digit c \<longleftrightarrow> c \<in> set ''0123456789''"

definition key_index :: "string \<Rightarrow> nat option" where
  "key_index k =
     (if k \<noteq> [] \<and> (\<forall>c \<in> set k. is_digit c) \<and> (hd k \<noteq> CHR ''0'' \<or> length k = 1)
      then Some (foldl (\<lambda>n c. 10 * n + (of_char c - 48)) 0 k) else None)"

definition object_proto :: "string list" where
  "object_proto = [''constructor'', ''hasOwnProperty'', ''isPrototypeOf'',
     ''propertyIsEnumerable'', ''toLocaleString'', ''toString'', ''valueOf'',
     ''__defineGetter__'', ''__defineSetter__'', ''__lookupGetter__'', ''__lookupSetter__'']"

definition function_proto :: "string list" where
  "function_proto = [''apply'', ''bind'', ''call''] @ object_proto"

text \<open>
  The array and string prototypes as the runtime leaves them: the built-in methods of
  ECMAScript 2015, \<open>Array.prototype.isLength\<close> and \<open>String.prototype.contains\<close> which
  \<open>sandbox-patch.js\<close> adds.
\<close>

definition array_proto :: "string list" where
  "array_proto = [''concat'', ''copyWithin'', ''entries'', ''every'', ''fill'', ''filter'',
     ''find'', ''findIndex'', ''forEach'', ''indexOf'', ''isLength'', ''join'', ''keys'',
     ''lastIndexOf'', ''map'', ''pop'', ''push'', ''reduce'', ''reduceRight'', ''reverse'',
     ''shift'', ''slice'', ''some'', ''sort'', ''splice'', ''unshift'', ''values''] @ object_proto"

definition string_proto :: "string list" where
  "string_proto = [''anchor'', ''big'', ''blink'', ''bold'', ''charAt'', ''charCodeAt'',
     ''codePointAt'', ''concat'', ''contains'', ''endsWith'', ''fixed'', ''fontcolor'',
     ''fontsize'', ''includes'', ''indexOf'', ''italics'', ''lastIndexOf'', ''link'',
     ''localeCompare'', ''match'', ''normalize'', ''repeat'', ''replace'', ''search'', ''slice'',
     ''small'', ''split'', ''startsWith'', ''strike'', ''sub'', ''substr'', ''substring'',
     ''sup'', ''toLocaleLowerCase'', ''toLocaleUpperCase'', ''toLowerCase'', ''toUpperCase'',
     ''trim''] @ object_proto"

definition number_proto :: "string list" where
  "number_proto = [''toExponential'', ''toFixed'', ''toPrecision''] @ object_proto"

definition inherited :: "string list \<Rightarrow> string \<Rightarrow> jsv" where
  "inherited protos k = (if k \<in> set protos then JFun (FBuiltin k)
     else if k = ''__proto__'' then JObj [] else JUndef)"

text \<open>Reading property \<open>k\<close> of an object with own properties \<open>ps\<close>.\<close>

definition obj_get :: "jsv props \<Rightarrow> string \<Rightarrow> jsv" where
  "obj_get ps k = (case map_of ps k of Some v \<Rightarrow> v | None \<Rightarrow> inherited object_proto k)"

text \<open>\<open>v[k]\<close>: reading a property of \<open>undefined\<close> or \<open>null\<close> throws.\<close>

fun get_prop :: "jsv \<Rightarrow> string \<Rightarrow> jserr + jsv" where
  "get_prop JUndef k = Inl TypeErr"
| "get_prop JNull k = Inl TypeErr"
| "get_prop (JBool b) k = Inr (inherited object_proto k)"
| "get_prop (JNum n) k = Inr (inherited number_proto k)"
| "get_prop (JStr s) k = Inr
     (if k = ''length'' then jnat (length s)
      else case key_index k of
        Some i \<Rightarrow> if i < length s then JStr [s ! i] else JUndef
      | None \<Rightarrow> inherited string_proto k)"
| "get_prop (JArr xs ps) k = Inr
     (if k = ''length'' then jnat (length xs)
      else case key_index k of
        Some i \<Rightarrow> if i < length xs then xs ! i else JUndef
      | None \<Rightarrow> (case map_of ps k of Some v \<Rightarrow> v | None \<Rightarrow> inherited array_proto k))"
| "get_prop (JObj ps) k = Inr (obj_get ps k)"
| "get_prop (JFun f) k = Inr (inherited function_proto k)"

section \<open>Property writes\<close>

text \<open>
  \<open>v[k] = x\<close> in sloppy mode: a write to a primitive is ignored, a write to \<open>undefined\<close> or
  \<open>null\<close> throws, an array grows (its holes read as \<open>undefined\<close>), an invalid array length throws.
  The functions of the model carry no own properties.
\<close>

definition array_set_length :: "jsv list \<Rightarrow> jsv \<Rightarrow> jserr + jsv list" where
  "array_set_length xs v = (case v of
     JNum (Fin q) \<Rightarrow>
       (if 0 \<le> q \<and> q = of_int \<lfloor>q\<rfloor> \<and> q < 4294967296
        then Inr (take (nat \<lfloor>q\<rfloor>) (xs @ replicate (nat \<lfloor>q\<rfloor> - length xs) JUndef))
        else Inl RangeErr)
   | _ \<Rightarrow> Inl RangeErr)"

fun set_prop :: "jsv \<Rightarrow> string \<Rightarrow> jsv \<Rightarrow> jserr + jsv" where
  "set_prop JUndef k x = Inl TypeErr"
| "set_prop JNull k x = Inl TypeErr"
| "set_prop (JArr xs ps) k x =
     (if k = ''length'' then rbind (array_set_length xs x) (\<lambda>ys. Inr (JArr ys ps))
      else case key_index k of
        Some i \<Rightarrow> Inr (JArr ((xs @ replicate (Suc i - length xs) JUndef)[i := x]) ps)
      | None \<Rightarrow> Inr (JArr xs (pset k x ps)))"
| "set_prop (JObj ps) k x = Inr (JObj (pset k x ps))"
| "set_prop v k x = Inr v"

section \<open>Reading back a write\<close>

lemma obj_get_pset [simp, js_read]:
  "obj_get (pset k x ps) k' = (if k' = k then x else obj_get ps k')"
  by (auto simp: obj_get_def)

lemma obj_get_own: "map_of ps k = Some v \<Longrightarrow> obj_get ps k = v"
  by (simp add: obj_get_def)

lemma get_prop_total: "\<not> is_nullish v \<Longrightarrow> \<exists>x. get_prop v k = Inr x"
  by (cases v) (auto simp: is_nullish_def)

lemma get_prop_error_iff: "get_prop v k = Inl e \<longleftrightarrow> is_nullish v \<and> e = TypeErr"
  by (cases v) (auto simp: is_nullish_def)

lemma truthy_get_prop: "truthy v \<Longrightarrow> \<exists>x. get_prop v k = Inr x"
  by (rule get_prop_total) (auto simp: is_nullish_def)

lemma key_index_length [simp]: "key_index ''length'' = None"
  by (simp add: key_index_def is_digit_def)

lemma set_get_object: "set_prop (JObj ps) k x = Inr w \<Longrightarrow> get_prop w k' = Inr y \<Longrightarrow>
    y = (if k' = k then x else obj_get ps k')"
  by auto

lemma set_get_array:
  assumes "set_prop (JArr xs ps) k x = Inr w" and "k \<noteq> ''length''"
  shows "get_prop w k = Inr x"
proof (cases "key_index k")
  case None
  with assms show ?thesis by auto
next
  case (Some i)
  with assms have w: "w = JArr ((xs @ replicate (Suc i - length xs) JUndef)[i := x]) ps"
    by simp
  have "i < length (xs @ replicate (Suc i - length xs) JUndef)" by simp
  with Some assms(2) show ?thesis by (simp add: w del: length_append)
qed

section \<open>Decimal numerals\<close>

lemma digit_in: "digit d \<in> set ''0123456789''"
  unfolding digit_def by (rule nth_mem) simp

lemma is_digit_digit [simp]: "is_digit (digit d)"
  using digit_in by (simp add: is_digit_def)

lemma digit_neq_dot: "digit d \<noteq> CHR ''.''"
proof -
  have "CHR ''.'' \<notin> set ''0123456789''" by simp
  then show ?thesis using digit_in by metis
qed

lemma of_char_digit: "d < 10 \<Longrightarrow> of_char (digit d) = (48 + d :: nat)"
proof -
  assume "d < 10"
  then have "d \<in> {0,1,2,3,4,5,6,7,8,9}" by auto
  then show ?thesis by (auto simp: digit_def)
qed

lemma nat_digits_digits: "c \<in> set (nat_digits n) \<Longrightarrow> is_digit c"
proof (induction n rule: nat_digits.induct)
  case (1 n)
  then show ?case
    by (cases "n < 10") (auto simp: nat_digits.simps [of n])
qed

lemma nat_digits_value: "foldl (\<lambda>m c. 10 * m + (of_char c - 48)) 0 (nat_digits n) = n"
proof (induction n rule: nat_digits.induct)
  case (1 n)
  show ?case
  proof (cases "n < 10")
    case True
    then show ?thesis by (simp add: nat_digits.simps [of n] of_char_digit)
  next
    case False
    with 1 show ?thesis
      by (simp add: nat_digits.simps [of n] of_char_digit)
  qed
qed

lemma nat_digits_nonempty [simp]: "nat_digits n \<noteq> []"
  by (subst nat_digits.simps) simp

lemma hd_nat_digits: "0 < n \<Longrightarrow> hd (nat_digits n) \<noteq> CHR ''0''"
proof (induction n rule: nat_digits.induct)
  case (1 n)
  show ?case
  proof (cases "n < 10")
    case True
    with "1.prems" have "n \<in> {1,2,3,4,5,6,7,8,9}" by auto
    with True show ?thesis by (auto simp: nat_digits.simps [of n] digit_def)
  next
    case False
    with 1 show ?thesis by (simp add: nat_digits.simps [of n])
  qed
qed

text \<open>The decimal numeral of a number is the index it denotes: \<open>xs[String(i)]\<close> is \<open>xs[i]\<close>.\<close>

lemma key_index_nat_digits: "key_index (nat_digits n) = Some n"
proof (cases "n = 0")
  case True
  then show ?thesis
    by (simp add: key_index_def is_digit_def nat_digits.simps [of 0] digit_def)
next
  case False
  with hd_nat_digits [of n] show ?thesis
    using nat_digits_value [of n] nat_digits_digits [of _ n]
    by (auto simp: key_index_def)
qed

end
