(* ===== verification/Polyfills.thy ===== *)
theory Polyfills
  imports JsValue
begin

text \<open>
  The extensions of the built-in prototypes at the end of \<open>sandbox-patch.js\<close>: \<open>endsWith\<close>,
  \<open>startsWith\<close> and \<open>contains\<close> on strings, \<open>isLength\<close> on arrays, and the guarded
  installation, which adds a method only where the engine has none of that name.
\<close>

section \<open>String searching in the language\<close>

text \<open>\<open>s.indexOf(p, pos)\<close>: the least match at or after \<open>pos\<close> (clamped to the string), or \<open>-1\<close>.\<close>

definition index_of :: "string \<Rightarrow> string \<Rightarrow> int \<Rightarrow> int" where
  "index_of s p pos =
     (case find (\<lambda>i. i + length p \<le> length s \<and> starts_with (drop i s) p)
             [min (nat pos) (length s)..<Suc (length s)] of
        None \<Rightarrow> -1 | Some i \<Rightarrow> int i)"

text \<open>\<open>s.slice(0, n)\<close> for a non-negative \<open>n\<close>.\<close>

definition slice0 :: "string \<Rightarrow> nat \<Rightarrow> string" where
  "slice0 s n = take n s"

section \<open>The polyfills\<close>

definition endsWith :: "string \<Rightarrow> string \<Rightarrow> bool" where
  "endsWith s suff =
     (if suff = [] then False
      else index_of s suff (int (length s) - int (length suff)) \<noteq> -1)"

definition startsWith :: "string \<Rightarrow> string \<Rightarrow> bool" where
  "startsWith s str \<longleftrightarrow> slice0 s (length str) = str"

definition contains :: "string \<Rightarrow> string \<Rightarrow> bool" where
  "contains s p \<longleftrightarrow> index_of s p 0 \<noteq> -1"

text \<open>\<open>value % 1\<close> on a finite number: the remainder keeps the sign of the value.\<close>

definition rem1 :: "rat \<Rightarrow> rat" where
  "rem1 q = q - of_int (if 0 \<le> q then \<lfloor>q\<rfloor> else \<lceil>q\<rceil>)"

definition isLength :: "jsv \<Rightarrow> bool" where
  "isLength v = (case v of
     JNum (Fin q) \<Rightarrow> q > -1 \<and> rem1 q = 0 \<and> q \<le> 9007199254740991
   | _ \<Rightarrow> False)"

section \<open>Guarded installation\<close>

text \<open>
  The functions the prototypes have, by name; each \<open>if (typeof P.m != 'function')\<close> adds one.
  The engine state lists the methods of \<open>String.prototype\<close> and \<open>Array.prototype\<close> with the
  implementation each has: the engine's own or the script's.
\<close>

datatype impl = Native | Scripted

record protos =
  string_methods :: "(string \<times> impl) list"
  array_methods :: "(string \<times> impl) list"

definition add_missing :: "string \<Rightarrow> impl \<Rightarrow> (string \<times> impl) list \<Rightarrow> (string \<times> impl) list" where
  "add_missing m i ms = (if map_of ms m = None then pset m i ms else ms)"

text \<open>\<open>contains\<close> is an alias of the engine's \<open>includes\<close>.\<close>

definition install_tail :: "protos \<Rightarrow> protos" where
  "install_tail p =
     (let p1 = p\<lparr>string_methods := add_missing ''contains'' Native (string_methods p)\<rparr>
      in p1\<lparr>array_methods := add_missing ''isLength'' Scripted (array_methods p1)\<rparr>)"

definition install_polyfills_v2 :: "protos \<Rightarrow> protos" where
  "install_polyfills_v2 p =
     (let p1 = p\<lparr>string_methods := add_missing ''endsWith'' Scripted (string_methods p)\<rparr>;
          p2 = p1\<lparr>string_methods := add_missing ''startsWith'' Scripted (string_methods p1)\<rparr>
      in install_tail p2)"

definition install_polyfills_v1 :: "protos \<Rightarrow> protos" where
  "install_polyfills_v1 p = install_polyfills_v2 p"

definition install_polyfills_v3 :: "protos \<Rightarrow> protos" where
  "install_polyfills_v3 p = install_tail p"

section \<open>The searching functions\<close>

lemma index_of_neq:
  "index_of s p pos \<noteq> -1 \<longleftrightarrow>
     (\<exists>i. min (nat pos) (length s) \<le> i \<and> i + length p \<le> length s \<and> prefix p (drop i s))"
proof -
  let ?P = "\<lambda>i. i + length p \<le> length s \<and> starts_with (drop i s) p"
  let ?xs = "[min (nat pos) (length s)..<Suc (length s)]"
  have "index_of s p pos \<noteq> -1 \<longleftrightarrow> find ?P ?xs \<noteq> None"
    by (auto simp: index_of_def split: option.splits)
  also have "\<dots> \<longleftrightarrow> (\<exists>i \<in> set ?xs. ?P i)"
    unfolding find_None_iff by blast
  also have "\<dots> \<longleftrightarrow> (\<exists>i. min (nat pos) (length s) \<le> i \<and> i + length p \<le> length s \<and> prefix p (drop i s))"
    unfolding starts_with_prefix set_upt atLeastLessThan_iff Bex_def less_Suc_eq_le
    by (metis add_leD1)
  finally show ?thesis .
qed

lemma prefix_drop_sublist: "prefix p (drop i s) \<Longrightarrow> sublist p s"
  unfolding prefix_def sublist_def by (metis append_take_drop_id)

lemma sublist_iff_prefix_drop:
  "sublist p s \<longleftrightarrow> (\<exists>i. i + length p \<le> length s \<and> prefix p (drop i s))"
proof
  assume "sublist p s"
  then obtain ps ss where "s = ps @ p @ ss" by (auto simp: sublist_def)
  then have "length ps + length p \<le> length s \<and> prefix p (drop (length ps) s)" by simp
  then show "\<exists>i. i + length p \<le> length s \<and> prefix p (drop i s)" by blast
qed (auto dest: prefix_drop_sublist)

lemma startsWith_iff: "startsWith s p \<longleftrightarrow> prefix p s"
  by (simp add: startsWith_def slice0_def starts_with_prefix [symmetric] starts_with_def)

lemma suffix_eq_prefix_drop:
  "length p \<le> length s \<Longrightarrow> suffix p s \<longleftrightarrow> prefix p (drop (length s - length p) s)"
proof
  assume len: "length p \<le> length s" and "prefix p (drop (length s - length p) s)"
  then obtain z where z: "drop (length s - length p) s = p @ z" by (auto simp: prefix_def)
  have "length (drop (length s - length p) s) = length p" using len by simp
  with z have "z = []" by simp
  with z show "suffix p s" by (metis append_Nil2 append_take_drop_id suffix_def)
qed (auto simp: suffix_def)

lemma endsWith_iff: "endsWith s p \<longleftrightarrow> p \<noteq> [] \<and> suffix p s"
proof (cases "p = []")
  case False
  let ?k = "length s - length p"
  have pos: "nat (int (length s) - int (length p)) = ?k" by arith
  have "index_of s p (int (length s) - int (length p)) \<noteq> -1 \<longleftrightarrow>
      (\<exists>i\<ge>?k. i + length p \<le> length s \<and> prefix p (drop i s))"
    by (simp add: index_of_neq pos)
  also have "\<dots> \<longleftrightarrow> length p \<le> length s \<and> prefix p (drop ?k s)"
  proof
    assume "\<exists>i\<ge>?k. i + length p \<le> length s \<and> prefix p (drop i s)"
    then obtain i where i: "?k \<le> i" "i + length p \<le> length s" "prefix p (drop i s)" by blast
    then have "i = ?k" by arith
    with i show "length p \<le> length s \<and> prefix p (drop ?k s)" by simp
  next
    assume "length p \<le> length s \<and> prefix p (drop ?k s)"
    then have "?k + length p \<le> length s \<and> prefix p (drop ?k s)" by simp
    then show "\<exists>i\<ge>?k. i + length p \<le> length s \<and> prefix p (drop i s)" by blast
  qed
  also have "\<dots> \<longleftrightarrow> suffix p s"
    using suffix_eq_prefix_drop [of p s] suffix_length_le [of p s] by blast
  finally show ?thesis using False by (simp add: endsWith_def)
qed (simp add: endsWith_def)

lemma contains_iff: "contains s p \<longleftrightarrow> sublist p s"
  by (simp add: contains_def index_of_neq sublist_iff_prefix_drop)

lemma endsWith_ends_with: "p \<noteq> [] \<Longrightarrow> endsWith s p \<longleftrightarrow> ends_with s p"
  by (simp add: endsWith_iff ends_with_suffix)

lemma startsWith_starts_with: "startsWith s p \<longleftrightarrow> starts_with s p"
  by (simp add: startsWith_iff starts_with_prefix)

section \<open>Lengths\<close>

lemma rem1_zero: "rem1 q = 0 \<longleftrightarrow> q \<in> \<int>"
proof
  assume "rem1 q = 0"
  then have "q = of_int (if 0 \<le> q then \<lfloor>q\<rfloor> else \<lceil>q\<rceil>)" by (simp add: rem1_def)
  then show "q \<in> \<int>" by (metis Ints_of_int)
next
  assume "q \<in> \<int>"
  then obtain z where "q = of_int z" by (auto elim: Ints_cases)
  then show "rem1 q = 0" by (simp add: rem1_def)
qed

lemma isLength_iff: "isLength v \<longleftrightarrow> (\<exists>n::nat. v = jnat n \<and> n \<le> 2 ^ 53 - 1)"
proof
  assume "isLength v"
  then obtain q where v: "v = JNum (Fin q)" and q: "q > -1" "rem1 q = 0" "q \<le> 9007199254740991"
    by (auto simp: isLength_def split: jsv.splits jsnum.splits)
  from q(2) obtain z where z: "q = of_int z" by (auto simp: rem1_zero elim: Ints_cases)
  with q(1) have "z \<ge> 0" by linarith
  then obtain n where n: "z = int n" by (auto elim: nonneg_int_cases)
  from z n q(3) have "(of_nat n :: rat) \<le> of_nat 9007199254740991" by simp
  then have "n \<le> 9007199254740991" by (simp only: of_nat_le_iff)
  with v z n show "\<exists>n::nat. v = jnat n \<and> n \<le> 2 ^ 53 - 1" by auto
next
  assume "\<exists>n::nat. v = jnat n \<and> n \<le> 2 ^ 53 - 1"
  then obtain n :: nat where n: "v = jnat n" "n \<le> 9007199254740991" by auto
  have "(of_nat n :: rat) \<le> of_nat 9007199254740991" using n(2) by (simp only: of_nat_le_iff)
  moreover have "(-1 :: rat) < of_nat n" by (rule less_le_trans [of _ 0]) simp_all
  ultimately show "isLength v" using n(1) by (simp add: isLength_def rem1_zero)
qed

section \<open>Installation\<close>

lemma add_missing_keeps: "map_of ms k = Some i \<Longrightarrow> map_of (add_missing m j ms) k = Some i"
  by (auto simp: add_missing_def)

lemma add_missing_dom: "dom (map_of (add_missing m j ms)) = insert m (dom (map_of ms))"
  by (auto simp: add_missing_def)

lemma add_missing_lookup:
  "map_of (add_missing m j ms) k =
     (if k = m \<and> map_of ms m = None then Some j else map_of ms k)"
  by (auto simp: add_missing_def)

section \<open>Properties\<close>

text \<open>The string and array helpers compute what their names say: \<open>endsWith\<close> tests for a
  non-empty suffix, \<open>startsWith\<close> for a prefix, \<open>contains\<close> for a substring, and \<open>isLength\<close> holds of
  exactly the integers from 0 to the largest safe integer; installing them never replaces a
  method the engine has.\<close>
theorem polyfills_specified:
  "(endsWith s p \<longleftrightarrow> p \<noteq> [] \<and> suffix p s) \<and> (startsWith s p \<longleftrightarrow> prefix p s) \<and>
   (contains s p \<longleftrightarrow> sublist p s) \<and>
   (isLength v \<longleftrightarrow> (\<exists>n::nat. v = jnat n \<and> n \<le> 2 ^ 53 - 1)) \<and>
   map_of (add_missing m Scripted ms) m = (case map_of ms m of None \<Rightarrow> Some Scripted | Some i \<Rightarrow> Some i)"
  using endsWith_iff startsWith_iff contains_iff isLength_iff
  by (auto simp: add_missing_lookup split: option.splits)

end
