(* ===== verification/SchemaData.thy ===== *)
theory SchemaData
  imports JsValue
begin

text \<open>
  The two JSON-schema meta-schemas that \<open>version_3/sandbox-validator.js\<close> registers with the
  Ajv library before it compiles a sandbox's own schema: drafts 04 and 06, as data.
\<close>

section \<open>Draft 04\<close>

definition jsonSchema04 :: jsv where
  "jsonSchema04 = JObj [
      (''id'', JStr ''http://json-schema.org/draft-04/schema#''),
      (''$schema'', JStr ''http://json-schema.org/draft-04/schema#''),
      (''description'', JStr ''Core schema meta-schema''),
      (''definitions'', JObj [
        (''schemaArray'', JObj [
          (''type'', JStr ''array''),
          (''minItems'', JNum (Fin 1)),
          (''items'', JObj [(''$ref'', JStr ''#'')])]),
        (''positiveInteger'', JObj [(''type'', JStr ''integer''), (''minimum'', JNum (Fin 0))]),
        (''positiveIntegerDefault0'', JObj [
          (''allOf'', JArr [JObj [(''$ref'', JStr ''#/definitions/positiveInteger'')], JObj [(''default'', JNum (Fin 0))]] [])]),
        (''simpleTypes'', JObj [
          (''enum'', JArr [JStr ''array'', JStr ''boolean'', JStr ''integer'', JStr ''null'', JStr ''number'', JStr ''object'', JStr ''string''] [])]),
        (''stringArray'', JObj [
          (''type'', JStr ''array''),
          (''items'', JObj [(''type'', JStr ''string'')]),
          (''minItems'', JNum (Fin 1)),
          (''uniqueItems'', JBool True)])]),
      (''type'', JStr ''object''),
      (''properties'', JObj [
        (''id'', JObj [(''type'', JStr ''string'')]),
        (''$schema'', JObj [(''type'', JStr ''string'')]),
        (''title'', JObj [(''type'', JStr ''string'')]),
        (''description'', JObj [(''type'', JStr ''string'')]),
        (''default'', JObj []),
        (''multipleOf'', JObj [
          (''type'', JStr ''number''),
          (''minimum'', JNum (Fin 0)),
          (''exclusiveMinimum'', JBool True)]),
        (''maximum'', JObj [(''type'', JStr ''number'')]),
        (''exclusiveMaximum'', JObj [(''type'', JStr ''boolean''), (''default'', JBool False)]),
        (''minimum'', JObj [(''type'', JStr ''number'')]),
        (''exclusiveMinimum'', JObj [(''type'', JStr ''boolean''), (''default'', JBool False)]),
        (''maxLength'', JObj [(''$ref'', JStr ''#/definitions/positiveInteger'')]),
        (''minLength'', JObj [(''$ref'', JStr ''#/definitions/positiveIntegerDefault0'')]),
        (''pattern'', JObj [(''type'', JStr ''string''), (''format'', JStr ''regex'')]),
        (''additionalItems'', JObj [
          (''anyOf'', JArr [JObj [(''type'', JStr ''boolean'')], JObj [(''$ref'', JStr ''#'')]] []),
          (''default'', JObj [])]),
        (''items'', JObj [
          (''anyOf'', JArr [JObj [(''$ref'', JStr ''#'')], JObj [(''$ref'', JStr ''#/definitions/schemaArray'')]] []),
          (''default'', JObj [])]),
        (''maxItems'', JObj [(''$ref'', JStr ''#/definitions/positiveInteger'')]),
        (''minItems'', JObj [(''$ref'', JStr ''#/definitions/positiveIntegerDefault0'')]),
        (''uniqueItems'', JObj [(''type'', JStr ''boolean''), (''default'', JBool False)]),
        (''maxProperties'', JObj [(''$ref'', JStr ''#/definitions/positiveInteger'')]),
        (''minProperties'', JObj [(''$ref'', JStr ''#/definitions/positiveIntegerDefault0'')]),
        (''required'', JObj [(''$ref'', JStr ''#/definitions/stringArray'')]),
        (''additionalProperties'', JObj [
          (''anyOf'', JArr [JObj [(''type'', JStr ''boolean'')], JObj [(''$ref'', JStr ''#'')]] []),
          (''default'', JObj [])]),
        (''definitions'', JObj [
          (''type'', JStr ''object''),
          (''additionalProperties'', JObj [(''$ref'', JStr ''#'')]),
          (''default'', JObj [])]),
        (''properties'', JObj [
          (''type'', JStr ''object''),
          (''additionalProperties'', JObj [(''$ref'', JStr ''#'')]),
          (''default'', JObj [])]),
        (''patternProperties'', JObj [
          (''type'', JStr ''object''),
          (''additionalProperties'', JObj [(''$ref'', JStr ''#'')]),
          (''default'', JObj [])]),
        (''dependencies'', JObj [
          (''type'', JStr ''object''),
          (''additionalProperties'', JObj [
            (''anyOf'', JArr [JObj [(''$ref'', JStr ''#'')], JObj [(''$ref'', JStr ''#/definitions/stringArray'')]] [])])]),
        (''enum'', JObj [
          (''type'', JStr ''array''),
          (''minItems'', JNum (Fin 1)),
          (''uniqueItems'', JBool True)]),
        (''type'', JObj [
          (''anyOf'', JArr [JObj [(''$ref'', JStr ''#/definitions/simpleTypes'')], JObj [
              (''type'', JStr ''array''),
              (''items'', JObj [(''$ref'', JStr ''#/definitions/simpleTypes'')]),
              (''minItems'', JNum (Fin 1)),
              (''uniqueItems'', JBool True)]] [])]),
        (''format'', JObj [(''type'', JStr ''string'')]),
        (''allOf'', JObj [(''$ref'', JStr ''#/definitions/schemaArray'')]),
        (''anyOf'', JObj [(''$ref'', JStr ''#/definitions/schemaArray'')]),
        (''oneOf'', JObj [(''$ref'', JStr ''#/definitions/schemaArray'')]),
        (''not'', JObj [(''$ref'', JStr ''#'')])]),
      (''dependencies'', JObj [
        (''exclusiveMaximum'', JArr [JStr ''maximum''] []),
        (''exclusiveMinimum'', JArr [JStr ''minimum''] [])]),
      (''default'', JObj [])]"

section \<open>Draft 06\<close>

definition jsonSchema06 :: jsv where
  "jsonSchema06 = JObj [
      (''$schema'', JStr ''http://json-schema.org/draft-06/schema#''),
      (''$id'', JStr ''http://json-schema.org/draft-06/schema#''),
      (''title'', JStr ''Core schema meta-schema''),
      (''definitions'', JObj [
        (''schemaArray'', JObj [
          (''type'', JStr ''array''),
          (''minItems'', JNum (Fin 1)),
          (''items'', JObj [(''$ref'', JStr ''#'')])]),
        (''nonNegativeInteger'', JObj [(''type'', JStr ''integer''), (''minimum'', JNum (Fin 0))]),
        (''nonNegativeIntegerDefault0'', JObj [
          (''allOf'', JArr [JObj [(''$ref'', JStr ''#/definitions/nonNegativeInteger'')], JObj [(''default'', JNum (Fin 0))]] [])]),
        (''simpleTypes'', JObj [
          (''enum'', JArr [JStr ''array'', JStr ''boolean'', JStr ''integer'', JStr ''null'', JStr ''number'', JStr ''object'', JStr ''string''] [])]),
        (''stringArray'', JObj [
          (''type'', JStr ''array''),
          (''items'', JObj [(''type'', JStr ''string'')]),
          (''uniqueItems'', JBool True),
          (''default'', JArr [] [])])]),
      (''type'', JArr [JStr ''object'', JStr ''boolean''] []),
      (''properties'', JObj [
        (''$id'', JObj [
          (''type'', JStr ''string''),
          (''format'', JStr ''uri-reference'')]),
        (''$schema'', JObj [(''type'', JStr ''string''), (''format'', JStr ''uri'')]),
        (''$ref'', JObj [
          (''type'', JStr ''string''),
          (''format'', JStr ''uri-reference'')]),
        (''title'', JObj [(''type'', JStr ''string'')]),
        (''description'', JObj [(''type'', JStr ''string'')]),
        (''default'', JObj []),
        (''examples'', JObj [(''type'', JStr ''array''), (''items'', JObj [])]),
        (''multipleOf'', JObj [
          (''type'', JStr ''number''),
          (''exclusiveMinimum'', JNum (Fin 0))]),
        (''maximum'', JObj [(''type'', JStr ''number'')]),
        (''exclusiveMaximum'', JObj [(''type'', JStr ''number'')]),
        (''minimum'', JObj [(''type'', JStr ''number'')]),
        (''exclusiveMinimum'', JObj [(''type'', JStr ''number'')]),
        (''maxLength'', JObj [(''$ref'', JStr ''#/definitions/nonNegativeInteger'')]),
        (''minLength'', JObj [(''$ref'', JStr ''#/definitions/nonNegativeIntegerDefault0'')]),
        (''pattern'', JObj [(''type'', JStr ''string''), (''format'', JStr ''regex'')]),
        (''additionalItems'', JObj [(''$ref'', JStr ''#'')]),
        (''items'', JObj [
          (''anyOf'', JArr [JObj [(''$ref'', JStr ''#'')], JObj [(''$ref'', JStr ''#/definitions/schemaArray'')]] []),
          (''default'', JObj [])]),
        (''maxItems'', JObj [(''$ref'', JStr ''#/definitions/nonNegativeInteger'')]),
        (''minItems'', JObj [(''$ref'', JStr ''#/definitions/nonNegativeIntegerDefault0'')]),
        (''uniqueItems'', JObj [(''type'', JStr ''boolean''), (''default'', JBool False)]),
        (''contains'', JObj [(''$ref'', JStr ''#'')]),
        (''maxProperties'', JObj [(''$ref'', JStr ''#/definitions/nonNegativeInteger'')]),
        (''minProperties'', JObj [(''$ref'', JStr ''#/definitions/nonNegativeIntegerDefault0'')]),
        (''required'', JObj [(''$ref'', JStr ''#/definitions/stringArray'')]),
        (''additionalProperties'', JObj [(''$ref'', JStr ''#'')]),
        (''definitions'', JObj [
          (''type'', JStr ''object''),
          (''additionalProperties'', JObj [(''$ref'', JStr ''#'')]),
          (''default'', JObj [])]),
        (''properties'', JObj [
          (''type'', JStr ''object''),
          (''additionalProperties'', JObj [(''$ref'', JStr ''#'')]),
          (''default'', JObj [])]),
        (''patternProperties'', JObj [
          (''type'', JStr ''object''),
          (''additionalProperties'', JObj [(''$ref'', JStr ''#'')]),
          (''default'', JObj [])]),
        (''dependencies'', JObj [
          (''type'', JStr ''object''),
          (''additionalProperties'', JObj [
            (''anyOf'', JArr [JObj [(''$ref'', JStr ''#'')], JObj [(''$ref'', JStr ''#/definitions/stringArray'')]] [])])]),
        (''propertyNames'', JObj [(''$ref'', JStr ''#'')]),
        (''const'', JObj []),
        (''enum'', JObj [
          (''type'', JStr ''array''),
          (''minItems'', JNum (Fin 1)),
          (''uniqueItems'', JBool True)]),
        (''type'', JObj [
          (''anyOf'', JArr [JObj [(''$ref'', JStr ''#/definitions/simpleTypes'')], JObj [
              (''type'', JStr ''array''),
              (''items'', JObj [(''$ref'', JStr ''#/definitions/simpleTypes'')]),
              (''minItems'', JNum (Fin 1)),
              (''uniqueItems'', JBool True)]] [])]),
        (''format'', JObj [(''type'', JStr ''string'')]),
        (''allOf'', JObj [(''$ref'', JStr ''#/definitions/schemaArray'')]),
        (''anyOf'', JObj [(''$ref'', JStr ''#/definitions/schemaArray'')]),
        (''oneOf'', JObj [(''$ref'', JStr ''#/definitions/schemaArray'')]),
        (''not'', JObj [(''$ref'', JStr ''#'')])]),
      (''default'', JObj [])]"

section \<open>References in a schema\<close>

text \<open>All values under the key \<open>k\<close>, at any depth, and the objects among them apart.\<close>

fun under_key :: "string \<Rightarrow> jsv \<Rightarrow> jsv list" where
  "under_key k (JArr xs ps) = concat (map (under_key k) xs)"
| "under_key k (JObj ps) =
     concat (map (\<lambda>(k', v). (if k' = k then [v] else []) @ under_key k v) ps)"
| "under_key k v = []"

text \<open>The strings among some values, and in the arrays among them.\<close>

fun strings_of :: "jsv list \<Rightarrow> string list" where
  "strings_of [] = []"
| "strings_of (JStr s # vs) = s # strings_of vs"
| "strings_of (JArr xs ps # vs) = strings_of xs @ strings_of vs"
| "strings_of (v # vs) = strings_of vs"

text \<open>A JSON pointer within the schema itself: \<open>#\<close> or \<open>#/definitions/name\<close>.\<close>

definition ref_resolves :: "jsv \<Rightarrow> string \<Rightarrow> bool" where
  "ref_resolves schema r =
     (r = ''#'' \<or>
      (case split_on (CHR ''/'') r of
         [h, d, n] \<Rightarrow> h = ''#'' \<and> d = ''definitions'' \<and>
           (case get_prop schema ''definitions'' of
              Inr (JObj defs) \<Rightarrow> n \<in> set (pkeys defs) | _ \<Rightarrow> False)
       | _ \<Rightarrow> False))"

text \<open>The type names the schema itself allows, from its \<open>simpleTypes\<close>.\<close>

definition simple_types :: "jsv \<Rightarrow> string list" where
  "simple_types schema =
     (case rbind (get_prop schema ''definitions'') (\<lambda>d.
            rbind (get_prop d ''simpleTypes'') (\<lambda>t. get_prop t ''enum'')) of
        Inr (JArr ts _) \<Rightarrow> strings_of ts | _ \<Rightarrow> [])"

section \<open>Properties\<close>

text \<open>The embedded meta-schemas are closed: every \<open>$ref\<close> in them, at any depth, points to the
  schema's root or to one of its own definitions.\<close>
theorem meta_schema_refs_resolve:
  "list_all (ref_resolves jsonSchema04) (strings_of (under_key ''$ref'' jsonSchema04)) \<and>
   list_all (ref_resolves jsonSchema06) (strings_of (under_key ''$ref'' jsonSchema06))"
  by (rule conjI) code_simp+

text \<open>The embedded meta-schemas keep to their own vocabulary: every type named in them is one
  of the seven simple types their own \<open>simpleTypes\<close> definition lists.\<close>
theorem meta_schema_types_known:
  "list_all (\<lambda>t. t \<in> set (simple_types jsonSchema04)) (strings_of (under_key ''type'' jsonSchema04)) \<and>
   list_all (\<lambda>t. t \<in> set (simple_types jsonSchema06)) (strings_of (under_key ''type'' jsonSchema06))"
  by (rule conjI) code_simp+

end
