(* ===== verification/Validator.thy ===== *)
theory Validator
  imports Polyfills SchemaData
begin

text \<open>
  \<open>sandbox-validator.js\<close>: the express-validator style methods put on the request. The request is
  the property list of \<open>wrappedRequest\<close>; \<open>_validationErrors\<close> and \<open>onErrorCallback\<close> are ordinary
  properties of it, as in the source. The validation library (\<open>validator\<close>), the functions a
  sandbox hangs on the request, the file service, the JSON parser and the JSON-schema engines
  are parameters (\<open>venv\<close>). Scripts 1 and 2 are the same text; script 3 differs in the default for
  a missing value and in the schema engine.
\<close>

section \<open>Environment and options\<close>

type_synonym req = "jsv props"
type_synonym 'a vm = "(req, jserr, 'a) stm"

text \<open>
  \<open>ve_lib\<close> holds the library's functions in \<open>Object.keys\<close> order. \<open>ve_call\<close> runs a function found
  on the request. \<open>ve_amanda\<close> yields the error argument of the callback \<open>amanda\<close> runs,
  \<open>ve_ajv\<close> the verdict and the error list of Ajv after the meta-schemas were added.
\<close>

record venv =
  ve_lib :: "(string \<times> (jsv list \<Rightarrow> jserr + jsv)) list"
  ve_call :: "fn \<Rightarrow> jsv list \<Rightarrow> jsv vm"
  ve_readFile :: "string \<Rightarrow> jsv"
  ve_parse :: "string \<Rightarrow> jserr + jsv"
  ve_schema_lib :: jsv
  ve_amanda :: "jsv \<Rightarrow> jsv \<Rightarrow> jserr + jsv"
  ve_ajv :: "jsv list \<Rightarrow> jsv \<Rightarrow> jsv \<Rightarrow> jserr + (jsv \<times> jsv list)"

record voptions =
  vo_custom :: "(string \<times> (jsv list \<Rightarrow> jserr + jsv)) list"
  vo_formatter :: "string \<Rightarrow> jsv \<Rightarrow> jsv \<Rightarrow> jsv"

definition default_formatter :: "string \<Rightarrow> jsv \<Rightarrow> jsv \<Rightarrow> jsv" where
  "default_formatter param msg value =
     JObj [(''param'', JStr param), (''msg'', msg), (''value'', value)]"

text \<open>The script calls \<open>sandboxValidator()\<close> without options.\<close>

definition default_options :: voptions where
  "default_options = \<lparr>vo_custom = [], vo_formatter = default_formatter\<rparr>"

definition sanitizers :: "string list" where
  "sanitizers = [''trim'', ''ltrim'', ''rtrim'', ''escape'', ''stripLow'', ''whitelist'',
     ''blacklist'', ''normalizeEmail'']"

text \<open>\<open>methodName.match(/^to/) || sanitizers.indexOf(methodName) !== -1\<close>\<close>

definition is_sanitizer :: "string \<Rightarrow> bool" where
  "is_sanitizer m \<longleftrightarrow> starts_with m ''to'' \<or> m \<in> set sanitizers"

abbreviation rget :: "string \<Rightarrow> req \<Rightarrow> jsv" where
  "rget k r \<equiv> obj_get r k"

section \<open>Recording errors\<close>

text \<open>\<open>req._validationErrors\<close> is created on demand; \<open>push\<close> needs an array.\<close>

definition push_error :: "jsv \<Rightarrow> unit vm" where
  "push_error err = sbind
     (swrite (\<lambda>r. if rget ''_validationErrors'' r = JUndef
                  then pset ''_validationErrors'' (JArr [] []) r else r))
     (\<lambda>_ r. case rget ''_validationErrors'' r of
        JArr xs ps \<Rightarrow> (Inr (), pset ''_validationErrors'' (JArr (xs @ [err]) ps) r)
      | _ \<Rightarrow> (Inl TypeErr, r))"

record checker =
  ck_param :: string
  ck_value :: jsv
  ck_msg :: jsv

definition errorHandler :: "venv \<Rightarrow> voptions \<Rightarrow> checker \<Rightarrow> jsv \<Rightarrow> unit vm" where
  "errorHandler env opts ck msg = sbind
     (push_error (vo_formatter opts (ck_param ck) msg (ck_value ck)))
     (\<lambda>_ r. if truthy (rget ''onErrorCallback'' r)
        then (case rget ''onErrorCallback'' r of
                JFun f \<Rightarrow> sbind (ve_call env f [msg]) (\<lambda>_. sret ()) r
              | _ \<Rightarrow> (Inl TypeErr, r))
        else (Inr (), r))"

section \<open>Selecting the value to check\<close>

text \<open>
  The parameter as a list of keys: an array as it is, a number alone, a string split at its
  dots with the empty parts dropped; anything else has no \<open>split\<close>.
\<close>

fun param_items :: "jsv \<Rightarrow> jserr + jsv list" where
  "param_items (JArr xs ps) = Inr xs"
| "param_items (JNum n) = Inr [JNum n]"
| "param_items (JStr s) = Inr (map JStr (filter (\<lambda>e. e \<noteq> []) (split_on (CHR ''.'') s)))"
| "param_items v = Inl TypeErr"

definition param_name :: "jsv list \<Rightarrow> string" where
  "param_name items =
     join_with (CHR ''.'') (map (\<lambda>x. if is_nullish x then [] else js_to_string x) items)"

text \<open>The five getters: \<open>check\<close>, \<open>checkBody\<close>, \<open>checkParams\<close>, \<open>checkQuery\<close>, \<open>checkHeader\<close>.\<close>

datatype getter = GCheck | GBody | GParams | GQuery | GHeader

text \<open>\<open>o && o[item]\<close>\<close>

definition and_read :: "jsv \<Rightarrow> jsv \<Rightarrow> jserr + jsv" where
  "and_read obj item = (if truthy obj then get_prop obj (js_to_string item) else Inr obj)"

fun getter_value :: "getter \<Rightarrow> req \<Rightarrow> jsv \<Rightarrow> jserr + jsv" where
  "getter_value GCheck r item =
     rbind (and_read (rget ''params'' r) item) (\<lambda>p.
       if truthy p then Inr item
       else rbind (and_read (rget ''body'' r) item) (\<lambda>b.
         if truthy b then Inr item
         else rbind (and_read (rget ''query'' r) item) (\<lambda>q.
           if truthy q then Inr item else Inr JUndef)))"
| "getter_value GBody r item = and_read (rget ''body'' r) item"
| "getter_value GParams r item = and_read (rget ''params'' r) item"
| "getter_value GQuery r item = and_read (rget ''query'' r) item"
| "getter_value GHeader r item =
     rbind (get_prop (rget ''headers'' r)
        (if item = JStr ''referrer'' \<or> item = JStr ''referer'' then ''referer'' else js_to_string item))
       (\<lambda>v. Inr (js_or v (JStr [])))"

text \<open>Script 3 replaces a missing value by the empty string after every step.\<close>

definition default_value :: "runtime_version \<Rightarrow> jsv \<Rightarrow> jsv" where
  "default_value v x = (if v = V3 \<and> is_nullish x then JStr [] else x)"

text \<open>
  One step of the walk along the keys: while the value is undefined the getter is asked for the
  key at the top of the source, otherwise the key is read from the value so far.
\<close>

definition extract_step :: "runtime_version \<Rightarrow> getter \<Rightarrow> req \<Rightarrow> jsv \<Rightarrow> jsv \<Rightarrow> jserr + jsv" where
  "extract_step v g r item value =
     rbind (if value = JUndef then getter_value g r item else get_prop value (js_to_string item))
       (\<lambda>x. Inr (default_value v x))"

definition checkParam ::
  "runtime_version \<Rightarrow> getter \<Rightarrow> jsv \<Rightarrow> jsv \<Rightarrow> req \<Rightarrow> jserr + checker" where
  "checkParam v g param failMsg r =
     rbind (param_items param) (\<lambda>items.
       rbind (rfold (extract_step v g r) items JUndef) (\<lambda>value.
         Inr \<lparr>ck_param = param_name items, ck_value = value, ck_msg = failMsg\<rparr>))"

section \<open>The chain of validation methods\<close>

text \<open>
  The object a check returns: the methods over the checked value, or the dummy whose methods
  all return the dummy. \<open>CVal\<close> is what a call of a method that is not part of the chain returns.
\<close>

datatype chain = Methods checker | Dummy "string list"

datatype cres = CChain chain | CVal jsv

datatype mkind = MLib string | MCustom string | MNotEmpty | MLen | MOptional

text \<open>The methods in the order they are put on the object; a later one of the same name replaces.\<close>

definition method_table :: "venv \<Rightarrow> voptions \<Rightarrow> (string \<times> mkind) list" where
  "method_table env opts =
     pset ''optional'' MOptional (pset ''len'' MLen (pset ''notEmpty'' MNotEmpty
       (foldl (\<lambda>t m. pset m (MCustom m) t)
          (foldl (\<lambda>t m. pset m (MLib m) t) []
             (filter (\<lambda>m. \<not> is_sanitizer m) (map fst (ve_lib env))))
          (map fst (vo_custom opts)))))"

text \<open>The body every library and custom method has.\<close>

definition run_validator ::
  "venv \<Rightarrow> voptions \<Rightarrow> checker \<Rightarrow> (jsv list \<Rightarrow> jserr + jsv) option \<Rightarrow> jsv list \<Rightarrow> cres vm" where
  "run_validator env opts ck f args = (case f of
     None \<Rightarrow> sthrow TypeErr
   | Some g \<Rightarrow>
       (case g (ck_value ck # args) of
          Inl e \<Rightarrow> sthrow e
        | Inr isCorrect \<Rightarrow>
            if truthy isCorrect then sret (CChain (Methods ck))
            else sbind (errorHandler env opts ck (js_or (ck_msg ck) (JStr ''Invalid value'')))
                   (\<lambda>_. sret (CChain (Methods ck)))))"

text \<open>
  \<open>methods.isLength(..)\<close>: the library's or a custom method, else the \<open>isLength\<close> that
  \<open>sandbox-patch.js\<close> puts on \<open>Array.prototype\<close>, since \<open>methods\<close> is an array.
\<close>

definition call_isLength :: "venv \<Rightarrow> voptions \<Rightarrow> checker \<Rightarrow> jsv list \<Rightarrow> cres vm" where
  "call_isLength env opts ck args =
     (case map_of (method_table env opts) ''isLength'' of
        Some (MLib m) \<Rightarrow> run_validator env opts ck (map_of (ve_lib env) m) args
      | Some (MCustom m) \<Rightarrow> run_validator env opts ck (map_of (vo_custom opts) m) args
      | _ \<Rightarrow> sret (CVal (JBool (isLength (case args of a # _ \<Rightarrow> a | [] \<Rightarrow> JUndef)))))"

text \<open>
  \<open>optional\<close>: the dummy gets a method for every name a \<open>for .. in\<close> over \<open>methods\<close> visits, the
  enumerable \<open>isLength\<close> of the array prototype included.
\<close>

definition call_optional :: "venv \<Rightarrow> voptions \<Rightarrow> checker \<Rightarrow> cres vm" where
  "call_optional env opts ck =
     sret (CChain (if ck_value ck \<noteq> JUndef then Methods ck
       else Dummy (let ms = map fst (method_table env opts)
                   in if ''isLength'' \<in> set ms then ms else ms @ [''isLength''])))"

text \<open>
  Calling a method of the chain by name. Inherited array methods other than \<open>isLength\<close> are no
  part of the validator and answer \<open>Foreign\<close>; an unknown name is not a function.
\<close>

definition call_inherited :: "string \<Rightarrow> jsv list \<Rightarrow> cres vm" where
  "call_inherited name args =
     (if name = ''isLength''
      then sret (CVal (JBool (isLength (case args of a # _ \<Rightarrow> a | [] \<Rightarrow> JUndef))))
      else if name \<in> set array_proto then sthrow (Foreign name) else sthrow TypeErr)"

fun call_chain :: "venv \<Rightarrow> voptions \<Rightarrow> chain \<Rightarrow> string \<Rightarrow> jsv list \<Rightarrow> cres vm" where
  "call_chain env opts (Methods ck) name args =
     (case map_of (method_table env opts) name of
        Some (MLib m) \<Rightarrow> run_validator env opts ck (map_of (ve_lib env) m) args
      | Some (MCustom m) \<Rightarrow> run_validator env opts ck (map_of (vo_custom opts) m) args
      | Some MNotEmpty \<Rightarrow> call_isLength env opts ck [jnat 1]
      | Some MLen \<Rightarrow> call_isLength env opts ck args
      | Some MOptional \<Rightarrow> call_optional env opts ck
      | None \<Rightarrow> call_inherited name args)"
| "call_chain env opts (Dummy names) name args =
     (if name \<in> set names then sret (CChain (Dummy names)) else call_inherited name args)"

text \<open>A chained expression: \<open>c.m1(..).m2(..)\<close>; a call on a boolean is not a function.\<close>

fun call_chain_all :: "venv \<Rightarrow> voptions \<Rightarrow> cres \<Rightarrow> (string \<times> jsv list) list \<Rightarrow> cres vm" where
  "call_chain_all env opts c [] = sret c"
| "call_chain_all env opts (CChain c) (m # ms) =
     sbind (call_chain env opts c (fst m) (snd m)) (\<lambda>c'. call_chain_all env opts c' ms)"
| "call_chain_all env opts (CVal v) (m # ms) = sthrow TypeErr"

section \<open>Updating and sanitizing a parameter\<close>

text \<open>\<open>o.hasOwnProperty(name)\<close> on a truthy \<open>o\<close>, and \<open>o[name] !== undefined\<close>.\<close>

fun own_property :: "jsv \<Rightarrow> string \<Rightarrow> bool" where
  "own_property (JStr s) k \<longleftrightarrow>
     k = ''length'' \<or> (case key_index k of Some i \<Rightarrow> i < length s | None \<Rightarrow> False)"
| "own_property (JArr xs ps) k \<longleftrightarrow>
     k = ''length'' \<or> (case key_index k of Some i \<Rightarrow> i < length xs | None \<Rightarrow> k \<in> set (pkeys ps))"
| "own_property (JObj ps) k \<longleftrightarrow> k \<in> set (pkeys ps)"
| "own_property v k \<longleftrightarrow> False"

definition has_own :: "venv \<Rightarrow> jsv \<Rightarrow> jsv \<Rightarrow> bool vm" where
  "has_own env obj name = (\<lambda>r. case get_prop obj ''hasOwnProperty'' of
     Inl e \<Rightarrow> (Inl e, r)
   | Inr (JFun (FBuiltin m)) \<Rightarrow> (Inr (own_property obj (js_to_string name)), r)
   | Inr (JFun f) \<Rightarrow> sbind (ve_call env f [name]) (\<lambda>v. sret (truthy v)) r
   | Inr _ \<Rightarrow> (Inl TypeErr, r))"

definition defined_at :: "jsv \<Rightarrow> jsv \<Rightarrow> bool vm" where
  "defined_at obj name = sread (\<lambda>r.
     rbind (get_prop obj (js_to_string name)) (\<lambda>x. Inr (x \<noteq> JUndef)))"

text \<open>\<open>this.src[name] = value\<close>, returning the value.\<close>

definition write_source :: "string \<Rightarrow> jsv \<Rightarrow> jsv \<Rightarrow> jsv vm" where
  "write_source src name value = (\<lambda>r.
     case set_prop (rget src r) (js_to_string name) value of
       Inl e \<Rightarrow> (Inl e, r)
     | Inr obj \<Rightarrow> (Inr value, pset src obj r))"

definition updateParam :: "venv \<Rightarrow> jsv \<Rightarrow> jsv \<Rightarrow> jsv vm" where
  "updateParam env name value = (\<lambda>r.
     sbind (if truthy (rget ''params'' r)
            then sbind (has_own env (rget ''params'' r) name)
                   (\<lambda>own r1. if own then defined_at (rget ''params'' r1) name r1 else (Inr False, r1))
            else sret False)
       (\<lambda>inParams r1.
          if inParams then write_source ''params'' name value r1
          else sbind (defined_at (rget ''query'' r1) name)
            (\<lambda>inQuery r2.
               if inQuery then write_source ''query'' name value r2
               else sbind (if truthy (rget ''body'' r2) then defined_at (rget ''body'' r2) name
                           else sret False)
                 (\<lambda>inBody r3.
                    if inBody then write_source ''body'' name value r3
                    else (Inr (JBool False), r3)) r2) r1) r)"

text \<open>
  \<open>sanitize(request, param, value)\<close> returns an object with one method per sanitizer of the
  library; \<open>call_sanitizer\<close> is such a method.
\<close>

definition sanitize_methods :: "venv \<Rightarrow> string list" where
  "sanitize_methods env = filter is_sanitizer (map fst (ve_lib env))"

definition call_sanitizer :: "venv \<Rightarrow> jsv \<Rightarrow> jsv \<Rightarrow> string \<Rightarrow> jsv list \<Rightarrow> jsv vm" where
  "call_sanitizer env param value m args =
     (if m \<in> set (sanitize_methods env)
      then (case map_of (ve_lib env) m of
              None \<Rightarrow> sthrow TypeErr
            | Some f \<Rightarrow>
                (case f (value # args) of
                   Inl e \<Rightarrow> sthrow e
                 | Inr result \<Rightarrow> sbind (updateParam env param result) (\<lambda>_. sret result)))
      else sthrow TypeErr)"

text \<open>\<open>req.filter(param)\<close>, alias \<open>sanitize\<close>: the value comes from \<open>this.param(param)\<close>.\<close>

definition req_filter :: "venv \<Rightarrow> jsv \<Rightarrow> jsv vm" where
  "req_filter env param = (\<lambda>r. case rget ''param'' r of
     JFun f \<Rightarrow> ve_call env f [param] r
   | _ \<Rightarrow> (Inl TypeErr, r))"

definition sanitize_call :: "venv \<Rightarrow> jsv \<Rightarrow> string \<Rightarrow> jsv list \<Rightarrow> jsv vm" where
  "sanitize_call env param m args =
     sbind (req_filter env param) (\<lambda>value. call_sanitizer env param value m args)"

section \<open>Reading the errors\<close>

definition onValidationError :: "jsv \<Rightarrow> unit vm" where
  "onValidationError errback = swrite (pset ''onErrorCallback'' errback)"

text \<open>\<open>errors[err.param] = err\<close> over the list, for the mapped form.\<close>

definition map_errors :: "jsv list \<Rightarrow> jserr + jsv props" where
  "map_errors errs = rfold (\<lambda>err m.
     rbind (get_prop err ''param'') (\<lambda>p. Inr (pset (js_to_string p) err m))) errs []"

definition validationErrors :: "jsv \<Rightarrow> req \<Rightarrow> jserr + jsv" where
  "validationErrors mapped r =
     (let errs = rget ''_validationErrors'' r
      in if errs = JUndef then Inr JNull
         else if truthy mapped
         then (case errs of
                 JArr xs ps \<Rightarrow> rbind (map_errors xs) (\<lambda>m. Inr (JObj m))
               | _ \<Rightarrow> Inl TypeErr)
         else Inr errs)"

definition validationErrorsJson :: "jsv \<Rightarrow> req \<Rightarrow> jserr + jsv" where
  "validationErrorsJson mapped r =
     rbind (validationErrors mapped r) (\<lambda>errors.
       Inr (JObj [(''message'', JStr ''Request has errors''), (''errors'', errors)]))"

section \<open>JSON schema\<close>

text \<open>The schema file's text, parsed; the checks before the engine runs.\<close>

definition load_schema :: "venv \<Rightarrow> jsv \<Rightarrow> jserr + jsv" where
  "load_schema env filename =
     (let schemaFile = ''schemas/'' @ js_to_string filename @ ''.json''
      in case ve_readFile env schemaFile of
           JStr schemaStr \<Rightarrow>
             if schemaStr = []
             then Inl (Thrown [JStr ''JSON Schema is empty, please add valid JSON Schema - '',
                               JStr schemaFile])
             else ve_parse env schemaStr
         | _ \<Rightarrow> Inl (Thrown [JStr ''Failed to load json schema'']))"

definition schema_lib_missing :: jserr where
  "schema_lib_missing = Thrown [JStr ''Failed to load JSON Schema validator'']"

text \<open>\<open>for (x = 0; x < error.length; x++)\<close> over an array-like value.\<close>

definition array_like :: "jsv \<Rightarrow> jserr + jsv list" where
  "array_like v = rbind (get_prop v ''length'') (\<lambda>len.
     let n = (case len of JNum (Fin q) \<Rightarrow> nat \<lceil>q\<rceil> | _ \<Rightarrow> 0)
     in rfold (\<lambda>x acc. rbind (get_prop v (nat_digits x)) (\<lambda>e. Inr (acc @ [e]))) [0..<n] [])"

definition ensure_errors :: "req \<Rightarrow> req" where
  "ensure_errors r =
     (if rget ''_validationErrors'' r = JUndef then pset ''_validationErrors'' (JArr [] []) r else r)"

text \<open>Scripts 1 and 2: \<open>amanda\<close>; the entry takes \<open>property\<close> or else \<open>propertyValue\<close>.\<close>

definition amanda_entry :: "jsv \<Rightarrow> jserr + jsv" where
  "amanda_entry e =
     rbind (get_prop e ''property'') (\<lambda>p.
       rbind (if truthy p then Inr p else get_prop e ''propertyValue'') (\<lambda>param.
         rbind (get_prop e ''message'') (\<lambda>m.
           Inr (JObj [(''param'', param), (''msg'', m)]))))"

text \<open>Script 3: Ajv; the entry takes \<open>dataPath\<close>.\<close>

definition ajv_entry :: "jsv \<Rightarrow> jserr + jsv" where
  "ajv_entry e =
     rbind (get_prop e ''dataPath'') (\<lambda>p.
       rbind (get_prop e ''message'') (\<lambda>m. Inr (JObj [(''param'', p), (''msg'', m)])))"

definition record_entries :: "(jsv \<Rightarrow> jserr + jsv) \<Rightarrow> jsv list \<Rightarrow> unit vm" where
  "record_entries entry errs = sbind (swrite ensure_errors)
     (\<lambda>_. sfor (\<lambda>e. sbind (sread (\<lambda>_. entry e)) push_error) errs)"

definition checkJsonSchema_amanda :: "venv \<Rightarrow> jsv \<Rightarrow> unit vm" where
  "checkJsonSchema_amanda env filename = (\<lambda>r.
     if typeof (ve_schema_lib env) \<noteq> ''function'' then (Inl schema_lib_missing, r)
     else sbind (sread (\<lambda>r. load_schema env filename))
       (\<lambda>schemaObj. sbind (sread (\<lambda>r. ve_amanda env (rget ''body'' r) schemaObj))
         (\<lambda>error. if \<not> truthy error then sret ()
                  else sbind (swrite ensure_errors) (\<lambda>_.
                         sbind (sread (\<lambda>_. array_like error)) (record_entries amanda_entry)))) r)"

definition checkJsonSchema_ajv :: "venv \<Rightarrow> jsv \<Rightarrow> unit vm" where
  "checkJsonSchema_ajv env filename = (\<lambda>r.
     if typeof (ve_schema_lib env) \<noteq> ''function'' then (Inl schema_lib_missing, r)
     else sbind (sread (\<lambda>r. load_schema env filename))
       (\<lambda>schemaObj. sbind (sread (\<lambda>r. ve_ajv env [jsonSchema04, jsonSchema06] schemaObj (rget ''body'' r)))
         (\<lambda>(isValid, errors). if truthy isValid then sret ()
                              else record_entries ajv_entry errors)) r)"

fun checkJsonSchema :: "runtime_version \<Rightarrow> venv \<Rightarrow> jsv \<Rightarrow> unit vm" where
  "checkJsonSchema V1 = checkJsonSchema_amanda"
| "checkJsonSchema V2 = checkJsonSchema_amanda"
| "checkJsonSchema V3 = checkJsonSchema_ajv"

section \<open>Installing the methods\<close>

text \<open>The methods \<open>sandboxValidator(req, __service)\<close> puts on the request; three are aliases.\<close>

definition sandboxValidator :: "req \<Rightarrow> req" where
  "sandboxValidator r = foldl (\<lambda>r (name, api). pset name (JFun (FReqApi api)) r) r
     [(''updateParam'', ''updateParam''), (''check'', ''check''), (''checkBody'', ''checkBody''),
      (''checkParams'', ''checkParams''), (''checkQuery'', ''checkQuery''),
      (''checkHeader'', ''checkHeader''), (''onValidationError'', ''onValidationError''),
      (''validationErrors'', ''validationErrors''),
      (''validationErrorsJson'', ''validationErrorsJson''), (''filter'', ''filter''),
      (''sanitize'', ''filter''), (''assert'', ''check''), (''validate'', ''check''),
      (''checkJsonSchema'', ''checkJsonSchema'')]"

end
