(* ===== verification/ValidatorLaws.thy ===== *)
theory ValidatorLaws
  imports Validator
begin

text \<open>
  The laws of the validator: how errors are recorded, what a chain of checks leaves on the
  request, how the checked value is selected, and the properties of the request methods.
\<close>

section \<open>The error list\<close>

definition errors_of :: "req \<Rightarrow> jsv list" where
  "errors_of r = (case rget ''_validationErrors'' r of JArr xs ps \<Rightarrow> xs | _ \<Rightarrow> [])"

text \<open>Well-formed: no list yet, or an array.\<close>

definition errors_ok :: "req \<Rightarrow> bool" where
  "errors_ok r \<longleftrightarrow> rget ''_validationErrors'' r = JUndef \<or>
     (\<exists>xs ps. rget ''_validationErrors'' r = JArr xs ps)"

text \<open>
  The interface the recording loops rely on: pushing one error succeeds in a well-formed state,
  keeps it well-formed and appends the error. \<open>kept\<close> reads the rest of the state.
\<close>

locale error_sink =
  fixes push :: "'e \<Rightarrow> ('s, 'x, unit) stm"
    and errs :: "'s \<Rightarrow> 'e list"
    and ok :: "'s \<Rightarrow> bool"
    and kept :: "'s \<Rightarrow> 'k"
  assumes push_result: "ok s \<Longrightarrow> fst (push e s) = Inr ()"
    and push_ok: "ok s \<Longrightarrow> ok (snd (push e s))"
    and push_errs: "ok s \<Longrightarrow> errs (snd (push e s)) = errs s @ [e]"
    and push_kept: "ok s \<Longrightarrow> kept (snd (push e s)) = kept s"
begin

lemma push_all:
  "ok s \<Longrightarrow> fst (sfor push es s) = Inr () \<and> ok (snd (sfor push es s)) \<and>
     errs (snd (sfor push es s)) = errs s @ es \<and> kept (snd (sfor push es s)) = kept s"
proof (induction es arbitrary: s)
  case (Cons e es)
  obtain s1 where s1: "push e s = (Inr (), s1)"
    using push_result [OF Cons.prems, of e] by (metis prod.collapse)
  with push_ok [OF Cons.prems, of e] push_errs [OF Cons.prems, of e]
    push_kept [OF Cons.prems, of e] Cons.IH [of s1]
  show ?case by simp
qed simp

text \<open>A loop that converts each item first, when every conversion succeeds.\<close>

lemma push_converted:
  assumes "ok s" and "\<And>x. x \<in> set xs \<Longrightarrow> conv x = Inr (g x)"
  shows "sfor (\<lambda>x. sbind (sread (\<lambda>_. conv x)) push) xs s = sfor push (map g xs) s"
  using assms
proof (induction xs arbitrary: s)
  case (Cons x xs)
  have conv: "sbind (sread (\<lambda>_. conv x)) push s = push (g x) s"
    using Cons.prems(2) [of x] by simp
  obtain s1 where s1: "push (g x) s = (Inr (), s1)"
    using push_result [OF Cons.prems(1), of "g x"] by (metis prod.collapse)
  with push_ok [OF Cons.prems(1), of "g x"] have "ok s1" by simp
  with Cons.IH [of s1] Cons.prems(2) conv s1 show ?case by simp
qed simp

end

lemma push_error_run:
  assumes "errors_ok r"
  shows "push_error e r = (Inr (), snd (push_error e r))"
    and "errors_ok (snd (push_error e r))"
    and "errors_of (snd (push_error e r)) = errors_of r @ [e]"
    and "k \<noteq> ''_validationErrors'' \<Longrightarrow> rget k (snd (push_error e r)) = rget k r"
  using assms by (auto simp: push_error_def errors_ok_def errors_of_def)

definition other_props :: "req \<Rightarrow> string \<Rightarrow> jsv" where
  "other_props r = (\<lambda>k. if k = ''_validationErrors'' then JUndef else rget k r)"

interpretation sink: error_sink push_error errors_of errors_ok other_props
proof unfold_locales
  fix r e assume ok: "errors_ok r"
  show "fst (push_error e r) = Inr ()"
    using push_error_run(1) [OF ok, where e = e] by (metis fst_conv)
  show "errors_ok (snd (push_error e r))" by (rule push_error_run(2) [OF ok])
  show "errors_of (snd (push_error e r)) = errors_of r @ [e]" by (rule push_error_run(3) [OF ok])
  show "other_props (snd (push_error e r)) = other_props r"
    using push_error_run(4) [OF ok] by (auto simp: other_props_def)
qed

lemma ensure_errors_laws:
  assumes "errors_ok r"
  shows "errors_ok (ensure_errors r)" and "errors_of (ensure_errors r) = errors_of r"
    and "other_props (ensure_errors r) = other_props r"
  using assms by (auto simp: ensure_errors_def errors_ok_def errors_of_def other_props_def fun_eq_iff)

lemma errorHandler_quiet:
  assumes "errors_ok r" and "\<not> truthy (rget ''onErrorCallback'' r)"
  shows "errorHandler env opts ck msg r =
     (Inr (), snd (push_error (vo_formatter opts (ck_param ck) msg (ck_value ck)) r))"
  using push_error_run [OF assms(1), where e = "vo_formatter opts (ck_param ck) msg (ck_value ck)"] assms(2)
  by (simp add: errorHandler_def)

section \<open>The method table\<close>

lemma map_of_foldl_pset_key:
  "map_of (foldl (\<lambda>t m. pset m (c m) t) t0 ms) k =
     (if k \<in> set ms then Some (c k) else map_of t0 k)"
  by (induction ms arbitrary: t0) auto

lemma method_table_lookup:
  "map_of (method_table env opts) m =
     (if m = ''optional'' then Some MOptional
      else if m = ''len'' then Some MLen
      else if m = ''notEmpty'' then Some MNotEmpty
      else if m \<in> set (map fst (vo_custom opts)) then Some (MCustom m)
      else if m \<in> set (map fst (ve_lib env)) \<and> \<not> is_sanitizer m then Some (MLib m)
      else None)"
  by (simp add: method_table_def map_of_foldl_pset_key)

text \<open>
  What a call of a check answers on the checked value: the verdict, or the error it throws. Checks are the
  methods of the library and of the options, and \<open>notEmpty\<close> and \<open>len\<close>, which are \<open>isLength\<close> of these;
  \<open>None\<close> is a call of anything else.
\<close>

definition answer_of :: "jsv \<Rightarrow> (jsv list \<Rightarrow> jserr + jsv) option \<Rightarrow> jsv list \<Rightarrow> jserr + bool" where
  "answer_of value f args = (case f of
     None \<Rightarrow> Inl TypeErr
   | Some g \<Rightarrow> (case g (value # args) of Inl e \<Rightarrow> Inl e | Inr v \<Rightarrow> Inr (truthy v)))"

definition method_answer ::
  "venv \<Rightarrow> voptions \<Rightarrow> jsv \<Rightarrow> string \<Rightarrow> jsv list \<Rightarrow> (jserr + bool) option" where
  "method_answer env opts value m args =
     (if m \<in> set (map fst (vo_custom opts)) then Some (answer_of value (map_of (vo_custom opts) m) args)
      else if m \<in> set (map fst (ve_lib env)) \<and> \<not> is_sanitizer m
      then Some (answer_of value (map_of (ve_lib env) m) args) else None)"

definition check_answer ::
  "venv \<Rightarrow> voptions \<Rightarrow> jsv \<Rightarrow> string \<times> jsv list \<Rightarrow> (jserr + bool) option" where
  "check_answer env opts value call = (case call of (m, args) \<Rightarrow>
     if m = ''optional'' then None
     else if m = ''notEmpty'' then method_answer env opts value ''isLength'' [jnat 1]
     else if m = ''len'' then method_answer env opts value ''isLength'' args
     else method_answer env opts value m args)"

definition error_entry :: "voptions \<Rightarrow> checker \<Rightarrow> jsv" where
  "error_entry opts ck =
     vo_formatter opts (ck_param ck) (js_or (ck_msg ck) (JStr ''Invalid value'')) (ck_value ck)"

text \<open>The checks that reject the value, up to the first one that throws, and the error of that one.\<close>

fun rejections :: "(jserr + bool) list \<Rightarrow> nat" where
  "rejections [] = 0"
| "rejections (Inl e # as) = 0"
| "rejections (Inr ok # as) = (if ok then rejections as else Suc (rejections as))"

fun first_thrown :: "(jserr + bool) list \<Rightarrow> jserr option" where
  "first_thrown [] = None"
| "first_thrown (Inl e # as) = Some e"
| "first_thrown (Inr ok # as) = first_thrown as"

lemma call_check:
  assumes "check_answer env opts (ck_value ck) (m, args) = Some a"
    and "errors_ok r" and "\<not> truthy (rget ''onErrorCallback'' r)"
  shows "call_chain env opts (Methods ck) m args r = (case a of
     Inl e \<Rightarrow> (Inl e, r)
   | Inr ok \<Rightarrow> (Inr (CChain (Methods ck)), if ok then r else snd (push_error (error_entry opts ck) r)))"
proof -
  have run: "run_validator env opts ck f as r = (case answer_of (ck_value ck) f as of
      Inl e \<Rightarrow> (Inl e, r)
    | Inr ok \<Rightarrow> (Inr (CChain (Methods ck)), if ok then r else snd (push_error (error_entry opts ck) r)))" for f as
    using assms(2,3)
    by (auto simp: run_validator_def answer_of_def errorHandler_quiet error_entry_def split: option.splits sum.splits)
  have names: "\<not> is_sanitizer ''isLength''" by (simp add: is_sanitizer_def starts_with_def sanitizers_def)
  show ?thesis
    using assms(1) names
    by (auto simp: check_answer_def method_answer_def method_table_lookup call_isLength_def run split: if_splits)
qed

lemma call_chain_all_checks:
  assumes "map (check_answer env opts (ck_value ck)) calls = map Some as"
    and "errors_ok r" and "\<not> truthy (rget ''onErrorCallback'' r)"
  shows "call_chain_all env opts (CChain (Methods ck)) calls r =
     (case first_thrown as of Some e \<Rightarrow> Inl e | None \<Rightarrow> Inr (CChain (Methods ck)),
      snd (sfor push_error (replicate (rejections as) (error_entry opts ck)) r))"
  using assms
proof (induction calls arbitrary: r as)
  case (Cons c calls)
  obtain m args where c: "c = (m, args)" by (cases c)
  from Cons.prems(1) obtain a as' where as: "as = a # as'" "check_answer env opts (ck_value ck) (m, args) = Some a"
    "map (check_answer env opts (ck_value ck)) calls = map Some as'" by (cases as) (auto simp: c)
  note step = call_check [OF as(2) Cons.prems(2,3)]
  show ?case
  proof (cases a)
    case (Inl e)
    then show ?thesis using step by (simp add: c as(1))
  next
    case (Inr ok)
    let ?r1 = "if ok then r else snd (push_error (error_entry opts ck) r)"
    have "errors_ok ?r1" "\<not> truthy (rget ''onErrorCallback'' ?r1)"
      using push_error_run [OF Cons.prems(2)] Cons.prems(2,3) by auto
    from Cons.IH [OF as(3) this] show ?thesis
      using Inr step push_error_run(1) [OF Cons.prems(2), where e = "error_entry opts ck"]
      by (cases ok) (simp_all add: c as(1))
  qed
qed simp

section \<open>Selecting the value\<close>

lemma param_items_string:
  "k \<noteq> [] \<Longrightarrow> CHR ''.'' \<notin> set k \<Longrightarrow> param_items (JStr k) = Inr [JStr k]"
  by (simp add: split_on_single)

lemma param_items_dotted:
  assumes "\<forall>k \<in> set ks. k \<noteq> [] \<and> CHR ''.'' \<notin> set k" and "ks \<noteq> []"
  shows "param_items (JStr (join_with (CHR ''.'') ks)) = Inr (map JStr ks)"
  using assms by (auto simp: split_join filter_id_conv)

text \<open>The name of a dotted parameter is the string it was written as.\<close>

lemma param_name_strings: "param_name (map JStr ks) = join_with (CHR ''.'') ks"
  by (simp add: param_name_def is_nullish_def comp_def)

lemma js_to_string_JStr [simp]: "js_to_string (JStr s) = s"
  by simp

lemma and_read_object [simp]: "and_read (JObj ps) item = Inr (obj_get ps (js_to_string item))"
  by (simp add: and_read_def)

lemma default_value_V3 [simp]: "default_value V3 x \<noteq> JUndef"
  by (simp add: default_value_def is_nullish_def)

lemma default_value_old [simp]: "v \<noteq> V3 \<Longrightarrow> default_value v x = x"
  by (simp add: default_value_def)

lemma extract_V3_defined:
  assumes "rfold (extract_step V3 g r) items a = Inr value" and "items \<noteq> []"
  shows "value \<noteq> JUndef"
  using assms
proof (induction items arbitrary: a)
  case (Cons i items)
  then obtain b where b: "extract_step V3 g r i a = Inr b"
    "rfold (extract_step V3 g r) items b = Inr value"
    by (auto simp: rbind_Inr_iff)
  have "b \<noteq> JUndef" using b(1) by (auto simp: extract_step_def rbind_Inr_iff)
  with Cons.IH b(2) show ?case by (cases items) auto
qed simp

lemma extract_body_missing:
  assumes "rget ''body'' r = JObj ps" and "\<forall>k \<in> set ks. obj_get ps k = JUndef" and "v \<noteq> V3"
  shows "rfold (extract_step v GBody r) (map JStr ks) JUndef = Inr JUndef"
  using assms by (induction ks) (auto simp: extract_step_def)

section \<open>The dummy chain\<close>

lemma dummy_inert:
  assumes "\<forall>(m, args) \<in> set calls. m \<in> set names"
  shows "call_chain_all env opts (CChain (Dummy names)) calls r = (Inr (CChain (Dummy names)), r)"
  using assms by (induction calls arbitrary: r) auto

section \<open>The mapped errors\<close>

lemma map_errors_objects:
  "map_errors (map (\<lambda>(p, m, x). default_formatter p m x) es) =
     Inr (foldl (\<lambda>ps (k, e). pset k e ps) []
       (map (\<lambda>(p, m, x). (p, default_formatter p m x)) es))"
proof -
  let ?step = "\<lambda>err m. rbind (get_prop err ''param'') (\<lambda>p. Inr (pset (js_to_string p) err m))"
  have "rfold ?step (map (\<lambda>(p, m, x). default_formatter p m x) es) acc =
     Inr (foldl (\<lambda>ps (k, e). pset k e ps) acc
       (map (\<lambda>(p, m, x). (p, default_formatter p m x)) es))" for acc
    by (induction es arbitrary: acc) (auto simp: default_formatter_def obj_get_def)
  then show ?thesis by (simp add: map_errors_def)
qed

section \<open>Schema errors\<close>

lemma record_entries_run:
  assumes "errors_ok r" and "\<And>e. e \<in> set errs \<Longrightarrow> entry e = Inr (g e)"
  shows "record_entries entry errs r = sfor push_error (map g errs) (ensure_errors r)"
proof -
  have "record_entries entry errs r =
      sfor (\<lambda>e. sbind (sread (\<lambda>_. entry e)) push_error) errs (ensure_errors r)"
    by (simp add: record_entries_def)
  also have "\<dots> = sfor push_error (map g errs) (ensure_errors r)"
    by (rule sink.push_converted [OF ensure_errors_laws(1) [OF assms(1)] assms(2)])
  finally show ?thesis .
qed

lemma record_entries_errors:
  assumes "errors_ok r" and "\<And>e. e \<in> set errs \<Longrightarrow> entry e = Inr (g e)"
  shows "fst (record_entries entry errs r) = Inr ()"
    and "errors_of (snd (record_entries entry errs r)) = errors_of r @ map g errs"
    and "other_props (snd (record_entries entry errs r)) = other_props r"
  using record_entries_run [OF assms] sink.push_all [OF ensure_errors_laws(1) [OF assms(1)], of "map g errs"]
    ensure_errors_laws [OF assms(1)]
  by simp_all

text \<open>The entry the script records for a violation, from its path and message.\<close>

definition schema_entry :: "jsv \<times> jsv \<Rightarrow> jsv" where
  "schema_entry v = JObj [(''param'', fst v), (''msg'', snd v)]"

text \<open>A violation as Ajv reports it is an object, with these two members among others.\<close>

lemma ajv_entry_violation:
  "ajv_entry (JObj ps) = Inr (schema_entry (obj_get ps ''dataPath'', obj_get ps ''message''))"
  by (simp add: ajv_entry_def schema_entry_def)

text \<open>The array-like error object of \<open>amanda\<close>.\<close>

definition amanda_violation :: "jsv \<times> jsv \<Rightarrow> jsv" where
  "amanda_violation v = JObj [(''property'', fst v), (''message'', snd v)]"

lemma amanda_entry_violation:
  "truthy (fst v) \<Longrightarrow> amanda_entry (amanda_violation v) = Inr (schema_entry v)"
  by (simp add: amanda_entry_def amanda_violation_def schema_entry_def obj_get_def)

lemma array_like_array: "array_like (JArr xs ps) = Inr xs"
proof -
  have step: "rfold (\<lambda>x acc. rbind (get_prop (JArr xs ps) (nat_digits x)) (\<lambda>e. Inr (acc @ [e])))
      [i..<i + n] acc = Inr (acc @ take n (drop i xs))"
    if "i + n \<le> length xs" for i n acc
    using that
  proof (induction n arbitrary: i acc)
    case (Suc n)
    have "get_prop (JArr xs ps) (nat_digits i) = Inr (xs ! i)"
      using Suc.prems key_index_nat_digits [of i] by auto
    moreover have "[i..<i + Suc n] = i # [Suc i..<Suc i + n]"
      by (simp add: upt_conv_Cons)
    moreover have "take (Suc n) (drop i xs) = xs ! i # take n (drop (Suc i) xs)"
      using Suc.prems by (simp add: Cons_nth_drop_Suc [symmetric])
    ultimately show ?case using Suc.IH [of "Suc i" "acc @ [xs ! i]"] Suc.prems by simp
  qed simp
  show ?thesis
    using step [of 0 "length xs" "[]"] by (simp add: array_like_def Let_def)
qed

section \<open>An example request\<close>

definition demo_venv :: venv where
  "demo_venv =
     \<lparr>ve_lib = [(''isEmail'', \<lambda>args. Inr (JBool False)), (''isInt'', \<lambda>args. Inr (JBool True)),
                (''toInt'', \<lambda>args. Inr (jnat 5))],
      ve_call = (\<lambda>f args. sret JUndef),
      ve_readFile = (\<lambda>f. if f = ''schemas/order.json'' then JStr ''{}'' else JNull),
      ve_parse = (\<lambda>s. Inr (JObj [])),
      ve_schema_lib = JFun (FLib ''Ajv''),
      ve_amanda = (\<lambda>body schema. Inr JUndef),
      ve_ajv = (\<lambda>metas schema body.
        Inr (JBool False, [JObj [(''keyword'', JStr ''type''), (''dataPath'', JStr ''.id''),
          (''schemaPath'', JStr ''#/properties/id/type''), (''params'', JObj [(''type'', JStr ''integer'')]),
          (''message'', JStr ''should be integer'')]]))\<rparr>"

definition demo_req :: req where
  "demo_req =
     [(''params'', JObj [(''id'', JStr ''7'')]), (''query'', JObj [(''q'', JStr ''1'')]),
      (''body'', JObj [(''first'', JStr ''Ann'')])]"

lemma demo_req_ok: "errors_ok demo_req" "\<not> truthy (rget ''onErrorCallback'' demo_req)"
  by (simp_all add: errors_ok_def demo_req_def obj_get_def inherited_def object_proto_def)

section \<open>Properties\<close>

text \<open>C5: without an error callback, a chain of checks (any but \<open>optional\<close>, which is no check) on one
  parameter runs them in order up to the first that throws, and throws its error; for each check that
  rejected the value before that it records one entry, the same for all of them, after the errors
  already there; nothing else of the request changes, and without a throw the chain stays usable.\<close>
theorem check_chain_records_failures:
  assumes "map (check_answer env opts (ck_value ck)) calls = map Some answers"
    and "errors_ok r" and "\<not> truthy (rget ''onErrorCallback'' r)"
  defines "res \<equiv> call_chain_all env opts (CChain (Methods ck)) calls r"
  shows "fst res = (case first_thrown answers of Some e \<Rightarrow> Inl e | None \<Rightarrow> Inr (CChain (Methods ck))) \<and>
    errors_of (snd res) = errors_of r @ replicate (rejections answers) (error_entry opts ck) \<and>
    (\<forall>k. k \<noteq> ''_validationErrors'' \<longrightarrow> rget k (snd res) = rget k r)"
  using sink.push_all [OF assms(2), of "replicate (rejections answers) (error_entry opts ck)"]
  unfolding res_def call_chain_all_checks [OF assms(1-3)]
  by (simp_all add: other_props_def fun_eq_iff) metis

theorem check_chain_records_failures_witness:
  "errors_of (snd (call_chain_all demo_venv default_options
     (CChain (Methods \<lparr>ck_param = ''id'', ck_value = JStr ''7'', ck_msg = JStr ''bad id''\<rparr>))
     [(''isInt'', []), (''isEmail'', []), (''isEmail'', [JNull])] demo_req)) =
   replicate 2 (JObj [(''param'', JStr ''id''), (''msg'', JStr ''bad id''), (''value'', JStr ''7'')])"
  by (subst check_chain_records_failures [where answers = "[Inr True, Inr False, Inr False]",
        THEN conjunct2, THEN conjunct1, OF _ demo_req_ok])
    (auto simp: check_answer_def method_answer_def answer_of_def demo_venv_def default_options_def
      default_formatter_def error_entry_def js_or_def is_sanitizer_def starts_with_def sanitizers_def
      errors_of_def demo_req_def obj_get_def inherited_def object_proto_def numeral_2_eq_2)

text \<open>\<open>notEmpty\<close> is \<open>isLength(1)\<close> and \<open>len\<close> is \<open>isLength\<close>, whichever function \<open>isLength\<close>
  resolves to: the library's, a custom one or the one patched onto the array prototype.\<close>
theorem length_aliases:
  "call_chain env opts (Methods ck) ''notEmpty'' args =
     call_chain env opts (Methods ck) ''isLength'' [jnat 1] \<and>
   call_chain env opts (Methods ck) ''len'' args =
     call_chain env opts (Methods ck) ''isLength'' args"
  by (simp_all add: method_table_lookup call_isLength_def call_inherited_def)

text \<open>In runtime versions 1 and 2 a nested parameter whose outer keys are missing falls back to
  the top level: \<open>checkBody('user.name')\<close> on a body without \<open>user\<close> validates \<open>body.name\<close>.\<close>
theorem nested_check_falls_back:
  assumes "\<forall>x \<in> set (ks @ [k]). x \<noteq> [] \<and> CHR ''.'' \<notin> set x"
    and "rget ''body'' r = JObj ps" and "\<forall>x \<in> set ks. obj_get ps x = JUndef" and "v \<noteq> V3"
  shows "checkParam v GBody (JStr (join_with (CHR ''.'') (ks @ [k]))) msg r =
     Inr \<lparr>ck_param = join_with (CHR ''.'') (ks @ [k]), ck_value = obj_get ps k, ck_msg = msg\<rparr>"
proof -
  have "rfold (extract_step v GBody r) (map JStr (ks @ [k])) JUndef = Inr (obj_get ps k)"
    using extract_body_missing [OF assms(2,3,4)] assms(2,4)
    by (simp add: rfold_append extract_step_def)
  then show ?thesis
    using param_items_dotted [OF assms(1)] param_name_strings [of "ks @ [k]"]
    by (simp add: checkParam_def)
qed

theorem nested_check_falls_back_witness:
  "checkParam V2 GBody (JStr ''user.first'') JUndef demo_req =
     Inr \<lparr>ck_param = ''user.first'', ck_value = JStr ''Ann'', ck_msg = JUndef\<rparr>"
  using nested_check_falls_back [of "[''user'']" "''first''" demo_req "[(''first'', JStr ''Ann'')]" V2 JUndef]
  by (simp add: demo_req_def obj_get_def inherited_def object_proto_def)

text \<open>What \<open>req.check(name)\<close> validates.\<close>

lemma check_value:
  assumes "k \<noteq> []" and "CHR ''.'' \<notin> set k"
    and "rget ''params'' r = JObj pp" and "rget ''body'' r = JObj bp" and "rget ''query'' r = JObj qp"
  shows "checkParam v GCheck (JStr k) msg r =
     Inr \<lparr>ck_param = k,
          ck_value = (if truthy (obj_get pp k) \<or> truthy (obj_get bp k) \<or> truthy (obj_get qp k)
                      then JStr k else default_value v JUndef),
          ck_msg = msg\<rparr>"
  using assms param_items_string [OF assms(1,2)] param_name_strings [of "[k]"]
  by (simp add: checkParam_def extract_step_def default_value_def is_nullish_def)

text \<open>What \<open>checkBody\<close>, \<open>checkParams\<close> and \<open>checkQuery\<close> validate.\<close>

fun source_of :: "getter \<Rightarrow> string" where
  "source_of GBody = ''body''"
| "source_of GParams = ''params''"
| "source_of GQuery = ''query''"
| "source_of g = ''headers''"

lemma source_value:
  assumes "k \<noteq> []" and "CHR ''.'' \<notin> set k" and "g \<in> {GBody, GParams, GQuery}"
    and "rget (source_of g) r = JObj ps"
  shows "checkParam v g (JStr k) msg r =
     Inr \<lparr>ck_param = k, ck_value = default_value v (obj_get ps k), ck_msg = msg\<rparr>"
  using assms param_items_string [OF assms(1,2)] param_name_strings [of "[k]"]
  by (auto simp: checkParam_def extract_step_def)

text \<open>\<open>optional\<close> on a missing parameter in versions 1 and 2 turns the chain into one on which
  every further call of its methods records nothing and changes nothing.\<close>
theorem optional_missing_skips:
  assumes "ck_value ck = JUndef"
    and "\<forall>(m, args) \<in> set calls. map_of (method_table env opts) m \<noteq> None \<or> m = ''isLength''"
  shows "snd (call_chain_all env opts (CChain (Methods ck)) ((''optional'', args) # calls) r) = r"
proof -
  let ?ms = "map fst (method_table env opts)"
  let ?names = "if ''isLength'' \<in> set ?ms then ?ms else ?ms @ [''isLength'']"
  have "\<forall>(m, args) \<in> set calls. m \<in> set ?names"
    using assms(2) by (force simp: map_of_eq_None_iff)
  then have "call_chain_all env opts (CChain (Dummy ?names)) calls r = (Inr (CChain (Dummy ?names)), r)"
    by (rule dummy_inert)
  then show ?thesis
    using assms(1) by (simp add: call_optional_def method_table_lookup Let_def)
qed

theorem optional_missing_skips_witness:
  "snd (call_chain_all demo_venv default_options
     (CChain (Methods \<lparr>ck_param = ''age'', ck_value = JUndef, ck_msg = JUndef\<rparr>))
     [(''optional'', []), (''isEmail'', []), (''len'', [jnat 2])] demo_req) = demo_req"
  by (rule optional_missing_skips)
    (auto simp: method_table_lookup demo_venv_def is_sanitizer_def starts_with_def sanitizers_def)

text \<open>In version 3 \<open>optional\<close> never skips anything: a missing parameter was already replaced
  by the empty string, so whenever a check names at least one key, \<open>optional\<close> returns the same
  chain and the following validators run and may reject the absent parameter.\<close>
theorem optional_ineffective_v3:
  assumes "checkParam V3 g param msg r = Inr ck" and "param_items param = Inr items" and "items \<noteq> []"
  shows "call_chain env opts (Methods ck) ''optional'' args r' = (Inr (CChain (Methods ck)), r')"
proof -
  from assms(1,2) have "rfold (extract_step V3 g r) items JUndef = Inr (ck_value ck)"
    by (auto simp: checkParam_def rbind_Inr_iff)
  then have "ck_value ck \<noteq> JUndef" using assms(3) by (rule extract_V3_defined)
  then show ?thesis by (simp add: method_table_lookup call_optional_def)
qed

theorem optional_ineffective_v3_witness:
  "call_chain demo_venv default_options
     (Methods \<lparr>ck_param = ''age'', ck_value = JStr [], ck_msg = JUndef\<rparr>) ''optional'' [] demo_req =
   (Inr (CChain (Methods \<lparr>ck_param = ''age'', ck_value = JStr [], ck_msg = JUndef\<rparr>)), demo_req)"
proof (rule optional_ineffective_v3)
  show "checkParam V3 GBody (JStr ''age'') JUndef demo_req =
      Inr \<lparr>ck_param = ''age'', ck_value = JStr [], ck_msg = JUndef\<rparr>"
    by (simp add: checkParam_def param_name_def extract_step_def default_value_def is_nullish_def
        demo_req_def obj_get_def inherited_def object_proto_def)
  show "param_items (JStr ''age'') = Inr [JStr ''age'']" by simp
qed simp

text \<open>\<open>updateParam\<close> writes to the first source that defines the name, in the order path
  parameters, query, body, and to no other; it returns the value, or \<open>false\<close> when no source
  defines the name and nothing changes.\<close>
theorem updateParam_first_source:
  assumes "rget ''params'' r = JObj pp" and "rget ''query'' r = JObj qp" and "rget ''body'' r = JObj bp"
    and "map_of pp ''hasOwnProperty'' = None"
  shows "updateParam env (JStr k) x r =
     (if k \<in> set (pkeys pp) \<and> obj_get pp k \<noteq> JUndef
      then (Inr x, pset ''params'' (JObj (pset k x pp)) r)
      else if obj_get qp k \<noteq> JUndef then (Inr x, pset ''query'' (JObj (pset k x qp)) r)
      else if obj_get bp k \<noteq> JUndef then (Inr x, pset ''body'' (JObj (pset k x bp)) r)
      else (Inr (JBool False), r))"
proof -
  have own: "has_own env (JObj pp) (JStr k) s = (Inr (k \<in> set (pkeys pp)), s)" for s
    using assms(4) by (simp add: has_own_def obj_get_def inherited_def object_proto_def)
  show ?thesis
    using assms(1-3)
    by (cases "k \<in> set (pkeys pp)"; cases "obj_get pp k = JUndef"; cases "obj_get qp k = JUndef";
        cases "obj_get bp k = JUndef")
      (simp_all add: updateParam_def sbind_def own defined_at_def write_source_def)
qed

theorem updateParam_first_source_witness:
  "updateParam demo_venv (JStr ''q'') (jnat 5) demo_req =
     (Inr (jnat 5), pset ''query'' (JObj [(''q'', jnat 5)]) demo_req)"
  by (subst updateParam_first_source [of demo_req "[(''id'', JStr ''7'')]" "[(''q'', JStr ''1'')]"
        "[(''first'', JStr ''Ann'')]"])
    (simp_all add: demo_req_def obj_get_def)

text \<open>\<open>req.sanitize\<close> and \<open>req.filter\<close> need a \<open>param\<close> function on the request, which neither
  script nor worker provides: without one every sanitizing call is a type error that leaves the
  request as it was.\<close>
theorem sanitize_needs_param_function:
  assumes "\<forall>f. rget ''param'' r \<noteq> JFun f"
  shows "sanitize_call env param m args r = (Inl TypeErr, r)"
proof -
  have "req_filter env param r = (Inl TypeErr, r)"
    using assms by (auto simp: req_filter_def split: jsv.splits)
  then show ?thesis by (simp add: sanitize_call_def)
qed

theorem sanitize_needs_param_function_witness:
  "sanitize_call demo_venv (JStr ''q'') ''toInt'' [] (sandboxValidator demo_req) =
     (Inl TypeErr, sandboxValidator demo_req)"
  by (rule sanitize_needs_param_function)
    (simp add: sandboxValidator_def demo_req_def obj_get_def inherited_def object_proto_def)

text \<open>The error report: \<open>null\<close> before any error; the list as recorded, unmapped; and mapped by
  parameter, where each parameter with an error shows the last one recorded for it.\<close>
theorem validationErrors_report:
  assumes "rget ''_validationErrors'' r =
      JArr (map (\<lambda>(p, m, x). default_formatter p m x) es) []" and "truthy mapped"
  shows "validationErrors JUndef r = Inr (JArr (map (\<lambda>(p, m, x). default_formatter p m x) es) []) \<and>
    (\<exists>report. validationErrors mapped r = Inr (JObj report) \<and>
      map_of report = map_of (rev (map (\<lambda>(p, m, x). (p, default_formatter p m x)) es))) \<and>
    (\<forall>r0 mapped'. rget ''_validationErrors'' r0 = JUndef \<longrightarrow> validationErrors mapped' r0 = Inr JNull)"
proof (intro conjI allI impI)
  show "validationErrors JUndef r = Inr (JArr (map (\<lambda>(p, m, x). default_formatter p m x) es) [])"
    using assms(1) by (simp add: validationErrors_def)
  show "\<exists>report. validationErrors mapped r = Inr (JObj report) \<and>
      map_of report = map_of (rev (map (\<lambda>(p, m, x). (p, default_formatter p m x)) es))"
    using assms by (auto simp: validationErrors_def map_errors_objects map_of_foldl_pset fun_eq_iff
        split: option.splits)
  show "validationErrors mapped' r0 = Inr JNull" if "rget ''_validationErrors'' r0 = JUndef" for r0 mapped'
    using that by (simp add: validationErrors_def)
qed

theorem validationErrors_report_witness:
  "\<exists>report. validationErrors (JBool True)
       [(''_validationErrors'', JArr [default_formatter ''a'' (JStr ''m1'') JNull,
          default_formatter ''a'' (JStr ''m2'') JNull] [])] = Inr (JObj report) \<and>
     map_of report ''a'' = Some (default_formatter ''a'' (JStr ''m2'') JNull)"
  using validationErrors_report [of
      "[(''_validationErrors'', JArr [default_formatter ''a'' (JStr ''m1'') JNull,
          default_formatter ''a'' (JStr ''m2'') JNull] [])]"
      "[(''a'', JStr ''m1'', JNull), (''a'', JStr ''m2'', JNull)]" "JBool True"]
  by (auto simp: obj_get_def)

text \<open>C39: when the schema file loads and Ajv answers with a verdict and objects for the violations,
  whatever members they have, schema validation in version 3 records one entry per violation Ajv
  reports, in Ajv's order, with the violation's \<open>dataPath\<close> and \<open>message\<close>, and records nothing when Ajv
  accepts the body; nothing else of the request changes.\<close>
theorem schema_violations_recorded:
  assumes "typeof (ve_schema_lib env) = ''function''" and "load_schema env file = Inr schema"
    and "ve_ajv env [jsonSchema04, jsonSchema06] schema (rget ''body'' r) = Inr (ok, map JObj vs)"
    and "errors_ok r"
  shows "fst (checkJsonSchema V3 env file r) = Inr () \<and>
    errors_of (snd (checkJsonSchema V3 env file r)) = errors_of r @
      (if truthy ok then []
       else map (\<lambda>v. JObj [(''param'', obj_get v ''dataPath''), (''msg'', obj_get v ''message'')]) vs) \<and>
    (\<forall>k. k \<noteq> ''_validationErrors'' \<longrightarrow> rget k (snd (checkJsonSchema V3 env file r)) = rget k r)"
proof (cases "truthy ok")
  case True
  then have "checkJsonSchema V3 env file r = (Inr (), r)" using assms(1-3) by (simp add: checkJsonSchema_ajv_def)
  with True show ?thesis by simp
next
  case False
  then have run: "checkJsonSchema V3 env file r = record_entries ajv_entry (map JObj vs) r"
    using assms(1-3) by (simp add: checkJsonSchema_ajv_def)
  let ?g = "\<lambda>e. case e of JObj ps \<Rightarrow> schema_entry (obj_get ps ''dataPath'', obj_get ps ''message'')"
  have "ajv_entry e = Inr (?g e)" if "e \<in> set (map JObj vs)" for e
    using that by (auto simp: ajv_entry_violation)
  note rec = record_entries_errors [OF assms(4), of "map JObj vs" ajv_entry ?g, OF this]
  have "errors_of (snd (checkJsonSchema V3 env file r)) = errors_of r @
      map (\<lambda>v. JObj [(''param'', obj_get v ''dataPath''), (''msg'', obj_get v ''message'')]) vs"
    unfolding run using rec(2) by (simp add: schema_entry_def comp_def)
  moreover have "rget k (snd (checkJsonSchema V3 env file r)) = rget k r" if "k \<noteq> ''_validationErrors''" for k
    using fun_cong [OF rec(3), of k] that unfolding run by (simp only: other_props_def if_False)
  moreover have "fst (checkJsonSchema V3 env file r) = Inr ()" unfolding run by (rule rec(1))
  ultimately show ?thesis using False by (simp del: checkJsonSchema.simps)
qed

theorem schema_violations_recorded_witness:
  "errors_of (snd (checkJsonSchema V3 demo_venv (JStr ''order'') demo_req)) =
     [JObj [(''param'', JStr ''.id''), (''msg'', JStr ''should be integer'')]]"
  by (subst schema_violations_recorded [THEN conjunct2, THEN conjunct1, of demo_venv "JStr ''order''" "JObj []" demo_req
        "JBool False" "[[(''keyword'', JStr ''type''), (''dataPath'', JStr ''.id''),
          (''schemaPath'', JStr ''#/properties/id/type''), (''params'', JObj [(''type'', JStr ''integer'')]),
          (''message'', JStr ''should be integer'')]]"])
    (use demo_req_ok in \<open>simp_all add: demo_venv_def load_schema_def errors_of_def
      demo_req_def obj_get_def inherited_def object_proto_def\<close>)

text \<open>The first reason to refuse a schema check, if there is one.\<close>

definition schema_refusal :: "venv \<Rightarrow> string \<Rightarrow> jserr option" where
  "schema_refusal env file =
     (if \<nexists>f. ve_schema_lib env = JFun f
      then Some (Thrown [JStr ''Failed to load JSON Schema validator''])
      else if \<nexists>s. ve_readFile env (''schemas/'' @ file @ ''.json'') = JStr s
      then Some (Thrown [JStr ''Failed to load json schema''])
      else if ve_readFile env (''schemas/'' @ file @ ''.json'') = JStr []
      then Some (Thrown [JStr ''JSON Schema is empty, please add valid JSON Schema - '',
             JStr (''schemas/'' @ file @ ''.json'')])
      else case ve_parse env (js_to_string (ve_readFile env (''schemas/'' @ file @ ''.json''))) of
        Inl e \<Rightarrow> Some e | Inr schema \<Rightarrow> None)"

text \<open>Schema validation refuses to run, and leaves the request as it was, when the schema
  library is not loaded, or the schema file is missing, empty or not valid JSON: the error
  thrown is the one of the first of these that applies, in every runtime version.\<close>
theorem schema_refusals:
  assumes "schema_refusal env file = Some e"
  shows "checkJsonSchema v env (JStr file) r = (Inl e, r)"
proof (cases "\<exists>f. ve_schema_lib env = JFun f")
  case True
  then have "load_schema env (JStr file) = Inl e"
    using assms
    by (cases "ve_readFile env (''schemas/'' @ file @ ''.json'')")
      (auto simp: schema_refusal_def load_schema_def split: if_splits sum.splits)
  then show ?thesis using True
    by (cases v) (auto simp: checkJsonSchema_amanda_def checkJsonSchema_ajv_def)
next
  case False
  then have "typeof (ve_schema_lib env) \<noteq> ''function''" by (simp add: typeof_function_iff)
  moreover from False assms have "e = schema_lib_missing"
    by (auto simp: schema_refusal_def schema_lib_missing_def)
  ultimately show ?thesis
    by (cases v) (simp_all add: checkJsonSchema_amanda_def checkJsonSchema_ajv_def)
qed

theorem schema_refusals_witness:
  "checkJsonSchema V2 demo_venv (JStr ''nope'') demo_req =
     (Inl (Thrown [JStr ''Failed to load json schema'']), demo_req)"
  by (rule schema_refusals) (simp add: schema_refusal_def demo_venv_def)

end
