(* ===== verification/Templates.thy ===== *)
theory Templates
  imports JsValue
begin

text \<open>
  \<open>sandbox-templates.js\<close>: the template engine behind \<open>res.render\<close>. The script keeps one
  render function per engine key (\<open>templateRenderFunctions\<close>), built on the first render and
  closing over the service it was built with; \<open>renderWithRequest\<close> selects the engine, the
  template and the context by the number of its arguments. Rendering itself is a method of the
  host service and a parameter (\<open>renderLiquid\<close>).
\<close>

section \<open>State\<close>

text \<open>
  The engines configured so far: the key of \<open>templateRenderFunctions\<close> and the service its render
  function closes over. Services are numbered.
\<close>

type_synonym tstate = "string \<Rightarrow> nat option"

type_synonym renderer = "nat \<Rightarrow> jsv \<Rightarrow> jsv \<Rightarrow> jserr + jsv"

definition tstate_init :: tstate where
  "tstate_init = (\<lambda>_. None)"

section \<open>The liquid engine\<close>

text \<open>\<open>templateLibraries['liquid']\<close>: reuse the configured render function, or build it.\<close>

definition liquid_engine :: "string \<Rightarrow> nat \<Rightarrow> tstate \<Rightarrow> nat \<times> tstate" where
  "liquid_engine libraryKey service ts =
     (case ts libraryKey of
        Some svc \<Rightarrow> (svc, ts)
      | None \<Rightarrow> (service, ts(libraryKey \<mapsto> service)))"

text \<open>The render function: the template sees the context as \<open>res\<close> and \<open>data\<close>, the request as \<open>req\<close>.\<close>

definition liquidRender :: "renderer \<Rightarrow> nat \<Rightarrow> jsv \<Rightarrow> jsv \<Rightarrow> jsv \<Rightarrow> jserr + jsv" where
  "liquidRender renderLiquid svc templateName ctx sandboxRequest =
     renderLiquid svc templateName
       (JObj [(''res'', ctx), (''data'', ctx), (''req'', sandboxRequest)])"

section \<open>Rendering a response\<close>

text \<open>\<open>arguments[i]\<close>, undefined past the end.\<close>

definition arg :: "jsv list \<Rightarrow> nat \<Rightarrow> jsv" where
  "arg args i = (if i < length args then args ! i else JUndef)"

text \<open>Engine, template name, context, request.\<close>

definition render_arguments :: "jsv list \<Rightarrow> jsv \<times> jsv \<times> jsv \<times> jsv" where
  "render_arguments args =
     (let sandboxRequest = arg args 0
      in if length args = 2 then (JStr ''liquid'', args ! 1, JObj [], sandboxRequest)
         else if length args = 3 then (JStr ''liquid'', args ! 1, args ! 2, sandboxRequest)
         else if length args = 4 then (args ! 1, args ! 2, args ! 3, sandboxRequest)
         else (JStr ''liquid'', JUndef, JObj [], sandboxRequest))"

text \<open>
  \<open>templateLibraries[templateLibrary]\<close>: the only own property is \<open>liquid\<close>, everything else is
  found on \<open>Object.prototype\<close> or undefined.
\<close>

definition templateLibraries :: "jsv \<Rightarrow> jsv" where
  "templateLibraries lib =
     obj_get [(''liquid'', JFun (FResApi ''liquid''))] (js_to_string lib)"

text \<open>
  The value passed to \<open>wrappedResponse.send\<close>, or the error thrown. A method inherited from
  \<open>Object.prototype\<close> is called as the engine factory, without a receiver; what it yields
  cannot be called, and some throw by themselves: a type error in each case.
\<close>

definition renderWithRequest ::
  "renderer \<Rightarrow> nat \<Rightarrow> jsv list \<Rightarrow> tstate \<Rightarrow> (jserr + jsv) \<times> tstate" where
  "renderWithRequest renderLiquid service args ts =
     (case render_arguments args of (templateLibrary, templateName, ctx, sandboxRequest) \<Rightarrow>
        (let getRenderFunction = templateLibraries templateLibrary
         in if getRenderFunction = JUndef
            then (Inl (Thrown [JStr ''Unsupported template library: '', templateLibrary]), ts)
            else if getRenderFunction = JFun (FResApi ''liquid'')
            then (case liquid_engine (js_to_string templateLibrary) service ts of
                    (svc, ts1) \<Rightarrow>
                      (liquidRender renderLiquid svc templateName ctx sandboxRequest, ts1))
            else (Inl TypeErr, ts)))"

text \<open>
  The script's only effect besides its private state: the method on the response.
  The scripts of the three runtime versions are the same text.
\<close>

definition sandboxTemplates :: "jsv props \<Rightarrow> jsv props" where
  "sandboxTemplates wrappedResponse =
     pset ''renderWithRequest'' (JFun (FResApi ''renderWithRequest'')) wrappedResponse"

section \<open>Lemmas\<close>

lemma templateLibraries_liquid: "templateLibraries (JStr ''liquid'') = JFun (FResApi ''liquid'')"
  by (simp add: templateLibraries_def obj_get_def)

lemma templateLibraries_own:
  "templateLibraries v = JFun (FResApi ''liquid'') \<longleftrightarrow> js_to_string v = ''liquid''"
  by (auto simp: templateLibraries_def obj_get_def inherited_def)

lemma templateLibraries_undefined:
  "templateLibraries v = JUndef \<longleftrightarrow>
     js_to_string v \<noteq> ''liquid'' \<and> js_to_string v \<noteq> ''__proto__'' \<and>
     js_to_string v \<notin> set object_proto"
  by (auto simp: templateLibraries_def obj_get_def inherited_def)

lemma liquid_engine_configured:
  "ts key = Some svc \<Longrightarrow> liquid_engine key service ts = (svc, ts)"
  by (simp add: liquid_engine_def)

text \<open>An engine once configured stays configured.\<close>

lemma renderWithRequest_keeps:
  "ts key = Some svc \<Longrightarrow> snd (renderWithRequest rl service args ts) key = Some svc"
  by (auto simp: renderWithRequest_def liquid_engine_def Let_def
      split: prod.splits option.splits)

lemma renderWithRequest_liquid:
  assumes "render_arguments args = (JStr ''liquid'', name, ctx, req)"
  shows "renderWithRequest rl service args ts =
     (liquidRender rl (case ts ''liquid'' of Some svc \<Rightarrow> svc | None \<Rightarrow> service) name ctx req,
      ts(''liquid'' \<mapsto> (case ts ''liquid'' of Some svc \<Rightarrow> svc | None \<Rightarrow> service)))"
  using assms
  by (auto simp: renderWithRequest_def templateLibraries_liquid liquid_engine_def
      split: option.splits)

section \<open>Properties\<close>

text \<open>Rendering dispatches on the number of arguments: a template name alone renders with an
  empty context, a name and a context with that context, both with the liquid engine and the
  request first passed in; the context is visible to the template as \<open>res\<close> and as \<open>data\<close>.\<close>
theorem render_by_argument_count:
  defines "svc \<equiv> \<lambda>ts service. case ts ''liquid'' of Some s \<Rightarrow> s | None \<Rightarrow> service"
  shows "fst (renderWithRequest rl service [req, name] ts) =
      rl (svc ts service) name (JObj [(''res'', JObj []), (''data'', JObj []), (''req'', req)]) \<and>
    fst (renderWithRequest rl service [req, name, ctx] ts) =
      rl (svc ts service) name (JObj [(''res'', ctx), (''data'', ctx), (''req'', req)]) \<and>
    fst (renderWithRequest rl service [req, JStr ''liquid'', name, ctx] ts) =
      fst (renderWithRequest rl service [req, name, ctx] ts)"
  by (simp_all add: svc_def renderWithRequest_liquid render_arguments_def arg_def liquidRender_def)

text \<open>An engine name that is neither \<open>liquid\<close> nor found on \<open>Object.prototype\<close> is refused with
  the \<open>Unsupported template library\<close> error, an inherited name (such as \<open>toString\<close>) escapes that
  check and ends in a type error; in both cases nothing is rendered and no engine is configured.\<close>
theorem render_unknown_engine:
  assumes "js_to_string lib \<noteq> ''liquid''"
  shows "renderWithRequest rl service [req, lib, name, ctx] ts =
     (Inl (if js_to_string lib \<in> set (''__proto__'' # object_proto) then TypeErr
           else Thrown [JStr ''Unsupported template library: '', lib]), ts)"
  using assms templateLibraries_own [of lib] templateLibraries_undefined [of lib]
  by (auto simp: renderWithRequest_def render_arguments_def arg_def)

theorem render_unknown_engine_witness:
  "renderWithRequest (\<lambda>svc name locals. Inr name) 0 [JUndef, JStr ''ejs'', JStr ''a'', JNull] tstate_init =
     (Inl (Thrown [JStr ''Unsupported template library: '', JStr ''ejs'']), tstate_init) \<and>
   renderWithRequest (\<lambda>svc name locals. Inr name) 0 [JUndef, JStr ''toString'', JStr ''a'', JNull] tstate_init =
     (Inl TypeErr, tstate_init)"
  using render_unknown_engine [of "JStr ''ejs''" "\<lambda>svc name locals. Inr name" 0 JUndef "JStr ''a''" JNull tstate_init]
    render_unknown_engine [of "JStr ''toString''" "\<lambda>svc name locals. Inr name" 0 JUndef "JStr ''a''" JNull tstate_init]
  by (simp_all add: object_proto_def)

text \<open>The first liquid render fixes the service for good: whatever service later renders pass
  in, and whatever was rendered in between, templates are rendered by the service of the first
  one.\<close>
theorem render_service_fixed:
  assumes first: "ts ''liquid'' = None"
    and ts1: "ts1 = snd (renderWithRequest rl service [req, name] ts)"
    and ts2: "ts2 = fold (\<lambda>(svc, args) t. snd (renderWithRequest rl svc args t)) calls ts1"
  shows "fst (renderWithRequest rl service' [req', name', ctx'] ts2) =
     rl service name' (JObj [(''res'', ctx'), (''data'', ctx'), (''req'', req')])"
proof -
  have "ts1 ''liquid'' = Some service"
    using first
    by (simp add: ts1 renderWithRequest_liquid render_arguments_def arg_def)
  then have "ts2 ''liquid'' = Some service"
    unfolding ts2
    by (induction calls arbitrary: ts1) (auto simp: renderWithRequest_keeps)
  then show ?thesis
    by (simp add: renderWithRequest_liquid render_arguments_def arg_def liquidRender_def)
qed

theorem render_service_fixed_witness:
  "fst (renderWithRequest (\<lambda>svc name locals. Inr (jnat svc)) 9 [JNull, JStr ''b'', JNull]
     (snd (renderWithRequest (\<lambda>svc name locals. Inr (jnat svc)) 4 [JNull, JStr ''a''] tstate_init)))
   = Inr (jnat 4)"
  using render_service_fixed [of tstate_init _ "\<lambda>svc name locals. Inr (jnat svc)" 4 JNull
      "JStr ''a''" _ "[]" 9 JNull "JStr ''b''" JNull]
  by (simp add: tstate_init_def)

end
