(* ===== verification/MockApi.thy ===== *)
theory MockApi
  imports ValidatorLaws Templates
begin

text \<open>
  The first part of \<open>sandbox-patch.js\<close>: \<open>Sandbox.define\<close> and \<open>Sandbox.soap\<close>, which check their
  arguments and hand a route to the host (\<open>__mock.define\<close>), and \<open>wrapCallback\<close>, which copies the
  host's request and response onto the two wrapper objects of the script before every call of a
  route's function. The wrapper objects are one pair for the life of the context.
\<close>

section \<open>Defining routes\<close>

text \<open>
  The arguments of \<open>__mock.define\<close>; the wrapped callback it also receives is
  \<open>wrapCallback(rc_callback)\<close>.
\<close>

record route_call =
  rc_transport :: string
  rc_type :: string
  rc_path :: jsv
  rc_method :: jsv
  rc_props :: jsv
  rc_callback :: jsv

definition upper_char :: "char \<Rightarrow> char" where
  "upper_char c = (let n = of_char c :: nat in if 97 \<le> n \<and> n \<le> 122 then char_of (n - 32) else c)"

text \<open>\<open>method.toUpperCase()\<close>: only a string has that method.\<close>

fun toUpperCase :: "jsv \<Rightarrow> jserr + string" where
  "toUpperCase (JStr s) = Inr (map upper_char s)"
| "toUpperCase v = Inl TypeErr"

text \<open>The error both functions build from the method, the path and a reason.\<close>

definition invalid_route :: "jsv \<Rightarrow> jsv \<Rightarrow> string \<Rightarrow> jserr" where
  "invalid_route method path reason =
     (case toUpperCase method of
        Inl e \<Rightarrow> e
      | Inr m \<Rightarrow> Thrown [JStr ''Invalid route definition for '', JStr m, JStr '' '', path, JStr reason])"

text \<open>
  \<open>define\<close>: with three arguments the second one decides; in the branch that refuses it the
  variable \<open>method\<close> is still undefined.
\<close>

definition define_arguments :: "jsv list \<Rightarrow> jserr + (jsv \<times> jsv \<times> jsv \<times> jsv)" where
  "define_arguments args =
     (if length args = 4 then Inr (args ! 0, args ! 1, args ! 2, args ! 3)
      else if length args = 3 then
        (if typeof (args ! 1) = ''object''
         then Inr (args ! 0, JStr ''GET'', args ! 1, args ! 2)
         else if typeof (args ! 1) = ''string''
         then Inr (args ! 0, args ! 1, JObj [], args ! 2)
         else Inl (invalid_route JUndef (args ! 0) '', 2nd parameter should be a String or an Object''))
      else Inr (arg args 0, JStr ''GET'', JObj [], arg args 1))"

definition mock_define :: "jsv list \<Rightarrow> jserr + route_call" where
  "mock_define args =
     rbind (define_arguments args) (\<lambda>(path, method, properties, callback).
       if is_nullish callback
       then Inl (invalid_route method path '', given function is undefined'')
       else Inr \<lparr>rc_transport = ''http'', rc_type = ''define'', rc_path = path,
                 rc_method = method, rc_props = properties, rc_callback = callback\<rparr>)"

text \<open>
  \<open>soap\<close>: its error message reads the variables \<open>method\<close> and \<open>path\<close>, which do not exist in
  that function nor, unless the sandbox makes such globals, outside it.
\<close>

definition mock_soap :: "jsv list \<Rightarrow> jserr + route_call" where
  "mock_soap args =
     (if length args = 3 \<and> typeof (args ! 1) = ''string''
      then Inr \<lparr>rc_transport = ''http'', rc_type = ''soap'', rc_path = args ! 0,
                rc_method = JStr ''POST'', rc_props = JObj [(''SOAPAction'', args ! 1)],
                rc_callback = args ! 2\<rparr>
      else if length args = 4 \<and> typeof (args ! 1) = ''string''
      then Inr \<lparr>rc_transport = ''http'', rc_type = ''soap'', rc_path = args ! 0,
                rc_method = JStr ''POST'',
                rc_props = JObj [(''SOAPAction'', args ! 1), (''SOAPOperationName'', args ! 2)],
                rc_callback = args ! 3\<rparr>
      else Inl ReferenceErr)"

section \<open>The wrapper objects\<close>

text \<open>
  The state of the script: the two wrapper objects, the configured template engines, the routes
  handed to the host and the calls made on the host's request and response objects, in order.
\<close>

datatype host_call = HostReq nat string "jsv list" | HostRes nat string "jsv list"

record pstate =
  wreq :: "jsv props"
  wres :: "jsv props"
  engines :: tstate
  routes :: "route_call list"
  host_calls :: "host_call list"

text \<open>A host object: its number and its members, functions included, in \<open>Object.keys\<close> order.\<close>

record host_object =
  ho_id :: nat
  ho_props :: "jsv props"

definition patch_init :: pstate where
  "patch_init = \<lparr>wreq = sandboxValidator [], wres = sandboxTemplates [], engines = tstate_init,
     routes = [], host_calls = []\<rparr>"

definition copy_request_prop :: "nat \<Rightarrow> jsv props \<Rightarrow> string \<times> jsv \<Rightarrow> jsv props" where
  "copy_request_prop n w p =
     (case p of (property, v) \<Rightarrow>
        if typeof v = ''function'' then pset property (JFun (FWrapReq n property)) w
        else pset ''_validationErrors'' JUndef (pset property v w))"

definition copy_response_prop :: "nat \<Rightarrow> jsv props \<Rightarrow> string \<times> jsv \<Rightarrow> jsv props" where
  "copy_response_prop n w p =
     (case p of (property, v) \<Rightarrow>
        if typeof v = ''function'' then pset property (JFun (FWrapRes n property)) w
        else pset property v w)"

text \<open>What the closure does before it calls the route's function.\<close>

definition wrap_copy :: "host_object \<Rightarrow> host_object \<Rightarrow> pstate \<Rightarrow> pstate" where
  "wrap_copy rq rs s =
     s\<lparr>wreq := foldl (copy_request_prop (ho_id rq)) (wreq s) (ho_props rq),
       wres := pset ''render'' (JFun (FRender (ho_id rq)))
                 (foldl (copy_response_prop (ho_id rs)) (wres s) (ho_props rs))\<rparr>"

text \<open>The call itself; \<open>run\<close> is the sandbox's own function, which may use everything in the state.\<close>

definition wrapCallback ::
  "(fn \<Rightarrow> pstate \<Rightarrow> (jserr + jsv) \<times> pstate) \<Rightarrow> jsv \<Rightarrow> host_object \<Rightarrow> host_object \<Rightarrow>
     pstate \<Rightarrow> (jserr + jsv) \<times> pstate" where
  "wrapCallback run callback rq rs s =
     (let s1 = wrap_copy rq rs s
      in case callback of JFun f \<Rightarrow> run f s1 | _ \<Rightarrow> (Inl TypeErr, s1))"

section \<open>Calling a member of a wrapper object\<close>

text \<open>
  The forwarding closures: a request method called with one argument receives that argument in
  an array; every other call, and every response method, receives the arguments as they are.
\<close>

definition forward_request :: "nat \<Rightarrow> string \<Rightarrow> jsv list \<Rightarrow> host_call" where
  "forward_request n property args =
     (if length args = 1 then HostReq n property [JArr args []] else HostReq n property args)"

definition forward_response :: "nat \<Rightarrow> string \<Rightarrow> jsv list \<Rightarrow> host_call" where
  "forward_response n property args = HostRes n property args"

definition host_call :: "(host_call \<Rightarrow> jserr + jsv) \<Rightarrow> host_call \<Rightarrow> (pstate, jserr, jsv) stm" where
  "host_call host c = (\<lambda>s. (host c, s\<lparr>host_calls := host_calls s @ [c]\<rparr>))"

text \<open>\<open>wrappedResponse.send(v)\<close> as \<open>renderWithRequest\<close> calls it.\<close>

definition response_send :: "(host_call \<Rightarrow> jserr + jsv) \<Rightarrow> jsv \<Rightarrow> (pstate, jserr, jsv) stm" where
  "response_send host v = (\<lambda>s. case obj_get (wres s) ''send'' of
     JFun (FWrapRes n property) \<Rightarrow> host_call host (forward_response n property [v]) s
   | _ \<Rightarrow> (Inl TypeErr, s))"

text \<open>
  \<open>wrappedResponse.render(..)\<close>: \<open>renderWithRequest\<close> with the request of the wrapping closure put
  in front; it returns nothing.
\<close>

definition response_render ::
  "renderer \<Rightarrow> nat \<Rightarrow> (host_call \<Rightarrow> jserr + jsv) \<Rightarrow> jsv \<Rightarrow> jsv list \<Rightarrow> (pstate, jserr, jsv) stm" where
  "response_render rl service host callbackRequest args = (\<lambda>s.
     case obj_get (wres s) ''renderWithRequest'' of
       JFun (FResApi m) \<Rightarrow>
         (case renderWithRequest rl service (callbackRequest # args) (engines s) of
            (Inl e, ts) \<Rightarrow> (Inl e, s\<lparr>engines := ts\<rparr>)
          | (Inr v, ts) \<Rightarrow>
              sbind (response_send host v) (\<lambda>_. sret JUndef) (s\<lparr>engines := ts\<rparr>))
     | _ \<Rightarrow> (Inl TypeErr, s))"

section \<open>The global names of the API\<close>

text \<open>Versions 1 and 2 also publish the object under its two older names.\<close>

fun api_globals :: "runtime_version \<Rightarrow> string list" where
  "api_globals V1 = [''Sandbox'', ''Sandmox'', ''mock'']"
| "api_globals V2 = [''Sandbox'', ''Sandmox'', ''mock'']"
| "api_globals V3 = [''Sandbox'']"

text \<open>
  A bootstrap script as the sequence of its definitions through one of those names; an unknown
  global is a reference error, and an error ends the script.
\<close>

datatype api_call = Define string "jsv list" | Soap string "jsv list"

fun api_step :: "runtime_version \<Rightarrow> api_call \<Rightarrow> (pstate, jserr, unit) stm" where
  "api_step v (Define g args) = (\<lambda>s.
     if g \<notin> set (api_globals v) then (Inl ReferenceErr, s)
     else case mock_define args of
       Inl e \<Rightarrow> (Inl e, s) | Inr rc \<Rightarrow> (Inr (), s\<lparr>routes := routes s @ [rc]\<rparr>))"
| "api_step v (Soap g args) = (\<lambda>s.
     if g \<notin> set (api_globals v) then (Inl ReferenceErr, s)
     else case mock_soap args of
       Inl e \<Rightarrow> (Inl e, s) | Inr rc \<Rightarrow> (Inr (), s\<lparr>routes := routes s @ [rc]\<rparr>))"

definition bootstrap :: "runtime_version \<Rightarrow> api_call list \<Rightarrow> (pstate, jserr, unit) stm" where
  "bootstrap v calls = sfor (api_step v) calls"

section \<open>Copying properties\<close>

lemma copy_request_prop_get:
  "obj_get (copy_request_prop n w (k, v)) k' =
     (if typeof v = ''function''
      then (if k' = k then JFun (FWrapReq n k) else obj_get w k')
      else if k' = ''_validationErrors'' then JUndef
      else if k' = k then v else obj_get w k')"
  by (simp add: copy_request_prop_def)

lemma copy_response_prop_get:
  "obj_get (copy_response_prop n w (k, v)) k' =
     (if k' = k then (if typeof v = ''function'' then JFun (FWrapRes n k) else v)
      else obj_get w k')"
  by (simp add: copy_response_prop_def)

lemma copy_request_other:
  "k \<notin> set (pkeys ps) \<Longrightarrow> k \<noteq> ''_validationErrors'' \<Longrightarrow>
     obj_get (foldl (copy_request_prop n) w ps) k = obj_get w k"
  by (induction ps arbitrary: w) (auto simp: copy_request_prop_get)

lemma copy_response_other:
  "k \<notin> set (pkeys ps) \<Longrightarrow> obj_get (foldl (copy_response_prop n) w ps) k = obj_get w k"
  by (induction ps arbitrary: w) (auto simp: copy_response_prop_get)

lemma copy_request_member:
  assumes "(k, v) \<in> set ps" and "distinct (pkeys ps)" and "k \<noteq> ''_validationErrors''"
  shows "obj_get (foldl (copy_request_prop n) w ps) k =
     (if typeof v = ''function'' then JFun (FWrapReq n k) else v)"
  using assms(1,2)
proof (induction ps arbitrary: w)
  case (Cons p ps)
  show ?case
  proof (cases "p = (k, v)")
    case True
    with Cons.prems have "k \<notin> set (pkeys ps)" by simp
    with True assms(3) show ?thesis by (simp add: copy_request_other copy_request_prop_get)
  next
    case False
    with Cons.prems have "(k, v) \<in> set ps" "distinct (pkeys ps)" by auto
    then show ?thesis using Cons.IH by simp
  qed
qed simp

lemma copy_response_member:
  assumes "(k, v) \<in> set ps" and "distinct (pkeys ps)"
  shows "obj_get (foldl (copy_response_prop n) w ps) k =
     (if typeof v = ''function'' then JFun (FWrapRes n k) else v)"
  using assms
proof (induction ps arbitrary: w)
  case (Cons p ps)
  show ?case
  proof (cases "p = (k, v)")
    case True
    with Cons.prems have "k \<notin> set (pkeys ps)" by simp
    with True show ?thesis by (simp add: copy_response_other copy_response_prop_get)
  next
    case False
    with Cons.prems have "(k, v) \<in> set ps" "distinct (pkeys ps)" by auto
    then show ?thesis using Cons.IH by simp
  qed
qed simp

lemma copy_request_keeps_cleared:
  assumes "\<forall>(k, v) \<in> set ps. k \<noteq> ''_validationErrors''" and "obj_get w ''_validationErrors'' = JUndef"
  shows "obj_get (foldl (copy_request_prop n) w ps) ''_validationErrors'' = JUndef"
  using assms by (induction ps arbitrary: w) (auto simp: copy_request_prop_get)

lemma copy_request_clears:
  assumes "\<forall>(k, v) \<in> set ps. k \<noteq> ''_validationErrors''"
    and "\<exists>(k, v) \<in> set ps. typeof v \<noteq> ''function''"
  shows "obj_get (foldl (copy_request_prop n) w ps) ''_validationErrors'' = JUndef"
  using assms
proof (induction ps arbitrary: w)
  case (Cons p ps)
  obtain k v where p: "p = (k, v)" by (cases p)
  show ?case
  proof (cases "typeof v = ''function''")
    case True
    with Cons p show ?thesis by auto
  next
    case False
    have "obj_get (copy_request_prop n w p) ''_validationErrors'' = JUndef"
      using False by (simp add: p copy_request_prop_get)
    with Cons.prems(1) show ?thesis by (simp add: copy_request_keeps_cleared)
  qed
qed simp

section \<open>An example request and response\<close>

definition demo_request :: host_object where
  "demo_request = \<lparr>ho_id = 7, ho_props = [(''query'', JObj []), (''path'', JStr ''/a''),
     (''get'', JFun (FHost 7 ''get''))]\<rparr>"

definition demo_response :: host_object where
  "demo_response = \<lparr>ho_id = 7, ho_props = [(''send'', JFun (FHost 7 ''send'')),
     (''json'', JFun (FHost 7 ''json''))]\<rparr>"

section \<open>Properties\<close>

text \<open>The four ways to call \<open>Sandbox.define\<close> agree: leaving out the method means \<open>GET\<close>, leaving
  out the properties means none, and the route handed to the host is the same.\<close>
theorem define_forms_agree:
  "mock_define [path, callback] = mock_define [path, JStr ''GET'', JObj [], callback] \<and>
   mock_define [path, JStr m, callback] = mock_define [path, JStr m, JObj [], callback] \<and>
   mock_define [path, JObj ps, callback] = mock_define [path, JStr ''GET'', JObj ps, callback]"
  by (simp_all add: mock_define_def define_arguments_def arg_def)

text \<open>A route without a function is refused: \<open>define\<close> never hands the host a route whose
  callback is \<open>undefined\<close> or \<open>null\<close>, and with a string method the error names the method in upper
  case and the path.\<close>
theorem define_needs_function:
  assumes "is_nullish cb"
  shows "(\<forall>args rc. mock_define args = Inr rc \<longrightarrow> rc_callback rc \<noteq> JUndef \<and> rc_callback rc \<noteq> JNull) \<and>
    mock_define [path, JStr m, props, cb] =
     Inl (Thrown [JStr ''Invalid route definition for '', JStr (map upper_char m), JStr '' '', path,
       JStr '', given function is undefined''])"
  using assms
  by (auto simp: mock_define_def define_arguments_def invalid_route_def is_nullish_def rbind_Inr_iff
      split: if_splits)

lemma upper_get: "upper_char (CHR ''g'') = CHR ''G''" "upper_char (CHR ''e'') = CHR ''E''"
    "upper_char (CHR ''t'') = CHR ''T''"
  by code_simp+

theorem define_needs_function_witness:
  "mock_define [JStr ''/a'', JStr ''get'', JObj [], JUndef] =
     Inl (Thrown [JStr ''Invalid route definition for '', JStr ''GET'', JStr '' '', JStr ''/a'',
       JStr '', given function is undefined''])"
  using define_needs_function [of JUndef "JStr ''/a''" "''get''" "JObj []"]
  by (simp add: is_nullish_def upper_get)

text \<open>The messages meant for malformed definitions are never built: a second argument of
  \<open>define\<close> that is neither a string nor an object is a type error (the message reads the method
  before it is set), and a malformed \<open>soap\<close> call is a reference error.\<close>
theorem malformed_definition_errors:
  assumes "typeof a \<noteq> ''string''"
  shows "(typeof a \<noteq> ''object'' \<longrightarrow> mock_define [path, a, callback] = Inl TypeErr) \<and>
    mock_soap [path, a, callback] = Inl ReferenceErr \<and>
    mock_soap [path, a, operation, callback] = Inl ReferenceErr"
  using assms by (simp_all add: mock_define_def mock_soap_def define_arguments_def invalid_route_def)

theorem malformed_definition_errors_witness:
  "mock_define [JStr ''/a'', jnat 1, JFun (FUser 0)] = Inl TypeErr \<and>
   mock_soap [JStr ''/a'', jnat 1, JFun (FUser 0)] = Inl ReferenceErr"
  using malformed_definition_errors [of "jnat 1" "JStr ''/a''" "JFun (FUser 0)"] by simp

text \<open>C6: when a host request is handled, the function of the route runs in a state where the copy onto the
  wrapper objects is complete: every data member of the host request and response is readable on the
  wrapper, every function is there as a forwarder to this request's host objects, and \<open>render\<close> renders
  for this request. Two names are special: a member \<open>render\<close> of the response is replaced, and
  \<open>_validationErrors\<close> is cleared, when the request has any data and no such member itself.\<close>
theorem wrap_copies_everything:
  fixes s :: pstate
  assumes "distinct (pkeys (ho_props rq))" and "distinct (pkeys (ho_props rs))"
  shows "\<exists>s'. (\<forall>run. wrapCallback run (JFun f) rq rs s = run f s') \<and>
    (\<forall>(k, v) \<in> set (ho_props rq). k \<noteq> ''_validationErrors'' \<longrightarrow> obj_get (wreq s') k =
      (if typeof v = ''function'' then JFun (FWrapReq (ho_id rq) k) else v)) \<and>
    (\<forall>(k, v) \<in> set (ho_props rs). k \<noteq> ''render'' \<longrightarrow> obj_get (wres s') k =
      (if typeof v = ''function'' then JFun (FWrapRes (ho_id rs) k) else v)) \<and>
    obj_get (wres s') ''render'' = JFun (FRender (ho_id rq)) \<and>
    (''_validationErrors'' \<notin> set (pkeys (ho_props rq)) \<and> (\<exists>(k, v) \<in> set (ho_props rq). typeof v \<noteq> ''function'') \<longrightarrow>
      obj_get (wreq s') ''_validationErrors'' = JUndef)"
proof (intro exI [of _ "wrap_copy rq rs s"] conjI allI impI)
  let ?s' = "wrap_copy rq rs s"
  show "wrapCallback run (JFun f) rq rs s = run f ?s'" for run
    by (simp add: wrapCallback_def Let_def)
  show "\<forall>(k, v) \<in> set (ho_props rq). k \<noteq> ''_validationErrors'' \<longrightarrow> obj_get (wreq ?s') k =
      (if typeof v = ''function'' then JFun (FWrapReq (ho_id rq) k) else v)"
    using copy_request_member [OF _ assms(1)] by (force simp: wrap_copy_def)
  show "\<forall>(k, v) \<in> set (ho_props rs). k \<noteq> ''render'' \<longrightarrow> obj_get (wres ?s') k =
      (if typeof v = ''function'' then JFun (FWrapRes (ho_id rs) k) else v)"
    using copy_response_member [OF _ assms(2)] by (force simp: wrap_copy_def)
  show "obj_get (wres ?s') ''render'' = JFun (FRender (ho_id rq))"
    by (simp add: wrap_copy_def)
  show "''_validationErrors'' \<notin> set (pkeys (ho_props rq)) \<and> (\<exists>(k, v) \<in> set (ho_props rq). typeof v \<noteq> ''function'') \<Longrightarrow>
      obj_get (wreq ?s') ''_validationErrors'' = JUndef"
    using copy_request_clears [of "ho_props rq"] by (force simp: wrap_copy_def)
qed

theorem wrap_copies_everything_witness:
  "wrapCallback (\<lambda>f s. (Inr (obj_get (wreq s) ''path''), s)) (JFun (FUser 0)) demo_request demo_response patch_init =
     (Inr (JStr ''/a''), snd (wrapCallback (\<lambda>f s. (Inr JUndef, s)) (JFun (FUser 0)) demo_request demo_response patch_init))"
proof -
  have "distinct (pkeys (ho_props demo_request))" "distinct (pkeys (ho_props demo_response))"
    by (simp_all add: demo_request_def demo_response_def)
  from wrap_copies_everything [OF this, of "FUser 0" patch_init]
  obtain s' where run: "\<And>run. wrapCallback run (JFun (FUser 0)) demo_request demo_response patch_init = run (FUser 0) s'"
    and req: "\<forall>(k, v) \<in> set (ho_props demo_request). k \<noteq> ''_validationErrors'' \<longrightarrow> obj_get (wreq s') k =
      (if typeof v = ''function'' then JFun (FWrapReq (ho_id demo_request) k) else v)" by blast
  from req have "obj_get (wreq s') ''path'' = JStr ''/a''" by (simp add: demo_request_def)
  then show ?thesis by (simp add: run)
qed

text \<open>C36: the wrapper objects outlive the request: a property of the wrapped request that the next
  host request does not define keeps its value, so a callback registered with \<open>onValidationError\<close>
  while handling one request is still installed, and will be called, for the next.\<close>
theorem wrapped_request_keeps_state:
  assumes "k \<notin> set (pkeys (ho_props rq))" and "k \<noteq> ''_validationErrors''"
  shows "obj_get (wreq (wrap_copy rq rs s)) k = obj_get (wreq s) k"
  using copy_request_other [OF assms] by (simp add: wrap_copy_def)

theorem wrapped_request_keeps_state_witness:
  "obj_get (wreq (wrap_copy demo_request demo_response
     (patch_init\<lparr>wreq := snd (onValidationError (JFun (FUser 3)) (wreq patch_init))\<rparr>)))
     ''onErrorCallback'' = JFun (FUser 3)"
  by (subst wrapped_request_keeps_state)
    (simp_all add: demo_request_def onValidationError_def)

text \<open>Rendering ends in the right response: inside a route's function, \<open>res.render(name, ctx)\<close>
  renders with the request being handled and sends the text to the response of that request,
  as the only host call it makes.\<close>
theorem render_sends_to_current_response:
  assumes "distinct (pkeys (ho_props rs))" and "(''send'', JFun f) \<in> set (ho_props rs)"
    and "''renderWithRequest'' \<notin> set (pkeys (ho_props rs))"
    and "obj_get (wres s) ''renderWithRequest'' = JFun (FResApi m)"
    and "engines s ''liquid'' = Some svc"
    and "rl svc name (JObj [(''res'', ctx), (''data'', ctx), (''req'', JObj (ho_props rq))]) = Inr text"
  defines "s' \<equiv> wrap_copy rq rs s"
  shows "host_calls (snd (response_render rl service host (JObj (ho_props rq)) [name, ctx] s')) =
     host_calls s @ [HostRes (ho_id rs) ''send'' [text]]"
proof -
  have send: "obj_get (wres s') ''send'' = JFun (FWrapRes (ho_id rs) ''send'')"
    using copy_response_member [OF assms(2,1)] by (simp add: s'_def wrap_copy_def)
  have rwr: "obj_get (wres s') ''renderWithRequest'' = JFun (FResApi m)"
    using copy_response_other [OF assms(3)] assms(4) by (simp add: s'_def wrap_copy_def)
  have eng: "engines s' = engines s" and hc: "host_calls s' = host_calls s"
    by (simp_all add: s'_def wrap_copy_def)
  have "fst (renderWithRequest rl service [JObj (ho_props rq), name, ctx] (engines s')) = Inr text"
    using assms(5,6) by (simp add: eng renderWithRequest_liquid render_arguments_def arg_def liquidRender_def)
  then obtain ts where ts: "renderWithRequest rl service [JObj (ho_props rq), name, ctx] (engines s') = (Inr text, ts)"
    by (metis prod.collapse)
  show ?thesis
    by (simp add: response_render_def rwr ts sbind_def response_send_def send host_call_def
        forward_response_def hc split: sum.splits)
qed

theorem render_sends_to_current_response_witness:
  "host_calls (snd (response_render (\<lambda>svc name locals. Inr (JStr ''<p>'')) 1 (\<lambda>c. Inr JUndef)
      (JObj (ho_props demo_request)) [JStr ''page'', JNull]
      (wrap_copy demo_request demo_response (patch_init\<lparr>engines := [''liquid'' \<mapsto> 1]\<rparr>)))) =
   [HostRes 7 ''send'' [JStr ''<p>'']]"
  using render_sends_to_current_response [of demo_response "FHost 7 ''send''"
      "patch_init\<lparr>engines := [''liquid'' \<mapsto> 1]\<rparr>" "''renderWithRequest''" 1
      "\<lambda>svc name locals. Inr (JStr ''<p>'')" "JStr ''page''" JNull demo_request "JStr ''<p>''" 1
      "\<lambda>c. Inr JUndef"]
  by (simp add: demo_response_def patch_init_def sandboxTemplates_def obj_get_def)

text \<open>A bootstrap script registers its routes in order and stops at the first malformed
  definition, keeping the routes before it; \<open>Sandmox\<close> and \<open>mock\<close> work in versions 1 and 2 and are
  reference errors in version 3.\<close>
theorem bootstrap_registers_in_order:
  assumes "\<forall>c \<in> set good. \<exists>args rc. c = Define ''Sandbox'' args \<and> mock_define args = Inr rc"
  shows "routes (snd (bootstrap v good s)) =
      routes s @ map (\<lambda>c. case c of Define g args \<Rightarrow> projr (mock_define args)) good \<and>
    (mock_define bad = Inl e \<longrightarrow>
      fst (bootstrap v (good @ Define ''Sandbox'' bad # rest) s) = Inl e \<and>
      snd (bootstrap v (good @ Define ''Sandbox'' bad # rest) s) = snd (bootstrap v good s)) \<and>
    fst (bootstrap V3 [Define ''Sandmox'' args] s) = Inl ReferenceErr \<and>
    bootstrap V2 [Define ''Sandmox'' args] s = bootstrap V2 [Define ''Sandbox'' args] s"
proof -
  have run: "fst (sfor (api_step v) good s) = Inr () \<and> routes (snd (sfor (api_step v) good s)) =
      routes s @ map (\<lambda>c. case c of Define g args \<Rightarrow> projr (mock_define args)) good" for s
    using assms
  proof (induction good arbitrary: s)
    case (Cons c good)
    then obtain args rc where c: "c = Define ''Sandbox'' args" "mock_define args = Inr rc" by auto
    then have "api_step v c s = (Inr (), s\<lparr>routes := routes s @ [rc]\<rparr>)" by (cases v) simp_all
    with Cons c show ?case by simp
  qed simp
  then obtain s1 where s1: "sfor (api_step v) good s = (Inr (), s1)" by (metis prod.collapse)
  have "routes (snd (bootstrap v good s)) =
      routes s @ map (\<lambda>c. case c of Define g args \<Rightarrow> projr (mock_define args)) good"
    using run by (simp add: bootstrap_def)
  moreover have "mock_define bad = Inl e \<longrightarrow>
      fst (bootstrap v (good @ Define ''Sandbox'' bad # rest) s) = Inl e \<and>
      snd (bootstrap v (good @ Define ''Sandbox'' bad # rest) s) = snd (bootstrap v good s)"
    using s1 by (cases v) (simp_all add: bootstrap_def sfor_append)
  moreover have "fst (bootstrap V3 [Define ''Sandmox'' args] s) = Inl ReferenceErr"
    "bootstrap V2 [Define ''Sandmox'' args] s = bootstrap V2 [Define ''Sandbox'' args] s"
    by (simp_all add: bootstrap_def sbind_def)
  ultimately show ?thesis by blast
qed

theorem bootstrap_registers_in_order_witness:
  "length (routes (snd (bootstrap V1 [Define ''Sandbox'' [JStr ''/a'', JFun (FUser 0)],
      Define ''Sandbox'' [JStr ''/b'', JFun (FUser 1)]] patch_init))) = 2"
  using bootstrap_registers_in_order [of "[Define ''Sandbox'' [JStr ''/a'', JFun (FUser 0)],
      Define ''Sandbox'' [JStr ''/b'', JFun (FUser 1)]]" V1 patch_init]
  by (simp add: mock_define_def define_arguments_def arg_def is_nullish_def patch_init_def)

end
