(* ===== verification/ModulePaths.thy ===== *)
theory ModulePaths
  imports Prelude
begin

text \<open>
  Name resolution of the \<open>require\<close> in \<open>sandbox-patch.js\<close>: \<open>findRoot\<close>, \<open>resolveAsFile\<close>,
  \<open>normalizeName\<close> and \<open>Require.resolve\<close>. A name is resolved against the directory of the module
  that requires it, and canonicalised with a stack of path parts.
\<close>

section \<open>Resolution\<close>

definition require_root :: string where
  "require_root = ''/''"

text \<open>
  The directory of the requiring module, from its id; the root when there is no such module or
  its id is empty. \<open>pathParts.pop()\<close> drops the last part.
\<close>

definition findRoot :: "string option \<Rightarrow> string" where
  "findRoot parent = (case parent of
     None \<Rightarrow> require_root
   | Some pid \<Rightarrow>
       if pid = [] then require_root
       else join_with (CHR ''/'') (butlast (split_on (CHR ''/'') pid)))"

text \<open>
  One part of the path. The \<open>return false\<close> of the source's callback leaves that call of the
  callback only: a step above the root is skipped and the walk goes on with the next part.
\<close>

definition path_step :: "string list \<Rightarrow> string \<Rightarrow> string list" where
  "path_step pathParts part =
     (if starts_with part ''..'' then (if pathParts = [] then pathParts else butlast pathParts)
      else if \<not> starts_with part ''.'' \<and> part \<noteq> [] then pathParts @ [part]
      else pathParts)"

definition normalizeName :: "string \<Rightarrow> string" where
  "normalizeName fileName =
     (if ends_with fileName ''.js'' \<or> ends_with fileName ''.json'' then fileName
      else fileName @ ''.js'')"

definition path_parts :: "string \<Rightarrow> string \<Rightarrow> string list" where
  "path_parts name rootPath = foldl path_step [] (split_on (CHR ''/'') (rootPath @ ''/'' @ name))"

definition canonicalFilePath :: "string \<Rightarrow> string \<Rightarrow> string" where
  "canonicalFilePath name rootPath = normalizeName (join_with (CHR ''/'') (path_parts name rootPath))"

definition resolveAsFile :: "(string \<Rightarrow> bool) \<Rightarrow> string \<Rightarrow> string \<Rightarrow> string option" where
  "resolveAsFile hasFile name rootPath =
     (if hasFile (canonicalFilePath name rootPath) then Some (canonicalFilePath name rootPath) else None)"

text \<open>\<open>Require.resolve\<close>: an empty path would count as not found.\<close>

definition Require_resolve :: "(string \<Rightarrow> bool) \<Rightarrow> string \<Rightarrow> string option \<Rightarrow> string option" where
  "Require_resolve hasFile name parent =
     (case resolveAsFile hasFile name (findRoot parent) of
        Some result \<Rightarrow> if result = [] then None else Some result
      | None \<Rightarrow> None)"

section \<open>Clean parts\<close>

text \<open>A part the walk keeps: not empty, no leading dot, no separator.\<close>

definition clean_part :: "string \<Rightarrow> bool" where
  "clean_part p \<longleftrightarrow> p \<noteq> [] \<and> \<not> starts_with p ''.'' \<and> CHR ''/'' \<notin> set p"

lemma path_step_clean [simp]: "clean_part p \<Longrightarrow> path_step ps p = ps @ [p]"
  using starts_with_dots by (auto simp: path_step_def clean_part_def)

lemma path_step_up [simp]: "path_step ps ''..'' = butlast ps"
  by (simp add: path_step_def starts_with_def)

lemma path_step_skip [simp]: "path_step ps [] = ps" "path_step ps ''.'' = ps"
  by (simp_all add: path_step_def starts_with_def)

lemma path_steps_clean: "\<forall>p \<in> set qs. clean_part p \<Longrightarrow> foldl path_step ps qs = ps @ qs"
  by (induction qs arbitrary: ps) auto

lemma path_steps_up: "foldl path_step ps (replicate n ''..'') = take (length ps - n) ps"
proof (induction n arbitrary: ps)
  case (Suc n)
  have "take (length (butlast ps) - n) (butlast ps) = take (length ps - Suc n) ps"
    by (simp add: butlast_conv_take min_def)
  with Suc show ?case by simp
qed simp

text \<open>Whatever parts are walked, only clean ones are on the stack.\<close>

lemma path_steps_keep_clean:
  assumes "\<forall>p \<in> set ps. clean_part p" and "\<forall>q \<in> set qs. CHR ''/'' \<notin> set q"
  shows "\<forall>p \<in> set (foldl path_step ps qs). clean_part p"
  using assms
proof (induction qs arbitrary: ps)
  case (Cons q qs)
  have "\<forall>p \<in> set (butlast ps). clean_part p"
    using Cons.prems(1) in_set_butlastD by fast
  moreover have "\<not> starts_with q ''.'' \<and> q \<noteq> [] \<Longrightarrow> clean_part q"
    using Cons.prems(2) by (simp add: clean_part_def)
  ultimately have "\<forall>p \<in> set (path_step ps q). clean_part p"
    using Cons.prems(1) by (simp add: path_step_def)
  from Cons.IH [OF this] Cons.prems(2) show ?case by auto
qed simp

lemma path_parts_clean: "\<forall>p \<in> set (path_parts name rootPath). clean_part p"
  unfolding path_parts_def
  by (rule path_steps_keep_clean) (auto dest: split_on_no_sep)

lemma path_parts_app:
  "path_parts name rootPath = foldl path_step (foldl path_step [] (split_on (CHR ''/'') rootPath))
     (split_on (CHR ''/'') name)"
  using split_on_app [of "CHR ''/''" rootPath name] by (simp add: path_parts_def)

section \<open>Normalised names\<close>

lemma normalizeName_cases:
  obtains "normalizeName f = f" | "normalizeName f = f @ ''.js''"
  unfolding normalizeName_def by presburger

lemma normalizeName_ends: "ends_with (normalizeName f) ''.js'' \<or> ends_with (normalizeName f) ''.json''"
  by (auto simp: normalizeName_def ends_with_suffix suffix_def)

lemma normalizeName_idem [simp]: "normalizeName (normalizeName f) = normalizeName f"
  using normalizeName_ends [of f] by (auto simp: normalizeName_def)

lemma normalizeName_nonempty [simp]: "normalizeName f \<noteq> []"
  by (auto simp: normalizeName_def ends_with_def)

lemma canonical_nonempty [simp]: "canonicalFilePath name rootPath \<noteq> []"
  by (simp add: canonicalFilePath_def)

lemma normalizeName_no_sep: "c \<notin> set f \<Longrightarrow> c \<notin> set ''.js'' \<Longrightarrow> c \<notin> set (normalizeName f)"
  by (rule normalizeName_cases [of f]) auto

lemma starts_with_append: "p \<noteq> [] \<Longrightarrow> starts_with (p @ q) [c] \<longleftrightarrow> starts_with p [c]"
  by (cases p) (auto simp: starts_with_def)

lemma clean_part_append: "clean_part p \<Longrightarrow> CHR ''/'' \<notin> set q \<Longrightarrow> clean_part (p @ q)"
  using starts_with_append [of p q "CHR ''.''"] by (auto simp: clean_part_def)

lemma ends_with_last_part:
  assumes "ps \<noteq> []" and "CHR ''/'' \<notin> set e" and "e \<noteq> []"
    and "ends_with (last ps) e \<or> ends_with (join_with (CHR ''/'') ps) e"
  shows "ends_with (join_with (CHR ''/'') ps) e"
  using assms
proof (induction ps)
  case (Cons p ps)
  show ?case
  proof (cases "ps = []")
    case False
    with Cons.prems have "ends_with (last ps) e \<or> ends_with (join_with (CHR ''/'') (p # ps)) e"
      by auto
    then show ?thesis
    proof
      assume "ends_with (last ps) e"
      with Cons False have "suffix e (join_with (CHR ''/'') ps)"
        by (simp add: ends_with_suffix)
      then show ?thesis using False
        by (auto simp: join_with_Cons ends_with_suffix suffix_def)
    qed
  qed (use Cons.prems in auto)
qed simp

text \<open>
  The parts of a canonical path: the walked parts with the extension on the last one, or the bare
  extension when the walk left nothing.
\<close>

lemma canonical_parts:
  assumes "path_parts name rootPath = ps @ [p]"
  shows "\<exists>e. canonicalFilePath name rootPath = join_with (CHR ''/'') (ps @ [p @ e]) \<and> e \<in> {[], ''.js''}"
proof (rule normalizeName_cases [of "join_with (CHR ''/'') (ps @ [p])"])
  assume "normalizeName (join_with (CHR ''/'') (ps @ [p])) = join_with (CHR ''/'') (ps @ [p])"
  then show ?thesis using assms by (intro exI [of _ "[]"]) (simp add: canonicalFilePath_def)
next
  assume "normalizeName (join_with (CHR ''/'') (ps @ [p])) = join_with (CHR ''/'') (ps @ [p]) @ ''.js''"
  moreover have "join_with (CHR ''/'') (ps @ [p]) @ ''.js'' = join_with (CHR ''/'') (ps @ [p @ ''.js''])"
    by (cases "ps = []") (simp_all add: join_with_snoc)
  ultimately show ?thesis using assms
    by (intro exI [of _ "''.js''"]) (simp add: canonicalFilePath_def)
qed

lemma canonical_split:
  "split_on (CHR ''/'') (canonicalFilePath name rootPath) = [''.js''] \<or>
   (\<forall>q \<in> set (split_on (CHR ''/'') (canonicalFilePath name rootPath)). clean_part q)"
proof (cases "path_parts name rootPath" rule: rev_cases)
  case Nil
  then have "canonicalFilePath name rootPath = ''.js''"
    by (simp add: canonicalFilePath_def normalizeName_def ends_with_def)
  then show ?thesis by simp
next
  case (snoc ps p)
  then obtain e where e: "canonicalFilePath name rootPath = join_with (CHR ''/'') (ps @ [p @ e])"
    "e \<in> {[], ''.js''}"
    using canonical_parts by blast
  from path_parts_clean [of name rootPath] snoc
  have clean: "\<forall>q \<in> set ps. clean_part q" "clean_part p" by auto
  have "clean_part (p @ e)" using clean(2) e(2) by (auto intro: clean_part_append)
  with clean(1) have all: "\<forall>q \<in> set (ps @ [p @ e]). clean_part q" by simp
  then have "split_on (CHR ''/'') (join_with (CHR ''/'') (ps @ [p @ e])) = ps @ [p @ e]"
    by (intro split_join) (auto simp: clean_part_def)
  with all show ?thesis by (simp add: e(1))
qed

section \<open>What resolution promises\<close>

text \<open>The interface of name resolution for the module loader: what it finds exists.\<close>

locale file_resolver =
  fixes resolve :: "string \<Rightarrow> string option \<Rightarrow> string option"
    and exists_file :: "string \<Rightarrow> bool"
  assumes resolve_exists: "resolve name parent = Some f \<Longrightarrow> exists_file f"
    and resolve_confined: "resolve name parent = Some f \<Longrightarrow> ''..'' \<notin> set (split_on (CHR ''/'') f)"
    and resolve_nonempty: "resolve name parent = Some f \<Longrightarrow> f \<noteq> []"
begin

text \<open>Only finitely many modules can be found in a finite set of files.\<close>

lemma range_subset: "{f. \<exists>name parent. resolve name parent = Some f} \<subseteq> {f. exists_file f}"
  using resolve_exists by blast

lemma finite_range: "finite {f. exists_file f} \<Longrightarrow> finite {f. \<exists>name parent. resolve name parent = Some f}"
  using range_subset by (rule finite_subset)

end

lemma clean_not_up: "clean_part q \<Longrightarrow> q \<noteq> ''..''"
  by (auto simp: clean_part_def starts_with_def)

lemma canonical_confined: "''..'' \<notin> set (split_on (CHR ''/'') (canonicalFilePath name rootPath))"
  using canonical_split [of name rootPath] clean_not_up by auto

lemma Require_resolve_Some:
  "Require_resolve hasFile name parent = Some f \<longleftrightarrow>
     f = canonicalFilePath name (findRoot parent) \<and> hasFile f"
  by (auto simp: Require_resolve_def resolveAsFile_def split: if_splits)

interpretation paths: file_resolver "Require_resolve hasFile" hasFile for hasFile
  by unfold_locales (auto simp: Require_resolve_Some canonical_confined)

section \<open>Properties\<close>

text \<open>C4: resolution cannot leave the repository: whatever name is required from whatever module,
  the file found exists, is addressed from the repository root, and none of its path parts is
  \<open>..\<close>; all of them are non-empty and without a leading dot, but for the bare name \<open>.js\<close> that an
  empty path becomes.\<close>
theorem resolution_confined:
  assumes "Require_resolve hasFile name parent = Some f"
  shows "hasFile f \<and> ''..'' \<notin> set (split_on (CHR ''/'') f) \<and>
    (f = ''.js'' \<or> (\<forall>q \<in> set (split_on (CHR ''/'') f). q \<noteq> [] \<and> \<not> starts_with q ''.''))"
proof (intro conjI)
  show "hasFile f" using assms by (rule paths.resolve_exists)
  show "''..'' \<notin> set (split_on (CHR ''/'') f)" using assms by (rule paths.resolve_confined)
  have "f = canonicalFilePath name (findRoot parent)" using assms by (simp add: Require_resolve_Some)
  then show "f = ''.js'' \<or> (\<forall>q \<in> set (split_on (CHR ''/'') f). q \<noteq> [] \<and> \<not> starts_with q ''.'')"
    using canonical_split [of name "findRoot parent"] join_split [of "CHR ''/''" f]
    by (auto simp: clean_part_def)
qed

theorem resolution_confined_witness:
  "''..'' \<notin> set (split_on (CHR ''/'')
     (the (Require_resolve (\<lambda>f. True) ''../../../etc/passwd'' (Some ''lib/a.js''))))"
  by (rule resolution_confined [THEN conjunct2, THEN conjunct1, of "\<lambda>f. True"])
    (simp add: Require_resolve_Some Require_resolve_def resolveAsFile_def)

text \<open>
  What the parts of a relative name mean: \<open>.\<close> and empty parts can be left out, and a part followed by \<open>..\<close>.
\<close>

inductive simplifies :: "string list \<Rightarrow> string list \<Rightarrow> bool" where
  simple: "simplifies qs qs"
| left_out: "q = [] \<or> q = ''.'' \<Longrightarrow> simplifies (xs @ ys) qs \<Longrightarrow> simplifies (xs @ q # ys) qs"
| cancelled: "clean_part p \<Longrightarrow> simplifies (xs @ ys) qs \<Longrightarrow> simplifies (xs @ p # ''..'' # ys) qs"

lemma simplifies_trans: "simplifies ps qs \<Longrightarrow> simplifies qs rs \<Longrightarrow> simplifies ps rs"
  by (induction rule: simplifies.induct) (auto intro: simplifies.intros)

lemma simplifies_append: "simplifies ps qs \<Longrightarrow> simplifies (ps @ zs) (qs @ zs)"
proof (induction rule: simplifies.induct)
  case (left_out q xs ys qs)
  then show ?case using simplifies.left_out [of q xs "ys @ zs"] by simp
next
  case (cancelled p xs ys qs)
  then show ?case using simplifies.cancelled [of p xs "ys @ zs"] by simp
qed (rule simplifies.simple)

lemma simplifies_steps: "simplifies ps qs \<Longrightarrow> foldl path_step ds ps = foldl path_step ds qs"
proof (induction rule: simplifies.induct)
  case (left_out q xs ys qs)
  then show ?case by auto
qed simp_all

lemma simplifies_normal:
  "\<forall>p \<in> set parts. clean_part p \<or> p \<in> {[], ''.'', ''..''} \<Longrightarrow>
   \<exists>n ps. simplifies parts (replicate n ''..'' @ ps) \<and> (\<forall>p \<in> set ps. clean_part p)"
proof (induction parts rule: rev_induct)
  case Nil
  have "simplifies [] (replicate 0 ''..'' @ [])" by (simp add: simplifies.simple)
  then show ?case by (metis empty_iff empty_set)
next
  case (snoc q parts)
  then obtain n ps where IH: "simplifies parts (replicate n ''..'' @ ps)" "\<forall>p \<in> set ps. clean_part p" by auto
  then have step: "simplifies (replicate n ''..'' @ ps @ [q]) rs \<Longrightarrow> simplifies (parts @ [q]) rs" for rs
    using simplifies_append [OF IH(1), of "[q]"] simplifies_trans by fastforce
  consider "clean_part q" | "q = [] \<or> q = ''.''" | "q = ''..''" "ps = []"
    | p ps' where "q = ''..''" "ps = ps' @ [p]"
    using snoc.prems by (cases ps rule: rev_cases) auto
  then show ?case
  proof cases
    case 1
    with IH(2) step [OF simplifies.simple] show ?thesis by (intro exI [of _ n] exI [of _ "ps @ [q]"]) auto
  next
    case 2
    then have "simplifies (replicate n ''..'' @ ps @ [q]) (replicate n ''..'' @ ps)"
      using simplifies.left_out [of q "replicate n ''..'' @ ps" "[]"] by (simp add: simplifies.simple)
    with IH(2) step show ?thesis by blast
  next
    case 3
    have "simplifies (replicate n ''..'' @ ps @ [q]) (replicate (Suc n) ''..'' @ [])"
      using simplifies.simple [of "replicate (Suc n) ''..''"] by (simp add: 3 replicate_append_same)
    with step show ?thesis by (metis empty_iff empty_set)
  next
    case (4 p ps')
    then have "simplifies (replicate n ''..'' @ ps @ [q]) (replicate n ''..'' @ ps')"
      using simplifies.cancelled [of p "replicate n ''..'' @ ps'" "[]"] IH(2) by (simp add: simplifies.simple)
    with 4 IH(2) step show ?thesis by (metis Un_iff set_append)
  qed
qed

lemma findRoot_directory:
  assumes "\<forall>d \<in> set ds. clean_part d" and "clean_part m"
  shows "findRoot (Some (join_with (CHR ''/'') (ds @ [m]))) = join_with (CHR ''/'') ds"
proof -
  have "\<forall>d \<in> set (ds @ [m]). CHR ''/'' \<notin> set d" using assms by (auto simp: clean_part_def)
  then have sp: "split_on (CHR ''/'') (join_with (CHR ''/'') (ds @ [m])) = ds @ [m]"
    by (intro split_join) auto
  have "join_with (CHR ''/'') (ds @ [m]) \<noteq> []"
    using sp assms(2) by (cases "join_with (CHR ''/'') (ds @ [m]) = []") (auto simp: clean_part_def Cons_eq_append_conv)
  then show ?thesis by (simp add: findRoot_def sp)
qed

lemma directory_steps:
  assumes "\<forall>d \<in> set ds. clean_part d"
  shows "foldl path_step [] (split_on (CHR ''/'') (join_with (CHR ''/'') ds)) = ds"
proof (cases "ds = []")
  case False
  then have "split_on (CHR ''/'') (join_with (CHR ''/'') ds) = ds"
    using assms by (intro split_join) (auto simp: clean_part_def)
  then show ?thesis using path_steps_clean [OF assms, of "[]"] by simp
qed simp

text \<open>C25: relative names mean what they say: a name of parts that are \<open>.\<close>, \<open>..\<close>, empty or names without a
  leading dot, in any order, simplifies to steps up followed by names, and from a module in the
  directory \<open>ds\<close> it is the file with these names in the directory that many steps above \<open>ds\<close>. Steps
  above the root are skipped; they do not end the walk, as the comment in the source has it.\<close>
theorem relative_resolution:
  assumes "\<forall>d \<in> set ds. clean_part d" and "clean_part m"
    and "\<forall>p \<in> set parts. clean_part p \<or> p \<in> {[], ''.'', ''..''}" and "parts \<noteq> []"
  shows "(\<exists>n ps. simplifies parts (replicate n ''..'' @ ps) \<and> (\<forall>p \<in> set ps. clean_part p)) \<and>
    (\<forall>n ps. simplifies parts (replicate n ''..'' @ ps) \<longrightarrow> (\<forall>p \<in> set ps. clean_part p) \<longrightarrow>
      canonicalFilePath (join_with (CHR ''/'') parts) (findRoot (Some (join_with (CHR ''/'') (ds @ [m])))) =
        normalizeName (join_with (CHR ''/'') (take (length ds - n) ds @ ps)))"
proof (intro conjI allI impI)
  show "\<exists>n ps. simplifies parts (replicate n ''..'' @ ps) \<and> (\<forall>p \<in> set ps. clean_part p)"
    by (rule simplifies_normal [OF assms(3)])
  fix n ps assume ps: "simplifies parts (replicate n ''..'' @ ps)" "\<forall>p \<in> set ps. clean_part p"
  have "CHR ''/'' \<notin> set p" if "clean_part p \<or> p \<in> {[], ''.'', ''..''}" for p
    using that by (elim disjE insertE emptyE) (simp_all add: clean_part_def)
  then have "\<forall>p \<in> set parts. CHR ''/'' \<notin> set p" using assms(3) by blast
  then have "split_on (CHR ''/'') (join_with (CHR ''/'') parts) = parts" by (rule split_join [OF assms(4)])
  then show "canonicalFilePath (join_with (CHR ''/'') parts) (findRoot (Some (join_with (CHR ''/'') (ds @ [m])))) =
      normalizeName (join_with (CHR ''/'') (take (length ds - n) ds @ ps))"
    by (simp add: canonicalFilePath_def path_parts_app findRoot_directory [OF assms(1,2)] directory_steps [OF assms(1)]
        simplifies_steps [OF ps(1)] path_steps_up path_steps_clean [OF ps(2)])
qed

theorem relative_resolution_witness:
  "canonicalFilePath ''../x/.././../../users'' (findRoot (Some ''api/v1/main.js'')) = ''users.js''"
proof -
  have clean: "clean_part ''x''" "clean_part ''users''" "clean_part ''api''" "clean_part ''v1''" "clean_part ''main.js''"
    by (simp_all add: clean_part_def starts_with_def)
  have parts: "simplifies [''..'', ''x'', ''..'', ''.'', ''..'', ''..'', ''users''] (replicate 3 ''..'' @ [''users''])"
    using simplifies.cancelled [OF clean(1), of "[''..'']" "[''.'', ''..'', ''..'', ''users'']"]
      simplifies.left_out [of "''.''" "[''..'']" "[''..'', ''..'', ''users'']"]
    by (simp add: numeral_3_eq_3 simplifies.simple)
  have "canonicalFilePath (join_with (CHR ''/'') [''..'', ''x'', ''..'', ''.'', ''..'', ''..'', ''users''])
      (findRoot (Some (join_with (CHR ''/'') ([''api'', ''v1''] @ [''main.js''])))) =
      normalizeName (join_with (CHR ''/'') (take (length [''api'', ''v1''] - 3) [''api'', ''v1''] @ [''users'']))"
    by (rule relative_resolution [THEN conjunct2, rule_format, OF _ _ _ _ parts]) (use clean in auto)
  then show ?thesis by (simp add: normalizeName_def ends_with_def)
qed

text \<open>Canonical names are fixed points: resolving a found file's own name again, from the root,
  finds the same file, so the module cache has one key per file.\<close>
theorem canonical_idempotent:
  "canonicalFilePath (canonicalFilePath name rootPath) require_root = canonicalFilePath name rootPath"
proof (cases "path_parts name rootPath" rule: rev_cases)
  case Nil
  then show ?thesis
    by (simp add: canonicalFilePath_def path_parts_app require_root_def normalizeName_def
        ends_with_def path_step_def starts_with_def)
next
  case (snoc ps p)
  then obtain e where e: "canonicalFilePath name rootPath = join_with (CHR ''/'') (ps @ [p @ e])"
    "e \<in> {[], ''.js''}"
    using canonical_parts by blast
  have "\<forall>q \<in> set (ps @ [p @ e]). clean_part q"
    using path_parts_clean [of name rootPath] snoc e(2) by (auto intro: clean_part_append)
  then have "path_parts (canonicalFilePath name rootPath) require_root = ps @ [p @ e]"
    unfolding e(1) path_parts_app
    by (subst split_join) (auto simp: clean_part_def require_root_def path_steps_clean)
  then have "canonicalFilePath (canonicalFilePath name rootPath) require_root =
      normalizeName (canonicalFilePath name rootPath)"
    unfolding canonicalFilePath_def [of "canonicalFilePath name rootPath"] by (simp add: e(1))
  also have "\<dots> = canonicalFilePath name rootPath" by (simp add: canonicalFilePath_def)
  finally show ?thesis using snoc by simp
qed

end
