(* ===== verification/ModuleSystem.thy ===== *)
theory ModuleSystem
  imports JsValue ModulePaths
begin

text \<open>
  The module system of \<open>sandbox-patch.js\<close>: \<open>Module\<close>, \<open>Module._load\<close>, \<open>Require\<close>, \<open>loadModule\<close>
  and \<open>readFile\<close>, over a store of mutable export objects. What the code of a module does to the
  module system is a tree of its interactions (\<open>body\<close>); compiling a source text to such a tree
  is the engine's \<open>load\<close>, a parameter, as are the file service and the JSON parser.
\<close>

section \<open>Values, modules and the state\<close>

text \<open>An exported value: data, or the address of a mutable object.\<close>

datatype mval = MData jsv | MRef nat

fun truthy_m :: "mval \<Rightarrow> bool" where
  "truthy_m (MData v) = truthy v"
| "truthy_m (MRef a) = True"

record module =
  m_id :: string
  m_parent :: "nat option"
  m_children :: "nat list"
  m_filename :: string
  m_loaded :: bool
  m_exports :: mval

text \<open>Modules are numbered in the order they are made; \<open>cache\<close> is \<open>Require.cache\<close>.\<close>

record mstate =
  modules :: "module list"
  cache :: "mval props"
  heap :: "mval props list"

definition mstate_init :: mstate where
  "mstate_init = \<lparr>modules = [], cache = [], heap = []\<rparr>"

section \<open>Module code\<close>

text \<open>
  The interactions of module code: it ends, throws, makes an object, writes or reads a property of
  an object, assigns or reads the \<open>exports\<close> of a module (its own, or one it reaches through
  \<open>module.parent\<close>), or requires another module and goes on with the value or, if it catches it,
  the error. \<open>Req (Some i)\<close> is the \<open>require\<close> of module \<open>i\<close>, \<open>Req None\<close> the global one.
\<close>

datatype body =
    Done
  | Throw jserr
  | NewObj "nat \<Rightarrow> body"
  | SetProp nat string mval body
  | GetProp nat string "mval \<Rightarrow> body"
  | SetExports nat mval body
  | GetExports nat "mval \<Rightarrow> body"
  | Req "nat option" string "jserr + mval \<Rightarrow> body"

text \<open>The arguments of the module function: \<open>exports, require, module, __filename, __dirname\<close>.\<close>

record mod_args =
  ma_exports :: mval
  ma_module :: nat
  ma_filename :: string
  ma_dirname :: string

record mod_env =
  me_hasFile :: "string \<Rightarrow> bool"
  me_readFile :: "string \<Rightarrow> string option"
  me_load :: "string \<Rightarrow> string \<Rightarrow> jserr + (mod_args \<Rightarrow> body)"
  me_parse :: "string \<Rightarrow> jserr + jsv"

section \<open>The Module constructor\<close>

text \<open>The setter of \<open>module.exports\<close>: the cache entry of the module's file and the value.\<close>

definition set_exports :: "nat \<Rightarrow> mval \<Rightarrow> mstate \<Rightarrow> mstate" where
  "set_exports m v s =
     s\<lparr>cache := pset (m_filename (modules s ! m)) v (cache s),
       modules := (modules s)[m := (modules s ! m)\<lparr>m_exports := v\<rparr>]\<rparr>"

definition push_child :: "nat option \<Rightarrow> nat \<Rightarrow> mstate \<Rightarrow> mstate" where
  "push_child parent m s =
     (case parent of
        None \<Rightarrow> s
      | Some p \<Rightarrow> s\<lparr>modules :=
          (modules s)[p := (modules s ! p)\<lparr>m_children := m_children (modules s ! p) @ [m]\<rparr>]\<rparr>)"

text \<open>
  \<open>new Module(id, parent)\<close>: the fields, then \<open>this.exports = {}\<close> through the setter, then the entry
  in the parent's children. The result is the new module's number.
\<close>

definition new_module :: "string \<Rightarrow> nat option \<Rightarrow> mstate \<Rightarrow> nat \<times> mstate" where
  "new_module file parent s =
     (let m = length (modules s);
          s1 = s\<lparr>modules := modules s @ [\<lparr>m_id = file, m_parent = parent, m_children = [],
                   m_filename = file, m_loaded = False, m_exports = MData JUndef\<rparr>]\<rparr>;
          s2 = set_exports m (MRef (length (heap s1))) (s1\<lparr>heap := heap s1 @ [[]]\<rparr>)
      in (m, push_child parent m s2))"

section \<open>Running a module\<close>

definition readFile :: "mod_env \<Rightarrow> string \<Rightarrow> jserr + string" where
  "readFile env filename =
     (case me_readFile env filename of
        None \<Rightarrow> Inl (Thrown [JStr ''Cannot get file: '', JStr filename])
      | Some t \<Rightarrow> Inr t)"

text \<open>Reading a property of an object made by \<open>{}\<close>: its own, else one of \<open>Object.prototype\<close>.\<close>

definition heap_get :: "nat \<Rightarrow> string \<Rightarrow> mstate \<Rightarrow> mval" where
  "heap_get a k s =
     (case (if a < length (heap s) then map_of (heap s ! a) k else None) of
        Some v \<Rightarrow> v
      | None \<Rightarrow> MData (inherited object_proto k))"

definition heap_set :: "nat \<Rightarrow> string \<Rightarrow> mval \<Rightarrow> mstate \<Rightarrow> mstate" where
  "heap_set a k v s = s\<lparr>heap := (heap s)[a := pset k v (heap s ! a)]\<rparr>"

text \<open>
  The code of a module, with \<open>req\<close> as \<open>Require\<close>; \<open>None\<close> is a run that does not return. A number
  that names no module, which JavaScript code cannot hold, reads \<open>undefined\<close>, writes nothing and
  requires as the global \<open>require\<close> does.
\<close>

definition known :: "mstate \<Rightarrow> nat option \<Rightarrow> nat option" where
  "known s parent = (case parent of
     Some p \<Rightarrow> if p < length (modules s) then Some p else None
   | None \<Rightarrow> None)"

primrec run_body ::
  "(string \<Rightarrow> nat option \<Rightarrow> mstate \<Rightarrow> ((jserr + mval) \<times> mstate) option) \<Rightarrow>
     body \<Rightarrow> mstate \<Rightarrow> ((jserr + unit) \<times> mstate) option" where
  "run_body req Done s = Some (Inr (), s)"
| "run_body req (Throw e) s = Some (Inl e, s)"
| "run_body req (NewObj k) s = run_body req (k (length (heap s))) (s\<lparr>heap := heap s @ [[]]\<rparr>)"
| "run_body req (SetProp a p v b) s = run_body req b (heap_set a p v s)"
| "run_body req (GetProp a p k) s = run_body req (k (heap_get a p s)) s"
| "run_body req (SetExports i v b) s =
     run_body req b (if i < length (modules s) then set_exports i v s else s)"
| "run_body req (GetExports i k) s =
     run_body req (k (if i < length (modules s) then m_exports (modules s ! i) else MData JUndef)) s"
| "run_body req (Req parent name k) s =
     (case req name (known s parent) s of None \<Rightarrow> None | Some (r, s1) \<Rightarrow> run_body req (k r) s1)"

definition newline :: char where
  "newline = CHR 0x0A"

text \<open>\<open>Module._load\<close>: note the last two arguments of the module function.\<close>

definition funcBody :: "string \<Rightarrow> string" where
  "funcBody text = ''(function (exports, require, module, __filename, __dirname) { '' @ text @
     newline # ''});''"

definition mark_loaded :: "nat \<Rightarrow> mstate \<Rightarrow> mstate" where
  "mark_loaded m s = s\<lparr>modules := (modules s)[m := (modules s ! m)\<lparr>m_loaded := True\<rparr>]\<rparr>"

definition Module_load ::
  "(string \<Rightarrow> nat option \<Rightarrow> mstate \<Rightarrow> ((jserr + mval) \<times> mstate) option) \<Rightarrow>
     mod_env \<Rightarrow> nat \<Rightarrow> mstate \<Rightarrow> ((jserr + unit) \<times> mstate) option" where
  "Module_load req env m s =
     (let md = modules s ! m
      in if m_loaded md then Some (Inr (), s)
         else case rbind (readFile env (m_filename md))
                     (\<lambda>text. me_load env (funcBody text) (m_filename md)) of
           Inl e \<Rightarrow> Some (Inl e, s)
         | Inr func \<Rightarrow>
             (case run_body req
                 (func \<lparr>ma_exports = m_exports md, ma_module = m, ma_filename = m_filename md,
                        ma_dirname = m_filename md\<rparr>) s of
                None \<Rightarrow> None
              | Some (Inl e, s1) \<Rightarrow> Some (Inl e, s1)
              | Some (Inr _, s1) \<Rightarrow> Some (Inr (), mark_loaded m s1)))"

definition loadModule ::
  "(string \<Rightarrow> nat option \<Rightarrow> mstate \<Rightarrow> ((jserr + mval) \<times> mstate) option) \<Rightarrow>
     mod_env \<Rightarrow> string \<Rightarrow> nat option \<Rightarrow> mstate \<Rightarrow> ((jserr + mval) \<times> mstate) option" where
  "loadModule req env file parent s =
     (case new_module file parent s of (m, s1) \<Rightarrow>
        (case Module_load req env m s1 of
           None \<Rightarrow> None
         | Some (Inl e, s2) \<Rightarrow> Some (Inl e, s2)
         | Some (Inr _, s2) \<Rightarrow> Some (Inr (m_exports (modules s2 ! m)), s2)))"

definition parent_id :: "mstate \<Rightarrow> nat option \<Rightarrow> string option" where
  "parent_id s parent = map_option (\<lambda>p. m_id (modules s ! p)) parent"

text \<open>\<open>if (Require.cache[file]) return Require.cache[file]\<close>, and the two ways to get the value.\<close>

definition cache_hit :: "mstate \<Rightarrow> string \<Rightarrow> mval option" where
  "cache_hit s file =
     (case map_of (cache s) file of
        Some v \<Rightarrow> if truthy_m v then Some v else None
      | None \<Rightarrow> None)"

definition read_json :: "mod_env \<Rightarrow> string \<Rightarrow> jserr + mval" where
  "read_json env file = rbind (rbind (readFile env file) (me_parse env)) (\<lambda>v. Inr (MData v))"

text \<open>
  \<open>Require(id, parent)\<close>. The first argument bounds the depth of nested requires, as the engine's
  call stack does; \<open>None\<close> is a require that exceeds it.
\<close>

primrec Require ::
  "nat \<Rightarrow> mod_env \<Rightarrow> string \<Rightarrow> nat option \<Rightarrow> mstate \<Rightarrow> ((jserr + mval) \<times> mstate) option" where
  "Require 0 env name parent s = None"
| "Require (Suc n) env name parent s =
     (case Require_resolve (me_hasFile env) name (parent_id s parent) of
        None \<Rightarrow> Some (Inl (Thrown [JStr ''Cannot find module: '', JStr name]), s)
      | Some file \<Rightarrow>
          (case cache_hit s file of
             Some v \<Rightarrow> Some (Inr v, s)
           | None \<Rightarrow>
               if ends_with file ''.json'' then Some (read_json env file, s)
               else loadModule (Require n env) env file parent s))"

end
