(* ===== verification/ModuleLaws.thy ===== *)
theory ModuleLaws
  imports ModuleSystem
begin

text \<open>
  What the module system keeps and promises: a locale for invariants of the module state and one
  for a \<open>require\<close> that returns, both interpreted on \<open>Require\<close>; the module tree, the registry of
  loaded files, and the properties of \<open>require\<close> built on them.
\<close>

section \<open>How the state grows\<close>

text \<open>Modules are never removed, nor do their file, id or parent change.\<close>

definition extends :: "mstate \<Rightarrow> mstate \<Rightarrow> bool" where
  "extends s t \<longleftrightarrow> length (modules s) \<le> length (modules t) \<and>
     (\<forall>i < length (modules s). m_filename (modules t ! i) = m_filename (modules s ! i) \<and>
        m_id (modules t ! i) = m_id (modules s ! i) \<and> m_parent (modules t ! i) = m_parent (modules s ! i))"

lemma extends_refl [simp]: "extends s s"
  by (simp add: extends_def)

lemma extends_trans [trans]: "extends s t \<Longrightarrow> extends t u \<Longrightarrow> extends s u"
  by (simp add: extends_def)

lemma extends_heap [simp]: "extends s (heap_update f s)" "extends s (heap_set a k v s)"
  by (simp_all add: extends_def heap_set_def)

lemma extends_list_update:
  assumes "m_filename x = m_filename (modules s ! i)" "m_id x = m_id (modules s ! i)"
    "m_parent x = m_parent (modules s ! i)"
    "modules t = (modules s)[i := x]"
  shows "extends s t"
  using assms by (auto simp: extends_def nth_update_if)

lemma extends_exports [simp]: "extends s (set_exports i v s)"
  by (rule extends_list_update [where i = i]) (simp_all add: set_exports_def)

lemma extends_mark [simp]: "extends s (mark_loaded i s)"
  by (rule extends_list_update [where i = i]) (simp_all add: mark_loaded_def)

lemma extends_push [simp]: "extends s (push_child parent m s)"
proof (cases parent)
  case (Some p)
  show ?thesis
    by (rule extends_list_update [where i = p]) (simp_all add: Some push_child_def)
qed (simp add: push_child_def)

lemma extends_length: "extends s t \<Longrightarrow> length (modules s) \<le> length (modules t)"
  by (simp add: extends_def)

lemma extends_new: "extends s (snd (new_module file parent s))"
proof -
  let ?s1 = "s\<lparr>modules := modules s @ [\<lparr>m_id = file, m_parent = parent, m_children = [],
                   m_filename = file, m_loaded = False, m_exports = MData JUndef\<rparr>]\<rparr>"
  have "extends s ?s1" by (simp add: extends_def nth_append)
  also have "extends ?s1 (?s1\<lparr>heap := heap ?s1 @ [[]]\<rparr>)" by (rule extends_heap)
  finally show ?thesis
    unfolding new_module_def Let_def snd_conv
    by (meson extends_exports extends_push extends_trans)
qed

lemma fst_new [simp]: "fst (new_module file parent s) = length (modules s)"
  by (simp add: new_module_def Let_def)

lemma length_set_exports [simp]: "length (modules (set_exports i v s)) = length (modules s)"
  by (simp add: set_exports_def)

lemma length_push_child [simp]: "length (modules (push_child p i s)) = length (modules s)"
  by (simp add: push_child_def split: option.splits)

lemma length_new [simp]: "length (modules (snd (new_module file parent s))) = Suc (length (modules s))"
  by (simp add: new_module_def Let_def)

lemma known_id: "known s parent = parent \<longleftrightarrow> (\<forall>p. parent = Some p \<longrightarrow> p < length (modules s))"
  by (auto simp: known_def split: option.splits)

lemma known_known [simp]: "known s (known s parent) = known s parent"
  by (auto simp: known_def split: option.splits)

section \<open>Invariants of the module state\<close>

text \<open>The values a module's code may assign to \<open>module.exports\<close>.\<close>

primrec body_all :: "(mval \<Rightarrow> bool) \<Rightarrow> body \<Rightarrow> bool" where
  "body_all Q Done = True"
| "body_all Q (Throw e) = True"
| "body_all Q (NewObj k) = (\<forall>a. body_all Q (k a))"
| "body_all Q (SetProp a p v b) = body_all Q b"
| "body_all Q (GetProp a p k) = (\<forall>v. body_all Q (k v))"
| "body_all Q (SetExports i v b) = (Q v \<and> body_all Q b)"
| "body_all Q (GetExports i k) = (\<forall>v. body_all Q (k v))"
| "body_all Q (Req parent name k) = (\<forall>r. body_all Q (k r))"

lemma body_all_True [simp]: "body_all (\<lambda>_. True) b"
  by (induction b) auto

definition env_bodies :: "(mval \<Rightarrow> bool) \<Rightarrow> mod_env \<Rightarrow> bool" where
  "env_bodies Q env \<longleftrightarrow>
     (\<forall>src file func args. me_load env src file = Inr func \<longrightarrow> body_all Q (func args))"

lemma env_bodies_True [simp]: "env_bodies (\<lambda>_. True) env"
  by (simp add: env_bodies_def)

text \<open>
  The contract of a \<open>require\<close> handed to module code: an invariant \<open>P\<close> that the module's own
  steps keep, when it exports values in \<open>Q\<close> only, and that the \<open>require\<close> keeps.
\<close>

locale requirer =
  fixes req :: "string \<Rightarrow> nat option \<Rightarrow> mstate \<Rightarrow> ((jserr + mval) \<times> mstate) option"
    and P :: "mstate \<Rightarrow> bool" and Q :: "mval \<Rightarrow> bool"
  assumes alloc: "P s \<Longrightarrow> P (s\<lparr>heap := heap s @ [[]]\<rparr>)"
    and store: "P s \<Longrightarrow> P (heap_set a k v s)"
    and exports: "P s \<Longrightarrow> i < length (modules s) \<Longrightarrow> Q v \<Longrightarrow> P (set_exports i v s)"
    and req_keeps: "P s \<Longrightarrow> known s parent = parent \<Longrightarrow> req name parent s = Some (r, t) \<Longrightarrow>
      P t \<and> extends s t"
begin

lemma run_body_keeps:
  "P s \<Longrightarrow> body_all Q b \<Longrightarrow> run_body req b s = Some (r, t) \<Longrightarrow> P t \<and> extends s t"
proof (induction b arbitrary: s)
  case (NewObj k)
  then show ?case using alloc [of s] extends_trans [OF extends_heap(1)] by fastforce
next
  case (SetProp a p v b)
  then show ?case using store [of s] extends_trans [OF extends_heap(2)] by fastforce
next
  case (SetExports i v b)
  then show ?case
    using exports [of s i v] extends_trans [OF extends_exports] by (fastforce split: if_splits)
next
  case (Req parent name k)
  then obtain r1 s1 where 1: "req name (known s parent) s = Some (r1, s1)"
    "run_body req (k r1) s1 = Some (r, t)"
    by (auto split: option.splits)
  from req_keeps [OF Req.prems(1) known_known 1(1)] have s1: "P s1" "extends s s1" by simp_all
  from Req.prems(2) have "body_all Q (k r1)" by simp
  from Req.IH [OF rangeI s1(1) this 1(2)] s1(2) show ?case by (blast intro: extends_trans)
qed auto

lemma Module_load_keeps:
  assumes "P s" and "env_bodies Q env" and mark: "\<And>s i. P s \<Longrightarrow> P (mark_loaded i s)"
    and "Module_load req env m s = Some (r, t)"
  shows "P t \<and> extends s t"
proof (cases "m_loaded (modules s ! m)")
  case True
  then show ?thesis using assms by (simp add: Module_load_def Let_def)
next
  case False
  let ?md = "modules s ! m"
  show ?thesis
  proof (cases "rbind (readFile env (m_filename ?md))
                  (\<lambda>text. me_load env (funcBody text) (m_filename ?md))")
    case (Inl e)
    then show ?thesis using assms False by (simp add: Module_load_def Let_def)
  next
    case (Inr func)
    let ?b = "func \<lparr>ma_exports = m_exports ?md, ma_module = m, ma_filename = m_filename ?md,
                        ma_dirname = m_filename ?md\<rparr>"
    from Inr assms(2) have all: "body_all Q ?b" by (auto simp: rbind_Inr_iff env_bodies_def)
    from assms(4) False Inr obtain r1 s1 where run: "run_body req ?b s = Some (r1, s1)"
      by (auto simp: Module_load_def Let_def split: option.splits)
    with run_body_keeps [OF assms(1) all] have keeps: "P s1 \<and> extends s s1" by blast
    moreover from assms(4) False Inr run have "t = s1 \<or> t = mark_loaded m s1"
      by (auto simp: Module_load_def Let_def split: sum.splits)
    ultimately show ?thesis using mark [of s1 m] extends_trans [OF _ extends_mark] by auto
  qed
qed

end

text \<open>A \<open>require\<close> that also returns, in every state of the invariant.\<close>

locale total_requirer = requirer +
  assumes req_total: "P s \<Longrightarrow> known s parent = parent \<Longrightarrow> req name parent s \<noteq> None"
begin

lemma run_body_total: "P s \<Longrightarrow> body_all Q b \<Longrightarrow> run_body req b s \<noteq> None"
proof (induction b arbitrary: s)
  case (Req parent name k)
  from req_total [OF Req.prems(1) known_known]
  obtain r1 s1 where 1: "req name (known s parent) s = Some (r1, s1)" by fastforce
  from req_keeps [OF Req.prems(1) known_known 1] have "P s1" by simp
  moreover from Req.prems(2) have "body_all Q (k r1)" by simp
  ultimately show ?case using Req.IH [OF rangeI] 1 by simp
qed (use alloc store exports in auto)

lemma Module_load_total:
  assumes "P s" and "env_bodies Q env"
  shows "Module_load req env m s \<noteq> None"
proof -
  let ?md = "modules s ! m"
  show ?thesis
  proof (cases "rbind (readFile env (m_filename ?md))
                  (\<lambda>text. me_load env (funcBody text) (m_filename ?md))")
    case (Inr func)
    then have "body_all Q (func args)" for args
      using assms(2) by (auto simp: rbind_Inr_iff env_bodies_def)
    then have "run_body req (func \<lparr>ma_exports = m_exports ?md, ma_module = m,
        ma_filename = m_filename ?md, ma_dirname = m_filename ?md\<rparr>) s \<noteq> None"
      using run_body_total [OF assms(1)] by blast
    with Inr show ?thesis
      by (auto simp: Module_load_def Let_def split: sum.splits)
  qed (simp add: Module_load_def Let_def)
qed

end

text \<open>
  An invariant of the module system: kept by every step of a module's code, by marking a module
  loaded and by making the module of a file that has no truthy cache entry.
\<close>

locale module_invariant =
  fixes env :: mod_env and P :: "mstate \<Rightarrow> bool" and Q :: "mval \<Rightarrow> bool"
  assumes bodies: "P s \<Longrightarrow> env_bodies Q env"
    and alloc: "P s \<Longrightarrow> P (s\<lparr>heap := heap s @ [[]]\<rparr>)"
    and store: "P s \<Longrightarrow> P (heap_set a k v s)"
    and exports: "P s \<Longrightarrow> i < length (modules s) \<Longrightarrow> Q v \<Longrightarrow> P (set_exports i v s)"
    and mark: "P s \<Longrightarrow> P (mark_loaded i s)"
    and fresh: "P s \<Longrightarrow> known s parent = parent \<Longrightarrow> me_hasFile env file \<Longrightarrow>
      \<not> ends_with file ''.json'' \<Longrightarrow> cache_hit s file = None \<Longrightarrow> P (snd (new_module file parent s))"
begin

lemma loadModule_keeps:
  assumes "requirer req P Q" and "P s" and "known s parent = parent" and "me_hasFile env file"
    and "\<not> ends_with file ''.json''" and "cache_hit s file = None"
    and "loadModule req env file parent s = Some (r, t)"
  shows "P t \<and> extends s t"
proof -
  let ?s1 = "snd (new_module file parent s)"
  have s1: "P ?s1" "extends s ?s1" using fresh assms(2-6) extends_new by blast+
  from assms(7) obtain r1 where "Module_load req env (length (modules s)) ?s1 = Some (r1, t)"
    by (cases "new_module file parent s")
      (auto simp: loadModule_def new_module_def Let_def split: option.splits sum.splits)
  from requirer.Module_load_keeps [OF assms(1) s1(1) bodies [OF assms(2)] mark this]
  show ?thesis using s1(2) extends_trans by blast
qed

lemma Require_keeps:
  "P s \<Longrightarrow> known s parent = parent \<Longrightarrow> Require n env name parent s = Some (r, t) \<Longrightarrow> P t \<and> extends s t"
proof (induction n arbitrary: name parent s r t)
  case (Suc n)
  have req: "requirer (Require n env) P Q"
    by (unfold_locales) (use alloc store exports Suc.IH in blast)+
  show ?case
    using Suc.prems loadModule_keeps [OF req Suc.prems(1,2)]
    by (auto simp: Require_resolve_Some split: option.splits if_splits)
qed simp

lemma Require_requirer: "requirer (Require n env) P Q"
  by unfold_locales (use alloc store exports Require_keeps in blast)+

end

section \<open>The module tree\<close>

text \<open>The children of a module are, once each, the modules whose parent it is, all younger.\<close>

definition tree_ok :: "mstate \<Rightarrow> bool" where
  "tree_ok s \<longleftrightarrow> (\<forall>i < length (modules s).
     distinct (m_children (modules s ! i)) \<and>
     (\<forall>c. c \<in> set (m_children (modules s ! i)) \<longleftrightarrow>
        c < length (modules s) \<and> m_parent (modules s ! c) = Some i) \<and>
     (\<forall>p. m_parent (modules s ! i) = Some p \<longrightarrow> p < i))"

lemma tree_ok_links:
  assumes "map (\<lambda>x. (m_parent x, m_children x)) (modules t) =
    map (\<lambda>x. (m_parent x, m_children x)) (modules s)" and "tree_ok s"
  shows "tree_ok t"
proof -
  from assms(1) have len: "length (modules t) = length (modules s)" by (metis length_map)
  have nth: "m_parent (modules t ! i) = m_parent (modules s ! i) \<and>
      m_children (modules t ! i) = m_children (modules s ! i)" if "i < length (modules s)" for i
    using arg_cong [OF assms(1), of "\<lambda>l. l ! i"] that len by simp
  show ?thesis using assms(2) unfolding tree_ok_def len by (simp add: nth cong: conj_cong)
qed

lemma links_update:
  assumes "m_parent x = m_parent (ms ! i)" and "m_children x = m_children (ms ! i)"
  shows "map (\<lambda>x. (m_parent x, m_children x)) (ms[i := x]) = map (\<lambda>x. (m_parent x, m_children x)) ms"
  using assms by (intro nth_equalityI) (auto simp: nth_update_if)

lemma tree_ok_exports: "tree_ok s \<Longrightarrow> tree_ok (set_exports i v s)"
  by (rule tree_ok_links) (auto simp: set_exports_def intro: links_update)

lemma tree_ok_mark: "tree_ok s \<Longrightarrow> tree_ok (mark_loaded i s)"
  by (rule tree_ok_links) (auto simp: mark_loaded_def intro: links_update)

lemma tree_ok_same: "modules t = modules s \<Longrightarrow> tree_ok s \<Longrightarrow> tree_ok t"
  by (rule tree_ok_links) auto

lemma push_child_swap:
  "push_child parent m (set_exports m v s) = set_exports m v (push_child parent m s)"
  if "\<forall>p. parent = Some p \<longrightarrow> p \<noteq> m"
  using that by (cases parent) (auto simp: push_child_def set_exports_def list_update_swap)

lemma tree_ok_new:
  assumes "tree_ok s" and "known s parent = parent"
  shows "tree_ok (snd (new_module file parent s))"
proof -
  let ?m = "length (modules s)"
  let ?new = "\<lparr>m_id = file, m_parent = parent, m_children = [], m_filename = file,
     m_loaded = False, m_exports = MData JUndef\<rparr>"
  let ?s1 = "s\<lparr>modules := modules s @ [?new]\<rparr>"
  let ?s2 = "?s1\<lparr>heap := heap ?s1 @ [[]]\<rparr>"
  from assms(2) have p: "\<And>p. parent = Some p \<Longrightarrow> p < ?m" by (simp add: known_id)
  have "tree_ok (push_child parent ?m ?s2)"
  proof (cases parent)
    case None
    then show ?thesis using assms(1)
      by (auto simp: push_child_def tree_ok_def nth_append less_Suc_eq)
  next
    case (Some q)
    with p have q: "q < ?m" by simp
    define t where "t = push_child parent ?m ?s2"
    have ms: "modules t =
        (modules s)[q := (modules s ! q)\<lparr>m_children := m_children (modules s ! q) @ [?m]\<rparr>] @ [?new]"
      using q by (simp add: t_def Some push_child_def nth_append list_update_append)
    let ?ms = "modules t"
    have len: "length ?ms = Suc ?m" by (simp add: ms)
    have par: "m_parent (?ms ! i) = (if i = ?m then Some q else m_parent (modules s ! i))"
      if "i < Suc ?m" for i
      using that q by (auto simp: ms nth_append nth_update_if Some less_Suc_eq)
    have chi: "m_children (?ms ! i) = (if i = ?m then [] else
        if i = q then m_children (modules s ! q) @ [?m] else m_children (modules s ! i))"
      if "i < Suc ?m" for i
      using that q by (auto simp: ms nth_append nth_update_if less_Suc_eq)
    have old: "distinct (m_children (modules s ! i))"
      "c \<in> set (m_children (modules s ! i)) \<longleftrightarrow> c < ?m \<and> m_parent (modules s ! c) = Some i"
      "m_parent (modules s ! i) = Some p \<Longrightarrow> p < i" if "i < ?m" for i c p
      using assms(1) that by (auto simp: tree_ok_def)
    show ?thesis unfolding t_def [symmetric] tree_ok_def len
    proof (intro allI impI conjI)
      fix i assume i: "i < Suc ?m"
      show "distinct (m_children (?ms ! i))" using i old(1) old(2) q by (simp add: chi)
      show "p < i" if "m_parent (?ms ! i) = Some p" for p
        using that i old(3) q by (auto simp: par less_Suc_eq split: if_splits)
      show "c \<in> set (m_children (?ms ! i)) \<longleftrightarrow> c < Suc ?m \<and> m_parent (?ms ! c) = Some i" for c
      proof (cases "c < ?m")
        case True
        then have "m_parent (modules s ! c) \<noteq> Some ?m" using old(3) [of c ?m] by auto
        then show ?thesis using True i old(2) [of i c] old(2) [of q c] q by (auto simp: par chi)
      next
        case False
        then show ?thesis using i old(2) q by (auto simp: par chi less_Suc_eq)
      qed
    qed
  qed
  then have "tree_ok (set_exports ?m (MRef (length (heap s))) (push_child parent ?m ?s2))"
    by (rule tree_ok_exports)
  moreover have "snd (new_module file parent s) =
      set_exports ?m (MRef (length (heap s))) (push_child parent ?m ?s2)"
    using p by (subst push_child_swap [symmetric]) (auto simp: new_module_def Let_def)
  ultimately show ?thesis by simp
qed

interpretation tree: module_invariant env tree_ok "\<lambda>_. True" for env
  by unfold_locales
    (simp_all add: tree_ok_exports tree_ok_mark tree_ok_new tree_ok_same [where s = s for s] heap_set_def)

section \<open>The registry of loaded files\<close>

text \<open>
  The cache of \<open>Require\<close> and the modules agree: one module per file, each file a script that
  exists, and the cache holds the current exports of every module, all truthy.
\<close>

definition module_files :: "mstate \<Rightarrow> string list" where
  "module_files s = map m_filename (modules s)"

definition registry_ok :: "mod_env \<Rightarrow> mstate \<Rightarrow> bool" where
  "registry_ok env s \<longleftrightarrow>
     distinct (module_files s) \<and>
     (\<forall>f \<in> set (module_files s). me_hasFile env f \<and> \<not> ends_with f ''.json'') \<and>
     (\<forall>i < length (modules s).
        map_of (cache s) (m_filename (modules s ! i)) = Some (m_exports (modules s ! i)) \<and>
        truthy_m (m_exports (modules s ! i))) \<and>
     set (pkeys (cache s)) = set (module_files s)"

lemma module_files_simps [simp]:
  "module_files (set_exports i v s) = module_files s"
  "module_files (mark_loaded i s) = module_files s"
  "module_files (heap_set a k v s) = module_files s"
  "module_files (heap_update g s) = module_files s"
  "module_files (push_child parent i s) = module_files s"
  by (auto simp: module_files_def set_exports_def mark_loaded_def heap_set_def push_child_def
      nth_update_if split: option.splits intro!: nth_equalityI)

lemma module_files_new [simp]: "module_files (snd (new_module file parent s)) = module_files s @ [file]"
  by (simp add: new_module_def Let_def) (simp add: module_files_def)

lemma nth_module_files [simp]: "i < length (modules s) \<Longrightarrow> module_files s ! i = m_filename (modules s ! i)"
  by (simp add: module_files_def)

lemma length_module_files [simp]: "length (module_files s) = length (modules s)"
  by (simp add: module_files_def)

lemma registry_cache:
  assumes "registry_ok env s"
  shows "cache_hit s f = map_of (cache s) f"
    and "i < length (modules s) \<Longrightarrow> cache_hit s (m_filename (modules s ! i)) = Some (m_exports (modules s ! i))"
    and "cache_hit s f = None \<longleftrightarrow> f \<notin> set (module_files s)"
proof -
  have keys: "dom (map_of (cache s)) = set (module_files s)"
    using assms by (simp add: registry_ok_def dom_map_of_conv_image_fst)
  show 1: "cache_hit s f = map_of (cache s) f" for f
  proof (cases "f \<in> set (module_files s)")
    case True
    then obtain i where "i < length (modules s)" "f = m_filename (modules s ! i)"
      by (auto simp: in_set_conv_nth)
    then show ?thesis using assms by (simp add: registry_ok_def cache_hit_def)
  next
    case False
    then show ?thesis using keys by (auto simp: cache_hit_def split: option.splits)
  qed
  show "i < length (modules s) \<Longrightarrow> cache_hit s (m_filename (modules s ! i)) = Some (m_exports (modules s ! i))"
    using assms by (simp add: 1 registry_ok_def)
  show "cache_hit s f = None \<longleftrightarrow> f \<notin> set (module_files s)"
    using keys by (auto simp: 1)
qed

lemma registry_exports:
  assumes "registry_ok env s" and i: "i < length (modules s)" and v: "truthy_m v"
  shows "registry_ok env (set_exports i v s)"
proof -
  have ms: "modules (set_exports i v s) ! j = (if j = i then (modules s ! i)\<lparr>m_exports := v\<rparr>
      else modules s ! j)" if "j < length (modules s)" for j
    using that by (auto simp: set_exports_def nth_update_if)
  have other: "m_filename (modules s ! j) \<noteq> m_filename (modules s ! i)"
    if "j < length (modules s)" "j \<noteq> i" for j
    using assms(1) that i nth_eq_iff_index_eq [of "module_files s" j i] by (simp add: registry_ok_def)
  have cache: "cache (set_exports i v s) = pset (m_filename (modules s ! i)) v (cache s)"
    by (simp add: set_exports_def)
  have "m_filename (modules s ! i) \<in> set (module_files s)"
    using i nth_mem [of i "module_files s"] by simp
  then show ?thesis
    using assms(1) v ms other by (auto simp: registry_ok_def cache)
qed

lemma registry_same:
  assumes "registry_ok env s" and "cache t = cache s" and "module_files t = module_files s"
    and "map m_exports (modules t) = map m_exports (modules s)"
  shows "registry_ok env t"
proof -
  have len: "length (modules t) = length (modules s)" using assms(3) by (metis length_module_files)
  have "m_exports (modules t ! i) = m_exports (modules s ! i) \<and>
      m_filename (modules t ! i) = m_filename (modules s ! i)" if "i < length (modules s)" for i
    using assms(3,4) that len by (metis nth_map nth_module_files)
  with assms len show ?thesis by (simp add: registry_ok_def)
qed

lemma exports_push_child [simp]:
  "map m_exports (modules (push_child parent i s)) = map m_exports (modules s)"
  "cache (push_child parent i s) = cache s"
  by (auto simp: push_child_def nth_update_if split: option.splits intro!: nth_equalityI)

lemma registry_new:
  assumes "registry_ok env s" and "me_hasFile env f" "\<not> ends_with f ''.json''" "cache_hit s f = None"
  shows "registry_ok env (snd (new_module f parent s))"
proof -
  let ?m = "length (modules s)"
  let ?new = "\<lparr>m_id = f, m_parent = parent, m_children = [], m_filename = f,
     m_loaded = False, m_exports = MRef (length (heap s))\<rparr>"
  let ?s2 = "s\<lparr>heap := heap s @ [[]], cache := pset f (MRef (length (heap s))) (cache s),
     modules := modules s @ [?new]\<rparr>"
  have new: "f \<notin> set (module_files s)" using assms registry_cache(3) by blast
  then have "m_filename (modules s ! i) \<noteq> f" if "i < length (modules s)" for i
    using that nth_mem [of i "module_files s"] by auto
  with assms(1-3) new have "registry_ok env ?s2"
    by (auto simp: registry_ok_def module_files_def nth_append less_Suc_eq in_set_conv_nth)
  moreover have "snd (new_module f parent s) = push_child parent ?m ?s2"
    by (simp add: new_module_def Let_def set_exports_def)
  ultimately show ?thesis
    using registry_same [where s = ?s2 and t = "push_child parent ?m ?s2"] by simp
qed

interpretation registry: module_invariant env
    "\<lambda>s. env_bodies truthy_m env \<and> registry_ok env s" truthy_m for env
proof (unfold_locales, goal_cases)
  case (2 s)
  then show ?case by (auto intro: registry_same [where s = s])
next
  case (3 s a k v)
  then show ?case by (auto simp: heap_set_def intro: registry_same [where s = s])
next
  case (4 s i v)
  then show ?case by (auto intro: registry_exports)
next
  case (5 s i)
  then show ?case
    by (auto simp: mark_loaded_def nth_update_if intro!: registry_same [where s = s] nth_equalityI)
next
  case (6 s parent f)
  then show ?case by (auto intro: registry_new)
qed simp

section \<open>Requires return\<close>

text \<open>The script files that have no module yet.\<close>

definition unloaded :: "mod_env \<Rightarrow> mstate \<Rightarrow> string set" where
  "unloaded env s = {f. me_hasFile env f \<and> f \<notin> set (module_files s)}"

lemma module_files_mono: "extends s t \<Longrightarrow> set (module_files s) \<subseteq> set (module_files t)"
proof
  fix f assume ex: "extends s t" and "f \<in> set (module_files s)"
  then obtain i where i: "i < length (modules s)" "f = module_files s ! i"
    by (auto simp: in_set_conv_nth)
  with ex have "i < length (module_files t)" "module_files t ! i = f" by (auto simp: extends_def)
  then show "f \<in> set (module_files t)" by (metis nth_mem)
qed

lemma unloaded_mono: "extends s t \<Longrightarrow> unloaded env t \<subseteq> unloaded env s"
  using module_files_mono by (auto simp: unloaded_def)

definition bounded_inv :: "mod_env \<Rightarrow> nat \<Rightarrow> mstate \<Rightarrow> bool" where
  "bounded_inv env n s \<longleftrightarrow> env_bodies truthy_m env \<and> registry_ok env s \<and>
     finite {f. me_hasFile env f} \<and> card (unloaded env s) < n"

lemma finite_unloaded: "finite {f. me_hasFile env f} \<Longrightarrow> finite (unloaded env s)"
  by (simp add: unloaded_def)

lemma bounded_inv_extends:
  assumes "bounded_inv env n s" and "registry_ok env t" and "extends s t"
  shows "bounded_inv env n t"
  using assms card_mono [OF finite_unloaded unloaded_mono [OF assms(3)]]
  by (fastforce simp: bounded_inv_def)

lemma bounded_requirer: "requirer (Require k env) (bounded_inv env n) truthy_m"
proof (unfold_locales, goal_cases)
  case (1 s)
  then show ?case using registry.alloc [of env s] bounded_inv_extends [of env n s] extends_heap(1)
    by (simp add: bounded_inv_def)
next
  case (2 s a x v)
  then show ?case using registry.store [of env s] bounded_inv_extends [of env n s] extends_heap(2)
    by (simp add: bounded_inv_def)
next
  case (3 s i v)
  then show ?case using registry.exports [of env s i v] bounded_inv_extends [of env n s] extends_exports
    by (simp add: bounded_inv_def)
next
  case (4 s parent name r t)
  then show ?case using registry.Require_keeps [of env s parent k name r t] bounded_inv_extends [of env n s t]
    by (simp add: bounded_inv_def)
qed

lemma bounded_new:
  assumes "bounded_inv env (Suc n) s" and "me_hasFile env f" "\<not> ends_with f ''.json''"
    "cache_hit s f = None"
  shows "bounded_inv env n (snd (new_module f parent s))"
proof -
  let ?t = "snd (new_module f parent s)"
  have reg: "registry_ok env s" and fin: "finite {f. me_hasFile env f}" using assms by (auto simp: bounded_inv_def)
  have "f \<in> unloaded env s" using assms(2,4) registry_cache(3) [OF reg] by (auto simp: unloaded_def)
  moreover have "unloaded env ?t = unloaded env s - {f}" by (auto simp: unloaded_def)
  ultimately have "card (unloaded env ?t) = card (unloaded env s) - 1" "card (unloaded env s) > 0"
    using finite_unloaded [OF fin, of s] by (auto simp: card_gt_0_iff)
  then show ?thesis using assms registry_new [OF reg assms(2-4)] by (auto simp: bounded_inv_def)
qed

lemma Require_total: "bounded_inv env n s \<Longrightarrow> Require n env name parent s \<noteq> None"
proof (induction n arbitrary: name parent s)
  case 0
  then show ?case by (simp add: bounded_inv_def)
next
  case (Suc n)
  have req: "requirer (Require n env) (bounded_inv env n) truthy_m" by (rule bounded_requirer)
  have tot: "total_requirer (Require n env) (bounded_inv env n) truthy_m"
    by (intro total_requirer.intro total_requirer_axioms.intro req) (use Suc.IH in auto)
  have "loadModule (Require n env) env f parent s \<noteq> None"
    if "me_hasFile env f" "\<not> ends_with f ''.json''" "cache_hit s f = None" for f
  proof -
    have "bounded_inv env n (snd (new_module f parent s))" by (rule bounded_new [OF Suc.prems that])
    moreover have "env_bodies truthy_m env" using Suc.prems by (simp add: bounded_inv_def)
    ultimately have "Module_load (Require n env) env (length (modules s)) (snd (new_module f parent s)) \<noteq> None"
      by (rule total_requirer.Module_load_total [OF tot])
    then show ?thesis
      by (cases "new_module f parent s")
        (auto simp: loadModule_def new_module_def Let_def split: option.splits sum.splits)
  qed
  then show ?case
    by (auto simp: Require_resolve_Some split: option.splits)
qed

end
