(* ===== verification/Requires.thy ===== *)
theory Requires
  imports ModuleLaws
begin

text \<open>
  The properties of \<open>require\<close>: it returns, it keeps the registry and the module tree, a file is run
  once, and what happens to cycles, to modules that throw and to modules that export a falsy value.
\<close>

section \<open>The bound does not matter\<close>

text \<open>A \<open>require\<close> that returns returns the same with any larger bound.\<close>

lemma run_body_mono:
  assumes "\<And>name parent s x. req name parent s = Some x \<Longrightarrow> req' name parent s = Some x"
    and "run_body req b s = Some x"
  shows "run_body req' b s = Some x"
  using assms(2)
proof (induction b arbitrary: s)
  case (Req parent name k)
  then show ?case by (auto dest: assms(1) split: option.splits)
qed auto

lemma Module_load_mono:
  assumes "\<And>name parent s x. req name parent s = Some x \<Longrightarrow> req' name parent s = Some x"
    and "Module_load req env m s = Some x"
  shows "Module_load req' env m s = Some x"
  using assms(2) run_body_mono [of req req', OF assms(1)]
  by (auto simp: Module_load_def Let_def split: sum.splits option.splits) (metis option.inject option.simps(3) prod.inject)+

lemma loadModule_mono:
  assumes "\<And>name parent s x. req name parent s = Some x \<Longrightarrow> req' name parent s = Some x"
    and "loadModule req env f parent s = Some x"
  shows "loadModule req' env f parent s = Some x"
  using assms(2) Module_load_mono [of req req', OF assms(1)]
  by (cases "new_module f parent s") (auto simp: loadModule_def split: option.splits)

lemma Require_Suc: "Require n env name parent s = Some x \<Longrightarrow> Require (Suc n) env name parent s = Some x"
proof (induction n arbitrary: name parent s x)
  case (Suc n)
  have "loadModule (Require n env) env f parent s = Some x \<Longrightarrow>
      loadModule (Require (Suc n) env) env f parent s = Some x" for f
    by (rule loadModule_mono [of "Require n env"]) (rule Suc.IH)
  with Suc.prems show ?case
    by (auto simp del: Require.simps simp: Require.simps(2) [of n] Require.simps(2) [of "Suc n"] split: option.splits if_splits)
qed simp

lemma Require_more: "Require n env name parent s = Some x \<Longrightarrow> Require (n + k) env name parent s = Some x"
  by (induction k) (auto intro: Require_Suc simp del: Require.simps)

section \<open>A small repository\<close>

text \<open>
  Two modules that require each other, one that throws half way, one that exports \<open>false\<close> and
  one that does so before it requires itself; the witnesses of the properties run on it.
\<close>

definition ping_code :: "mod_args \<Rightarrow> body" where
  "ping_code args = (case ma_exports args of
     MRef x \<Rightarrow> SetProp x ''early'' (MData (JStr ''1''))
       (Req (Some (ma_module args)) ''./pong'' (\<lambda>r. SetProp x ''late'' (MData (JStr ''2'')) Done))
   | MData _ \<Rightarrow> Done)"

definition pong_code :: "mod_args \<Rightarrow> body" where
  "pong_code args = Req (Some (ma_module args)) ''./ping'' (\<lambda>r. (case r of
     Inr (MRef y) \<Rightarrow> GetProp y ''early'' (\<lambda>e. GetProp y ''late'' (\<lambda>l.
       (case ma_exports args of MRef x \<Rightarrow> SetProp x ''early'' e (SetProp x ''late'' l Done)
        | MData _ \<Rightarrow> Done)))
   | _ \<Rightarrow> Done))"

definition half_code :: "mod_args \<Rightarrow> body" where
  "half_code args = (case ma_exports args of
     MRef x \<Rightarrow> SetProp x ''first'' (MData (JStr ''1'')) (Throw (Thrown [JStr ''half'']))
   | MData _ \<Rightarrow> Done)"

definition demo_scripts :: "(string \<times> (mod_args \<Rightarrow> body)) list" where
  "demo_scripts =
     [(''ping.js'', ping_code), (''pong.js'', pong_code), (''half.js'', half_code),
      (''no.js'', \<lambda>args. SetExports (ma_module args) (MData (JBool False)) Done),
      (''loop.js'', \<lambda>args. SetExports (ma_module args) (MData (JBool False))
         (Req (Some (ma_module args)) ''./loop'' (\<lambda>r. Done)))]"

definition demo_env :: "string list \<Rightarrow> mod_env" where
  "demo_env files = \<lparr>
     me_hasFile = (\<lambda>f. f \<in> set files),
     me_readFile = (\<lambda>f. if f \<in> set files then Some [] else None),
     me_load = (\<lambda>src f. case (if f \<in> set files then map_of demo_scripts f else None) of
        Some code \<Rightarrow> Inr code | None \<Rightarrow> Inl SyntaxErr),
     me_parse = (\<lambda>src. Inr (JStr src))\<rparr>"

lemmas demo_defs = demo_env_def demo_scripts_def ping_code_def pong_code_def half_code_def

text \<open>Running a closed require in the model.\<close>

lemmas run_defs = demo_defs Require_resolve_Some loadModule_def new_module_def Module_load_def
  Let_def set_exports_def push_child_def readFile_def cache_hit_def heap_set_def heap_get_def
  known_def parent_id_def mark_loaded_def mstate_init_def

lemma registry_init [simp]: "registry_ok env mstate_init"
  by (simp add: registry_ok_def mstate_init_def module_files_def)

lemma tree_init [simp]: "tree_ok mstate_init"
  by (simp add: tree_ok_def mstate_init_def)

lemma unloaded_init: "unloaded env mstate_init = {f. me_hasFile env f}"
  by (simp add: unloaded_def mstate_init_def module_files_def)

lemma known_None [simp]: "known s None = None"
  by (simp add: known_def)

lemma demo_resolve:
  "Require_resolve (me_hasFile (demo_env files)) name parent = Some f \<longleftrightarrow>
     f = canonicalFilePath name (findRoot parent) \<and> f \<in> set files"
  by (simp add: Require_resolve_Some demo_env_def)

lemma demo_bodies:
  assumes "set files \<subseteq> {''ping.js'', ''pong.js'', ''half.js''}"
  shows "env_bodies truthy_m (demo_env files)"
proof -
  have "body_all truthy_m (ping_code args)" "body_all truthy_m (half_code args)" for args
    by (auto simp: ping_code_def half_code_def split: mval.splits)
  moreover have "body_all truthy_m (pong_code args)" for args
    by (auto simp: pong_code_def split: mval.splits sum.splits)
  ultimately show ?thesis
    using assms by (auto simp: env_bodies_def demo_env_def demo_scripts_def split: if_splits option.splits)
qed

section \<open>What a load leaves\<close>

text \<open>Whatever it does, a require only adds to the module state.\<close>

interpretation growth: module_invariant env "\<lambda>_. True" "\<lambda>_. True" for env
  by unfold_locales simp_all

lemma loadModule_result:
  assumes "loadModule (Require n env) env f parent s = Some (r, t)"
  shows "length (modules s) < length (modules t)"
    and "m_filename (modules t ! length (modules s)) = f"
    and "r = Inr v \<Longrightarrow> v = m_exports (modules t ! length (modules s))"
proof -
  let ?m = "length (modules s)"
  let ?s1 = "snd (new_module f parent s)"
  from assms obtain r1 where load: "Module_load (Require n env) env ?m ?s1 = Some (r1, t)"
    and r: "r = rbind r1 (\<lambda>_. Inr (m_exports (modules t ! ?m)))"
    by (cases "new_module f parent s")
      (auto simp: loadModule_def new_module_def Let_def split: option.splits sum.splits)
  have ext: "extends ?s1 t"
    using requirer.Module_load_keeps [OF growth.Require_requirer _ _ _ load] by simp
  then show "?m < length (modules t)" using extends_length [of ?s1 t] by simp
  have "m_filename (modules ?s1 ! ?m) = f"
    using nth_module_files [of ?m ?s1, symmetric] by (simp add: nth_append)
  with ext show "m_filename (modules t ! ?m) = f" by (simp add: extends_def)
  show "r = Inr v \<Longrightarrow> v = m_exports (modules t ! ?m)" using r by (auto simp: rbind_Inr_iff)
qed

lemma registry_hit:
  assumes "registry_ok env t" and "i < length (modules t)"
    and "Require_resolve (me_hasFile env) name (parent_id t parent) = Some (m_filename (modules t ! i))"
  shows "Require (Suc k) env name parent t = Some (Inr (m_exports (modules t ! i)), t)"
  using assms registry_cache(2) [OF assms(1,2)] by simp

section \<open>Later states\<close>

text \<open>
  What can happen to the module state after a \<open>require\<close> returned: further requires of anything, new
  objects, writes to objects, and assignments of truthy values to the exports of any module.
\<close>

inductive later :: "mod_env \<Rightarrow> mstate \<Rightarrow> mstate \<Rightarrow> bool" for env t where
  now: "later env t t"
| required: "later env t u \<Longrightarrow> known u parent = parent \<Longrightarrow> Require n env name parent u = Some (r, u') \<Longrightarrow>
    later env t u'"
| allocated: "later env t u \<Longrightarrow> later env t (u\<lparr>heap := heap u @ [[]]\<rparr>)"
| written: "later env t u \<Longrightarrow> later env t (heap_set a k v u)"
| exported: "later env t u \<Longrightarrow> i < length (modules u) \<Longrightarrow> truthy_m v \<Longrightarrow> later env t (set_exports i v u)"

lemma later_keeps:
  assumes "later env t u" and "env_bodies truthy_m env" and "registry_ok env t"
  shows "registry_ok env u \<and> extends t u"
  using assms(1)
proof (induction rule: later.induct)
  case now
  show ?case using assms(3) by simp
next
  case (required u parent n name r u')
  then have "registry_ok env u' \<and> extends u u'"
    using registry.Require_keeps [of env u parent n name r u'] assms(2) by simp
  with required.IH show ?case using extends_trans by blast
next
  case (allocated u)
  then show ?case using registry.alloc [of env u] assms(2) extends_trans [OF _ extends_heap(1)] by blast
next
  case (written u a k v)
  then show ?case using registry.store [of env u] assms(2) extends_trans [OF _ extends_heap(2)] by blast
next
  case (exported u i v)
  then show ?case using registry.exports [of env u i v] assms(2) extends_trans [OF _ extends_exports] by blast
qed

text \<open>The module of a file stays, and a \<open>require\<close> of the file returns what it exports by then.\<close>

lemma later_hit:
  assumes "later env t u" and "env_bodies truthy_m env" and "registry_ok env t"
    and "i < length (modules t)"
    and "Require_resolve (me_hasFile env) name (parent_id u parent) = Some (m_filename (modules t ! i))"
  shows "Require (Suc k) env name parent u = Some (Inr (m_exports (modules u ! i)), u)"
proof -
  have u: "registry_ok env u" "extends t u" using later_keeps [OF assms(1-3)] by blast+
  have "i < length (modules u)" using u(2) assms(4) extends_length [of t u] by simp
  moreover have "m_filename (modules u ! i) = m_filename (modules t ! i)"
    using u(2) assms(4) by (simp add: extends_def)
  ultimately show ?thesis using assms(5) by (intro registry_hit [OF u(1)]) simp_all
qed

section \<open>Properties\<close>

text \<open>C1: when there are finitely many files and no module ever assigns a falsy value to an
  \<open>exports\<close>, every \<open>require\<close> returns, with a value or an error: in a well-formed state a nesting depth
  above the number of files not yet loaded is enough, however the modules require each other; a
  larger depth changes nothing. (With falsy exports a \<open>require\<close> may not return.)\<close>
theorem require_returns:
  assumes "finite {f. me_hasFile env f}" and "env_bodies truthy_m env" and "registry_ok env s"
    and "card (unloaded env s) < n"
  shows "\<exists>r t. \<forall>k. Require (n + k) env name parent s = Some (r, t)"
proof -
  have "bounded_inv env n s" using assms by (simp add: bounded_inv_def)
  then obtain r t where "Require n env name parent s = Some (r, t)"
    using Require_total [of env n s name parent] by auto
  then show ?thesis using Require_more by blast
qed

theorem require_returns_witness:
  "\<exists>r t. \<forall>k. Require (3 + k) (demo_env [''ping.js'', ''pong.js'']) ''ping'' None mstate_init = Some (r, t)"
proof (rule require_returns)
  show "card (unloaded (demo_env [''ping.js'', ''pong.js'']) mstate_init) < 3"
    by (simp add: unloaded_init demo_env_def Collect_disj_eq card_insert_if)
qed (simp_all add: demo_bodies, simp add: demo_env_def)

text \<open>C2: when no module ever assigns a falsy value to an \<open>exports\<close>, \<open>require\<close> keeps the module state
  well formed: one module per file, the cache keys exactly the files of the modules, every entry
  the current exports of its module; the parent and children links form a forest whose children
  lists have no duplicates; no module is removed or renamed. (A falsy export makes further modules of
  one file.)\<close>
theorem require_keeps_registry:
  assumes "env_bodies truthy_m env" and "registry_ok env s" and "tree_ok s"
    and "known s parent = parent" and "Require n env name parent s = Some (r, t)"
  shows "registry_ok env t \<and> tree_ok t \<and> extends s t \<and>
    distinct (module_files t) \<and> set (pkeys (cache t)) = set (module_files t)"
proof -
  have reg: "registry_ok env t" and "extends s t"
    using registry.Require_keeps [of env s parent n name r t] assms by simp_all
  moreover have "tree_ok t" using tree.Require_keeps [of s parent n env name r t] assms by simp
  ultimately show ?thesis by (simp add: registry_ok_def)
qed

theorem require_keeps_registry_witness:
  "distinct (module_files (snd (the
     (Require 3 (demo_env [''ping.js'', ''pong.js'']) ''ping'' None mstate_init))))"
proof -
  let ?env = "demo_env [''ping.js'', ''pong.js'']"
  have "Require 3 ?env ''ping'' None mstate_init \<noteq> None"
    by (rule Require_total)
      (simp add: bounded_inv_def demo_bodies unloaded_init,
       simp add: demo_env_def Collect_disj_eq card_insert_if)
  then obtain r t where run: "Require 3 ?env ''ping'' None mstate_init = Some (r, t)" by auto
  then show ?thesis
    using require_keeps_registry [OF _ registry_init tree_init known_None run] demo_bodies by simp
qed

text \<open>C3: when no module ever assigns a falsy value to an \<open>exports\<close>, the code of a module runs once:
  after a \<open>require\<close> of a script file returned a value, there is one module whose exports it is, and
  every \<open>require\<close> of that file in any later state, by any name and from any module, after any further
  requires, writes and assignments to exports, runs nothing, changes nothing, and returns what that
  module exports by then: the same value, unless the exports have been assigned again.\<close>
theorem require_runs_once:
  assumes "env_bodies truthy_m env" and "registry_ok env s" and "known s parent = parent"
    and "Require n env name parent s = Some (Inr v, t)"
    and "Require_resolve (me_hasFile env) name (parent_id s parent) = Some f"
    and "\<not> ends_with f ''.json''"
  shows "\<exists>i < length (modules t). m_filename (modules t ! i) = f \<and> m_exports (modules t ! i) = v \<and>
    (\<forall>u name' parent' k. later env t u \<longrightarrow>
      Require_resolve (me_hasFile env) name' (parent_id u parent') = Some f \<longrightarrow>
      Require (Suc k) env name' parent' u = Some (Inr (m_exports (modules u ! i)), u))"
proof -
  obtain j where n: "n = Suc j" using assms(4) by (cases n) auto
  have reg: "registry_ok env t"
    using registry.Require_keeps [of env s parent n name _ t] assms(1-4) by blast
  have "\<exists>i < length (modules t). m_filename (modules t ! i) = f \<and> m_exports (modules t ! i) = v"
  proof (cases "cache_hit s f")
    case (Some w)
    with assms(4,5) n have t: "t = s" "v = w" by auto
    from Some have "f \<in> set (module_files s)" using registry_cache(3) [OF assms(2), of f] by force
    then obtain i where "i < length (modules s)" "m_filename (modules s ! i) = f"
      by (auto simp: in_set_conv_nth)
    with registry_cache(2) [OF assms(2)] Some t show ?thesis by force
  next
    case None
    with assms(4-6) n have "loadModule (Require j env) env f parent s = Some (Inr v, t)" by simp
    from loadModule_result [OF this] show ?thesis by blast
  qed
  then show ?thesis using later_hit [OF _ assms(1) reg] by blast
qed

theorem require_runs_once_witness:
  "\<exists>v t. Require 2 (demo_env [''pong.js'']) ''pong'' None mstate_init = Some (Inr v, t) \<and>
     Require 5 (demo_env [''pong.js'']) ''./lib/../pong.js'' None (heap_set 0 ''more'' v t) =
       Some (Inr v, heap_set 0 ''more'' v t)"
proof -
  let ?env = "demo_env [''pong.js'']"
  have "case Require 2 ?env ''pong'' None mstate_init of Some (Inr v, t) \<Rightarrow> True | _ \<Rightarrow> False"
    by code_simp
  then obtain v t where run: "Require 2 ?env ''pong'' None mstate_init = Some (Inr v, t)"
    by (auto split: option.splits sum.splits)
  have names: "Require_resolve (me_hasFile ?env) ''pong'' None = Some ''pong.js''"
    "Require_resolve (me_hasFile ?env) ''./lib/../pong.js'' None = Some ''pong.js''"
    "\<not> ends_with ''pong.js'' ''.json''"
    by code_simp+
  have "later ?env t (heap_set 0 ''more'' v t)" by (rule later.written [OF later.now])
  moreover have "\<exists>i < length (modules t). m_filename (modules t ! i) = ''pong.js'' \<and> m_exports (modules t ! i) = v \<and>
    (\<forall>u name' parent' k. later ?env t u \<longrightarrow>
      Require_resolve (me_hasFile ?env) name' (parent_id u parent') = Some ''pong.js'' \<longrightarrow>
      Require (Suc k) ?env name' parent' u = Some (Inr (m_exports (modules u ! i)), u))"
    by (rule require_runs_once [OF _ registry_init known_None run _ names(3)])
      (use names in \<open>simp_all add: demo_bodies parent_id_def\<close>)
  moreover have "Require_resolve (me_hasFile ?env) ''./lib/../pong.js'' (parent_id u None) = Some ''pong.js''" for u
    using names(2) by (simp add: parent_id_def)
  ultimately obtain i where "m_exports (modules t ! i) = v"
    "Require (Suc 4) ?env ''./lib/../pong.js'' None (heap_set 0 ''more'' v t) =
       Some (Inr (m_exports (modules (heap_set 0 ''more'' v t) ! i)), heap_set 0 ''more'' v t)"
    by blast
  then show ?thesis using run by (force simp: heap_set_def simp del: Require.simps)
qed

text \<open>Cycles see partial exports: a \<open>require\<close> of a file whose module is in the registry, loaded or
  still loading, runs nothing and returns what that module exports at that moment.\<close>
theorem require_of_known_module:
  assumes "registry_ok env t" and "i < length (modules t)"
    and "Require_resolve (me_hasFile env) name (parent_id t parent) = Some (m_filename (modules t ! i))"
  shows "Require (Suc k) env name parent t = Some (Inr (m_exports (modules t ! i)), t)"
  using assms by (rule registry_hit)

theorem require_of_known_module_witness:
  "Require 1 (demo_env [''ping.js'', ''pong.js'']) ''./ping'' (Some 0)
     (snd (new_module ''ping.js'' None mstate_init)) =
   Some (Inr (MRef 0), snd (new_module ''ping.js'' None mstate_init))"
proof -
  let ?env = "demo_env [''ping.js'', ''pong.js'']"
  let ?t = "snd (new_module ''ping.js'' None mstate_init)"
  have "registry_ok ?env ?t"
    by (rule registry_new [OF registry_init]) (code_simp, simp add: ends_with_def, code_simp)
  moreover have "Require_resolve (me_hasFile ?env) ''./ping'' (parent_id ?t (Some 0)) =
      Some (m_filename (modules ?t ! 0))"
    by code_simp
  moreover have "m_exports (modules ?t ! 0) = MRef 0" by code_simp
  ultimately show ?thesis using require_of_known_module [of ?env ?t 0 "''./ping''" "Some 0" 0] by simp
qed

text \<open>C34: when no module ever assigns a falsy value to an \<open>exports\<close>, an error while a module loads
  leaves it registered: the \<open>require\<close> that ran it throws, but every \<open>require\<close> of the same file in any
  later state succeeds without running anything.\<close>
theorem failed_module_stays_cached:
  assumes "env_bodies truthy_m env" and "registry_ok env s" and "known s parent = parent"
    and "Require_resolve (me_hasFile env) name (parent_id s parent) = Some f"
    and "\<not> ends_with f ''.json''" and "f \<notin> set (module_files s)"
    and "Require n env name parent s = Some (Inl e, t)"
    and "later env t u" and "Require_resolve (me_hasFile env) name' (parent_id u parent') = Some f"
  shows "\<exists>v. Require (Suc k) env name' parent' u = Some (Inr v, u)"
proof -
  obtain j where n: "n = Suc j" using assms(7) by (cases n) auto
  have "cache_hit s f = None" using assms(6) registry_cache(3) [OF assms(2)] by simp
  with assms(4,5,7) n have "loadModule (Require j env) env f parent s = Some (Inl e, t)" by simp
  note m = loadModule_result(1,2) [OF this]
  have "registry_ok env t"
    using registry.Require_keeps [of env s parent n name _ t] assms(1-3,7) by blast
  from later_hit [OF assms(8,1) this m(1)] assms(9) m(2) show ?thesis by blast
qed

theorem failed_module_stays_cached_witness:
  "\<exists>e t v. Require 2 (demo_env [''half.js'']) ''half'' None mstate_init = Some (Inl e, t) \<and>
     Require 1 (demo_env [''half.js'']) ''half'' None t = Some (Inr v, t)"
proof -
  let ?env = "demo_env [''half.js'']"
  have "case Require 2 ?env ''half'' None mstate_init of Some (Inl e, t) \<Rightarrow> True | _ \<Rightarrow> False"
    by code_simp
  then obtain e t where run: "Require 2 ?env ''half'' None mstate_init = Some (Inl e, t)"
    by (auto split: option.splits sum.splits)
  have name: "Require_resolve (me_hasFile ?env) ''half'' None = Some ''half.js''"
    "\<not> ends_with ''half.js'' ''.json''" by code_simp+
  have "\<exists>v. Require (Suc 0) ?env ''half'' None t = Some (Inr v, t)"
    by (rule failed_module_stays_cached [OF _ registry_init known_None _ name(2) _ run later.now])
      (use name in \<open>simp_all add: demo_bodies parent_id_def module_files_def mstate_init_def\<close>)
  with run show ?thesis by auto
qed

text \<open>A falsy export is never cached: a module whose code assigns a falsy value to its exports is
  made and run again by every \<open>require\<close>, each time as one more module of the same file.\<close>
theorem falsy_exports_reload:
  assumes "me_readFile env f = Some src" and "me_load env (funcBody src) f = Inr func"
    and "\<And>args. func args = SetExports (ma_module args) v Done" and "\<not> truthy_m v"
    and "cache_hit s f = None" and "\<not> ends_with f ''.json''"
    and "Require_resolve (me_hasFile env) name (parent_id s parent) = Some f" and "known s parent = parent"
  shows "\<exists>t. Require (Suc k) env name parent s = Some (Inr v, t) \<and>
    module_files t = module_files s @ [f] \<and> cache_hit t f = None"
proof -
  let ?m = "length (modules s)"
  let ?s1 = "snd (new_module f parent s)"
  let ?t = "mark_loaded ?m (set_exports ?m v ?s1)"
  have new: "m_filename (modules ?s1 ! ?m) = f" "\<not> m_loaded (modules ?s1 ! ?m)"
  proof -
    show "m_filename (modules ?s1 ! ?m) = f"
      using nth_module_files [of ?m ?s1, symmetric] by (simp add: nth_append)
    show "\<not> m_loaded (modules ?s1 ! ?m)" using assms(8)
      by (auto simp: new_module_def Let_def push_child_def set_exports_def known_id nth_append
          nth_update_if split: option.splits)
  qed
  have "Module_load (Require k env) env ?m ?s1 = Some (Inr (), ?t)"
    using new assms(1-3) by (simp add: Module_load_def Let_def readFile_def)
  moreover have "m_exports (modules ?t ! ?m) = v"
    by (simp add: mark_loaded_def set_exports_def)
  ultimately have "loadModule (Require k env) env f parent s = Some (Inr v, ?t)"
    by (cases "new_module f parent s") (auto simp: loadModule_def new_module_def Let_def)
  with assms(5-7) have "Require (Suc k) env name parent s = Some (Inr v, ?t)" by simp
  moreover have "module_files ?t = module_files s @ [f]" by simp
  moreover have "cache_hit ?t f = None"
    using assms(4) new(1) by (simp add: cache_hit_def mark_loaded_def set_exports_def)
  ultimately show ?thesis by blast
qed

theorem falsy_exports_reload_witness:
  "\<exists>t. Require 1 (demo_env [''no.js'']) ''no'' None mstate_init = Some (Inr (MData (JBool False)), t) \<and>
     module_files t = [''no.js''] \<and> cache_hit t ''no.js'' = None"
proof -
  let ?env = "demo_env [''no.js'']"
  have name: "canonicalFilePath ''no'' (findRoot None) = ''no.js''" "\<not> ends_with ''no.js'' ''.json''"
    by code_simp+
  have "\<exists>t. Require (Suc 0) ?env ''no'' None mstate_init = Some (Inr (MData (JBool False)), t) \<and>
      module_files t = module_files mstate_init @ [''no.js''] \<and> cache_hit t ''no.js'' = None"
    by (rule falsy_exports_reload [where src = "[]" and
          func = "\<lambda>args. SetExports (ma_module args) (MData (JBool False)) Done"])
      (use name in \<open>auto simp: demo_resolve cache_hit_def mstate_init_def parent_id_def\<close>,
       simp_all add: demo_env_def demo_scripts_def)
  then show ?thesis by (simp add: module_files_def mstate_init_def del: Require.simps)
qed

text \<open>C35: a falsy export breaks the guard against cycles: a module that assigns a falsy value to its
  exports and then requires itself never finishes loading, whatever the nesting depth.\<close>
theorem falsy_cycle_diverges:
  assumes "me_readFile env f = Some src" and "me_load env (funcBody src) f = Inr func"
    and "\<And>args. func args = SetExports (ma_module args) v (Req (Some (ma_module args)) name k)"
    and "\<not> truthy_m v" and "\<not> ends_with f ''.json''"
    and "\<And>parent. parent = Some f \<or> parent = None \<Longrightarrow> Require_resolve (me_hasFile env) name parent = Some f"
    and "cache_hit s f = None" and "known s parent = parent"
    and "\<And>p. parent = Some p \<Longrightarrow> m_id (modules s ! p) = f"
  shows "Require n env name parent s = None"
  using assms(7-9)
proof (induction n arbitrary: s parent)
  case (Suc n)
  let ?m = "length (modules s)"
  let ?s1 = "snd (new_module f parent s)"
  let ?t = "set_exports ?m v ?s1"
  have res: "Require_resolve (me_hasFile env) name (parent_id s parent) = Some f"
    using Suc.prems(3) assms(6) by (cases parent) (auto simp: parent_id_def)
  have new: "m_filename (modules ?s1 ! ?m) = f" "m_id (modules ?s1 ! ?m) = f" "\<not> m_loaded (modules ?s1 ! ?m)"
    using Suc.prems(2) by (auto simp: new_module_def Let_def push_child_def set_exports_def known_id
        nth_append nth_update_if split: option.splits)
  have "m_id (modules ?t ! ?m) = f" using new(2) by (simp add: set_exports_def)
  moreover have "cache_hit ?t f = None"
    using assms(4) new(1) by (simp add: cache_hit_def set_exports_def)
  ultimately have "Require n env name (Some ?m) ?t = None"
    by (intro Suc.IH) (simp_all add: known_id)
  then have "Module_load (Require n env) env ?m ?s1 = None"
    using new assms(1-3) by (simp add: Module_load_def Let_def readFile_def known_def)
  then have "loadModule (Require n env) env f parent s = None"
    by (cases "new_module f parent s") (auto simp: loadModule_def new_module_def Let_def)
  with res Suc.prems(1) assms(5) show ?case by simp
qed simp

theorem falsy_cycle_diverges_witness:
  "\<forall>n. Require n (demo_env [''loop.js'']) ''./loop'' None mstate_init = None"
proof
  fix n
  have name: "canonicalFilePath ''./loop'' (findRoot (Some ''loop.js'')) = ''loop.js''"
    "canonicalFilePath ''./loop'' (findRoot None) = ''loop.js''" "\<not> ends_with ''loop.js'' ''.json''"
    by code_simp+
  show "Require n (demo_env [''loop.js'']) ''./loop'' None mstate_init = None"
    by (rule falsy_cycle_diverges [where f = "''loop.js''" and src = "[]" and v = "MData (JBool False)"
          and func = "\<lambda>args. SetExports (ma_module args) (MData (JBool False))
            (Req (Some (ma_module args)) ''./loop'' (\<lambda>r. Done))" and k = "\<lambda>r. Done"])
      (use name in \<open>auto simp: demo_resolve cache_hit_def mstate_init_def\<close>,
       simp_all add: demo_env_def demo_scripts_def)
qed

text \<open>JSON files are read at every \<open>require\<close>: a file that is found and named \<open>.json\<close> is parsed
  anew, never cached, makes no module and runs no code; its text missing or malformed, the
  \<open>require\<close> throws and the state is as before.\<close>
theorem json_is_never_cached:
  assumes "registry_ok env s"
    and "Require_resolve (me_hasFile env) name (parent_id s parent) = Some f" and "ends_with f ''.json''"
  shows "Require (Suc k) env name parent s =
    Some (case me_readFile env f of
            None \<Rightarrow> Inl (Thrown [JStr ''Cannot get file: '', JStr f])
          | Some src \<Rightarrow> (case me_parse env src of Inl e \<Rightarrow> Inl e | Inr v \<Rightarrow> Inr (MData v)), s)"
proof -
  have "f \<notin> set (module_files s)" using assms(1,3) by (auto simp: registry_ok_def)
  then have "cache_hit s f = None" using registry_cache(3) [OF assms(1)] by blast
  with assms(2,3) show ?thesis
    by (auto simp: read_json_def readFile_def rbind_def split: option.splits sum.splits)
qed

theorem json_is_never_cached_witness:
  "Require 1 (demo_env [''data.json'']) ''data.json'' None mstate_init =
     Some (Inr (MData (JStr [])), mstate_init)"
proof -
  have "canonicalFilePath ''data.json'' (findRoot None) = ''data.json''" "ends_with ''data.json'' ''.json''"
    by code_simp+
  then show ?thesis
    using json_is_never_cached [OF registry_init, of "demo_env [''data.json'']" "''data.json''" None
        "''data.json''" 0]
    by (simp add: demo_resolve parent_id_def del: Require.simps) (simp add: demo_env_def)
qed

end
