(* ===== verification/Scripts.thy ===== *)
theory Scripts
  imports Libraries MockApi Requires
begin

text \<open>
  The validator script on the wrapped request: the methods it puts on the wrapper object of
  \<open>sandbox-patch.js\<close>, by name, and calls made through them while a host request is handled. The text
  of scripts 1 and 2 is the same; script 3 has its own default for a missing value and schema engine.
\<close>

section \<open>The validator script\<close>

text \<open>What a method of the request returns: a chain, a value, or the object of sanitizer methods.\<close>

datatype api_result = AChain chain | AValue jsv | ASanitizer jsv jsv

type_synonym api_method = "jsv list \<Rightarrow> (req, jserr, api_result) stm"

definition check_method :: "runtime_version \<Rightarrow> getter \<Rightarrow> api_method" where
  "check_method v g args = sread (\<lambda>r.
     rbind (checkParam v g (arg args 0) (arg args 1) r) (\<lambda>ck. Inr (AChain (Methods ck))))"

definition filter_method :: "venv \<Rightarrow> api_method" where
  "filter_method env args =
     sbind (req_filter env (arg args 0)) (\<lambda>value. sret (ASanitizer (arg args 0) value))"

definition value_method :: "(req, jserr, jsv) stm \<Rightarrow> (req, jserr, api_result) stm" where
  "value_method m = sbind m (\<lambda>v. sret (AValue v))"

text \<open>The methods by name, in the order the script assigns them; the last but one three are aliases.\<close>

definition validator_methods :: "runtime_version \<Rightarrow> venv \<Rightarrow> (string \<times> api_method) list" where
  "validator_methods v env =
     [(''updateParam'', \<lambda>args. value_method (updateParam env (arg args 0) (arg args 1))),
      (''check'', check_method v GCheck),
      (''checkBody'', check_method v GBody),
      (''checkParams'', check_method v GParams),
      (''checkQuery'', check_method v GQuery),
      (''checkHeader'', check_method v GHeader),
      (''onValidationError'', \<lambda>args.
         value_method (sbind (onValidationError (arg args 0)) (\<lambda>_. sret JUndef))),
      (''validationErrors'', \<lambda>args. value_method (sread (validationErrors (arg args 0)))),
      (''validationErrorsJson'', \<lambda>args. value_method (sread (validationErrorsJson (arg args 0)))),
      (''filter'', filter_method env),
      (''sanitize'', filter_method env),
      (''assert'', check_method v GCheck),
      (''validate'', check_method v GCheck),
      (''checkJsonSchema'', \<lambda>args.
         value_method (sbind (checkJsonSchema v env (arg args 0)) (\<lambda>_. sret JUndef)))]"

section \<open>Calling the validator through the wrapped request\<close>

text \<open>
  \<open>wrappedRequest.name(args)\<close> for a property that holds a method of the validator: the property
  is looked up on the wrapper, and the method it names runs on the wrapper.
\<close>

definition call_wrapped ::
  "runtime_version \<Rightarrow> venv \<Rightarrow> string \<Rightarrow> jsv list \<Rightarrow> (pstate, jserr, api_result) stm" where
  "call_wrapped v env name args = (\<lambda>s.
     case obj_get (wreq s) name of
       JFun (FReqApi m) \<Rightarrow>
         (case map_of (validator_methods v env) m of
            Some meth \<Rightarrow>
              (case meth args (wreq s) of (x, r) \<Rightarrow> (x, s\<lparr>wreq := r\<rparr>))
          | None \<Rightarrow> (Inl TypeErr, s))
     | _ \<Rightarrow> (Inl TypeErr, s))"

text \<open>\<open>wrappedRequest.name(args).m1(..).m2(..)\<close>, for a method that returns a chain.\<close>

definition wrapped_check ::
  "runtime_version \<Rightarrow> venv \<Rightarrow> string \<Rightarrow> jsv list \<Rightarrow> (string \<times> jsv list) list \<Rightarrow> (pstate, jserr, cres) stm" where
  "wrapped_check v env name args calls = sbind (call_wrapped v env name args) (\<lambda>res s. case res of
     AChain c \<Rightarrow> (case call_chain_all env default_options (CChain c) calls (wreq s) of (x, r) \<Rightarrow> (x, s\<lparr>wreq := r\<rparr>))
   | _ \<Rightarrow> (Inl TypeErr, s))"

text \<open>The wrapper still has the method the script installed under a name.\<close>

definition installed :: "pstate \<Rightarrow> string \<Rightarrow> bool" where
  "installed s name \<longleftrightarrow> obj_get (wreq s) name = obj_get (sandboxValidator []) name"

lemma validator_aliases:
  "map_of (validator_methods v env) ''sanitize'' = map_of (validator_methods v env) ''filter''"
  "map_of (validator_methods v env) ''assert'' = map_of (validator_methods v env) ''check''"
  "map_of (validator_methods v env) ''validate'' = map_of (validator_methods v env) ''check''"
  by (simp_all add: validator_methods_def)

text \<open>Handling a host request without a member of that name keeps it.\<close>

lemma wrap_copy_keeps:
  assumes "k \<notin> set (pkeys (ho_props rq))" and "k \<noteq> ''_validationErrors''"
  shows "obj_get (wreq (wrap_copy rq rs s)) k = obj_get (wreq s) k"
  using copy_request_other [OF assms] by (simp add: wrap_copy_def)

definition validator_alias :: "string \<Rightarrow> string" where
  "validator_alias k =
     (if k = ''sanitize'' then ''filter''
      else if k = ''assert'' \<or> k = ''validate'' then ''check'' else k)"

lemma validator_alias_method:
  "map_of (validator_methods v env) (validator_alias k) = map_of (validator_methods v env) k"
  using validator_aliases [of v env] by (auto simp: validator_alias_def)

lemma validator_method_names:
  "map fst (validator_methods v env) = [''updateParam'', ''check'', ''checkBody'', ''checkParams'',
     ''checkQuery'', ''checkHeader'', ''onValidationError'', ''validationErrors'',
     ''validationErrorsJson'', ''filter'', ''sanitize'', ''assert'', ''validate'', ''checkJsonSchema'']"
  by (simp add: validator_methods_def)

lemma sandboxValidator_get:
  "\<forall>k \<in> set (map fst (validator_methods v env)).
     obj_get (sandboxValidator r) k = JFun (FReqApi (validator_alias k))"
  unfolding validator_method_names
  by (simp add: sandboxValidator_def validator_alias_def)

lemma sandboxValidator_installs:
  assumes "map_of (validator_methods v env) k = Some meth"
  shows "\<exists>m. obj_get (sandboxValidator r) k = JFun (FReqApi m) \<and>
    map_of (validator_methods v env) m = Some meth"
proof -
  have "k \<in> set (map fst (validator_methods v env))"
    using map_of_SomeD [OF assms] by force
  with sandboxValidator_get [of v env r] validator_alias_method [of v env k] assms
  show ?thesis by auto
qed

lemma installed_copy:
  "installed s name \<Longrightarrow> name \<notin> set (pkeys (ho_props rq)) \<Longrightarrow> name \<noteq> ''_validationErrors'' \<Longrightarrow>
   installed (wrap_copy rq rs s) name"
  by (simp add: installed_def wrap_copy_keeps)

lemma call_installed:
  assumes "installed s name" and "map_of (validator_methods v env) name = Some meth"
  shows "call_wrapped v env name args s = (case meth args (wreq s) of (x, r) \<Rightarrow> (x, s\<lparr>wreq := r\<rparr>))"
  using sandboxValidator_installs [OF assms(2), of "[]"] assms(1) by (auto simp: call_wrapped_def installed_def)

lemma check_methods:
  "map_of (validator_methods v env) ''check'' = Some (check_method v GCheck)"
  "map_of (validator_methods v env) ''assert'' = Some (check_method v GCheck)"
  "map_of (validator_methods v env) ''validate'' = Some (check_method v GCheck)"
  "map_of (validator_methods v env) ''checkBody'' = Some (check_method v GBody)"
  "map_of (validator_methods v env) ''checkParams'' = Some (check_method v GParams)"
  "map_of (validator_methods v env) ''checkQuery'' = Some (check_method v GQuery)"
  by (simp_all add: validator_methods_def)

lemma arg_pair: "arg [a, b] 0 = a" "arg [a, b] (Suc 0) = b"
  by (simp_all add: arg_def)

text \<open>What pushes of one error leave in the list.\<close>

lemma push_errors_list:
  "rget ''_validationErrors'' r = JArr xs ps \<Longrightarrow>
   rget ''_validationErrors'' (snd (sfor push_error es r)) = JArr (xs @ es) ps"
proof (induction es arbitrary: r xs)
  case (Cons e es)
  obtain r1 where r1: "push_error e r = (Inr (), r1)"
    using push_error_run(1) [of r e] by (force simp: errors_ok_def Cons.prems)
  have "rget ''_validationErrors'' (snd (push_error e r)) = JArr (xs @ [e]) ps"
    by (simp add: push_error_def Cons.prems)
  then show ?case using Cons.IH [of r1 "xs @ [e]"] by (simp add: r1)
qed simp

lemma push_errors_new:
  assumes "rget ''_validationErrors'' r = JUndef"
  shows "rget ''_validationErrors'' (snd (sfor push_error (replicate n e) r)) =
     (if n = 0 then JUndef else JArr (replicate n e) [])"
proof (cases n)
  case (Suc m)
  obtain r1 where r1: "push_error e r = (Inr (), r1)"
    using push_error_run(1) [of r e] by (force simp: errors_ok_def assms)
  have "rget ''_validationErrors'' (snd (push_error e r)) = JArr [e] []"
    by (simp add: push_error_def assms)
  then show ?thesis using push_errors_list [of r1 "[e]" "[]" "replicate m e"] by (simp add: Suc r1)
qed (simp add: assms)

lemma push_errors_others:
  "errors_ok r \<Longrightarrow> k \<noteq> ''_validationErrors'' \<Longrightarrow> rget k (snd (sfor push_error es r)) = rget k r"
  using sink.push_all [of r es] by (simp add: other_props_def fun_eq_iff) metis

section \<open>Properties\<close>

text \<open>C37: \<open>req.check(name)\<close> and its aliases \<open>assert\<close> and \<open>validate\<close>, called on the wrapper with a name
  without dots, when the path parameters, the body and the query are objects, return a chain that
  never looks at the parameter's value: the checked value is the name itself when one of the three
  holds a truthy value under it, and otherwise the default for a missing value.\<close>
theorem check_validates_the_name:
  assumes "name \<in> {''check'', ''assert'', ''validate''}" and "installed s name"
    and "k \<noteq> []" and "CHR ''.'' \<notin> set k"
    and "rget ''params'' (wreq s) = JObj pp" and "rget ''body'' (wreq s) = JObj bp"
    and "rget ''query'' (wreq s) = JObj qp"
  shows "call_wrapped v env name [JStr k, msg] s =
     (Inr (AChain (Methods \<lparr>ck_param = k,
          ck_value = (if truthy (obj_get pp k) \<or> truthy (obj_get bp k) \<or> truthy (obj_get qp k)
                      then JStr k else default_value v JUndef),
          ck_msg = msg\<rparr>)), s)"
proof -
  have "map_of (validator_methods v env) name = Some (check_method v GCheck)"
    using assms(1) check_methods by auto
  from call_installed [OF assms(2) this] show ?thesis
    by (simp add: check_method_def arg_pair check_value [OF assms(3-7)])
qed

theorem check_validates_the_name_witness:
  "call_wrapped V2 demo_venv ''assert'' [JStr ''id'', JUndef] (patch_init\<lparr>wreq := sandboxValidator demo_req\<rparr>) =
     (Inr (AChain (Methods \<lparr>ck_param = ''id'', ck_value = JStr ''id'', ck_msg = JUndef\<rparr>)),
      patch_init\<lparr>wreq := sandboxValidator demo_req\<rparr>)"
  by (subst check_validates_the_name [where pp = "[(''id'', JStr ''7'')]" and bp = "[(''first'', JStr ''Ann'')]"
        and qp = "[(''q'', JStr ''1'')]"])
    (simp_all add: installed_def sandboxValidator_def demo_req_def obj_get_def)

text \<open>C40: validation of the request being handled, from the host's request to the report: in the state
  the route's function runs in, after whatever happened before as long as the methods of the validator
  are still on the wrapper, \<open>req.checkBody(k, msg)\<close>, \<open>checkParams\<close> and \<open>checkQuery\<close>, with a name
  without dots, a chain of checks, and no error callback, check the member \<open>k\<close> of the body, the path
  parameters and the query of this request, and \<open>validationErrors()\<close> then reports \<open>null\<close> or exactly one
  entry for every check that rejected it before one threw; entries of earlier requests are gone, if the
  host request has no member \<open>_validationErrors\<close> of its own.\<close>
theorem wrapped_request_validates:
  fixes s :: pstate and msg :: jsv
  assumes "(name, g) \<in> {(''checkBody'', GBody), (''checkParams'', GParams), (''checkQuery'', GQuery)}"
    and "\<forall>n \<in> {name, ''validationErrors''}. installed s n \<and> n \<notin> set (pkeys (ho_props rq))"
    and "distinct (pkeys (ho_props rq))" and "''_validationErrors'' \<notin> set (pkeys (ho_props rq))"
    and "(source_of g, JObj ps) \<in> set (ho_props rq)"
    and "\<not> truthy (obj_get (wreq (wrap_copy rq rs s)) ''onErrorCallback'')"
    and "k \<noteq> []" and "CHR ''.'' \<notin> set k"
    and "map (check_answer env default_options (default_value v (obj_get ps k))) calls = map Some answers"
  defines "s' \<equiv> snd (wrapped_check v env name [JStr k, msg] calls (wrap_copy rq rs s))"
  shows "fst (call_wrapped v env ''validationErrors'' [] s') = Inr (AValue
     (if rejections answers = 0 then JNull
      else JArr (replicate (rejections answers)
             (default_formatter k (js_or msg (JStr ''Invalid value'')) (default_value v (obj_get ps k)))) []))"
proof -
  let ?s = "wrap_copy rq rs s" and ?ck = "\<lparr>ck_param = k, ck_value = default_value v (obj_get ps k), ck_msg = msg\<rparr>"
  have g: "g \<in> {GBody, GParams, GQuery}" and m: "map_of (validator_methods v env) name = Some (check_method v g)"
    and n: "name \<noteq> ''_validationErrors''" using assms(1) check_methods by auto
  have "source_of g \<noteq> ''_validationErrors''" using g by auto
  then have "rget (source_of g) (wreq ?s) = JObj ps"
    using copy_request_member [OF assms(5,3), of "ho_id rq" "wreq s"] by (simp add: wrap_copy_def)
  note checked = source_value [OF assms(7,8) g this]
  have "\<exists>(k, v) \<in> set (ho_props rq). typeof v \<noteq> ''function''" using assms(5) by force
  then have clear: "rget ''_validationErrors'' (wreq ?s) = JUndef"
    using copy_request_clears [of "ho_props rq"] assms(4) by (force simp: wrap_copy_def)
  then have ok: "errors_ok (wreq ?s)" by (simp add: errors_ok_def)
  have inst: "installed ?s name" "installed ?s ''validationErrors''" using assms(2) n by (auto intro: installed_copy)
  have "map (check_answer env default_options (ck_value ?ck)) calls = map Some answers" using assms(9) by simp
  note chain = call_chain_all_checks [OF this ok assms(6)]
  let ?r = "snd (sfor push_error (replicate (rejections answers) (error_entry default_options ?ck)) (wreq ?s))"
  have "call_wrapped v env name [JStr k, msg] ?s = (Inr (AChain (Methods ?ck)), ?s)"
    using call_installed [OF inst(1) m] by (simp add: check_method_def arg_pair checked)
  then have s': "s' = ?s\<lparr>wreq := ?r\<rparr>"
    by (simp add: s'_def wrapped_check_def sbind_def chain)
  have "map_of (validator_methods v env) ''validationErrors'' =
      Some (\<lambda>args. value_method (sread (validationErrors (arg args 0))))" by (simp add: validator_methods_def)
  moreover have "installed s' ''validationErrors''"
    using inst(2) push_errors_others [OF ok] by (simp add: s' installed_def)
  moreover have "arg [] 0 = JUndef" by (simp add: arg_def)
  ultimately show ?thesis
    using push_errors_new [OF clear, of "rejections answers" "error_entry default_options ?ck"]
    by (simp add: call_installed value_method_def sbind_def s' validationErrors_def error_entry_def
        default_options_def)
qed

theorem wrapped_request_validates_witness:
  "fst (call_wrapped V2 demo_venv ''validationErrors'' [] (snd (wrapped_check V2 demo_venv ''checkQuery''
     [JStr ''q'', JStr ''bad q''] [(''isInt'', []), (''isEmail'', [])]
     (wrap_copy \<lparr>ho_id = 7, ho_props = demo_req\<rparr> demo_response patch_init)))) =
   Inr (AValue (JArr [JObj [(''param'', JStr ''q''), (''msg'', JStr ''bad q''), (''value'', JStr ''1'')]] []))"
  by (subst wrapped_request_validates [where g = GQuery and ps = "[(''q'', JStr ''1'')]" and answers = "[Inr True, Inr False]"])
    (auto simp: installed_def patch_init_def sandboxValidator_def demo_req_def wrap_copy_def copy_request_prop_def
      check_answer_def method_answer_def answer_of_def demo_venv_def default_options_def is_sanitizer_def
      starts_with_def sanitizers_def default_formatter_def js_or_def obj_get_def inherited_def object_proto_def)

end
