(* ===== verification/LodashArray.thy ===== *)
theory LodashArray
  imports JsValue
begin

text \<open>
  The array helpers of \<open>lodash-4.2.1.js\<close> (lines 417 to 1080), which every collection method of
  the injected library is built on: index loops that call an iteratee. An iteratee is a stateful
  computation that may throw, so that the order of the calls, and what an error leaves behind, are
  part of the model; it does not change the array it is called on.
\<close>

section \<open>Values\<close>

text \<open>
  The values the helpers compare: primitives, and objects by identity. \<open>===\<close> differs from
  equality on \<open>NaN\<close> only; \<open>eq\<close> is SameValueZero.
\<close>

datatype lval =
    LUndef
  | LNull
  | LBool bool
  | LNum jsnum
  | LStr string
  | LRef nat

definition is_NaN :: "lval \<Rightarrow> bool" where
  "is_NaN v \<longleftrightarrow> v = LNum NaN"

definition strict_eq :: "lval \<Rightarrow> lval \<Rightarrow> bool" where
  "strict_eq a b \<longleftrightarrow> a = b \<and> \<not> is_NaN a"

definition lo_eq :: "lval \<Rightarrow> lval \<Rightarrow> bool" where
  "lo_eq value other \<longleftrightarrow> strict_eq value other \<or> (\<not> strict_eq value value \<and> \<not> strict_eq other other)"

lemma strict_eq_refl [simp]: "strict_eq a a \<longleftrightarrow> \<not> is_NaN a"
  by (simp add: strict_eq_def)

lemma lo_eq_iff [simp]: "lo_eq a b \<longleftrightarrow> a = b"
  by (auto simp: lo_eq_def strict_eq_def is_NaN_def)

section \<open>Loops\<close>

text \<open>
  The body of a loop returns \<open>Inl\<close> the accumulator to go on with, or \<open>Inr\<close> a value to leave the
  loop with. \<open>for_up\<close> is \<open>while (++index < length)\<close>, \<open>for_down\<close> is \<open>while (length--)\<close>.
\<close>

function for_up ::
  "(nat \<Rightarrow> 'a \<Rightarrow> ('s, 'e, 'a + 'r) stm) \<Rightarrow> nat \<Rightarrow> nat \<Rightarrow> 'a \<Rightarrow> ('s, 'e, 'a + 'r) stm" where
  "for_up f i n a =
     (if i < n
      then sbind (f i a) (\<lambda>x. case x of Inl b \<Rightarrow> for_up f (Suc i) n b | Inr r \<Rightarrow> sret (Inr r))
      else sret (Inl a))"
  by pat_completeness auto
termination by (relation "measure (\<lambda>(f, i, n, a). n - i)") auto

declare for_up.simps [simp del]

fun for_down ::
  "(nat \<Rightarrow> 'a \<Rightarrow> ('s, 'e, 'a + 'r) stm) \<Rightarrow> nat \<Rightarrow> 'a \<Rightarrow> ('s, 'e, 'a + 'r) stm" where
  "for_down f 0 a = sret (Inl a)"
| "for_down f (Suc i) a =
     sbind (f i a) (\<lambda>x. case x of Inl b \<Rightarrow> for_down f i b | Inr r \<Rightarrow> sret (Inr r))"

text \<open>The loop over a list of indexed elements both are instances of.\<close>

fun for_list ::
  "('x \<Rightarrow> 'a \<Rightarrow> ('s, 'e, 'a + 'r) stm) \<Rightarrow> 'x list \<Rightarrow> 'a \<Rightarrow> ('s, 'e, 'a + 'r) stm" where
  "for_list f [] a = sret (Inl a)"
| "for_list f (x # xs) a =
     sbind (f x a) (\<lambda>r. case r of Inl b \<Rightarrow> for_list f xs b | Inr r \<Rightarrow> sret (Inr r))"

lemma for_up_list: "for_up f i n a = for_list f [i..<n] a"
proof (induction f i n a rule: for_up.induct)
  case (1 f i n a)
  show ?case
  proof (cases "i < n")
    case True
    have "(\<lambda>x. case x of Inl b \<Rightarrow> for_up f (Suc i) n b | Inr r \<Rightarrow> sret (Inr r)) =
        (\<lambda>x. case x of Inl b \<Rightarrow> for_list f [Suc i..<n] b | Inr r \<Rightarrow> sret (Inr r))"
      using 1 [OF True] by (auto simp: fun_eq_iff split: sum.splits)
    with True show ?thesis by (subst for_up.simps) (simp add: upt_conv_Cons)
  next
    case False
    then show ?thesis by (subst for_up.simps) simp
  qed
qed

lemma for_down_list: "for_down f n a = for_list f (rev [0..<n]) a"
proof (induction n arbitrary: a)
  case (Suc n)
  then have "for_down f n = for_list f (rev [0..<n])" by (simp add: fun_eq_iff)
  then show ?case by simp
qed simp

lemma for_list_append:
  "for_list f (xs @ ys) a =
     sbind (for_list f xs a) (\<lambda>r. case r of Inl b \<Rightarrow> for_list f ys b | Inr r \<Rightarrow> sret (Inr r))"
proof (induction xs arbitrary: a)
  case Nil
  show ?case by (rule ext) simp
next
  case (Cons x xs)
  show ?case by (rule ext)
    (auto simp: Cons.IH sbind_def split: prod.splits sum.splits)
qed

text \<open>A loop that keeps an invariant while it goes on.\<close>

lemma for_list_invariant:
  assumes "\<And>x a b s t. x \<in> set xs \<Longrightarrow> I a s \<Longrightarrow> f x a s = (Inr (Inl b), t) \<Longrightarrow> I b t"
    and "I a s" and "for_list f xs a s = (Inr (Inl b), t)"
  shows "I b t"
  using assms
proof (induction xs arbitrary: a s)
  case (Cons x xs)
  from Cons.prems(3) obtain c u where "f x a s = (Inr (Inl c), u)" "for_list f xs c u = (Inr (Inl b), t)"
    by (auto simp: sbind_def split: prod.splits sum.splits)
  with Cons show ?case by (metis list.set_intros)
qed simp

text \<open>Loops whose body neither uses the state nor throws.\<close>

fun pure_loop :: "('x \<Rightarrow> 'a \<Rightarrow> 'a + 'r) \<Rightarrow> 'x list \<Rightarrow> 'a \<Rightarrow> 'a + 'r" where
  "pure_loop g [] a = Inl a"
| "pure_loop g (x # xs) a = (case g x a of Inl b \<Rightarrow> pure_loop g xs b | Inr r \<Rightarrow> Inr r)"

lemma for_list_pure: "for_list (\<lambda>x a. sret (g x a)) xs a s = (Inr (pure_loop g xs a), s)"
  by (induction xs arbitrary: a) (auto split: sum.splits)

section \<open>The helpers\<close>

type_synonym ('x, 's, 'e, 'b) iteratee = "'x \<Rightarrow> nat \<Rightarrow> ('s, 'e, 'b) stm"

text \<open>\<open>arrayAggregator\<close>: the setter stores each value under the key its iteratee computes.\<close>

definition arrayAggregator ::
  "'x list \<Rightarrow> ('acc \<Rightarrow> 'x \<Rightarrow> 'k \<Rightarrow> ('s, 'e, 'acc) stm) \<Rightarrow> ('x \<Rightarrow> ('s, 'e, 'k) stm) \<Rightarrow> 'acc \<Rightarrow>
     ('s, 'e, 'acc + unit) stm" where
  "arrayAggregator array setter iteratee accumulator =
     for_up (\<lambda>index acc. sbind (iteratee (array ! index)) (\<lambda>k.
        sbind (setter acc (array ! index) k) (\<lambda>acc'. sret (Inl acc')))) 0 (length array) accumulator"

definition arrayConcat :: "'x list \<Rightarrow> 'x list \<Rightarrow> 'x list" where
  "arrayConcat array other =
     map (\<lambda>index. if index < length array then array ! index else other ! (index - length array))
       [0..<length array + length other]"

text \<open>The iteratee's result is compared with \<open>false\<close>: \<open>True\<close> stands for every other value.\<close>

definition arrayEach :: "'x list \<Rightarrow> ('x, 's, 'e, bool) iteratee \<Rightarrow> ('s, 'e, unit + unit) stm" where
  "arrayEach array iteratee =
     for_up (\<lambda>index u. sbind (iteratee (array ! index) index)
        (\<lambda>r. sret (if \<not> r then Inr () else Inl ()))) 0 (length array) ()"

definition arrayEachRight :: "'x list \<Rightarrow> ('x, 's, 'e, bool) iteratee \<Rightarrow> ('s, 'e, unit + unit) stm" where
  "arrayEachRight array iteratee =
     for_down (\<lambda>index u. sbind (iteratee (array ! index) index)
        (\<lambda>r. sret (if \<not> r then Inr () else Inl ()))) (length array) ()"

text \<open>The value of a loop that answers \<open>d\<close> when it runs to its end.\<close>

definition loop_value :: "('a \<Rightarrow> 'r) \<Rightarrow> ('s, 'e, 'a + 'r) stm \<Rightarrow> ('s, 'e, 'r) stm" where
  "loop_value d m = sbind m (\<lambda>x. sret (case x of Inl a \<Rightarrow> d a | Inr r \<Rightarrow> r))"

definition arrayEvery :: "'x list \<Rightarrow> ('x, 's, 'e, bool) iteratee \<Rightarrow> ('s, 'e, bool) stm" where
  "arrayEvery array predicate = loop_value (\<lambda>_. True)
     (for_up (\<lambda>index u. sbind (predicate (array ! index) index)
        (\<lambda>p. sret (if \<not> p then Inr False else Inl ()))) 0 (length array) ())"

definition arraySome :: "'x list \<Rightarrow> ('x, 's, 'e, bool) iteratee \<Rightarrow> ('s, 'e, bool) stm" where
  "arraySome array predicate = loop_value (\<lambda>_. False)
     (for_up (\<lambda>index u. sbind (predicate (array ! index) index)
        (\<lambda>p. sret (if p then Inr True else Inl ()))) 0 (length array) ())"

definition arrayFilter :: "'x list \<Rightarrow> ('x, 's, 'e, bool) iteratee \<Rightarrow> ('s, 'e, 'x list) stm" where
  "arrayFilter array predicate = loop_value id
     (for_up (\<lambda>index result. sbind (predicate (array ! index) index)
        (\<lambda>p. sret (Inl (if p then result @ [array ! index] else result)))) 0 (length array) [])"

definition arrayMap :: "'x list \<Rightarrow> ('x, 's, 'e, 'y) iteratee \<Rightarrow> ('s, 'e, 'y list) stm" where
  "arrayMap array iteratee = loop_value id
     (for_up (\<lambda>index result. sbind (iteratee (array ! index) index)
        (\<lambda>y. sret (Inl (result @ [y])))) 0 (length array) [])"

definition arrayPush :: "'x list \<Rightarrow> 'x list \<Rightarrow> 'x list" where
  "arrayPush array values = foldl (\<lambda>a index. a @ [values ! index]) array [0..<length values]"

text \<open>\<open>initAccum\<close> starts the reduction with the first (last) element, if there is one.\<close>

definition arrayReduce ::
  "'x list \<Rightarrow> ('x \<Rightarrow> 'x \<Rightarrow> nat \<Rightarrow> ('s, 'e, 'x) stm) \<Rightarrow> 'x \<Rightarrow> bool \<Rightarrow> ('s, 'e, 'x) stm" where
  "arrayReduce array iteratee accumulator initAccum = loop_value id
     (let first = initAccum \<and> length array \<noteq> 0
      in for_up (\<lambda>index acc. sbind (iteratee acc (array ! index) index) (\<lambda>acc'. sret (Inl acc')))
           (if first then 1 else 0) (length array) (if first then array ! 0 else accumulator))"

definition arrayReduceRight ::
  "'x list \<Rightarrow> ('x \<Rightarrow> 'x \<Rightarrow> nat \<Rightarrow> ('s, 'e, 'x) stm) \<Rightarrow> 'x \<Rightarrow> bool \<Rightarrow> ('s, 'e, 'x) stm" where
  "arrayReduceRight array iteratee accumulator initAccum = loop_value id
     (let first = initAccum \<and> length array \<noteq> 0; n = length array
      in for_down (\<lambda>index acc. sbind (iteratee acc (array ! index) index) (\<lambda>acc'. sret (Inl acc')))
           (if first then n - 1 else n) (if first then array ! (n - 1) else accumulator))"

text \<open>\<open>baseExtremum\<close>: \<open>current != null\<close> and the first reflexive value, or a better one.\<close>

definition baseExtremum ::
  "lval list \<Rightarrow> (lval \<Rightarrow> ('s, 'e, lval) stm) \<Rightarrow> (lval \<Rightarrow> lval \<Rightarrow> ('s, 'e, bool) stm) \<Rightarrow> ('s, 'e, lval) stm" where
  "baseExtremum array iteratee comparator = loop_value snd
     (for_up (\<lambda>index (computed, result). sbind (iteratee (array ! index)) (\<lambda>current.
        if current = LNull \<or> current = LUndef then sret (Inl (computed, result))
        else sbind (if computed = LUndef then sret (\<not> is_NaN current) else comparator current computed)
          (\<lambda>better. sret (Inl (if better then (current, array ! index) else (computed, result))))))
      0 (length array) (LUndef, LUndef))"

text \<open>\<open>baseFindIndex\<close>: the index, or \<open>-1\<close>.\<close>

definition baseFindIndex :: "'x list \<Rightarrow> ('x, 's, 'e, bool) iteratee \<Rightarrow> bool \<Rightarrow> ('s, 'e, int) stm" where
  "baseFindIndex array predicate fromRight = loop_value (\<lambda>_. -1)
     (let body = \<lambda>index u. sbind (predicate (array ! index) index)
        (\<lambda>p. sret (if p then Inr (int index) else Inl ()))
      in if fromRight then for_down body (length array) () else for_up body 0 (length array) ())"

text \<open>\<open>indexOfNaN\<close> and \<open>baseIndexOf\<close>, from an index on.\<close>

definition indexOfNaN :: "lval list \<Rightarrow> nat \<Rightarrow> bool \<Rightarrow> int" where
  "indexOfNaN array fromIndex fromRight =
     (case find (\<lambda>i. is_NaN (array ! i))
             (if fromRight then rev [0..<fromIndex] else [fromIndex..<length array]) of
        Some i \<Rightarrow> int i | None \<Rightarrow> -1)"

definition baseIndexOf :: "lval list \<Rightarrow> lval \<Rightarrow> nat \<Rightarrow> int" where
  "baseIndexOf array value fromIndex =
     (if \<not> strict_eq value value then indexOfNaN array fromIndex False
      else case find (\<lambda>i. strict_eq (array ! i) value) [fromIndex..<length array] of
        Some i \<Rightarrow> int i | None \<Rightarrow> -1)"

definition arrayIncludes :: "lval list \<Rightarrow> lval \<Rightarrow> bool" where
  "arrayIncludes array value \<longleftrightarrow> length array \<noteq> 0 \<and> baseIndexOf array value 0 > -1"

definition arrayIncludesWith :: "lval list \<Rightarrow> lval \<Rightarrow> (lval \<Rightarrow> lval \<Rightarrow> bool) \<Rightarrow> bool" where
  "arrayIncludesWith array value comparator \<longleftrightarrow>
     find (\<lambda>i. comparator value (array ! i)) [0..<length array] \<noteq> None"

definition baseTimes :: "nat \<Rightarrow> (nat \<Rightarrow> ('s, 'e, 'y) stm) \<Rightarrow> ('s, 'e, 'y list) stm" where
  "baseTimes n iteratee = loop_value id
     (for_up (\<lambda>index result. sbind (iteratee index) (\<lambda>y. sret (Inl (result @ [y])))) 0 n [])"

text \<open>\<open>baseSum\<close>: \<open>+\<close> is the engine's addition, an argument.\<close>

definition baseSum ::
  "(lval \<Rightarrow> lval \<Rightarrow> lval) \<Rightarrow> 'x list \<Rightarrow> ('x \<Rightarrow> ('s, 'e, lval) stm) \<Rightarrow> ('s, 'e, lval) stm" where
  "baseSum add array iteratee = loop_value id
     (for_up (\<lambda>index result. sbind (iteratee (array ! index)) (\<lambda>current.
        sret (Inl (if current \<noteq> LUndef
                   then (if result = LUndef then current else add result current) else result))))
      0 (length array) LUndef)"

section \<open>Loops over the elements\<close>

text \<open>An index loop over the positions is a loop over the elements with their positions.\<close>

lemma for_list_map: "for_list f (map g xs) a = for_list (\<lambda>x. f (g x)) xs a"
proof (induction xs arbitrary: a)
  case (Cons x xs)
  then have "for_list f (map g xs) = for_list (\<lambda>x. f (g x)) xs" by (simp add: fun_eq_iff)
  then show ?case by simp
qed simp

lemma for_list_cong:
  assumes "\<And>x. x \<in> set xs \<Longrightarrow> f x = g x"
  shows "for_list f xs a = for_list g xs a"
  using assms
proof (induction xs arbitrary: a)
  case (Cons x xs)
  then have "for_list f xs = for_list g xs" by (simp add: fun_eq_iff)
  with Cons.prems show ?case by simp
qed simp

lemmas loop_lists = for_up_list for_down_list

lemma loop_value_pure [simp]:
  "loop_value d (for_list (\<lambda>x a. sret (g x a)) xs a) s =
     (Inr (case pure_loop g xs a of Inl a \<Rightarrow> d a | Inr r \<Rightarrow> r), s)"
  "loop_value d (for_list (\<lambda>x a. Pair (Inr (g x a))) xs a) s =
     (Inr (case pure_loop g xs a of Inl a \<Rightarrow> d a | Inr r \<Rightarrow> r), s)"
proof -
  show 1: "loop_value d (for_list (\<lambda>x a. sret (g x a)) xs a) s =
     (Inr (case pure_loop g xs a of Inl a \<Rightarrow> d a | Inr r \<Rightarrow> r), s)"
    unfolding loop_value_def by (subst sbind_Inr [OF for_list_pure]) simp
  have eq: "(\<lambda>x a. Pair (Inr (g x a))) = (\<lambda>x a. sret (g x a))" by (simp add: fun_eq_iff)
  show "loop_value d (for_list (\<lambda>x a. Pair (Inr (g x a))) xs a) s =
     (Inr (case pure_loop g xs a of Inl a \<Rightarrow> d a | Inr r \<Rightarrow> r), s)" unfolding eq by (rule 1)
qed

lemma loop_value_sret [simp]: "loop_value d (sret x) s = (Inr (case x of Inl a \<Rightarrow> d a | Inr r \<Rightarrow> r), s)"
  by (simp add: loop_value_def)

lemma sbind_sret [simp]: "sbind (sret x) f = f x"
  by (simp add: fun_eq_iff)

text \<open>Loops that only accumulate, and loops that only search.\<close>

lemma pure_loop_fold: "pure_loop (\<lambda>x a. Inl (h x a)) xs a = Inl (fold h xs a)"
  by (induction xs arbitrary: a) auto

lemma pure_loop_search:
  "pure_loop (\<lambda>x u. if q x then Inr (r x) else Inl ()) xs () =
     (case find q xs of Some x \<Rightarrow> Inr (r x) | None \<Rightarrow> Inl ())"
  by (induction xs) auto

lemma find_upt_Some:
  "find q [m..<n] = Some k \<longleftrightarrow> m \<le> k \<and> k < n \<and> q k \<and> (\<forall>i. m \<le> i \<and> i < k \<longrightarrow> \<not> q i)"
proof (induction "n - m" arbitrary: m)
  case (Suc d)
  then have mn: "m < n" "d = n - Suc m" by simp_all
  show ?case
  proof (cases "q m")
    case True
    with mn show ?thesis by (auto simp: upt_conv_Cons)
  next
    case False
    with mn Suc(1) [of "Suc m"] show ?thesis
      by (auto simp: upt_conv_Cons Suc_le_eq) (metis Suc_leI le_neq_implies_less)+
  qed
qed auto

lemma find_rev_upt_Some:
  "find q (rev [0..<n]) = Some k \<longleftrightarrow> k < n \<and> q k \<and> (\<forall>i. k < i \<and> i < n \<longrightarrow> \<not> q i)"
proof (induction n)
  case (Suc n)
  then show ?case by (cases "q n") (auto simp: less_Suc_eq)
qed simp

lemma fold_upt_elements:
  "fold (\<lambda>i a. h (xs ! i) i a) [0..<length xs] a = fold (\<lambda>(i, x) a. h x i a) (enumerate 0 xs) a"
proof -
  have "enumerate 0 xs = map (\<lambda>i. (i, xs ! i)) [0..<length xs]"
    by (rule nth_equalityI) (simp_all add: nth_enumerate_eq)
  then show ?thesis by (simp add: fold_map o_def)
qed

lemma map_positions: "map (\<lambda>i. h (xs ! i)) [0..<length xs] = map h xs"
  by (rule nth_equalityI) simp_all

lemma filter_positions: "map ((!) xs) (filter (\<lambda>i. p (xs ! i)) [0..<length xs]) = filter p xs"
proof -
  have "filter p (map ((!) xs) [0..<length xs]) = map ((!) xs) (filter (\<lambda>i. p (xs ! i)) [0..<length xs])"
    by (simp add: filter_map o_def)
  then show ?thesis by (simp add: map_nth)
qed

section \<open>The helpers on pure iteratees\<close>

lemma arrayMap_pure: "arrayMap xs (\<lambda>x i. sret (f x i)) s = (Inr (map (\<lambda>i. f (xs ! i) i) [0..<length xs]), s)"
proof -
  have "fold (\<lambda>i acc. acc @ [f (xs ! i) i]) is ys = ys @ map (\<lambda>i. f (xs ! i) i) is" for "is" ys
    by (induction "is" arbitrary: ys) auto
  then show ?thesis by (simp add: arrayMap_def loop_lists pure_loop_fold)
qed

lemma arrayFilter_pure:
  "arrayFilter xs (\<lambda>x i. sret (p x i)) s =
     (Inr (map ((!) xs) (filter (\<lambda>i. p (xs ! i) i) [0..<length xs])), s)"
proof -
  have "fold (\<lambda>i acc. if p (xs ! i) i then acc @ [xs ! i] else acc) is ys =
      ys @ map ((!) xs) (filter (\<lambda>i. p (xs ! i) i) is)" for "is" ys
    by (induction "is" arbitrary: ys) auto
  then show ?thesis by (simp add: arrayFilter_def loop_lists pure_loop_fold)
qed

lemma arrayEvery_pure:
  "arrayEvery xs (\<lambda>x i. sret (p x i)) s = (Inr (\<forall>i < length xs. p (xs ! i) i), s)"
  using pure_loop_search [of "\<lambda>i. \<not> p (xs ! i) i" "\<lambda>_. False" "[0..<length xs]"]
  by (auto simp: arrayEvery_def loop_lists find_None_iff find_upt_Some split: option.splits)

lemma arraySome_pure:
  "arraySome xs (\<lambda>x i. sret (p x i)) s = (Inr (\<exists>i < length xs. p (xs ! i) i), s)"
  using pure_loop_search [of "\<lambda>i. p (xs ! i) i" "\<lambda>_. True" "[0..<length xs]"]
  by (auto simp: arraySome_def loop_lists find_None_iff find_upt_Some split: option.splits)

lemma arrayConcat_append [simp]: "arrayConcat xs ys = xs @ ys"
  by (rule nth_equalityI) (simp_all add: arrayConcat_def nth_append)

lemma arrayPush_append [simp]: "arrayPush xs ys = xs @ ys"
proof -
  have "foldl (\<lambda>a i. a @ [ys ! i]) zs is = zs @ map ((!) ys) is" for "is" zs
    by (induction "is" arbitrary: zs) auto
  then show ?thesis by (simp add: arrayPush_def map_nth)
qed

lemma arrayReduce_pure:
  "arrayReduce xs (\<lambda>a x i. sret (f a x)) acc init s =
     (Inr (if init \<and> xs \<noteq> [] then foldl f (hd xs) (tl xs) else foldl f acc xs), s)"
proof -
  have fold: "fold (\<lambda>i a. f a (xs ! i)) [k..<length xs] a = foldl f a (drop k xs)" for k a
  proof (cases "k \<le> length xs")
    case True
    have "fold (\<lambda>i a. f a (xs ! i)) [k..<length xs] a = fold (\<lambda>x a. f a x) (map ((!) xs) [k..<length xs]) a"
      by (simp add: fold_map o_def)
    also have "map ((!) xs) [k..<length xs] = drop k xs"
      by (rule nth_equalityI) simp_all
    finally show ?thesis by (simp add: foldl_conv_fold)
  qed simp
  show ?thesis
    using fold [of 0] fold [of "Suc 0"]
    by (cases xs) (auto simp: arrayReduce_def Let_def loop_lists pure_loop_fold)
qed

lemma arrayReduceRight_pure:
  "arrayReduceRight xs (\<lambda>a x i. sret (f a x)) acc init s = arrayReduce (rev xs) (\<lambda>a x i. sret (f a x)) acc init s"
proof -
  have fold: "fold (\<lambda>i a. f a (xs ! i)) (rev [0..<k]) a = foldl f a (rev (take k xs))"
    if "k \<le> length xs" for k a
  proof -
    have "fold (\<lambda>i a. f a (xs ! i)) (rev [0..<k]) a = fold (\<lambda>x a. f a x) (rev (map ((!) xs) [0..<k])) a"
      by (simp add: rev_map fold_map o_def)
    also have "map ((!) xs) [0..<k] = take k xs" using that by (intro nth_equalityI) simp_all
    finally show ?thesis by (simp add: foldl_conv_fold)
  qed
  show ?thesis
  proof (cases xs rule: rev_cases)
    case (snoc ys y)
    then show ?thesis
      using fold [of "length xs"] fold [of "length xs - 1"]
      by (auto simp: arrayReduceRight_def arrayReduce_pure Let_def loop_lists pure_loop_fold)
  qed (simp add: arrayReduceRight_def arrayReduce_pure)
qed

lemma baseTimes_pure: "baseTimes n (\<lambda>i. sret (f i)) s = (Inr (map f [0..<n]), s)"
proof -
  have "fold (\<lambda>i acc. acc @ [f i]) is ys = ys @ map f is" for "is" ys
    by (induction "is" arbitrary: ys) auto
  then show ?thesis by (simp add: baseTimes_def loop_lists pure_loop_fold)
qed

section \<open>Searching\<close>

lemma baseIndexOf_iff:
  "baseIndexOf xs v k = (case find (\<lambda>i. xs ! i = v) [k..<length xs] of Some i \<Rightarrow> int i | None \<Rightarrow> -1)"
proof (cases "is_NaN v")
  case True
  then have "(\<lambda>i. is_NaN (xs ! i)) = (\<lambda>i. xs ! i = v)" by (auto simp: is_NaN_def)
  with True show ?thesis by (simp add: baseIndexOf_def indexOfNaN_def)
next
  case False
  then have "(\<lambda>i. strict_eq (xs ! i) v) = (\<lambda>i. xs ! i = v)" by (auto simp: strict_eq_def is_NaN_def)
  with False show ?thesis by (simp add: baseIndexOf_def)
qed

lemma arrayIncludes_iff [simp]: "arrayIncludes xs v \<longleftrightarrow> v \<in> set xs"
proof -
  have "arrayIncludes xs v \<longleftrightarrow> find (\<lambda>i. xs ! i = v) [0..<length xs] \<noteq> None"
    by (auto simp: arrayIncludes_def baseIndexOf_iff split: option.splits)
  also have "\<dots> \<longleftrightarrow> v \<in> set xs" by (auto simp: find_None_iff in_set_conv_nth)
  finally show ?thesis .
qed

lemma arrayIncludesWith_iff: "arrayIncludesWith xs v c \<longleftrightarrow> (\<exists>x \<in> set xs. c v x)"
proof -
  have "arrayIncludesWith xs v c \<longleftrightarrow> (\<exists>i < length xs. c v (xs ! i))"
    by (auto simp: arrayIncludesWith_def find_None_iff)
  then show ?thesis by (metis in_set_conv_nth)
qed

section \<open>Which elements are visited\<close>

text \<open>A predicate that records the positions it is called at.\<close>

definition logged :: "('x \<Rightarrow> nat \<Rightarrow> bool) \<Rightarrow> ('x, nat list, jserr, bool) iteratee" where
  "logged p x i = (\<lambda>visits. (Inr (p x i), visits @ [i]))"

lemma search_logged:
  "for_list (\<lambda>i u. sbind (logged p (xs ! i) i) (\<lambda>b. sret (if b = c then Inr (r i) else Inl ()))) is () visits =
     (case find (\<lambda>i. p (xs ! i) i = c) is of
        Some k \<Rightarrow> (Inr (Inr (r k)), visits @ takeWhile (\<lambda>i. p (xs ! i) i \<noteq> c) is @ [k])
      | None \<Rightarrow> (Inr (Inl ()), visits @ is))"
proof (induction "is" arbitrary: visits)
  case (Cons i "is")
  then show ?case
    by (cases "p (xs ! i) i = c") (auto simp: sbind_def logged_def split: option.splits)
qed simp

lemma takeWhile_stop: "\<forall>x \<in> set xs. P x \<Longrightarrow> \<not> P k \<Longrightarrow> takeWhile P (xs @ k # ys) = xs"
  by (induction xs) auto

lemma takeWhile_upt:
  assumes "find (\<lambda>i. q i) [0..<n] = Some k"
  shows "takeWhile (\<lambda>i. \<not> q i) [0..<n] @ [k] = [0..<Suc k]"
proof -
  from assms have k: "k < n" "q k" "\<forall>i<k. \<not> q i" by (auto simp: find_upt_Some)
  then have "[0..<n] = [0..<k] @ k # [Suc k..<n]"
    by (metis less_imp_le_nat upt_add_eq_append upt_conv_Cons zero_le le_add_diff_inverse)
  moreover have "takeWhile (\<lambda>i. \<not> q i) ([0..<k] @ k # [Suc k..<n]) = [0..<k]"
    using k by (intro takeWhile_stop) auto
  ultimately show ?thesis by simp
qed

lemma takeWhile_rev_upt:
  assumes "find (\<lambda>i. q i) (rev [0..<n]) = Some k"
  shows "takeWhile (\<lambda>i. \<not> q i) (rev [0..<n]) @ [k] = rev [k..<n]"
proof -
  from assms have k: "k < n" "q k" "\<forall>i. k < i \<and> i < n \<longrightarrow> \<not> q i" by (auto simp: find_rev_upt_Some)
  then have "rev [0..<n] = rev [Suc k..<n] @ k # rev [0..<k]"
    by (metis (no_types, lifting) append_assoc append_Cons append_Nil less_imp_le_nat
        rev.simps(2) rev_append upt_add_eq_append upt_conv_Cons zero_le le_add_diff_inverse)
  moreover have "rev [k..<n] = rev [Suc k..<n] @ [k]" using k by (simp add: upt_conv_Cons)
  moreover have "\<forall>i \<in> set (rev [Suc k..<n]). \<not> q i" using k by auto
  then have "takeWhile (\<lambda>i. \<not> q i) (rev [Suc k..<n] @ k # rev [0..<k]) = rev [Suc k..<n]"
    using k(2) by (intro takeWhile_stop) auto
  ultimately show ?thesis by simp
qed

text \<open>The search helpers find the right element and look no further: \<open>baseFindIndex\<close> calls the
  predicate on the elements in order, from the left or from the right, up to the first one it
  holds of, and returns that position; or on all of them, and returns \<open>-1\<close>.\<close>
theorem findIndex_first:
  "(case baseFindIndex xs (logged p) fromRight [] of (r, visits) \<Rightarrow>
     (\<exists>k < length xs. r = Inr (int k) \<and> p (xs ! k) k \<and>
        visits = (if fromRight then rev [k..<length xs] else [0..<Suc k]) \<and>
        (\<forall>i < length xs. i \<in> set visits \<and> i \<noteq> k \<longrightarrow> \<not> p (xs ! i) i)) \<or>
     (r = Inr (-1) \<and> (\<forall>i < length xs. \<not> p (xs ! i) i) \<and>
        visits = (if fromRight then rev [0..<length xs] else [0..<length xs])))"
proof -
  let ?n = "length xs"
  let ?is = "if fromRight then rev [0..<?n] else [0..<?n]"
  let ?q = "\<lambda>i. p (xs ! i) i"
  have run: "baseFindIndex xs (logged p) fromRight [] =
      (case find ?q ?is of Some k \<Rightarrow> (Inr (int k), takeWhile (\<lambda>i. \<not> ?q i) ?is @ [k])
                         | None \<Rightarrow> (Inr (-1), ?is))"
    using search_logged [of p xs True int ?is "[]"]
    by (auto simp: baseFindIndex_def Let_def loop_lists loop_value_def sbind_def split: option.splits)
  show ?thesis
  proof (cases "find ?q ?is")
    case None
    then have "\<forall>i < ?n. \<not> ?q i" by (auto simp: find_None_iff split: if_splits)
    with None run show ?thesis by auto
  next
    case (Some k)
    show ?thesis
    proof (cases fromRight)
      case True
      with Some have "find ?q (rev [0..<?n]) = Some k" by simp
      with takeWhile_rev_upt [OF this] run True Some show ?thesis by (auto simp: find_rev_upt_Some)
    next
      case False
      with Some have "find ?q [0..<?n] = Some k" by simp
      with takeWhile_upt [OF this] run False Some show ?thesis by (auto simp: find_upt_Some)
    qed
  qed
qed

text \<open>On iteratees without effects the array helpers are the list functions they are named
  after; reducing from the right is reducing the reversed array.\<close>
theorem array_helpers_pure:
  "arrayMap xs (\<lambda>x i. sret (f x)) s = (Inr (map f xs), s) \<and>
   arrayFilter xs (\<lambda>x i. sret (p x)) s = (Inr (filter p xs), s) \<and>
   arrayEvery xs (\<lambda>x i. sret (p x)) s = (Inr (list_all p xs), s) \<and>
   arraySome xs (\<lambda>x i. sret (p x)) s = (Inr (list_ex p xs), s) \<and>
   arrayReduce xs (\<lambda>a x i. sret (g a x)) acc False s = (Inr (foldl g acc xs), s) \<and>
   arrayReduce (x # xs) (\<lambda>a x i. sret (g a x)) acc True s = (Inr (foldl g x xs), s) \<and>
   arrayReduceRight xs (\<lambda>a x i. sret (g a x)) acc init s =
     arrayReduce (rev xs) (\<lambda>a x i. sret (g a x)) acc init s \<and>
   arrayConcat xs ys = xs @ ys \<and> arrayPush xs ys = xs @ ys"
  by (simp add: arrayMap_pure arrayFilter_pure arrayEvery_pure arraySome_pure arrayReduce_pure
      arrayReduceRight_pure map_positions filter_positions list_all_length list_ex_length)

end
