(* ===== verification/LodashCache.thy ===== *)
theory LodashCache
  imports LodashArray
begin

text \<open>
  The caches of \<open>lodash-4.2.1.js\<close> (lines 1680 to 2092): \<open>Hash\<close>, the association lists, \<open>MapCache\<close>,
  \<open>SetCache\<close> and \<open>Stack\<close>. A \<open>MapCache\<close> keeps strings and other primitive keys in two plain objects
  and everything else in a native map or an association list; the locale \<open>js_map\<close> is the contract
  all of them keep.
\<close>

section \<open>The engine\<close>

text \<open>
  What lodash finds out about the engine when it loads: whether there is a native \<open>Map\<close>, a native
  \<open>Set\<close>, and a native \<open>Object.create\<close>, which gives hashes no prototype. \<open>rt_numkey\<close> is the engine's conversion
  of a number to a property name.
\<close>

record engine =
  rt_Map :: bool
  rt_Set :: bool
  rt_create :: bool
  rt_numkey :: "jsnum \<Rightarrow> string"

text \<open>Distinct numbers have distinct names, none of them the name of another primitive value.\<close>

definition number_names_ok :: "engine \<Rightarrow> bool" where
  "number_names_ok rt \<longleftrightarrow> inj (rt_numkey rt) \<and>
     (\<forall>n. rt_numkey rt n \<notin> {''undefined'', ''null'', ''true'', ''false''})"

fun prop_name :: "engine \<Rightarrow> lval \<Rightarrow> string" where
  "prop_name rt LUndef = ''undefined''"
| "prop_name rt LNull = ''null''"
| "prop_name rt (LBool b) = (if b then ''true'' else ''false'')"
| "prop_name rt (LNum n) = rt_numkey rt n"
| "prop_name rt (LStr s) = s"
| "prop_name rt (LRef a) = ''[object Object]''"

section \<open>Hash\<close>

type_synonym hash = "lval props"

definition HASH_UNDEFINED :: lval where
  "HASH_UNDEFINED = LStr ''__lodash_hash_undefined__''"

text \<open>\<open>hash[key]\<close> where only own members matter: an inherited member is a function.\<close>

definition own :: "hash \<Rightarrow> string \<Rightarrow> lval" where
  "own h k = (case map_of h k of Some v \<Rightarrow> v | None \<Rightarrow> LUndef)"

definition hashHas :: "engine \<Rightarrow> hash \<Rightarrow> string \<Rightarrow> bool" where
  "hashHas rt h k \<longleftrightarrow> (if rt_create rt then own h k \<noteq> LUndef else map_of h k \<noteq> None)"

definition hashGet :: "engine \<Rightarrow> hash \<Rightarrow> string \<Rightarrow> lval" where
  "hashGet rt h k =
     (if rt_create rt then (let result = own h k in if result = HASH_UNDEFINED then LUndef else result)
      else if map_of h k \<noteq> None then own h k else LUndef)"

definition hashSet :: "engine \<Rightarrow> hash \<Rightarrow> string \<Rightarrow> lval \<Rightarrow> hash" where
  "hashSet rt h k v = pset k (if rt_create rt \<and> v = LUndef then HASH_UNDEFINED else v) h"

definition hashDelete :: "engine \<Rightarrow> hash \<Rightarrow> string \<Rightarrow> bool \<times> hash" where
  "hashDelete rt h k = (if hashHas rt h k then (True, AList.delete k h) else (False, h))"

section \<open>Association lists\<close>

type_synonym assoc = "(lval \<times> lval) list"

text \<open>\<open>while (length--)\<close>: the last entry with the key.\<close>

definition assocIndexOf :: "assoc \<Rightarrow> lval \<Rightarrow> int" where
  "assocIndexOf array key =
     (case find (\<lambda>i. lo_eq (fst (array ! i)) key) (rev [0..<length array]) of
        Some i \<Rightarrow> int i | None \<Rightarrow> -1)"

definition assocGet :: "assoc \<Rightarrow> lval \<Rightarrow> lval" where
  "assocGet array key =
     (let index = assocIndexOf array key
      in if index < 0 then LUndef else snd (array ! nat index))"

definition assocHas :: "assoc \<Rightarrow> lval \<Rightarrow> bool" where
  "assocHas array key \<longleftrightarrow> assocIndexOf array key > -1"

definition assocSet :: "assoc \<Rightarrow> lval \<Rightarrow> lval \<Rightarrow> assoc" where
  "assocSet array key v =
     (let index = assocIndexOf array key
      in if index < 0 then array @ [(key, v)]
         else array[nat index := (fst (array ! nat index), v)])"

definition assocDelete :: "assoc \<Rightarrow> lval \<Rightarrow> bool \<times> assoc" where
  "assocDelete array key =
     (let index = assocIndexOf array key
      in if index < 0 then (False, array)
         else if index = int (length array) - 1 then (True, butlast array)
         else (True, take (nat index) array @ drop (Suc (nat index)) array))"

section \<open>MapCache\<close>

text \<open>The field \<open>map\<close> holds the entries of a native \<open>Map\<close>, in insertion order, or an association list.\<close>

record mapcache =
  mc_hash :: hash
  mc_map :: assoc
  mc_string :: hash

definition isKeyable :: "lval \<Rightarrow> bool" where
  "isKeyable v = (case v of
     LNum n \<Rightarrow> True | LBool b \<Rightarrow> True | LStr s \<Rightarrow> s \<noteq> ''__proto__''
   | LUndef \<Rightarrow> True | LNull \<Rightarrow> True | LRef a \<Rightarrow> False)"

fun is_string :: "lval \<Rightarrow> bool" where
  "is_string (LStr s) = True"
| "is_string v = False"

definition mapClear :: mapcache where
  "mapClear = \<lparr>mc_hash = [], mc_map = [], mc_string = []\<rparr>"

definition hash_of :: "mapcache \<Rightarrow> lval \<Rightarrow> hash" where
  "hash_of c key = (if is_string key then mc_string c else mc_hash c)"

definition with_hash :: "mapcache \<Rightarrow> lval \<Rightarrow> hash \<Rightarrow> mapcache" where
  "with_hash c key h = (if is_string key then c\<lparr>mc_string := h\<rparr> else c\<lparr>mc_hash := h\<rparr>)"

definition mapGet :: "engine \<Rightarrow> mapcache \<Rightarrow> lval \<Rightarrow> lval" where
  "mapGet rt c key =
     (if isKeyable key then hashGet rt (hash_of c key) (prop_name rt key)
      else if rt_Map rt then (case map_of (mc_map c) key of Some v \<Rightarrow> v | None \<Rightarrow> LUndef)
      else assocGet (mc_map c) key)"

definition mapHas :: "engine \<Rightarrow> mapcache \<Rightarrow> lval \<Rightarrow> bool" where
  "mapHas rt c key \<longleftrightarrow>
     (if isKeyable key then hashHas rt (hash_of c key) (prop_name rt key)
      else if rt_Map rt then map_of (mc_map c) key \<noteq> None
      else assocHas (mc_map c) key)"

definition mapSet :: "engine \<Rightarrow> mapcache \<Rightarrow> lval \<Rightarrow> lval \<Rightarrow> mapcache" where
  "mapSet rt c key v =
     (if isKeyable key then with_hash c key (hashSet rt (hash_of c key) (prop_name rt key) v)
      else if rt_Map rt then c\<lparr>mc_map := AList.update key v (mc_map c)\<rparr>
      else c\<lparr>mc_map := assocSet (mc_map c) key v\<rparr>)"

definition mapDelete :: "engine \<Rightarrow> mapcache \<Rightarrow> lval \<Rightarrow> bool \<times> mapcache" where
  "mapDelete rt c key =
     (if isKeyable key
      then (case hashDelete rt (hash_of c key) (prop_name rt key) of (b, h) \<Rightarrow> (b, with_hash c key h))
      else if rt_Map rt
      then (map_of (mc_map c) key \<noteq> None, c\<lparr>mc_map := AList.delete key (mc_map c)\<rparr>)
      else (case assocDelete (mc_map c) key of (b, a) \<Rightarrow> (b, c\<lparr>mc_map := a\<rparr>)))"

text \<open>\<open>new MapCache(values)\<close>\<close>

definition MapCache :: "engine \<Rightarrow> assoc \<Rightarrow> mapcache" where
  "MapCache rt values = foldl (\<lambda>c (k, v). mapSet rt c k v) mapClear values"

section \<open>SetCache\<close>

definition cachePush :: "engine \<Rightarrow> mapcache \<Rightarrow> lval \<Rightarrow> mapcache" where
  "cachePush rt c v =
     (if isKeyable v then with_hash c v (pset (prop_name rt v) HASH_UNDEFINED (hash_of c v))
      else mapSet rt c v HASH_UNDEFINED)"

definition cacheHas :: "engine \<Rightarrow> mapcache \<Rightarrow> lval \<Rightarrow> bool" where
  "cacheHas rt c v \<longleftrightarrow>
     (if isKeyable v then strict_eq (own (hash_of c v) (prop_name rt v)) HASH_UNDEFINED
      else mapHas rt c v)"

definition SetCache :: "engine \<Rightarrow> lval list \<Rightarrow> mapcache" where
  "SetCache rt values = foldl (cachePush rt) mapClear values"

section \<open>Stack\<close>

text \<open>An association list that becomes a \<open>MapCache\<close> when it is full.\<close>

definition LARGE_ARRAY_SIZE :: nat where
  "LARGE_ARRAY_SIZE = 200"

record stack =
  st_array :: "assoc option"
  st_map :: "mapcache option"

definition stackClear :: stack where
  "stackClear = \<lparr>st_array = Some [], st_map = None\<rparr>"

definition stackGet :: "engine \<Rightarrow> stack \<Rightarrow> lval \<Rightarrow> lval" where
  "stackGet rt d key = (case st_array d of
     Some array \<Rightarrow> assocGet array key
   | None \<Rightarrow> (case st_map d of Some m \<Rightarrow> mapGet rt m key | None \<Rightarrow> LUndef))"

definition stackHas :: "engine \<Rightarrow> stack \<Rightarrow> lval \<Rightarrow> bool" where
  "stackHas rt d key = (case st_array d of
     Some array \<Rightarrow> assocHas array key
   | None \<Rightarrow> (case st_map d of Some m \<Rightarrow> mapHas rt m key | None \<Rightarrow> False))"

definition stackDelete :: "engine \<Rightarrow> stack \<Rightarrow> lval \<Rightarrow> bool \<times> stack" where
  "stackDelete rt d key = (case st_array d of
     Some array \<Rightarrow> (case assocDelete array key of (b, a) \<Rightarrow> (b, d\<lparr>st_array := Some a\<rparr>))
   | None \<Rightarrow> (case st_map d of
       Some m \<Rightarrow> (case mapDelete rt m key of (b, m1) \<Rightarrow> (b, d\<lparr>st_map := Some m1\<rparr>))
     | None \<Rightarrow> (False, d)))"

definition stackSet :: "engine \<Rightarrow> stack \<Rightarrow> lval \<Rightarrow> lval \<Rightarrow> stack" where
  "stackSet rt d key v =
     (let d1 = (case st_array d of
            Some array \<Rightarrow>
              if length array < LARGE_ARRAY_SIZE - 1 then d\<lparr>st_array := Some (assocSet array key v)\<rparr>
              else d\<lparr>st_array := None, st_map := Some (MapCache rt array)\<rparr>
          | None \<Rightarrow> d)
      in case st_map d1 of Some m \<Rightarrow> d1\<lparr>st_map := Some (mapSet rt m key v)\<rparr> | None \<Rightarrow> d1)"

text \<open>\<open>new Stack(values)\<close>\<close>

definition Stack :: "engine \<Rightarrow> assoc \<Rightarrow> stack" where
  "Stack rt values = foldl (\<lambda>d (k, v). stackSet rt d k v) stackClear values"

end
