(* ===== verification/LodashCacheLaws.thy ===== *)
theory LodashCacheLaws
  imports LodashCache
begin

text \<open>
  The caches refine partial maps on the values under SameValueZero: the contract \<open>js_map\<close>, its
  client lemma on any sequence of writes and deletions, and its interpretations on the
  association lists, on \<open>MapCache\<close> and on \<open>Stack\<close>; membership in a \<open>SetCache\<close>.
\<close>

section \<open>The contract of a map\<close>

datatype map_op = MSet lval lval | MDelete lval

fun op_value :: "map_op \<Rightarrow> lval option" where
  "op_value (MSet k v) = Some v"
| "op_value (MDelete k) = None"

fun spec_op :: "map_op \<Rightarrow> (lval \<rightharpoonup> lval) \<Rightarrow> (lval \<rightharpoonup> lval)" where
  "spec_op (MSet k v) m = m(k \<mapsto> v)"
| "spec_op (MDelete k) m = m(k := None)"

definition spec_get :: "(lval \<rightharpoonup> lval) \<Rightarrow> lval \<Rightarrow> lval" where
  "spec_get m k = (case m k of Some v \<Rightarrow> v | None \<Rightarrow> LUndef)"

fun impl_op ::
  "('m \<Rightarrow> lval \<Rightarrow> lval \<Rightarrow> 'm) \<Rightarrow> ('m \<Rightarrow> lval \<Rightarrow> bool \<times> 'm) \<Rightarrow> map_op \<Rightarrow> 'm \<Rightarrow> 'm" where
  "impl_op put del (MSet k v) m = put m k v"
| "impl_op put del (MDelete k) m = snd (del m k)"

text \<open>
  \<open>view\<close> is the partial map a cache stands for. \<open>supported\<close> is what the engine must promise,
  \<open>storable\<close> excludes the values a cache cannot tell from its own markers.
\<close>

locale js_map =
  fixes supported :: bool and ok :: "'m \<Rightarrow> bool" and view :: "'m \<Rightarrow> lval \<rightharpoonup> lval"
    and storable :: "lval \<Rightarrow> bool" and empty :: 'm
    and get :: "'m \<Rightarrow> lval \<Rightarrow> lval" and has :: "'m \<Rightarrow> lval \<Rightarrow> bool"
    and put :: "'m \<Rightarrow> lval \<Rightarrow> lval \<Rightarrow> 'm" and del :: "'m \<Rightarrow> lval \<Rightarrow> bool \<times> 'm"
  assumes empty_ok: "supported \<Longrightarrow> ok empty"
    and empty_view: "view empty = Map.empty"
    and get_view: "ok m \<Longrightarrow> get m k = spec_get (view m) k"
    and has_view: "ok m \<Longrightarrow> has m k \<longleftrightarrow> view m k \<noteq> None"
    and set_ok: "ok m \<Longrightarrow> storable v \<Longrightarrow> ok (put m k v)"
    and set_view: "ok m \<Longrightarrow> storable v \<Longrightarrow> view (put m k v) = (view m)(k \<mapsto> v)"
    and delete_ok: "ok m \<Longrightarrow> ok (snd (del m k))"
    and delete_view: "ok m \<Longrightarrow> view (snd (del m k)) = (view m)(k := None)"
    and delete_result: "ok m \<Longrightarrow> fst (del m k) \<longleftrightarrow> view m k \<noteq> None"
begin

lemma run_ops:
  assumes "ok m" and "\<forall>q \<in> set ops. \<forall>v. op_value q = Some v \<longrightarrow> storable v"
  shows "ok (fold (impl_op put del) ops m) \<and>
    view (fold (impl_op put del) ops m) = fold spec_op ops (view m)"
  using assms
proof (induction ops arbitrary: m)
  case (Cons q ops)
  have "ok (impl_op put del q m) \<and> view (impl_op put del q m) = spec_op q (view m)"
    using Cons.prems by (cases q) (simp_all add: set_ok set_view delete_ok delete_view)
  with Cons show ?case by simp
qed simp

lemma run_from_empty:
  assumes "supported" and "\<forall>k v. MSet k v \<in> set ops \<longrightarrow> storable v"
  defines "m \<equiv> fold (impl_op put del) ops empty"
  shows "ok m" "view m = fold spec_op ops Map.empty"
    "get m k = spec_get (fold spec_op ops Map.empty) k"
    "has m k \<longleftrightarrow> fold spec_op ops Map.empty k \<noteq> None"
    "fst (del m k) \<longleftrightarrow> fold spec_op ops Map.empty k \<noteq> None"
proof -
  have "\<forall>q \<in> set ops. \<forall>v. op_value q = Some v \<longrightarrow> storable v"
  proof (intro ballI allI impI)
    fix q v assume "q \<in> set ops" and v: "op_value q = Some v"
    from v obtain k where "q = MSet k v" by (cases q) auto
    with \<open>q \<in> set ops\<close> assms(2) show "storable v" by blast
  qed
  from run_ops [OF empty_ok [OF assms(1)] this]
  have m: "ok m" "view m = fold spec_op ops Map.empty" by (simp_all add: m_def empty_view)
  then show "ok m" "view m = fold spec_op ops Map.empty"
    "get m k = spec_get (fold spec_op ops Map.empty) k"
    "has m k \<longleftrightarrow> fold spec_op ops Map.empty k \<noteq> None"
    "fst (del m k) \<longleftrightarrow> fold spec_op ops Map.empty k \<noteq> None"
    by (simp_all add: get_view has_view delete_result)
qed

end

section \<open>Association lists\<close>

lemma assocIndexOf_absent: "k \<notin> fst ` set a \<Longrightarrow> assocIndexOf a k = -1"
  by (auto simp: assocIndexOf_def find_rev_upt_Some split: option.splits)

lemma assocIndexOf_present:
  assumes "distinct (map fst a)" and "i < length a" and "fst (a ! i) = k"
  shows "assocIndexOf a k = int i"
proof -
  have "\<forall>j. i < j \<and> j < length a \<longrightarrow> fst (a ! j) \<noteq> k"
    using assms nth_eq_iff_index_eq [of "map fst a" i] by fastforce
  then have "find (\<lambda>j. lo_eq (fst (a ! j)) k) (rev [0..<length a]) = Some i"
    using assms by (simp add: find_rev_upt_Some)
  then show ?thesis by (simp add: assocIndexOf_def)
qed

text \<open>Where a key is, as the list before, the entry, and the list after.\<close>

lemma assoc_cases:
  assumes "distinct (map fst a)"
  obtains "k \<notin> fst ` set a" "assocIndexOf a k = -1" "map_of a k = None"
  | bs v cs where "a = bs @ (k, v) # cs" "assocIndexOf a k = int (length bs)" "map_of a k = Some v"
      "k \<notin> fst ` set bs" "k \<notin> fst ` set cs"
proof (cases "k \<in> fst ` set a")
  case False
  then show ?thesis using that(1) assocIndexOf_absent by (metis map_of_eq_None_iff)
next
  case True
  then obtain v where "(k, v) \<in> set a" by auto
  then obtain bs cs where a: "a = bs @ (k, v) # cs" by (metis split_list)
  with assms have n: "k \<notin> fst ` set bs" "k \<notin> fst ` set cs" by auto
  have "assocIndexOf a k = int (length bs)"
    by (rule assocIndexOf_present [OF assms]) (simp_all add: a)
  moreover have "map_of a k = Some v" using n by (simp add: a map_add_def map_of_eq_None_iff [THEN iffD2])
  ultimately show ?thesis using that(2) a n by blast
qed

lemma assocGet_map_of: "distinct (map fst a) \<Longrightarrow> assocGet a k = spec_get (map_of a) k"
  by (erule assoc_cases [where k = k]) (simp_all add: assocGet_def spec_get_def)

lemma assocHas_map_of: "distinct (map fst a) \<Longrightarrow> assocHas a k \<longleftrightarrow> map_of a k \<noteq> None"
  by (erule assoc_cases [where k = k]) (simp_all add: assocHas_def)

lemma map_of_middle: "k \<notin> fst ` set bs \<Longrightarrow> map_of (bs @ (k, v) # cs) = (map_of (bs @ cs))(k \<mapsto> v)"
  by (induction bs) (auto simp: fun_upd_twist)

lemma map_of_outside: "k \<notin> fst ` set bs \<Longrightarrow> k \<notin> fst ` set cs \<Longrightarrow> map_of (bs @ cs) k = None"
  by (metis Un_iff image_Un map_of_eq_None_iff set_append)

lemma assocSet_map_of:
  assumes "distinct (map fst a)"
  shows "map_of (assocSet a k v) = (map_of a)(k \<mapsto> v) \<and> distinct (map fst (assocSet a k v))"
  using assms
proof (rule assoc_cases [where k = k])
  assume "k \<notin> fst ` set a" "assocIndexOf a k = -1" "map_of a k = None"
  then show ?thesis using assms
    by (auto simp: assocSet_def fun_eq_iff map_add_def split: option.splits)
next
  fix bs w cs
  assume a: "a = bs @ (k, w) # cs" and i: "assocIndexOf a k = int (length bs)"
    and n: "k \<notin> fst ` set bs" "k \<notin> fst ` set cs"
  have "assocSet a k v = bs @ (k, v) # cs" using i by (simp add: assocSet_def Let_def a)
  then show ?thesis using assms by (auto simp: a map_of_middle [OF n(1)] simp del: map_of_append)
qed

lemma assocDelete_map_of:
  assumes "distinct (map fst a)"
  shows "map_of (snd (assocDelete a k)) = (map_of a)(k := None) \<and>
    distinct (map fst (snd (assocDelete a k))) \<and> (fst (assocDelete a k) \<longleftrightarrow> map_of a k \<noteq> None) \<and>
    set (snd (assocDelete a k)) \<subseteq> set a"
  using assms
proof (rule assoc_cases [where k = k])
  assume "k \<notin> fst ` set a" "assocIndexOf a k = -1" "map_of a k = None"
  then show ?thesis using assms by (auto simp: assocDelete_def fun_eq_iff)
next
  fix bs w cs
  assume a: "a = bs @ (k, w) # cs" and i: "assocIndexOf a k = int (length bs)"
    and m: "map_of a k = Some w" and n: "k \<notin> fst ` set bs" "k \<notin> fst ` set cs"
  have res: "assocDelete a k = (True, bs @ cs)"
    using i by (auto simp: assocDelete_def Let_def a butlast_append)
  have "map_of (bs @ cs) = (map_of a)(k := None)"
    using map_of_outside [OF n] by (auto simp: a map_of_middle [OF n(1)] fun_eq_iff simp del: map_of_append)
  then show ?thesis using res m assms by (auto simp: a)
qed

interpretation assoc_list: js_map True "\<lambda>a. distinct (map fst a)" map_of "\<lambda>_. True" "[]"
    assocGet assocHas assocSet assocDelete
  by unfold_locales
    (simp_all add: assocGet_map_of assocHas_map_of assocSet_map_of assocDelete_map_of)

section \<open>Hashes\<close>

definition hash_view :: "engine \<Rightarrow> hash \<Rightarrow> string \<rightharpoonup> lval" where
  "hash_view rt h n =
     map_option (\<lambda>v. if rt_create rt \<and> v = HASH_UNDEFINED then LUndef else v) (map_of h n)"

definition hash_ok :: "engine \<Rightarrow> hash \<Rightarrow> bool" where
  "hash_ok rt h \<longleftrightarrow> (rt_create rt \<longrightarrow> LUndef \<notin> ran (map_of h))"

lemma hash_empty: "hash_ok rt []" "hash_view rt [] n = None"
  by (simp_all add: hash_ok_def hash_view_def)

lemma HASH_UNDEFINED_neq [simp]: "HASH_UNDEFINED \<noteq> LUndef"
  by (simp add: HASH_UNDEFINED_def)

lemma hashGet_view: "hashGet rt h n = (case hash_view rt h n of Some v \<Rightarrow> v | None \<Rightarrow> LUndef)"
  by (auto simp: hashGet_def hash_view_def own_def Let_def split: option.splits)

lemma hashHas_view: "hash_ok rt h \<Longrightarrow> hashHas rt h n \<longleftrightarrow> hash_view rt h n \<noteq> None"
  by (auto simp: hashHas_def hash_view_def own_def hash_ok_def ran_def split: option.splits)

lemma hashSet_ok: "hash_ok rt h \<Longrightarrow> hash_ok rt (hashSet rt h n v)"
  by (auto simp: hashSet_def hash_ok_def ran_def split: if_splits)

lemma hashSet_view:
  "v \<noteq> HASH_UNDEFINED \<Longrightarrow> hash_view rt (hashSet rt h n v) k = (if k = n then Some v else hash_view rt h k)"
  by (simp add: hashSet_def hash_view_def)

lemma hash_view_delete: "hash_view rt (AList.delete n h) k = (if k = n then None else hash_view rt h k)"
  by (simp add: hash_view_def delete_conv')

lemma hashDelete_view:
  assumes "hash_ok rt h"
  shows "fst (hashDelete rt h n) \<longleftrightarrow> hash_view rt h n \<noteq> None"
    and "hash_ok rt (snd (hashDelete rt h n))"
    and "hash_view rt (snd (hashDelete rt h n)) k = (if k = n then None else hash_view rt h k)"
proof -
  show "fst (hashDelete rt h n) \<longleftrightarrow> hash_view rt h n \<noteq> None"
    using hashHas_view [OF assms] by (simp add: hashDelete_def)
  have "hash_ok rt (AList.delete n h)"
    using assms by (auto simp: hash_ok_def ran_def delete_conv' split: if_splits)
  with assms show "hash_ok rt (snd (hashDelete rt h n))" by (simp add: hashDelete_def)
  show "hash_view rt (snd (hashDelete rt h n)) k = (if k = n then None else hash_view rt h k)"
    using hashHas_view [OF assms, of n] by (auto simp: hashDelete_def hash_view_delete)
qed

section \<open>MapCache\<close>

text \<open>Keyable values of the same hash have different names.\<close>

lemma prop_name_inj:
  assumes "number_names_ok rt" and "isKeyable a" "isKeyable b" and "is_string a = is_string b"
    and "prop_name rt a = prop_name rt b"
  shows "a = b"
proof -
  have num: "rt_numkey rt n = rt_numkey rt m \<Longrightarrow> n = m"
    "rt_numkey rt n \<noteq> ''undefined''" "rt_numkey rt n \<noteq> ''null''"
    "rt_numkey rt n \<noteq> ''true''" "rt_numkey rt n \<noteq> ''false''"
    "''undefined'' \<noteq> rt_numkey rt n" "''null'' \<noteq> rt_numkey rt n"
    "''true'' \<noteq> rt_numkey rt n" "''false'' \<noteq> rt_numkey rt n" for n m
    using assms(1) by (auto simp: number_names_ok_def inj_eq)
  show ?thesis
    using assms(2-5) by (cases a; cases b) (auto simp: isKeyable_def num split: if_splits dest: num(1))
qed

definition cache_view :: "engine \<Rightarrow> mapcache \<Rightarrow> lval \<rightharpoonup> lval" where
  "cache_view rt c k =
     (if isKeyable k then hash_view rt (hash_of c k) (prop_name rt k) else map_of (mc_map c) k)"

definition cache_ok :: "engine \<Rightarrow> mapcache \<Rightarrow> bool" where
  "cache_ok rt c \<longleftrightarrow> number_names_ok rt \<and> hash_ok rt (mc_hash c) \<and> hash_ok rt (mc_string c) \<and>
     distinct (map fst (mc_map c))"

lemma cache_ok_hash [simp]: "cache_ok rt c \<Longrightarrow> hash_ok rt (hash_of c k)"
  by (simp add: cache_ok_def hash_of_def)

lemma with_hash_ok: "cache_ok rt c \<Longrightarrow> hash_ok rt h \<Longrightarrow> cache_ok rt (with_hash c k h)"
  by (simp add: cache_ok_def with_hash_def)

lemma hash_of_with: "hash_of (with_hash c k h) k' = (if is_string k' = is_string k then h else hash_of c k')"
  by (auto simp: hash_of_def with_hash_def)

lemma mc_map_with [simp]: "mc_map (with_hash c k h) = mc_map c"
  by (simp add: with_hash_def)

text \<open>Replacing the hash a key belongs to, by one that differs at the name of that key only.\<close>

lemma cache_view_with:
  assumes "cache_ok rt c" and "isKeyable k"
    and "\<And>n. hash_view rt h n = (if n = prop_name rt k then x else hash_view rt (hash_of c k) n)"
  shows "cache_view rt (with_hash c k h) = (cache_view rt c)(k := x)"
proof
  fix k'
  have names: "number_names_ok rt" using assms(1) by (simp add: cache_ok_def)
  show "cache_view rt (with_hash c k h) k' = ((cache_view rt c)(k := x)) k'"
  proof (cases "isKeyable k' \<and> is_string k' = is_string k")
    case True
    then have "prop_name rt k' = prop_name rt k \<longleftrightarrow> k' = k"
      using prop_name_inj [OF names _ assms(2)] by blast
    moreover have "hash_of c k' = hash_of c k" using True by (simp add: hash_of_def)
    ultimately show ?thesis using True assms(2,3) by (auto simp: cache_view_def hash_of_with)
  next
    case False
    then have "k' \<noteq> k" using assms(2) by auto
    then show ?thesis using False by (auto simp: cache_view_def hash_of_with)
  qed
qed

lemma mapSet_laws:
  assumes "cache_ok rt c" and "v \<noteq> HASH_UNDEFINED"
  shows "cache_ok rt (mapSet rt c k v) \<and> cache_view rt (mapSet rt c k v) = (cache_view rt c)(k \<mapsto> v)"
proof (cases "isKeyable k")
  case True
  then show ?thesis
    using with_hash_ok [OF assms(1) hashSet_ok] cache_view_with [OF assms(1) True] hashSet_view [OF assms(2)]
      assms(1) by (simp add: mapSet_def)
next
  case False
  then have "isKeyable k' \<Longrightarrow> k' \<noteq> k" for k' by auto
  with False assms(1) assocSet_map_of [of "mc_map c" k v] distinct_update [of "mc_map c" k v]
  show ?thesis
    by (auto simp: mapSet_def cache_ok_def cache_view_def fun_eq_iff hash_of_def update_conv')
qed

lemma mapDelete_laws:
  assumes "cache_ok rt c"
  shows "cache_ok rt (snd (mapDelete rt c k)) \<and>
    cache_view rt (snd (mapDelete rt c k)) = (cache_view rt c)(k := None) \<and>
    (fst (mapDelete rt c k) \<longleftrightarrow> cache_view rt c k \<noteq> None)"
proof (cases "isKeyable k")
  case True
  have h: "hash_ok rt (hash_of c k)" using assms by simp
  have "snd (mapDelete rt c k) = with_hash c k (snd (hashDelete rt (hash_of c k) (prop_name rt k)))"
    "fst (mapDelete rt c k) = fst (hashDelete rt (hash_of c k) (prop_name rt k))"
    using True by (simp_all add: mapDelete_def split: prod.splits)
  then show ?thesis
    using True with_hash_ok [OF assms hashDelete_view(2) [OF h]] hashDelete_view(1) [OF h]
      cache_view_with [OF assms True hashDelete_view(3) [OF h]]
    by (simp add: cache_view_def)
next
  case False
  then have "isKeyable k' \<Longrightarrow> k' \<noteq> k" for k' by auto
  with False assms assocDelete_map_of [of "mc_map c" k] distinct_delete [of "mc_map c" k]
  show ?thesis
    by (auto simp: mapDelete_def cache_ok_def cache_view_def fun_eq_iff hash_of_def delete_conv'
        split: prod.splits)
qed

lemma mapGet_laws:
  assumes "cache_ok rt c"
  shows "mapGet rt c k = spec_get (cache_view rt c) k" and "mapHas rt c k \<longleftrightarrow> cache_view rt c k \<noteq> None"
proof -
  have d: "distinct (map fst (mc_map c))" using assms by (simp add: cache_ok_def)
  show "mapGet rt c k = spec_get (cache_view rt c) k"
    by (simp add: mapGet_def cache_view_def spec_get_def hashGet_view assocGet_map_of [OF d])
  show "mapHas rt c k \<longleftrightarrow> cache_view rt c k \<noteq> None"
    using hashHas_view [OF cache_ok_hash [OF assms]]
    by (simp add: mapHas_def cache_view_def assocHas_map_of [OF d])
qed

lemma mapClear_laws: "number_names_ok rt \<Longrightarrow> cache_ok rt mapClear" "cache_view rt mapClear = Map.empty"
  by (auto simp: cache_ok_def mapClear_def cache_view_def hash_of_def hash_empty fun_eq_iff)

interpretation map_cache: js_map "number_names_ok rt" "cache_ok rt" "cache_view rt" "\<lambda>v. v \<noteq> HASH_UNDEFINED"
    mapClear "mapGet rt" "mapHas rt" "mapSet rt" "mapDelete rt" for rt
  by unfold_locales
    (simp_all add: mapClear_laws mapGet_laws mapSet_laws mapDelete_laws)

section \<open>Stack\<close>

definition stack_view :: "engine \<Rightarrow> stack \<Rightarrow> lval \<rightharpoonup> lval" where
  "stack_view rt d = (case st_array d of
     Some a \<Rightarrow> map_of a
   | None \<Rightarrow> (case st_map d of Some m \<Rightarrow> cache_view rt m | None \<Rightarrow> Map.empty))"

definition stack_ok :: "engine \<Rightarrow> stack \<Rightarrow> bool" where
  "stack_ok rt d \<longleftrightarrow> number_names_ok rt \<and> (case st_array d of
     Some a \<Rightarrow> distinct (map fst a) \<and> (\<forall>(k, v) \<in> set a. v \<noteq> HASH_UNDEFINED) \<and> st_map d = None
   | None \<Rightarrow> (case st_map d of Some m \<Rightarrow> cache_ok rt m | None \<Rightarrow> False))"

lemma stack_cases:
  assumes "stack_ok rt d"
  obtains a where "st_array d = Some a" "st_map d = None" "distinct (map fst a)"
      "\<forall>(k, v) \<in> set a. v \<noteq> HASH_UNDEFINED"
  | m where "st_array d = None" "st_map d = Some m" "cache_ok rt m"
  using assms by (auto simp: stack_ok_def split: option.splits)

text \<open>Moving the entries of an association list into a \<open>MapCache\<close> keeps the map.\<close>

lemma MapCache_laws:
  assumes "number_names_ok rt" and "distinct (map fst a)" and "\<forall>(k, v) \<in> set a. v \<noteq> HASH_UNDEFINED"
  shows "cache_ok rt (MapCache rt a) \<and> cache_view rt (MapCache rt a) = map_of a"
  using assms(2,3)
proof (induction a rule: rev_induct)
  case Nil
  then show ?case using mapClear_laws [of rt] assms(1) by (simp add: MapCache_def)
next
  case (snoc x a)
  obtain k v where x: "x = (k, v)" by (cases x)
  from snoc have IH: "cache_ok rt (MapCache rt a)" "cache_view rt (MapCache rt a) = map_of a"
    and k: "k \<notin> fst ` set a" and v: "v \<noteq> HASH_UNDEFINED" by (auto simp: x)
  have "map_of (a @ [x]) = (map_of a)(k \<mapsto> v)"
    using map_of_middle [OF k, of v "[]"] by (simp add: x)
  moreover have "MapCache rt (a @ [x]) = mapSet rt (MapCache rt a) k v" by (simp add: MapCache_def x)
  ultimately show ?case using mapSet_laws [OF IH(1) v, of k] IH(2) by simp
qed

lemma assocSet_values: "(k', v') \<in> set (assocSet a k v) \<Longrightarrow> (k', v') \<in> set a \<or> v' = v"
  using set_update_subset_insert [of a "nat (assocIndexOf a k)"]
  by (auto simp: assocSet_def Let_def split: if_splits)

lemma stackSet_laws:
  assumes "stack_ok rt d" and v: "v \<noteq> HASH_UNDEFINED"
  shows "stack_ok rt (stackSet rt d k v) \<and> stack_view rt (stackSet rt d k v) = (stack_view rt d)(k \<mapsto> v)"
  using assms(1)
proof (cases rule: stack_cases)
  case (1 a)
  have names: "number_names_ok rt" using assms(1) by (simp add: stack_ok_def)
  show ?thesis
  proof (cases "length a < LARGE_ARRAY_SIZE - 1")
    case True
    then have "stackSet rt d k v = d\<lparr>st_array := Some (assocSet a k v)\<rparr>"
      using 1 by (simp add: stackSet_def)
    then show ?thesis
      using 1 names v assocSet_map_of [OF 1(3), of k v] assocSet_values [of _ _ a k v]
      by (fastforce simp: stack_ok_def stack_view_def)
  next
    case False
    then have "stackSet rt d k v = d\<lparr>st_array := None, st_map := Some (mapSet rt (MapCache rt a) k v)\<rparr>"
      using 1 by (simp add: stackSet_def)
    then show ?thesis
      using 1 names MapCache_laws [OF names 1(3,4)] mapSet_laws [OF _ v, of rt "MapCache rt a" k]
      by (simp add: stack_ok_def stack_view_def)
  qed
next
  case (2 m)
  then have "stackSet rt d k v = d\<lparr>st_map := Some (mapSet rt m k v)\<rparr>" by (simp add: stackSet_def)
  then show ?thesis using 2 assms(1) mapSet_laws [OF 2(3) v, of k] by (simp add: stack_ok_def stack_view_def)
qed

lemma stackDelete_laws:
  assumes "stack_ok rt d"
  shows "stack_ok rt (snd (stackDelete rt d k)) \<and>
    stack_view rt (snd (stackDelete rt d k)) = (stack_view rt d)(k := None) \<and>
    (fst (stackDelete rt d k) \<longleftrightarrow> stack_view rt d k \<noteq> None)"
  using assms
proof (cases rule: stack_cases)
  case (1 a)
  have "snd (stackDelete rt d k) = d\<lparr>st_array := Some (snd (assocDelete a k))\<rparr>"
    "fst (stackDelete rt d k) = fst (assocDelete a k)"
    using 1 by (simp_all add: stackDelete_def split: prod.splits)
  then show ?thesis using 1 assms assocDelete_map_of [OF 1(3), of k]
    by (auto simp: stack_ok_def stack_view_def)
next
  case (2 m)
  have "snd (stackDelete rt d k) = d\<lparr>st_map := Some (snd (mapDelete rt m k))\<rparr>"
    "fst (stackDelete rt d k) = fst (mapDelete rt m k)"
    using 2 by (simp_all add: stackDelete_def split: prod.splits)
  then show ?thesis using 2 assms mapDelete_laws [OF 2(3), of k]
    by (simp add: stack_ok_def stack_view_def)
qed

lemma stackGet_laws:
  assumes "stack_ok rt d"
  shows "stackGet rt d k = spec_get (stack_view rt d) k \<and> (stackHas rt d k \<longleftrightarrow> stack_view rt d k \<noteq> None)"
  using assms
  by (cases rule: stack_cases)
    (simp_all add: stackGet_def stackHas_def stack_view_def assocGet_map_of assocHas_map_of mapGet_laws)

lemma stackClear_laws: "number_names_ok rt \<Longrightarrow> stack_ok rt stackClear" "stack_view rt stackClear = Map.empty"
  by (simp_all add: stack_ok_def stackClear_def stack_view_def)

interpretation stack: js_map "number_names_ok rt" "stack_ok rt" "stack_view rt" "\<lambda>v. v \<noteq> HASH_UNDEFINED"
    stackClear "stackGet rt" "stackHas rt" "stackSet rt" "stackDelete rt" for rt
  by unfold_locales
    (simp_all add: stackClear_laws stackGet_laws stackSet_laws stackDelete_laws)

section \<open>SetCache\<close>

text \<open>What a set cache holds: the values whose marker is set.\<close>

definition set_ok :: "engine \<Rightarrow> mapcache \<Rightarrow> bool" where
  "set_ok rt c \<longleftrightarrow> number_names_ok rt \<and> distinct (map fst (mc_map c))"

lemma cacheHas_push:
  assumes "set_ok rt c"
  shows "cacheHas rt (cachePush rt c v) w \<longleftrightarrow> w = v \<or> cacheHas rt c w"
proof -
  have names: "number_names_ok rt" and d: "distinct (map fst (mc_map c))" using assms by (simp_all add: set_ok_def)
  have marker [simp]: "strict_eq x HASH_UNDEFINED \<longleftrightarrow> x = HASH_UNDEFINED" for x
    by (auto simp: strict_eq_def is_NaN_def HASH_UNDEFINED_def)
  show ?thesis
  proof (cases "isKeyable v")
    case True
    show ?thesis
    proof (cases "isKeyable w \<and> is_string w = is_string v")
      case same: True
      then have "prop_name rt w = prop_name rt v \<longleftrightarrow> w = v"
        using prop_name_inj [OF names _ True] by blast
      moreover have "hash_of c w = hash_of c v" using same by (simp add: hash_of_def)
      ultimately show ?thesis using True same
        by (auto simp: cachePush_def cacheHas_def hash_of_with own_def)
    next
      case False
      then have "w \<noteq> v" using True by auto
      moreover have "cacheHas rt (with_hash c v h) w = cacheHas rt c w" for h
        using False by (auto simp: cacheHas_def hash_of_with mapHas_def)
      ultimately show ?thesis using True by (simp add: cachePush_def)
    qed
  next
    case False
    then have "isKeyable w \<Longrightarrow> w \<noteq> v" by auto
    with False show ?thesis
      using assocSet_map_of [OF d, of v HASH_UNDEFINED] assocHas_map_of [OF d, of w]
        assocHas_map_of [of "assocSet (mc_map c) v HASH_UNDEFINED" w]
      by (auto simp: cachePush_def cacheHas_def mapSet_def mapHas_def hash_of_def update_conv')
  qed
qed

lemma set_ok_push: "set_ok rt c \<Longrightarrow> set_ok rt (cachePush rt c v)"
  using assocSet_map_of [of "mc_map c" v HASH_UNDEFINED] distinct_update [of "mc_map c" v HASH_UNDEFINED]
  by (auto simp: set_ok_def cachePush_def mapSet_def)

lemma SetCache_laws:
  assumes "number_names_ok rt"
  shows "set_ok rt (SetCache rt vs) \<and> (cacheHas rt (SetCache rt vs) w \<longleftrightarrow> w \<in> set vs)"
proof (induction vs rule: rev_induct)
  case Nil
  have "\<not> strict_eq LUndef HASH_UNDEFINED" by (simp add: strict_eq_def HASH_UNDEFINED_def)
  then show ?case using assms
    by (auto simp: SetCache_def set_ok_def mapClear_def cacheHas_def own_def hash_of_def mapHas_def
        assocHas_map_of)
next
  case (snoc v vs)
  have "SetCache rt (vs @ [v]) = cachePush rt (SetCache rt vs) v" by (simp add: SetCache_def)
  with snoc show ?case using cacheHas_push set_ok_push by auto
qed

section \<open>An example engine\<close>

text \<open>Number names as signed fractions; any injective naming would do.\<close>

fun demo_numkey :: "jsnum \<Rightarrow> string" where
  "demo_numkey NaN = ''NaN''"
| "demo_numkey PosInf = ''Infinity''"
| "demo_numkey NegInf = ''-Infinity''"
| "demo_numkey (Fin q) = (case quotient_of q of (a, b) \<Rightarrow>
     (if a < 0 then CHR ''-'' else CHR ''+'') # nat_digits (nat \<bar>a\<bar>) @ CHR ''/'' # nat_digits (nat b))"

definition demo_engine :: "bool \<Rightarrow> bool \<Rightarrow> engine" where
  "demo_engine m c = \<lparr>rt_Map = m, rt_Set = m, rt_create = c, rt_numkey = demo_numkey\<rparr>"

lemma nat_digits_inj: "nat_digits m = nat_digits n \<longleftrightarrow> m = n"
  by (metis key_index_nat_digits option.inject)

lemma slash_nat_digits: "CHR ''/'' \<notin> set (nat_digits n)"
  using nat_digits_digits by (auto simp: is_digit_def)

lemma demo_numkey_Fin_inj: "demo_numkey (Fin p) = demo_numkey (Fin q) \<Longrightarrow> p = q"
proof -
  assume eq: "demo_numkey (Fin p) = demo_numkey (Fin q)"
  obtain a b where p: "quotient_of p = (a, b)" by (cases "quotient_of p")
  obtain c d where q: "quotient_of q = (c, d)" by (cases "quotient_of q")
  have pos: "b > 0" "d > 0" using p q quotient_of_denom_pos by blast+
  from eq have "(a < 0) = (c < 0)" "nat_digits (nat \<bar>a\<bar>) = nat_digits (nat \<bar>c\<bar>)"
    "nat_digits (nat b) = nat_digits (nat d)"
    by (auto simp: p q append_Cons_eq_iff slash_nat_digits split: if_splits)
  then have "a = c" "b = d" using pos by (auto simp: nat_digits_inj)
  then show "p = q" using p q by (metis quotient_of_div)
qed

lemma demo_engine_names: "number_names_ok (demo_engine m c)"
proof -
  have hd: "hd (demo_numkey (Fin q)) \<in> {CHR ''-'', CHR ''+''}" for q
    by (cases "quotient_of q") auto
  have slash: "CHR ''/'' \<in> set (demo_numkey (Fin q))" for q
    by (cases "quotient_of q") auto
  have mixed: "demo_numkey z \<noteq> demo_numkey (Fin q)" if "z \<in> {NaN, PosInf, NegInf}" for z q
  proof -
    have "CHR ''/'' \<notin> set (demo_numkey z)" using that by auto
    with slash show ?thesis by metis
  qed
  have "inj demo_numkey"
  proof (rule injI)
    fix x y assume eq: "demo_numkey x = demo_numkey y"
    show "x = y"
      using eq mixed [of x] mixed [of y] demo_numkey_Fin_inj
      by (cases x; cases y) (simp_all del: demo_numkey.simps(4), (metis demo_numkey.simps(1-3))+)
  qed
  moreover have "demo_numkey n \<notin> {''undefined'', ''null'', ''true'', ''false''}" for n
    using hd by (cases n) (auto split: prod.splits if_splits)
  ultimately show ?thesis by (simp add: number_names_ok_def demo_engine_def)
qed

section \<open>Properties\<close>

text \<open>C8: A \<open>MapCache\<close> is a map: after any sequence of writes and deletions, on any engine, with
  or without a native \<open>Map\<close> and prototype-less objects, \<open>get\<close>, \<open>has\<close> and the result of \<open>delete\<close> are
  those of the partial map with the same history, for keys of every type at once.\<close>
theorem map_cache_refines_map:
  assumes "number_names_ok rt" and "\<forall>k v. MSet k v \<in> set ops \<longrightarrow> v \<noteq> HASH_UNDEFINED"
  defines "m \<equiv> fold (impl_op (mapSet rt) (mapDelete rt)) ops mapClear"
    and "spec \<equiv> fold spec_op ops Map.empty"
  shows "mapGet rt m k = spec_get spec k \<and> (mapHas rt m k \<longleftrightarrow> spec k \<noteq> None) \<and>
    (fst (mapDelete rt m k) \<longleftrightarrow> spec k \<noteq> None)"
  using map_cache.run_from_empty(3-5) [OF assms(1,2)] by (simp add: m_def spec_def)

theorem map_cache_refines_map_witness:
  "mapGet (demo_engine False True)
     (fold (impl_op (mapSet (demo_engine False True)) (mapDelete (demo_engine False True)))
       [MSet (LStr ''1'') (LBool True), MSet (LNum (Fin 1)) LUndef, MSet (LRef 0) LNull,
        MDelete (LRef 0)] mapClear) (LStr ''1'') = LBool True"
  using map_cache_refines_map [OF demo_engine_names, of
      "[MSet (LStr ''1'') (LBool True), MSet (LNum (Fin 1)) LUndef, MSet (LRef 0) LNull, MDelete (LRef 0)]"
      False True "LStr ''1''"]
  by (simp add: HASH_UNDEFINED_def spec_get_def)

text \<open>A \<open>Stack\<close> is a map as well, and changing its representation does not show: an association
  list below 199 entries and a \<open>MapCache\<close> from the next write on answer as the partial map with
  the same history.\<close>
theorem stack_refines_map:
  assumes "number_names_ok rt" and "\<forall>k v. MSet k v \<in> set ops \<longrightarrow> v \<noteq> HASH_UNDEFINED"
  defines "d \<equiv> fold (impl_op (stackSet rt) (stackDelete rt)) ops stackClear"
    and "spec \<equiv> fold spec_op ops Map.empty"
  shows "stackGet rt d k = spec_get spec k \<and> (stackHas rt d k \<longleftrightarrow> spec k \<noteq> None) \<and>
    (fst (stackDelete rt d k) \<longleftrightarrow> spec k \<noteq> None)"
  using stack.run_from_empty(3-5) [OF assms(1,2)] by (simp add: d_def spec_def)

theorem stack_refines_map_witness:
  "stackGet (demo_engine True True)
     (fold (impl_op (stackSet (demo_engine True True)) (stackDelete (demo_engine True True)))
       (map (\<lambda>i. MSet (LRef i) (LNum (Fin (of_nat i)))) [0..<300]) stackClear) (LRef 7) = LNum (Fin 7)"
proof -
  have "fold spec_op (map (\<lambda>i. MSet (LRef i) (LNum (Fin (of_nat i)))) [0..<n]) Map.empty (LRef 7) =
      (if 7 < n then Some (LNum (Fin 7)) else None)" for n
    by (induction n) (auto simp: less_Suc_eq)
  then show ?thesis
    using stack_refines_map [OF demo_engine_names, of "map (\<lambda>i. MSet (LRef i) (LNum (Fin (of_nat i)))) [0..<300]"
        True True "LRef 7"]
    by (auto simp: HASH_UNDEFINED_def spec_get_def)
qed

text \<open>One value does not survive a cache: where hashes have no prototype, the string lodash marks
  \<open>undefined\<close> with, stored under a primitive key, reads back as \<open>undefined\<close>, though the key is
  there.\<close>
theorem marker_value_lost:
  assumes "rt_create rt" and "isKeyable k"
  shows "mapHas rt (mapSet rt c k HASH_UNDEFINED) k \<and> mapGet rt (mapSet rt c k HASH_UNDEFINED) k = LUndef"
  using assms by (simp add: mapHas_def mapGet_def mapSet_def hash_of_with hashHas_def hashGet_def
      hashSet_def own_def Let_def)

theorem marker_value_lost_witness:
  "mapGet (demo_engine True True)
     (mapSet (demo_engine True True) mapClear (LStr ''a'') (LStr ''__lodash_hash_undefined__'')) (LStr ''a'')
   = LUndef"
  using marker_value_lost [of "demo_engine True True" "LStr ''a''" mapClear]
  by (simp add: demo_engine_def isKeyable_def HASH_UNDEFINED_def)

end
