(* ===== verification/LodashSets.thy ===== *)
theory LodashSets
  imports LodashCacheLaws
begin

text \<open>
  Arrays as sets in \<open>lodash-4.2.1.js\<close>: \<open>baseUniq\<close>, \<open>baseDifference\<close>, \<open>baseIntersection\<close>, \<open>baseXor\<close> and
  \<open>basePullAllBy\<close>. Each switches from scanning to a \<open>SetCache\<close> or a native \<open>Set\<close> when an array is
  large; the theorems show that this never shows. Iteratees and comparators are functions.
\<close>

section \<open>Scanning\<close>

text \<open>\<open>while (i--) if (values[i] === computed) ...\<close>\<close>

definition scan_back :: "lval list \<Rightarrow> lval \<Rightarrow> bool" where
  "scan_back values computed \<longleftrightarrow>
     find (\<lambda>i. strict_eq (values ! i) computed) (rev [0..<length values]) \<noteq> None"

lemma scan_back_iff: "scan_back vs v \<longleftrightarrow> v \<in> set vs \<and> \<not> is_NaN v"
proof -
  have "scan_back vs v \<longleftrightarrow> (\<exists>i < length vs. strict_eq (vs ! i) v)"
    by (auto simp: scan_back_def find_None_iff)
  also have "\<dots> \<longleftrightarrow> (\<exists>x \<in> set vs. strict_eq x v)" by (metis in_set_conv_nth)
  finally show ?thesis by (auto simp: strict_eq_def is_NaN_def)
qed

text \<open>\<open>iteratee ? iteratee(value) : value\<close>\<close>

definition computed_by :: "(lval \<Rightarrow> lval) option \<Rightarrow> lval \<Rightarrow> lval" where
  "computed_by iteratee v = (case iteratee of Some f \<Rightarrow> f v | None \<Rightarrow> v)"

lemma computed_by_None [simp]: "computed_by None = (\<lambda>x. x)"
  by (simp add: computed_by_def fun_eq_iff)

text \<open>\<open>baseUnary\<close> passes the first argument only.\<close>

definition baseUnary :: "(lval \<Rightarrow> lval) \<Rightarrow> lval list \<Rightarrow> lval" where
  "baseUnary func args = func (case args of v # _ \<Rightarrow> v | [] \<Rightarrow> LUndef)"

definition mapped_by :: "(lval \<Rightarrow> lval) option \<Rightarrow> lval list \<Rightarrow> lval list" where
  "mapped_by iteratee vs = (case iteratee of Some f \<Rightarrow> map (\<lambda>v. baseUnary f [v]) vs | None \<Rightarrow> vs)"

lemma mapped_by_map: "mapped_by it vs = map (computed_by it) vs"
  by (cases it) (simp_all add: mapped_by_def computed_by_def baseUnary_def)

section \<open>Difference\<close>

definition baseDifference ::
  "engine \<Rightarrow> lval list \<Rightarrow> lval list \<Rightarrow> (lval \<Rightarrow> lval) option \<Rightarrow> (lval \<Rightarrow> lval \<Rightarrow> bool) option \<Rightarrow> lval list" where
  "baseDifference rt array values iteratee comparator =
     (if length array = 0 then []
      else let values1 = mapped_by iteratee values;
               large = length values1 \<ge> LARGE_ARRAY_SIZE;
               isCommon = (case comparator of Some c \<Rightarrow> False | None \<Rightarrow> \<not> large);
               includes = (case comparator of
                   Some c \<Rightarrow> (\<lambda>v. arrayIncludesWith values1 v c)
                 | None \<Rightarrow> if large then cacheHas rt (SetCache rt values1) else arrayIncludes values1)
           in foldl (\<lambda>result value.
                let computed = computed_by iteratee value
                in if isCommon \<and> strict_eq computed computed
                   then (if scan_back values1 computed then result else result @ [value])
                   else if \<not> includes computed then result @ [value] else result) [] array)"

text \<open>A loop that keeps the elements it does not drop.\<close>

lemma foldl_keep:
  "(\<And>r x. step r x = (if keep x then r @ [x] else r)) \<Longrightarrow> foldl step r xs = r @ filter keep xs"
  by (induction xs arbitrary: r) auto

lemma baseDifference_filter:
  assumes "number_names_ok rt"
  shows "baseDifference rt xs vs it None =
    filter (\<lambda>x. computed_by it x \<notin> computed_by it ` set vs) xs"
proof -
  have cache: "cacheHas rt (SetCache rt ws) v \<longleftrightarrow> v \<in> set ws" for ws v
    using SetCache_laws [OF assms] by blast
  show ?thesis
    by (cases "xs = []")
      (auto simp: baseDifference_def Let_def mapped_by_map cache scan_back_iff
        intro!: foldl_keep [where r = "[]", simplified])
qed

lemma baseDifference_with:
  "baseDifference rt xs vs None (Some c) = filter (\<lambda>x. \<not> (\<exists>v \<in> set vs. c x v)) xs"
  by (cases "xs = []")
    (auto simp: baseDifference_def Let_def mapped_by_map computed_by_def arrayIncludesWith_iff
      intro!: foldl_keep [where r = "[]", simplified])

section \<open>Duplicates\<close>

text \<open>Where the values seen so far are kept: the result array itself, an array, or a cache.\<close>

datatype seen = SResult | SList "lval list" | SCache mapcache

definition seen_values :: "seen \<Rightarrow> lval list \<Rightarrow> lval list" where
  "seen_values s result = (case s of SResult \<Rightarrow> result | SList vs \<Rightarrow> vs | SCache c \<Rightarrow> [])"

definition seen_has :: "engine \<Rightarrow> (lval \<Rightarrow> lval \<Rightarrow> bool) option \<Rightarrow> seen \<Rightarrow> lval list \<Rightarrow> lval \<Rightarrow> bool" where
  "seen_has rt comparator s result v =
     (case comparator of
        Some c \<Rightarrow> arrayIncludesWith (seen_values s result) v c
      | None \<Rightarrow> (case s of SCache m \<Rightarrow> cacheHas rt m v | _ \<Rightarrow> arrayIncludes (seen_values s result) v))"

definition seen_push :: "engine \<Rightarrow> seen \<Rightarrow> lval \<Rightarrow> seen" where
  "seen_push rt s v = (case s of
     SResult \<Rightarrow> SResult | SList vs \<Rightarrow> SList (vs @ [v]) | SCache m \<Rightarrow> SCache (cachePush rt m v))"

text \<open>\<open>new Set(array)\<close> keeps first occurrences in order; \<open>setToArray\<close> lists them.\<close>

definition setToArray :: "lval list \<Rightarrow> lval list" where
  "setToArray array = foldl (\<lambda>s v. if v \<in> set s then s else s @ [v]) [] array"

definition baseUniq ::
  "engine \<Rightarrow> lval list \<Rightarrow> (lval \<Rightarrow> lval) option \<Rightarrow> (lval \<Rightarrow> lval \<Rightarrow> bool) option \<Rightarrow> lval list" where
  "baseUniq rt array iteratee comparator =
     (let large = length array \<ge> LARGE_ARRAY_SIZE;
          isCommon = (case comparator of Some c \<Rightarrow> False | None \<Rightarrow> \<not> large);
          seen = (case comparator of
              Some c \<Rightarrow> SResult
            | None \<Rightarrow> if large then SCache mapClear
                      else (case iteratee of Some f \<Rightarrow> SList [] | None \<Rightarrow> SResult));
          native = (case comparator of Some c \<Rightarrow> False
            | None \<Rightarrow> large \<and> (case iteratee of Some f \<Rightarrow> False | None \<Rightarrow> rt_Set rt))
      in if native then setToArray array
         else snd (foldl (\<lambda>(seen, result) value.
                let computed = computed_by iteratee value
                in if isCommon \<and> strict_eq computed computed
                   then (if scan_back (seen_values seen result) computed then (seen, result)
                         else (case iteratee of Some f \<Rightarrow> seen_push rt seen computed | None \<Rightarrow> seen,
                               result @ [value]))
                   else if \<not> seen_has rt comparator seen result computed
                   then (seen_push rt seen computed, result @ [value])
                   else (seen, result)) (seen, []) array))"

text \<open>The reference: keep an element whose computed value was not computed before.\<close>

fun uniq_spec :: "('x \<Rightarrow> 'k) \<Rightarrow> 'k set \<Rightarrow> 'x list \<Rightarrow> 'x list" where
  "uniq_spec f V [] = []"
| "uniq_spec f V (x # xs) = (if f x \<in> V then uniq_spec f V xs else x # uniq_spec f (insert (f x) V) xs)"

lemma setToArray_spec: "setToArray xs = uniq_spec (\<lambda>x. x) {} xs"
proof -
  have "foldl (\<lambda>s v. if v \<in> set s then s else s @ [v]) r xs = r @ uniq_spec (\<lambda>x. x) (set r) xs" for r
    by (induction xs arbitrary: r) auto
  from this [of "[]"] show ?thesis by (simp add: setToArray_def)
qed

text \<open>What the representation of the seen values must satisfy.\<close>

definition seen_ok :: "engine \<Rightarrow> (lval \<Rightarrow> lval) option \<Rightarrow> seen \<Rightarrow> lval list \<Rightarrow> lval set \<Rightarrow> bool" where
  "seen_ok rt it s result V \<longleftrightarrow> (case s of
     SResult \<Rightarrow> (case it of None \<Rightarrow> set result = V | Some f \<Rightarrow> False)
   | SList vs \<Rightarrow> (case it of None \<Rightarrow> False | Some f \<Rightarrow> set vs = V)
   | SCache m \<Rightarrow> set_ok rt m \<and> (\<forall>v. cacheHas rt m v \<longleftrightarrow> v \<in> V))"

lemma seen_ok_has: "seen_ok rt it s result V \<Longrightarrow> seen_has rt None s result v \<longleftrightarrow> v \<in> V"
  by (auto simp: seen_ok_def seen_has_def seen_values_def split: seen.splits option.splits)

lemma seen_ok_values:
  "seen_ok rt it s result V \<Longrightarrow> (\<forall>m. s \<noteq> SCache m) \<Longrightarrow> set (seen_values s result) = V"
  by (auto simp: seen_ok_def seen_values_def split: seen.splits option.splits)

lemma seen_ok_push:
  "seen_ok rt it s result V \<Longrightarrow> (it = None \<Longrightarrow> v = x) \<Longrightarrow>
     seen_ok rt it (seen_push rt s v) (result @ [x]) (insert v V)"
  by (auto simp: seen_ok_def seen_push_def set_ok_push cacheHas_push split: seen.splits option.splits)

lemma seen_push_None: "it = None \<Longrightarrow> seen_ok rt it s result V \<Longrightarrow> \<forall>m. s \<noteq> SCache m \<Longrightarrow> seen_push rt s v = s"
  by (auto simp: seen_ok_def seen_push_def split: seen.splits)

lemma seen_cache_push: "(\<forall>m. seen_push rt s v \<noteq> SCache m) \<longleftrightarrow> (\<forall>m. s \<noteq> SCache m)"
  by (auto simp: seen_push_def split: seen.splits)

lemma baseUniq_loop:
  assumes "seen_ok rt it s result V" and "isCommon \<longleftrightarrow> (\<forall>m. s \<noteq> SCache m)"
  shows "snd (foldl (\<lambda>(seen, result) value.
       let computed = computed_by it value
       in if isCommon \<and> strict_eq computed computed
          then (if scan_back (seen_values seen result) computed then (seen, result)
                else (case it of Some f \<Rightarrow> seen_push rt seen computed | None \<Rightarrow> seen, result @ [value]))
          else if \<not> seen_has rt None seen result computed
          then (seen_push rt seen computed, result @ [value])
          else (seen, result)) (s, result) xs) = result @ uniq_spec (computed_by it) V xs"
  using assms
proof (induction xs arbitrary: s result V)
  case (Cons x xs)
  let ?c = "computed_by it x"
  let ?push = "case it of Some f \<Rightarrow> seen_push rt s ?c | None \<Rightarrow> s"
  have has: "seen_has rt None s result ?c \<longleftrightarrow> ?c \<in> V" using Cons.prems(1) by (rule seen_ok_has)
  have ok: "seen_ok rt it (seen_push rt s ?c) (result @ [x]) (insert ?c V)"
    using Cons.prems(1) by (rule seen_ok_push) (simp add: computed_by_def)
  have push: "isCommon \<Longrightarrow> ?push = seen_push rt s ?c"
    using Cons.prems seen_push_None [of it rt s result V ?c] by (cases it) auto
  have scan: "isCommon \<Longrightarrow> \<not> is_NaN ?c \<Longrightarrow> scan_back (seen_values s result) ?c \<longleftrightarrow> ?c \<in> V"
    using Cons.prems seen_ok_values [of rt it s result V] by (simp add: scan_back_iff)
  have new: "isCommon \<longleftrightarrow> (\<forall>m. seen_push rt s ?c \<noteq> SCache m)"
    using Cons.prems(2) seen_cache_push [of rt s ?c] by blast
  show ?case
  proof (cases "?c \<in> V")
    case True
    then show ?thesis using Cons.IH [OF Cons.prems] has scan by (auto simp: Let_def)
  next
    case False
    then show ?thesis using Cons.IH [OF ok new] has scan push by (auto simp: Let_def)
  qed
qed simp

lemma baseUniq_spec:
  assumes "number_names_ok rt"
  shows "baseUniq rt xs it None = uniq_spec (computed_by it) {} xs"
proof (cases "length xs \<ge> LARGE_ARRAY_SIZE")
  case True
  have "set_ok rt mapClear \<and> (\<forall>v. cacheHas rt mapClear v \<longleftrightarrow> v \<in> {})"
    using SetCache_laws [OF assms, of "[]"] by (simp add: SetCache_def)
  then have ok: "seen_ok rt it (SCache mapClear) [] {}" by (simp add: seen_ok_def)
  show ?thesis
    using True baseUniq_loop [OF ok, of False xs]
    by (auto simp: baseUniq_def Let_def setToArray_spec split: option.splits)
next
  case False
  have ok: "seen_ok rt it (case it of Some f \<Rightarrow> SList [] | None \<Rightarrow> SResult) [] {}"
    by (cases it) (simp_all add: seen_ok_def)
  have "True \<longleftrightarrow> (\<forall>m. (case it of Some f \<Rightarrow> SList [] | None \<Rightarrow> SResult) \<noteq> SCache m)"
    by (cases it) simp_all
  from baseUniq_loop [OF ok this] False show ?thesis
    by (simp add: baseUniq_def Let_def)
qed

section \<open>Intersection\<close>

text \<open>
  The first array is walked; the others are consulted from the last to the first. An array is
  put in a cache when there is an iteratee or it has at least 120 elements; the first one only
  contributes the choice of a cache for the values kept so far. An array that is not cached is
  consulted as it is, without the iteratee: only a comparator can bring that about.
\<close>

definition cache_wanted :: "(lval \<Rightarrow> lval) option \<Rightarrow> (lval \<Rightarrow> lval \<Rightarrow> bool) option \<Rightarrow> lval list \<Rightarrow> bool" where
  "cache_wanted iteratee comparator array =
     (case comparator of
        Some c \<Rightarrow> False
      | None \<Rightarrow> (case iteratee of Some f \<Rightarrow> True | None \<Rightarrow> length array \<ge> 120))"

definition includes_by :: "(lval \<Rightarrow> lval \<Rightarrow> bool) option \<Rightarrow> lval list \<Rightarrow> lval \<Rightarrow> bool" where
  "includes_by comparator vs v =
     (case comparator of Some c \<Rightarrow> arrayIncludesWith vs v c | None \<Rightarrow> arrayIncludes vs v)"

definition in_other ::
  "engine \<Rightarrow> (lval \<Rightarrow> lval) option \<Rightarrow> (lval \<Rightarrow> lval \<Rightarrow> bool) option \<Rightarrow> lval list \<Rightarrow> lval \<Rightarrow> bool" where
  "in_other rt iteratee comparator array v =
     (if cache_wanted iteratee comparator array
      then cacheHas rt (SetCache rt (mapped_by iteratee array)) v
      else includes_by comparator array v)"

definition inter_step ::
  "engine \<Rightarrow> (lval \<Rightarrow> lval) option \<Rightarrow> (lval \<Rightarrow> lval \<Rightarrow> bool) option \<Rightarrow> lval list list \<Rightarrow>
     mapcache option \<times> lval list \<Rightarrow> lval \<Rightarrow> mapcache option \<times> lval list" where
  "inter_step rt iteratee comparator others st value =
     (case st of (seen, result) \<Rightarrow>
        (let computed = computed_by iteratee value
         in if (case seen of Some m \<Rightarrow> cacheHas rt m computed | None \<Rightarrow> includes_by comparator result computed)
            then (seen, result)
            else if list_all (\<lambda>a. in_other rt iteratee comparator a computed) (rev others)
            then (map_option (\<lambda>m. cachePush rt m computed) seen, result @ [value])
            else (seen, result)))"

definition baseIntersection ::
  "engine \<Rightarrow> lval list \<Rightarrow> lval list list \<Rightarrow> (lval \<Rightarrow> lval) option \<Rightarrow> (lval \<Rightarrow> lval \<Rightarrow> bool) option \<Rightarrow> lval list" where
  "baseIntersection rt array others iteratee comparator =
     snd (foldl (inter_step rt iteratee comparator others)
            (if cache_wanted iteratee comparator array then Some mapClear else None, []) array)"

text \<open>The reference: the elements whose computed value is in every other array, once each.\<close>

definition inter_spec :: "(lval \<Rightarrow> lval) \<Rightarrow> lval list list \<Rightarrow> lval list \<Rightarrow> lval list" where
  "inter_spec f others xs = uniq_spec f {} (filter (\<lambda>x. \<forall>a \<in> set others. f x \<in> f ` set a) xs)"

definition inter_seen_ok :: "engine \<Rightarrow> (lval \<Rightarrow> lval) option \<Rightarrow> mapcache option \<Rightarrow> lval list \<Rightarrow> lval set \<Rightarrow> bool" where
  "inter_seen_ok rt it seen result V \<longleftrightarrow> (case seen of
     Some m \<Rightarrow> set_ok rt m \<and> (\<forall>v. cacheHas rt m v \<longleftrightarrow> v \<in> V)
   | None \<Rightarrow> it = None \<and> set result = V)"

lemma in_other_iff:
  assumes "number_names_ok rt"
  shows "in_other rt it None a (computed_by it x) \<longleftrightarrow> computed_by it x \<in> computed_by it ` set a"
proof -
  have "cacheHas rt (SetCache rt ws) v \<longleftrightarrow> v \<in> set ws" for ws v
    using SetCache_laws [OF assms] by blast
  then show ?thesis
    by (cases it) (auto simp: in_other_def cache_wanted_def includes_by_def mapped_by_map)
qed

lemma baseIntersection_loop:
  assumes "number_names_ok rt" and "inter_seen_ok rt it seen result V"
  shows "snd (foldl (inter_step rt it None others) (seen, result) xs) =
    result @ uniq_spec (computed_by it) V
      (filter (\<lambda>x. \<forall>a \<in> set others. computed_by it x \<in> computed_by it ` set a) xs)"
  using assms(2)
proof (induction xs arbitrary: seen result V)
  case (Cons x xs)
  let ?c = "computed_by it x"
  let ?keep = "\<forall>a \<in> set others. ?c \<in> computed_by it ` set a"
  have has: "(case seen of Some m \<Rightarrow> cacheHas rt m ?c | None \<Rightarrow> includes_by None result ?c) \<longleftrightarrow> ?c \<in> V"
    using Cons.prems by (auto simp: inter_seen_ok_def includes_by_def split: option.splits)
  have ok: "inter_seen_ok rt it (map_option (\<lambda>m. cachePush rt m ?c) seen) (result @ [x]) (insert ?c V)"
    using Cons.prems
    by (auto simp: inter_seen_ok_def set_ok_push cacheHas_push split: option.splits)
  have keep: "list_all (\<lambda>a. in_other rt it None a ?c) (rev others) \<longleftrightarrow> ?keep"
    by (simp add: list_all_iff in_other_iff [OF assms(1)])
  have "inter_step rt it None others (seen, result) x =
      (if ?c \<in> V \<or> \<not> ?keep then (seen, result)
       else (map_option (\<lambda>m. cachePush rt m ?c) seen, result @ [x]))"
    using has keep by (simp add: inter_step_def Let_def)
  then show ?case
    using Cons.IH [OF Cons.prems] Cons.IH [OF ok] by simp
qed simp

lemma baseIntersection_spec:
  assumes "number_names_ok rt"
  shows "baseIntersection rt xs others it None = inter_spec (computed_by it) others xs"
proof -
  have "set_ok rt mapClear \<and> (\<forall>v. cacheHas rt mapClear v \<longleftrightarrow> v \<in> {})"
    using SetCache_laws [OF assms, of "[]"] by (simp add: SetCache_def)
  then have "inter_seen_ok rt it (if cache_wanted it None xs then Some mapClear else None) [] {}"
    by (cases it) (simp_all add: inter_seen_ok_def cache_wanted_def)
  from baseIntersection_loop [OF assms this, of others xs] show ?thesis
    by (simp add: baseIntersection_def inter_spec_def)
qed

section \<open>Symmetric difference\<close>

definition xor_step ::
  "engine \<Rightarrow> (lval \<Rightarrow> lval) option \<Rightarrow> (lval \<Rightarrow> lval \<Rightarrow> bool) option \<Rightarrow> lval list option \<Rightarrow> lval list \<Rightarrow> lval list option" where
  "xor_step rt iteratee comparator result array = (case result of
     None \<Rightarrow> Some array
   | Some r \<Rightarrow> Some (arrayPush (baseDifference rt r array iteratee comparator)
                              (baseDifference rt array r iteratee comparator)))"

definition baseXor ::
  "engine \<Rightarrow> lval list list \<Rightarrow> (lval \<Rightarrow> lval) option \<Rightarrow> (lval \<Rightarrow> lval \<Rightarrow> bool) option \<Rightarrow> lval list" where
  "baseXor rt arrays iteratee comparator =
     (case foldl (xor_step rt iteratee comparator) None arrays of
        Some result \<Rightarrow> if length result \<noteq> 0 then baseUniq rt result iteratee comparator else []
      | None \<Rightarrow> [])"

section \<open>Removing values in place\<close>

text \<open>
  \<open>while ((fromIndex = baseIndexOf(seen, computed, fromIndex)) > -1)\<close>: \<open>seen\<close> is the array itself, or
  the array of its computed values, from which the same positions are removed. The array of the
  values is another array.
\<close>

definition splice1 :: "nat \<Rightarrow> 'x list \<Rightarrow> 'x list" where
  "splice1 i xs = take i xs @ drop (Suc i) xs"

function pull_value :: "lval \<Rightarrow> nat \<Rightarrow> lval list \<times> lval list \<Rightarrow> lval list \<times> lval list" where
  "pull_value computed fromIndex (seen, array) =
     (let i = baseIndexOf seen computed fromIndex
      in if i > -1 \<and> nat i < length seen
         then pull_value computed (nat i) (splice1 (nat i) seen, splice1 (nat i) array)
         else (seen, array))"
  by pat_completeness auto
termination
  by (relation "measure (\<lambda>(c, i, (seen, array)). length seen)") (auto simp: splice1_def)

declare pull_value.simps [simp del]

definition basePullAllBy :: "lval list \<Rightarrow> lval list \<Rightarrow> (lval \<Rightarrow> lval) option \<Rightarrow> lval list" where
  "basePullAllBy array values iteratee =
     snd (foldl (\<lambda>st value. pull_value (computed_by iteratee value) 0 st)
            (map (computed_by iteratee) array, array) values)"

definition basePullAll :: "lval list \<Rightarrow> lval list \<Rightarrow> lval list" where
  "basePullAll array values = basePullAllBy array values None"

lemma baseIndexOf_cases:
  obtains "baseIndexOf xs v k = -1" "\<forall>j. k \<le> j \<and> j < length xs \<longrightarrow> xs ! j \<noteq> v"
  | i where "baseIndexOf xs v k = int i" "k \<le> i" "i < length xs" "xs ! i = v"
      "\<forall>j. k \<le> j \<and> j < i \<longrightarrow> xs ! j \<noteq> v"
proof (cases "find (\<lambda>i. xs ! i = v) [k..<length xs]")
  case None
  then have "baseIndexOf xs v k = -1" by (simp add: baseIndexOf_iff)
  with None show ?thesis using that(1) by (auto simp: find_None_iff)
next
  case (Some i)
  then have "baseIndexOf xs v k = int i" by (simp add: baseIndexOf_iff)
  moreover from Some have "k \<le> i" "i < length xs" "xs ! i = v" "\<forall>j. k \<le> j \<and> j < i \<longrightarrow> xs ! j \<noteq> v"
    by (simp_all add: find_upt_Some)
  ultimately show ?thesis by (rule that(2))
qed

text \<open>Pulling a value keeps the two arrays in step and removes every later occurrence.\<close>

lemma pull_value_filter:
  assumes "seen = map f array"
  shows "pull_value c k (seen, array) =
    (map f (take k array @ filter (\<lambda>x. f x \<noteq> c) (drop k array)),
     take k array @ filter (\<lambda>x. f x \<noteq> c) (drop k array))"
  using assms
proof (induction c k "(seen, array)" arbitrary: seen array rule: pull_value.induct)
  case (1 c k seen array)
  show ?case
  proof (rule baseIndexOf_cases [of seen c k])
    assume none: "baseIndexOf seen c k = -1" "\<forall>j. k \<le> j \<and> j < length seen \<longrightarrow> seen ! j \<noteq> c"
    have "filter (\<lambda>x. f x \<noteq> c) (drop k array) = drop k array"
    proof (rule filter_True, rule ballI)
      fix x assume "x \<in> set (drop k array)"
      then obtain j where "j < length (drop k array)" "x = drop k array ! j" by (auto simp: in_set_conv_nth)
      then show "f x \<noteq> c" using none(2) 1(2) by (auto dest: spec [of _ "k + j"])
    qed
    then show ?thesis using none 1(2) by (subst pull_value.simps) (simp add: Let_def)
  next
    fix i assume i: "baseIndexOf seen c k = int i" "k \<le> i" "i < length seen" "seen ! i = c"
      "\<forall>j. k \<le> j \<and> j < i \<longrightarrow> seen ! j \<noteq> c"
    have len: "i < length array" using i(3) 1(2) by simp
    define mid where "mid = take (i - k) (drop k array)"
    have split: "array = take k array @ mid @ array ! i # drop (Suc i) array"
      using len i(2) by (simp add: mid_def) (metis append_assoc append_take_drop_id drop_drop
          id_take_nth_drop le_add_diff_inverse2 take_add le_add_diff_inverse)
    have mid: "filter (\<lambda>x. f x \<noteq> c) mid = mid"
    proof (rule filter_True, rule ballI)
      fix x assume "x \<in> set mid"
      then obtain j where "j < length mid" "x = mid ! j" by (auto simp: in_set_conv_nth)
      then show "f x \<noteq> c" using i(5) 1(2) len by (auto simp: mid_def dest: spec [of _ "k + j"])
    qed
    have take_i: "take i array = take k array @ mid"
      using i(2) len by (simp add: mid_def) (metis le_add_diff_inverse take_add)
    have "pull_value c k (seen, array) = pull_value c i (splice1 i seen, splice1 i array)"
      using i by (subst pull_value.simps) (simp add: Let_def)
    also have "\<dots> = (map f (take i (splice1 i array) @ filter (\<lambda>x. f x \<noteq> c) (drop i (splice1 i array))),
        take i (splice1 i array) @ filter (\<lambda>x. f x \<noteq> c) (drop i (splice1 i array)))"
      using 1(1) [OF refl] i 1(2) by (simp add: splice1_def take_map drop_map)
    also have "take i (splice1 i array) = take i array" using len by (simp add: splice1_def)
    also have "drop i (splice1 i array) = drop (Suc i) array" using len by (simp add: splice1_def)
    also have "take i array @ filter (\<lambda>x. f x \<noteq> c) (drop (Suc i) array) =
        take k array @ filter (\<lambda>x. f x \<noteq> c) (drop k array)"
    proof -
      have "drop k array = mid @ array ! i # drop (Suc i) array"
        using split i(2) len by (metis append_eq_conv_conj length_take min.absorb2 less_imp_le le_trans)
      moreover have "f (array ! i) = c" using i(3,4) 1(2) by simp
      ultimately show ?thesis using mid take_i by simp
    qed
    finally show ?thesis .
  qed
qed

lemma basePullAllBy_filter:
  "basePullAllBy xs vs it = filter (\<lambda>x. computed_by it x \<notin> computed_by it ` set vs) xs"
proof -
  let ?f = "computed_by it"
  have "foldl (\<lambda>st v. pull_value (?f v) 0 st) (map ?f ys, ys) vs =
      (map ?f (filter (\<lambda>x. ?f x \<notin> ?f ` set vs) ys), filter (\<lambda>x. ?f x \<notin> ?f ` set vs) ys)" for ys
  proof (induction vs arbitrary: ys)
    case (Cons v vs)
    have "pull_value (?f v) 0 (map ?f ys, ys) =
        (map ?f (filter (\<lambda>x. ?f x \<noteq> ?f v) ys), filter (\<lambda>x. ?f x \<noteq> ?f v) ys)"
      by (subst pull_value_filter [OF refl]) simp
    with Cons show ?case by (simp add: conj_commute)
  qed simp
  then show ?thesis by (simp add: basePullAllBy_def)
qed

section \<open>The references\<close>

lemma set_uniq_spec: "f ` set (uniq_spec f V xs) = f ` set xs - V"
  by (induction xs arbitrary: V) auto

lemma distinct_uniq_spec: "distinct (map f (uniq_spec f V xs))"
proof (induction xs arbitrary: V)
  case (Cons x xs)
  have "f x \<notin> f ` set (uniq_spec f (insert (f x) V) xs)" by (simp add: set_uniq_spec)
  with Cons show ?case by auto
qed simp

lemma uniq_spec_distinct: "distinct (map f xs) \<Longrightarrow> f ` set xs \<inter> V = {} \<Longrightarrow> uniq_spec f V xs = xs"
  by (induction xs arbitrary: V) auto

lemma foldl_xor:
  assumes "number_names_ok rt"
  shows "\<exists>r. foldl (xor_step rt None None) (Some r0) as = Some r \<and>
    set r = {v. odd (of_bool (v \<in> set r0) + length (filter (\<lambda>a. v \<in> set a) as))}"
proof (induction "as" arbitrary: r0)
  case Nil
  show ?case by auto
next
  case (Cons a "as")
  let ?r1 = "baseDifference rt r0 a None None @ baseDifference rt a r0 None None"
  have r1: "set ?r1 = (set r0 - set a) \<union> (set a - set r0)"
    by (auto simp: baseDifference_filter [OF assms])
  from Cons.IH [of ?r1] obtain r where
    "foldl (xor_step rt None None) (Some ?r1) as = Some r"
    "set r = {v. odd (of_bool (v \<in> set ?r1) + length (filter (\<lambda>a. v \<in> set a) as))}" by blast
  moreover have parity: "odd (of_bool (v \<in> set ?r1) + length (filter (\<lambda>a. v \<in> set a) as)) \<longleftrightarrow>
      odd (of_bool (v \<in> set r0) + length (filter (\<lambda>a. v \<in> set a) (a # as)))" for v
    unfolding r1 by auto
  moreover have "foldl (xor_step rt None None) (Some r0) (a # as) =
      foldl (xor_step rt None None) (Some ?r1) as"
    by (simp add: xor_step_def [of _ _ _ "Some r0"])
  ultimately show ?case by (intro exI [of _ r] conjI) (simp_all only: parity)
qed

section \<open>Properties\<close>

text \<open>C26: \<open>baseUniq\<close> keeps the first element for every computed value, whatever the length of the
  array: scanning below 200 elements, a cache or a native \<open>Set\<close> above; \<open>NaN\<close> counts as one value.\<close>
theorem baseUniq_first_occurrences:
  assumes "number_names_ok rt"
  shows "baseUniq rt xs it None = uniq_spec (computed_by it) {} xs \<and>
    distinct (map (computed_by it) (baseUniq rt xs it None)) \<and>
    computed_by it ` set (baseUniq rt xs it None) = computed_by it ` set xs"
  using baseUniq_spec [OF assms] by (simp add: distinct_uniq_spec set_uniq_spec)

theorem baseUniq_first_occurrences_witness:
  "baseUniq (demo_engine True True) [LNum NaN, LStr ''a'', LNum NaN, LUndef, LStr ''a''] None None =
     [LNum NaN, LStr ''a'', LUndef]"
  using baseUniq_first_occurrences [OF demo_engine_names, of True True
      "[LNum NaN, LStr ''a'', LNum NaN, LUndef, LStr ''a'']" None]
  by simp

text \<open>\<open>baseDifference\<close> drops exactly the elements whose computed value some excluded element has,
  and keeps the others in order, whether it scans the excluded values or puts them in a cache.\<close>
theorem baseDifference_keeps_others:
  assumes "number_names_ok rt"
  shows "baseDifference rt xs vs it None = filter (\<lambda>x. computed_by it x \<notin> computed_by it ` set vs) xs"
  using assms by (rule baseDifference_filter)

theorem baseDifference_keeps_others_witness:
  "baseDifference (demo_engine False False) [LRef 1, LNum NaN, LNum (Fin 2)] [LNum NaN, LStr ''2''] None None =
     [LRef 1, LNum (Fin 2)]"
  using baseDifference_keeps_others [OF demo_engine_names, of False False
      "[LRef 1, LNum NaN, LNum (Fin 2)]" "[LNum NaN, LStr ''2'']" None]
  by simp

text \<open>\<open>baseIntersection\<close> keeps, once each and in the order of the first array, the elements whose
  computed value occurs in every other array, whichever of the arrays are cached.\<close>
theorem baseIntersection_common:
  assumes "number_names_ok rt"
  shows "baseIntersection rt xs others it None =
    uniq_spec (computed_by it) {}
      (filter (\<lambda>x. \<forall>a \<in> set others. computed_by it x \<in> computed_by it ` set a) xs)"
  using baseIntersection_spec [OF assms] by (simp add: inter_spec_def)

theorem baseIntersection_common_witness:
  "baseIntersection (demo_engine True False) [LNum (Fin 2), LNull, LNum (Fin 2)]
     [[LNum (Fin 2), LStr ''2''], [LRef 0, LNum (Fin 2)]] None None = [LNum (Fin 2)]"
  using baseIntersection_common [OF demo_engine_names, of True False "[LNum (Fin 2), LNull, LNum (Fin 2)]"
      "[[LNum (Fin 2), LStr ''2''], [LRef 0, LNum (Fin 2)]]" None]
  by simp

text \<open>\<open>baseXor\<close> of any number of arrays is their symmetric difference: without duplicates, the
  values that occur in an odd number of the arrays.\<close>
theorem baseXor_odd:
  assumes "number_names_ok rt"
  shows "distinct (baseXor rt arrays None None) \<and>
    set (baseXor rt arrays None None) = {v. odd (length (filter (\<lambda>a. v \<in> set a) arrays))}"
proof (cases arrays)
  case Nil
  then show ?thesis by (simp add: baseXor_def)
next
  case (Cons a "as")
  from foldl_xor [OF assms, of a "as"] obtain r where
    r: "foldl (xor_step rt None None) (Some a) as = Some r"
    "set r = {v. odd (of_bool (v \<in> set a) + length (filter (\<lambda>a. v \<in> set a) as))}" by blast
  then have "baseXor rt arrays None None = uniq_spec (\<lambda>x. x) {} r"
    by (simp add: baseXor_def Cons xor_step_def baseUniq_spec [OF assms])
  moreover have "set (uniq_spec (\<lambda>x. x) {} r) = set r" "distinct (uniq_spec (\<lambda>x. x) {} r)"
    using set_uniq_spec [of "\<lambda>x. x" "{}" r] distinct_uniq_spec [of "\<lambda>x. x" "{}" r] by simp_all
  ultimately show ?thesis using r(2) by (auto simp: Cons)
qed

theorem baseXor_odd_witness:
  "LNum (Fin 1) \<in> set (baseXor (demo_engine True True) [[LNum (Fin 1)], [LNum (Fin 1)], [LNum (Fin 1)]] None None)"
  using baseXor_odd [OF demo_engine_names, of True True "[[LNum (Fin 1)], [LNum (Fin 1)], [LNum (Fin 1)]]"]
  by simp

text \<open>Pulling in place removes every occurrence of the values, terminates, and leaves what
  \<open>baseDifference\<close> would return.\<close>
theorem pullAllBy_is_difference:
  assumes "number_names_ok rt"
  shows "basePullAllBy xs vs it = baseDifference rt xs vs it None"
  using baseDifference_filter [OF assms] by (simp add: basePullAllBy_filter)

theorem pullAllBy_is_difference_witness:
  "basePullAllBy [LNum NaN, LNull, LNum NaN] [LNum NaN] None =
     baseDifference (demo_engine True True) [LNum NaN, LNull, LNum NaN] [LNum NaN] None None"
  by (rule pullAllBy_is_difference [OF demo_engine_names])

end
