(* ===== verification/LodashSorted.thy ===== *)
theory LodashSorted
  imports LodashArray "HOL-Library.Word"
begin

text \<open>
  The order of values in \<open>lodash-4.2.1.js\<close>: \<open>compareAscending\<close> and \<open>compareMultiple\<close>, which
  \<open>sortBy\<close> and \<open>orderBy\<close> sort with, and the binary searches \<open>baseSortedIndex\<close> and
  \<open>baseSortedIndexBy\<close>, the first of which computes its midpoints on 32-bit integers.
\<close>

section \<open>Relational operators\<close>

text \<open>
  \<open><\<close> and \<open><=\<close>: two strings are compared by their characters, everything else as numbers. What an
  object and a string convert to is the engine's affair.
\<close>

record coercion =
  co_prim :: "nat \<Rightarrow> lval"
  co_num :: "string \<Rightarrow> jsnum"

fun num_less :: "jsnum \<Rightarrow> jsnum \<Rightarrow> bool" where
  "num_less (Fin a) (Fin b) \<longleftrightarrow> a < b"
| "num_less NegInf (Fin b) \<longleftrightarrow> True"
| "num_less NegInf PosInf \<longleftrightarrow> True"
| "num_less (Fin a) PosInf \<longleftrightarrow> True"
| "num_less x y \<longleftrightarrow> False"

definition num_le :: "jsnum \<Rightarrow> jsnum \<Rightarrow> bool" where
  "num_le a b \<longleftrightarrow> a \<noteq> NaN \<and> b \<noteq> NaN \<and> \<not> num_less b a"

fun str_less :: "string \<Rightarrow> string \<Rightarrow> bool" where
  "str_less s [] \<longleftrightarrow> False"
| "str_less [] (d # t) \<longleftrightarrow> True"
| "str_less (c # s) (d # t) \<longleftrightarrow>
     (of_char c :: nat) < of_char d \<or> c = d \<and> str_less s t"

definition to_prim :: "coercion \<Rightarrow> lval \<Rightarrow> lval" where
  "to_prim co v = (case v of LRef a \<Rightarrow> co_prim co a | _ \<Rightarrow> v)"

fun to_num :: "coercion \<Rightarrow> lval \<Rightarrow> jsnum" where
  "to_num co LUndef = NaN"
| "to_num co LNull = Fin 0"
| "to_num co (LBool b) = Fin (if b then 1 else 0)"
| "to_num co (LNum n) = n"
| "to_num co (LStr s) = co_num co s"
| "to_num co (LRef a) = NaN"

definition js_less :: "coercion \<Rightarrow> lval \<Rightarrow> lval \<Rightarrow> bool" where
  "js_less co a b = (case (to_prim co a, to_prim co b) of
     (LStr s, LStr t) \<Rightarrow> str_less s t
   | (x, y) \<Rightarrow> num_less (to_num co x) (to_num co y))"

definition js_le :: "coercion \<Rightarrow> lval \<Rightarrow> lval \<Rightarrow> bool" where
  "js_le co a b = (case (to_prim co a, to_prim co b) of
     (LStr s, LStr t) \<Rightarrow> \<not> str_less t s
   | (x, y) \<Rightarrow> num_le (to_num co x) (to_num co y))"

section \<open>Comparing\<close>

definition compareAscending :: "coercion \<Rightarrow> lval \<Rightarrow> lval \<Rightarrow> int" where
  "compareAscending co v other =
     (if strict_eq v other then 0
      else let valIsNull = (v = LNull); valIsUndef = (v = LUndef); valIsReflexive = strict_eq v v;
               othIsNull = (other = LNull); othIsUndef = (other = LUndef);
               othIsReflexive = strict_eq other other
           in if js_less co other v \<and> \<not> othIsNull \<or> \<not> valIsReflexive \<or>
                 valIsNull \<and> \<not> othIsUndef \<and> othIsReflexive \<or> valIsUndef \<and> othIsReflexive then 1
              else if js_less co v other \<and> \<not> valIsNull \<or> \<not> othIsReflexive \<or>
                 othIsNull \<and> \<not> valIsUndef \<and> valIsReflexive \<or> othIsUndef \<and> valIsReflexive then -1
              else 0)"

text \<open>
  What \<open>orderBy\<close> sorts: the values of the criteria, and the position in the collection. An order
  other than \<open>desc\<close>, or none, is ascending.
\<close>

record sort_entry =
  se_criteria :: "lval list"
  se_index :: nat

definition compareMultiple :: "coercion \<Rightarrow> sort_entry \<Rightarrow> sort_entry \<Rightarrow> string list \<Rightarrow> int" where
  "compareMultiple co object other orders =
     (case find (\<lambda>i. compareAscending co (se_criteria object ! i) (se_criteria other ! i) \<noteq> 0)
             [0..<length (se_criteria object)] of
        Some index \<Rightarrow>
          (let result = compareAscending co (se_criteria object ! index) (se_criteria other ! index)
           in if index \<ge> length orders then result
              else result * (if orders ! index = ''desc'' then -1 else 1))
      | None \<Rightarrow> int (se_index object) - int (se_index other))"

section \<open>Binary search\<close>

definition HALF_MAX_ARRAY_LENGTH :: nat where
  "HALF_MAX_ARRAY_LENGTH = 2147483647"

definition MAX_ARRAY_INDEX :: nat where
  "MAX_ARRAY_INDEX = 4294967294"

text \<open>\<open>(low + high) >>> 1\<close>\<close>

definition mid32 :: "nat \<Rightarrow> nat \<Rightarrow> nat" where
  "mid32 low high = unat (drop_bit 1 (word_of_nat (low + high) :: 32 word))"

text \<open>
  The loop of both searches, by the choice of the midpoint and the test for the upper half. \<open>None\<close> is a
  loop that does not end, as that on 32-bit midpoints would not on arrays that are too long for it.
\<close>

partial_function (option) bisect :: "(nat \<Rightarrow> nat \<Rightarrow> nat) \<Rightarrow> (nat \<Rightarrow> bool) \<Rightarrow> nat \<Rightarrow> nat \<Rightarrow> nat option" where
  "bisect midpoint setLow low high =
     (if low < high
      then (if setLow (midpoint low high) then bisect midpoint setLow (midpoint low high + 1) high
            else bisect midpoint setLow low (midpoint low high))
      else Some high)"

definition baseSortedIndexBy ::
  "coercion \<Rightarrow> lval list \<Rightarrow> lval \<Rightarrow> (lval \<Rightarrow> lval) \<Rightarrow> bool \<Rightarrow> nat option" where
  "baseSortedIndexBy co array v iteratee retHighest =
     (let v1 = iteratee v;
          valIsNaN = \<not> strict_eq v1 v1; valIsNull = (v1 = LNull); valIsUndef = (v1 = LUndef);
          setLow = (\<lambda>mid.
            let computed = iteratee (array ! mid);
                isDef = (computed \<noteq> LUndef); isReflexive = strict_eq computed computed
            in if valIsNaN then isReflexive \<or> retHighest
               else if valIsNull then isReflexive \<and> isDef \<and> (retHighest \<or> computed \<noteq> LNull \<and> isDef)
               else if valIsUndef then isReflexive \<and> (retHighest \<or> isDef)
               else if computed = LNull \<or> computed = LUndef then False
               else if retHighest then js_le co computed v1 else js_less co computed v1)
      in map_option (\<lambda>high. min high MAX_ARRAY_INDEX)
           (bisect (\<lambda>low high. (low + high) div 2) setLow 0 (length array)))"

definition baseSortedIndex :: "coercion \<Rightarrow> lval list \<Rightarrow> lval \<Rightarrow> bool \<Rightarrow> nat option" where
  "baseSortedIndex co array v retHighest =
     (if (case v of LNum n \<Rightarrow> n \<noteq> NaN | _ \<Rightarrow> False) \<and> length array \<le> HALF_MAX_ARRAY_LENGTH
      then bisect mid32
        (\<lambda>mid. let computed = array ! mid
               in (if retHighest then js_le co computed v else js_less co computed v) \<and> computed \<noteq> LNull)
        0 (length array)
      else baseSortedIndexBy co array v (\<lambda>x. x) retHighest)"

text \<open>\<open>sortedIndexOf\<close> and \<open>sortedLastIndexOf\<close>: the found position, if the value is there.\<close>

definition sortedIndexOf :: "coercion \<Rightarrow> lval list \<Rightarrow> lval \<Rightarrow> int option" where
  "sortedIndexOf co array v =
     (if array \<noteq> []
      then map_option (\<lambda>index. if index < length array \<and> lo_eq (array ! index) v then int index else -1)
             (baseSortedIndex co array v False)
      else Some (-1))"

text \<open>\<open>baseSortedUniqBy\<close>: neighbours with the same computed value are one; of an empty array the
  loop would keep the \<open>undefined\<close> it starts with.\<close>

definition baseSortedUniqBy :: "lval list \<Rightarrow> (lval \<Rightarrow> lval) \<Rightarrow> lval list" where
  "baseSortedUniqBy array f =
     (let v = (case array of x # _ \<Rightarrow> x | [] \<Rightarrow> LUndef)
      in snd (foldl (\<lambda>(seen, result) x.
           if \<not> lo_eq (f x) seen then (f x, result @ [x]) else (seen, result)) (f v, [v]) (tl array)))"

section \<open>The search finds the boundary\<close>

text \<open>Midpoints on 32 bits are exact up to half the largest array length.\<close>

lemma mid32_exact:
  assumes "low < high" and "high \<le> HALF_MAX_ARRAY_LENGTH"
  shows "mid32 low high = (low + high) div 2"
proof -
  have "low + high < 2 ^ 32" using assms by (simp add: HALF_MAX_ARRAY_LENGTH_def)
  then have "unat (word_of_nat (low + high) :: 32 word) = low + high"
    by (subst unat_of_nat) (simp add: take_bit_nat_eq_self del: of_nat_add)
  moreover have "unat (drop_bit 1 w) = unat w div 2" for w :: "32 word"
    by (simp only: unat_drop_bit_eq) (simp only: drop_bit_eq_div power_one_right)
  ultimately show ?thesis by (simp add: mid32_def del: of_nat_add)
qed

lemma bisect_boundary:
  assumes "\<And>l h. l < h \<Longrightarrow> h \<le> high \<Longrightarrow> m l h = (l + h) div 2"
    and "low \<le> k" "k \<le> high"
    and "\<And>i. low \<le> i \<Longrightarrow> i < k \<Longrightarrow> p i" and "\<And>i. k \<le> i \<Longrightarrow> i < high \<Longrightarrow> \<not> p i"
  shows "bisect m p low high = Some k"
  using assms
proof (induction "high - low" arbitrary: low high rule: less_induct)
  case less
  show ?case
  proof (cases "low < high")
    case True
    let ?mid = "m low high"
    have mid: "low \<le> ?mid" "?mid < high" using less.prems(1) [OF True order_refl] True by simp_all
    show ?thesis
    proof (cases "p ?mid")
      case upper: True
      then have "?mid < k" using less.prems(5) [of ?mid] mid by fastforce
      then have "bisect m p (?mid + 1) high = Some k" by (intro less.hyps) (use less.prems mid in auto)
      with True upper show ?thesis by (subst bisect.simps) simp
    next
      case lower: False
      then have "k \<le> ?mid" using less.prems(4) [of ?mid] mid by fastforce
      then have "bisect m p low ?mid = Some k" by (intro less.hyps) (use less.prems mid in auto)
      with True lower show ?thesis by (subst bisect.simps) simp
    qed
  next
    case False
    with less.prems(2,3) show ?thesis by (subst bisect.simps) simp
  qed
qed

text \<open>An array that is split by a test: the elements it holds of come first.\<close>

definition split_at :: "('x \<Rightarrow> bool) \<Rightarrow> 'x list \<Rightarrow> bool" where
  "split_at p xs \<longleftrightarrow> filter p xs @ filter (\<lambda>x. \<not> p x) xs = xs"

lemma split_at_nth:
  assumes "split_at p xs" and "i < length xs"
  shows "p (xs ! i) \<longleftrightarrow> i < length (filter p xs)"
proof -
  let ?l = "filter p xs" and ?r = "filter (\<lambda>x. \<not> p x) xs"
  have xs: "xs = ?l @ ?r" using assms(1) by (simp add: split_at_def)
  have len: "length ?l + length ?r = length xs" using arg_cong [OF xs, of length] by simp
  have nth: "xs ! i = (if i < length ?l then ?l ! i else ?r ! (i - length ?l))"
    using arg_cong [OF xs, of "\<lambda>l. l ! i"] by (simp only: nth_append)
  show ?thesis
  proof (cases "i < length ?l")
    case True
    then have "?l ! i \<in> set ?l" by (rule nth_mem)
    with True nth show ?thesis by simp
  next
    case False
    then have "?r ! (i - length ?l) \<in> set ?r" using assms(2) len by (intro nth_mem) linarith
    with False nth show ?thesis by simp
  qed
qed

lemma bisect_split:
  assumes "split_at p xs" and "\<And>l h. l < h \<Longrightarrow> h \<le> length xs \<Longrightarrow> m l h = (l + h) div 2"
  shows "bisect m (\<lambda>i. p (xs ! i)) 0 (length xs) = Some (length (filter p xs))"
proof (rule bisect_boundary)
  show "m l h = (l + h) div 2" if "l < h" "h \<le> length xs" for l h using that by (rule assms(2))
  show "length (filter p xs) \<le> length xs" by simp
  show "p (xs ! i)" if "i < length (filter p xs)" for i
    using that split_at_nth [OF assms(1), of i] length_filter_le [of p xs] by simp
  show "\<not> p (xs ! i)" if "length (filter p xs) \<le> i" "i < length xs" for i
    using that split_at_nth [OF assms(1), of i] by simp
qed simp_all

lemma split_at_cong: "(\<And>x. x \<in> set xs \<Longrightarrow> p x \<longleftrightarrow> q x) \<Longrightarrow> split_at q xs \<Longrightarrow> split_at p xs"
  unfolding split_at_def by (metis (no_types, lifting) filter_cong)

section \<open>The order of sortable values\<close>

text \<open>
  Values that are in order: numbers but \<open>NaN\<close> by size, or strings by their characters, then \<open>null\<close>, then
  \<open>undefined\<close>.
\<close>

datatype sort_kind = Numbers | Strings

fun sortable :: "sort_kind \<Rightarrow> lval \<Rightarrow> bool" where
  "sortable k LNull \<longleftrightarrow> True"
| "sortable k LUndef \<longleftrightarrow> True"
| "sortable Numbers (LNum n) \<longleftrightarrow> n \<noteq> NaN"
| "sortable Strings (LStr s) \<longleftrightarrow> True"
| "sortable k v \<longleftrightarrow> False"

fun sort_before :: "lval \<Rightarrow> lval \<Rightarrow> bool" where
  "sort_before (LNum a) (LNum b) \<longleftrightarrow> num_less a b"
| "sort_before (LStr s) (LStr t) \<longleftrightarrow> str_less s t"
| "sort_before (LNum a) LNull \<longleftrightarrow> True"
| "sort_before (LNum a) LUndef \<longleftrightarrow> True"
| "sort_before (LStr s) LNull \<longleftrightarrow> True"
| "sort_before (LStr s) LUndef \<longleftrightarrow> True"
| "sort_before LNull LUndef \<longleftrightarrow> True"
| "sort_before a b \<longleftrightarrow> False"

lemma sortable_cases:
  assumes "sortable k v"
  obtains "v = LNull" | "v = LUndef" | n where "k = Numbers" "v = LNum n" "n \<noteq> NaN" | s where "k = Strings" "v = LStr s"
  using assms by (cases "(k, v)" rule: sortable.cases) auto

lemma str_less_linear: "str_less s t \<or> s = t \<or> str_less t s"
proof (induction s t rule: str_less.induct)
  case (3 c s d t)
  then show ?case using of_char_eq_iff [of c d, where 'a = nat] by auto
qed (metis list.exhaust str_less.simps(2), simp)

lemma str_less_asym: "str_less s t \<Longrightarrow> \<not> str_less t s"
  by (induction s t rule: str_less.induct) auto

lemma str_less_trans: "str_less s t \<Longrightarrow> str_less t u \<Longrightarrow> str_less s u"
proof (induction s t arbitrary: u rule: str_less.induct)
  case (2 d t)
  then show ?case by (cases u) auto
next
  case (3 c s d t)
  then show ?case by (cases u) auto
qed simp

lemma str_less_irrefl [simp]: "\<not> str_less s s"
  using str_less_asym by blast

lemma num_less_linear: "a \<noteq> NaN \<Longrightarrow> b \<noteq> NaN \<Longrightarrow> num_less a b \<or> a = b \<or> num_less b a"
  by (cases a; cases b) auto

lemma num_less_asym: "num_less a b \<Longrightarrow> \<not> num_less b a"
  by (cases a; cases b) auto

lemma num_less_trans: "num_less a b \<Longrightarrow> num_less b c \<Longrightarrow> num_less a c"
  by (cases a; cases b; cases c) auto

lemma num_less_irrefl [simp]: "\<not> num_less a a"
  using num_less_asym by blast

lemma js_less_num [simp]: "js_less co (LNum a) (LNum b) \<longleftrightarrow> num_less a b"
  by (simp add: js_less_def to_prim_def)

lemma js_le_num [simp]: "js_le co (LNum a) (LNum b) \<longleftrightarrow> num_le a b"
  by (simp add: js_le_def to_prim_def)

lemma js_less_str [simp]: "js_less co (LStr s) (LStr t) \<longleftrightarrow> str_less s t"
  by (simp add: js_less_def to_prim_def)

lemma js_le_str [simp]: "js_le co (LStr s) (LStr t) \<longleftrightarrow> \<not> str_less t s"
  by (simp add: js_le_def to_prim_def)

lemma sort_before_asym: "sort_before a b \<Longrightarrow> \<not> sort_before b a"
  by (cases a; cases b) (auto simp: num_less_asym str_less_asym)

lemma sort_before_linear: "sortable k a \<Longrightarrow> sortable k b \<Longrightarrow> sort_before a b \<or> a = b \<or> sort_before b a"
  using str_less_linear by (elim sortable_cases) (auto dest: num_less_linear)

lemma js_less_undefined [simp]: "\<not> js_less co LUndef v" "\<not> js_less co v LUndef"
  by (cases "to_prim co v"; simp add: js_less_def to_prim_def)+

lemma js_le_undefined [simp]: "\<not> js_le co LUndef (LNum n)"
  by (simp add: js_le_def to_prim_def num_le_def)

lemma compareAscending_order:
  assumes "sortable k a" and "sortable k b"
  shows "compareAscending co a b = (if sort_before a b then -1 else if sort_before b a then 1 else 0)"
proof -
  consider m n where "a = LNum m" "b = LNum n" "m \<noteq> NaN" "n \<noteq> NaN"
    | s t where "a = LStr s" "b = LStr t" | "a \<in> {LNull, LUndef} \<or> b \<in> {LNull, LUndef}"
    using assms by (elim sortable_cases) auto
  then show ?thesis
  proof cases
    case (1 m n)
    then show ?thesis using num_less_linear [of m n] num_less_asym [of m n]
      by (auto simp: compareAscending_def strict_eq_def is_NaN_def Let_def)
  next
    case (2 s t)
    then show ?thesis using str_less_linear [of s t] str_less_asym [of s t]
      by (auto simp: compareAscending_def strict_eq_def is_NaN_def Let_def)
  next
    case 3
    then show ?thesis using assms
      by (elim sortable_cases) (auto simp: compareAscending_def strict_eq_def is_NaN_def Let_def)
  qed
qed

section \<open>Insertion points\<close>

lemma baseSortedIndex_split:
  assumes "n \<noteq> NaN" and "length xs \<le> HALF_MAX_ARRAY_LENGTH"
    and "split_at (\<lambda>x. (if hi then js_le co x (LNum n) else js_less co x (LNum n)) \<and> x \<noteq> LNull) xs"
  shows "baseSortedIndex co xs (LNum n) hi =
    Some (length (filter (\<lambda>x. (if hi then js_le co x (LNum n) else js_less co x (LNum n)) \<and> x \<noteq> LNull) xs))"
  using bisect_split [OF assms(3), of mid32] mid32_exact assms(1,2)
  by (simp add: baseSortedIndex_def Let_def)

text \<open>The test of \<open>baseSortedIndexBy\<close> for the value searched.\<close>

definition before_value :: "coercion \<Rightarrow> lval \<Rightarrow> bool \<Rightarrow> lval \<Rightarrow> bool" where
  "before_value co v retHighest c =
     (if is_NaN v then \<not> is_NaN c \<or> retHighest
      else if v = LNull then \<not> is_NaN c \<and> c \<noteq> LUndef \<and> (retHighest \<or> c \<noteq> LNull)
      else if v = LUndef then \<not> is_NaN c \<and> (retHighest \<or> c \<noteq> LUndef)
      else c \<noteq> LNull \<and> c \<noteq> LUndef \<and> (if retHighest then js_le co c v else js_less co c v))"

lemma baseSortedIndexBy_split:
  assumes "split_at (\<lambda>x. before_value co (f v) hi (f x)) xs"
  shows "baseSortedIndexBy co xs v f hi =
    Some (min (length (filter (\<lambda>x. before_value co (f v) hi (f x)) xs)) MAX_ARRAY_INDEX)"
proof -
  have "baseSortedIndexBy co xs v f hi = map_option (\<lambda>high. min high MAX_ARRAY_INDEX)
      (bisect (\<lambda>l h. (l + h) div 2) (\<lambda>i. before_value co (f v) hi (f (xs ! i))) 0 (length xs))"
    unfolding baseSortedIndexBy_def Let_def before_value_def
    by (rule arg_cong [where f = "\<lambda>p. map_option _ (bisect _ p _ _)"]) (auto simp: fun_eq_iff)
  with bisect_split [OF assms, of "\<lambda>l h. (l + h) div 2"] show ?thesis by simp
qed

text \<open>Sorted arrays of sortable values, as \<open>compareAscending\<close> orders them, are split for every value.\<close>

definition sorted_values :: "sort_kind \<Rightarrow> lval list \<Rightarrow> bool" where
  "sorted_values k xs \<longleftrightarrow> (\<forall>x \<in> set xs. sortable k x) \<and> sorted_wrt (\<lambda>a b. \<not> sort_before b a) xs"

lemma sort_before_trans: "sort_before a b \<Longrightarrow> sort_before b c \<Longrightarrow> sort_before a c"
  by (cases a; cases b; cases c) (auto dest: num_less_trans str_less_trans)

lemma before_value_sortable:
  assumes "sortable k v" and "sortable k c"
  shows "before_value co v hi c \<longleftrightarrow> (if hi then \<not> sort_before v c else sort_before c v)"
proof -
  have le: "num_le m n \<longleftrightarrow> \<not> num_less n m" if "m \<noteq> NaN" "n \<noteq> NaN" for m n
    using that by (simp add: num_le_def)
  show ?thesis using assms
    by (elim sortable_cases) (auto simp: before_value_def is_NaN_def le)
qed

lemma split_at_sorted:
  assumes "sorted_wrt (\<lambda>a b. p b \<longrightarrow> p a) xs"
  shows "split_at p xs"
  using assms
proof (induction xs)
  case (Cons x xs)
  show ?case
  proof (cases "p x")
    case False
    with Cons.prems have "filter p xs = []" "filter (\<lambda>x. \<not> p x) xs = xs"
      by (auto simp: filter_empty_conv intro: filter_True)
    with False show ?thesis by (simp add: split_at_def)
  qed (use Cons in \<open>auto simp: split_at_def\<close>)
qed (simp add: split_at_def)

lemma sorted_values_split:
  assumes "sorted_values k xs" and "sortable k v"
  shows "split_at (\<lambda>x. if hi then \<not> sort_before v x else sort_before x v) xs"
proof (rule split_at_sorted)
  have xs: "\<forall>x \<in> set xs. sortable k x" "sorted_wrt (\<lambda>a b. \<not> sort_before b a) xs"
    using assms(1) by (simp_all add: sorted_values_def)
  show "sorted_wrt (\<lambda>a b. (if hi then \<not> sort_before v b else sort_before b v) \<longrightarrow>
      (if hi then \<not> sort_before v a else sort_before a v)) xs"
  proof (rule sorted_wrt_mono_rel [OF _ xs(2)])
    fix a b assume ab: "a \<in> set xs" "b \<in> set xs" "\<not> sort_before b a"
    then have "sort_before a b \<or> a = b" using xs(1) sort_before_linear by blast
    then show "(if hi then \<not> sort_before v b else sort_before b v) \<longrightarrow>
        (if hi then \<not> sort_before v a else sort_before a v)"
      using sort_before_trans by auto
  qed
qed

section \<open>Properties\<close>

text \<open>\<open>compareAscending\<close> is the order numbers, or strings, \<open>null\<close>, \<open>undefined\<close>, antisymmetric on them and
  zero on equal values only; on two \<open>NaN\<close> it is not: each comes after the other.\<close>
theorem compareAscending_orders:
  assumes "sortable k a" and "sortable k b"
  shows "(compareAscending co a b = -1 \<longleftrightarrow> sort_before a b) \<and>
    compareAscending co b a = - compareAscending co a b \<and>
    (compareAscending co a b = 0 \<longleftrightarrow> a = b) \<and>
    compareAscending co (LNum NaN) (LNum NaN) = 1"
proof -
  have "compareAscending co (LNum NaN) (LNum NaN) = 1"
    by (simp add: compareAscending_def strict_eq_def is_NaN_def Let_def)
  then show ?thesis
    using sort_before_asym [of a b] sort_before_linear [OF assms]
    by (auto simp: compareAscending_order [OF assms] compareAscending_order [OF assms(2,1)])
qed

theorem compareAscending_orders_witness:
  "compareAscending \<lparr>co_prim = \<lambda>_. LNull, co_num = \<lambda>_. NaN\<rparr> (LNum (Fin 3)) LNull = -1"
  using compareAscending_orders [of Numbers "LNum (Fin 3)" LNull "\<lparr>co_prim = \<lambda>_. LNull, co_num = \<lambda>_. NaN\<rparr>"]
  by simp

text \<open>C29: The binary search finds the insertion point: in an array of numbers other than \<open>NaN\<close>, or of
  strings, with \<open>null\<close> and \<open>undefined\<close>, sorted as \<open>compareAscending\<close> sorts, \<open>baseSortedIndex\<close> returns the
  number of elements before a value of that kind, or, for the highest position, of those not after it,
  up to the largest index. This is so for arrays of every length: the search on 32-bit midpoints is
  left where they would overflow, and agrees with the general one up to there.\<close>
theorem baseSortedIndex_insertion_point:
  assumes "sorted_values k xs" and "sortable k v"
  shows "baseSortedIndex co xs v hi =
    Some (min (length (filter (\<lambda>x. if hi then \<not> sort_before v x else sort_before x v) xs)) MAX_ARRAY_INDEX)"
proof -
  let ?p = "\<lambda>x. if hi then \<not> sort_before v x else sort_before x v"
  have xs: "\<forall>x \<in> set xs. sortable k x" using assms(1) by (simp add: sorted_values_def)
  have split: "split_at ?p xs" by (rule sorted_values_split [OF assms])
  show ?thesis
  proof (cases "(\<exists>n. v = LNum n \<and> n \<noteq> NaN) \<and> length xs \<le> HALF_MAX_ARRAY_LENGTH")
    case False
    then have "baseSortedIndex co xs v hi = baseSortedIndexBy co xs v (\<lambda>x. x) hi"
      by (auto simp: baseSortedIndex_def split: lval.splits)
    also have "\<dots> = Some (min (length (filter (\<lambda>x. before_value co v hi x) xs)) MAX_ARRAY_INDEX)"
      using split split_at_cong [of xs "\<lambda>x. before_value co v hi x" ?p] before_value_sortable [OF assms(2)] xs
      by (intro baseSortedIndexBy_split) auto
    also have "filter (\<lambda>x. before_value co v hi x) xs = filter ?p xs"
      using before_value_sortable [OF assms(2)] xs by (intro filter_cong) auto
    finally show ?thesis .
  next
    case True
    then obtain n where n: "v = LNum n" "n \<noteq> NaN" "k = Numbers" using assms(2) by (cases k) auto
    let ?q = "\<lambda>x. (if hi then js_le co x (LNum n) else js_less co x (LNum n)) \<and> x \<noteq> LNull"
    have q: "?q x \<longleftrightarrow> ?p x" if "x \<in> set xs" for x
      using xs n that by (auto elim!: sortable_cases [of Numbers x] simp: num_le_def)
    have "baseSortedIndex co xs (LNum n) hi = Some (length (filter ?q xs))"
      using True split split_at_cong [of xs ?q ?p] q by (intro baseSortedIndex_split [OF n(2)]) auto
    moreover have "filter ?q xs = filter ?p xs" by (rule filter_cong [OF refl q])
    moreover have "length (filter ?p xs) \<le> MAX_ARRAY_INDEX"
      using True by (intro order_trans [OF length_filter_le]) (simp add: MAX_ARRAY_INDEX_def HALF_MAX_ARRAY_LENGTH_def)
    ultimately show ?thesis using n(1) by (simp only: min.absorb1)
  qed
qed

theorem baseSortedIndex_insertion_point_witness:
  "baseSortedIndex \<lparr>co_prim = \<lambda>_. LNull, co_num = \<lambda>_. NaN\<rparr>
     [LNum (Fin 1), LNum (Fin 3), LNum (Fin 3), LNull] (LNum (Fin 3)) True = Some 3"
  using baseSortedIndex_insertion_point [of Numbers "[LNum (Fin 1), LNum (Fin 3), LNum (Fin 3), LNull]"
      "LNum (Fin 3)" "\<lparr>co_prim = \<lambda>_. LNull, co_num = \<lambda>_. NaN\<rparr>" True]
  by (simp add: sorted_values_def MAX_ARRAY_INDEX_def)

end
