(* ===== verification/LodashNumbers.thy ===== *)
theory LodashNumbers
  imports LodashSorted "HOL-Library.Multiset"
begin

text \<open>
  Numbers and positions in \<open>lodash-4.2.1.js\<close>: the conversions \<open>toInteger\<close> and \<open>toLength\<close>, clamping,
  ranges and the random choices of \<open>sampleSize\<close>. An argument is a number or \<open>undefined\<close> (\<open>None\<close>);
  \<open>toNumber\<close> of other values is the engine's. Numbers are exact: beyond \<open>2 ^ 53\<close> the code only
  compares them.
\<close>

section \<open>Conversions\<close>

definition MAX_INTEGER :: int where
  "MAX_INTEGER = 2 ^ 1024 - 2 ^ 971"

definition MAX_ARRAY_LENGTH :: nat where
  "MAX_ARRAY_LENGTH = 4294967295"

text \<open>\<open>value - value % 1\<close>, where the remainder has the sign of the value.\<close>

definition trunc :: "rat \<Rightarrow> int" where
  "trunc q = (if q < 0 then - \<lfloor>- q\<rfloor> else \<lfloor>q\<rfloor>)"

definition toInteger :: "jsnum option \<Rightarrow> int" where
  "toInteger v = (case v of
     None \<Rightarrow> 0
   | Some PosInf \<Rightarrow> MAX_INTEGER
   | Some NegInf \<Rightarrow> - MAX_INTEGER
   | Some NaN \<Rightarrow> 0
   | Some (Fin q) \<Rightarrow> trunc q)"

definition baseClamp :: "jsnum \<Rightarrow> jsnum option \<Rightarrow> jsnum option \<Rightarrow> jsnum" where
  "baseClamp number lower upper =
     (if number \<noteq> NaN
      then let n = (case upper of Some u \<Rightarrow> if num_le number u then number else u | None \<Rightarrow> number)
           in (case lower of Some l \<Rightarrow> if num_le l n then n else l | None \<Rightarrow> n)
      else number)"

definition num_int :: "int \<Rightarrow> jsnum" where
  "num_int i = Fin (of_int i)"

definition toLength :: "jsnum option \<Rightarrow> nat" where
  "toLength v = nat (toInteger (Some
     (baseClamp (num_int (toInteger v)) (Some (num_int 0)) (Some (num_int (int MAX_ARRAY_LENGTH))))))"

text \<open>\<open>clamp(number, upper)\<close> has no lower bound; a bound that is not a number is zero.\<close>

definition bound_num :: "jsnum \<Rightarrow> jsnum" where
  "bound_num b = (if b = NaN then Fin 0 else b)"

definition clamp :: "jsnum \<Rightarrow> jsnum option \<Rightarrow> jsnum option \<Rightarrow> jsnum" where
  "clamp number lower upper =
     (let (lower1, upper1) = (case upper of None \<Rightarrow> (None, lower) | Some u \<Rightarrow> (lower, upper))
      in baseClamp number (map_option bound_num lower1) (map_option bound_num upper1))"

definition nativeMin :: "jsnum \<Rightarrow> jsnum \<Rightarrow> jsnum" where
  "nativeMin a b = (if a = NaN \<or> b = NaN then NaN else if num_less b a then b else a)"

definition nativeMax :: "jsnum \<Rightarrow> jsnum \<Rightarrow> jsnum" where
  "nativeMax a b = (if a = NaN \<or> b = NaN then NaN else if num_less a b then b else a)"

definition baseInRange :: "jsnum \<Rightarrow> jsnum \<Rightarrow> jsnum \<Rightarrow> bool" where
  "baseInRange number start stop \<longleftrightarrow>
     num_le (nativeMin start stop) number \<and> num_less number (nativeMax start stop)"

definition inRange :: "jsnum \<Rightarrow> jsnum \<Rightarrow> jsnum option \<Rightarrow> bool" where
  "inRange number start stop =
     (case stop of
        None \<Rightarrow> baseInRange number (Fin 0) (bound_num start)
      | Some e \<Rightarrow> baseInRange number (bound_num start) (bound_num e))"

text \<open>\<open>isIndex\<close> of a number.\<close>

definition isIndex :: "jsnum \<Rightarrow> int option \<Rightarrow> bool" where
  "isIndex v len = (case v of
     Fin q \<Rightarrow> q > -1 \<and> q = of_int (trunc q) \<and>
       q < of_int (case len of None \<Rightarrow> 9007199254740991 | Some l \<Rightarrow> l)
   | _ \<Rightarrow> False)"

section \<open>Laws of the conversions\<close>

lemma trunc_int [simp]: "trunc (of_int i) = i"
  by (simp add: trunc_def flip: of_int_minus)

lemma toInteger_int [simp]: "toInteger (Some (num_int i)) = i"
  by (simp add: toInteger_def num_int_def)

lemma num_le_int [simp]: "num_le (num_int i) (num_int j) \<longleftrightarrow> i \<le> j"
  by (auto simp: num_le_def num_int_def)

lemma num_less_int [simp]: "num_less (num_int i) (num_int j) \<longleftrightarrow> i < j"
  by (simp add: num_int_def)

lemma num_int_NaN [simp]: "num_int i \<noteq> NaN"
  by (simp add: num_int_def)

lemma baseClamp_int [simp]:
  "baseClamp (num_int i) (Some (num_int l)) (Some (num_int u)) = num_int (max l (min i u))"
  by (simp add: baseClamp_def Let_def max_def min_def)

lemma toLength_clamped: "toLength v = nat (max 0 (min (toInteger v) (int MAX_ARRAY_LENGTH)))"
  by (simp add: toLength_def)

lemma toInteger_bounds: "v = None \<or> v = Some NaN \<Longrightarrow> toInteger v = 0"
  by (auto simp: toInteger_def)

lemma num_le_trans: "num_le a b \<Longrightarrow> num_le b c \<Longrightarrow> num_le a c"
  unfolding num_le_def using num_less_trans num_less_linear by metis

lemma num_le_linear: "a \<noteq> NaN \<Longrightarrow> b \<noteq> NaN \<Longrightarrow> num_le a b \<or> num_le b a"
  by (auto simp: num_le_def num_less_asym)

lemma num_le_refl [simp]: "num_le a a \<longleftrightarrow> a \<noteq> NaN"
  by (simp add: num_le_def)

lemma num_less_le: "num_less a b \<Longrightarrow> num_le a b"
  by (cases a; cases b) (auto simp: num_le_def)

section \<open>Properties\<close>

text \<open>Clamping brings every number into the bounds, keeps the numbers that are
  in them, and is idempotent; the one number it leaves alone is \<open>NaN\<close>.\<close>
theorem clamp_bounds:
  assumes "l \<noteq> NaN" and "u \<noteq> NaN" and "num_le l u"
  shows "(n \<noteq> NaN \<longrightarrow> num_le l (clamp n (Some l) (Some u)) \<and> num_le (clamp n (Some l) (Some u)) u) \<and>
    (num_le l n \<and> num_le n u \<longrightarrow> clamp n (Some l) (Some u) = n) \<and>
    clamp (clamp n (Some l) (Some u)) (Some l) (Some u) = clamp n (Some l) (Some u) \<and>
    clamp NaN (Some l) (Some u) = NaN"
proof -
  have clamp: "clamp n (Some l) (Some u) =
      (if n = NaN then NaN else if \<not> num_le n u then u else if num_le l n then n else l)" for n
    using assms by (auto simp: clamp_def baseClamp_def bound_num_def Let_def)
  show ?thesis
    using assms num_le_linear [of l n] num_le_linear [of n u] num_le_refl [of l] num_le_refl [of u]
    by (auto simp: clamp)
qed

theorem clamp_bounds_witness: "clamp (Fin 12) (Some (Fin (-5))) (Some (Fin 5)) = Fin 5 \<and>
    clamp (Fin 3) (Some (Fin (-5))) (Some (Fin 5)) = Fin 3"
  using clamp_bounds [of "Fin (-5)" "Fin 5" "Fin 3"]
  by (simp add: num_le_def clamp_def baseClamp_def bound_num_def)

section \<open>Random samples\<close>

text \<open>
  \<open>random\<close> is the stream of the engine's draws. \<open>sampleSize\<close> swaps each of the first \<open>n\<close> positions
  with a random one not before it.
\<close>

definition baseRandom :: "rat \<Rightarrow> nat \<Rightarrow> nat \<Rightarrow> nat" where
  "baseRandom draw lower upper = nat (int lower + \<lfloor>draw * (of_nat upper - of_nat lower + 1)\<rfloor>)"

definition swap_step :: "(nat \<Rightarrow> rat) \<Rightarrow> 'x list \<Rightarrow> nat \<Rightarrow> 'x list" where
  "swap_step random result index =
     (let rand = baseRandom (random index) index (length result - 1);
          value = result ! rand
      in (result[rand := result ! index])[index := value])"

definition sampleSize :: "(nat \<Rightarrow> rat) \<Rightarrow> 'x list \<Rightarrow> jsnum option \<Rightarrow> 'x list" where
  "sampleSize random collection n =
     (let len = length collection;
          k = nat (toInteger (Some (baseClamp (num_int (toInteger n)) (Some (num_int 0)) (Some (num_int (int len))))))
      in take k (foldl (swap_step random) collection [0..<k]))"

definition shuffle :: "(nat \<Rightarrow> rat) \<Rightarrow> 'x list \<Rightarrow> 'x list" where
  "shuffle random collection = sampleSize random collection (Some (num_int (int MAX_ARRAY_LENGTH)))"

definition draws :: "(nat \<Rightarrow> rat) \<Rightarrow> bool" where
  "draws random \<longleftrightarrow> (\<forall>i. 0 \<le> random i \<and> random i < 1)"

lemma baseRandom_range:
  assumes "0 \<le> d" and "d < 1" and "lower \<le> upper"
  shows "lower \<le> baseRandom d lower upper \<and> baseRandom d lower upper \<le> upper"
proof -
  let ?w = "of_nat upper - of_nat lower + 1 :: rat"
  have w: "?w = of_int (int upper - int lower + 1)" by simp
  have "0 < ?w" using assms(3) by simp
  with assms have "0 \<le> d * ?w" "d * ?w < of_int (int upper - int lower + 1)"
    unfolding w by (simp_all only: zero_le_mult_iff mult_less_cancel_right2) auto
  then have "0 \<le> \<lfloor>d * ?w\<rfloor>" "\<lfloor>d * ?w\<rfloor> < int upper - int lower + 1"
    by (simp_all only: zero_le_floor floor_less_iff)
  then show ?thesis unfolding baseRandom_def by linarith
qed

lemma swap_step_mset:
  assumes "draws random" and "index < length xs"
  shows "mset (swap_step random xs index) = mset xs"
proof -
  have "index \<le> baseRandom (random index) index (length xs - 1) \<and>
      baseRandom (random index) index (length xs - 1) \<le> length xs - 1"
    using assms by (intro baseRandom_range) (auto simp: draws_def)
  then have "baseRandom (random index) index (length xs - 1) < length xs" using assms(2) by linarith
  then show ?thesis using assms(2) by (simp only: swap_step_def Let_def mset_swap)
qed

lemma swaps_mset:
  assumes "draws random" and "\<forall>i \<in> set is. i < length xs"
  shows "mset (foldl (swap_step random) xs is) = mset xs \<and>
    length (foldl (swap_step random) xs is) = length xs"
  using assms(2)
proof (induction "is" arbitrary: xs)
  case (Cons i "is")
  have step: "mset (swap_step random xs i) = mset xs"
    using assms(1) Cons.prems by (intro swap_step_mset) auto
  then have "length (swap_step random xs i) = length xs" by (rule mset_eq_length)
  with Cons step show ?case by simp
qed simp

text \<open>Shuffling permutes, whatever is drawn: the result has the same elements as
  often. A sample of \<open>n\<close> has \<open>n\<close> of them, or all, and never more occurrences than the collection.\<close>
theorem shuffle_permutes:
  assumes "draws random" and "length xs \<le> MAX_ARRAY_LENGTH"
  shows "mset (shuffle random xs) = mset xs \<and>
    length (sampleSize random xs n) = nat (max 0 (min (toInteger n) (int (length xs)))) \<and>
    mset (sampleSize random xs n) \<subseteq># mset xs"
proof -
  let ?k = "nat (max 0 (min (toInteger n) (int (length xs))))"
  let ?all = "foldl (swap_step random) xs [0..<length xs]"
  let ?some = "foldl (swap_step random) xs [0..<?k]"
  have all: "mset ?all = mset xs \<and> length ?all = length xs"
    using assms(1) by (intro swaps_mset) auto
  have some: "mset ?some = mset xs \<and> length ?some = length xs"
    using assms(1) by (intro swaps_mset) auto
  have whole: "min (int MAX_ARRAY_LENGTH) (int (length xs)) = int (length xs)"
    using assms(2) by simp
  have "shuffle random xs = ?all"
    using all by (simp add: shuffle_def sampleSize_def Let_def whole)
  moreover have sample: "sampleSize random xs n = take ?k ?some"
    by (simp add: sampleSize_def Let_def)
  moreover have "mset (take ?k ?some) \<subseteq># mset (take ?k ?some @ drop ?k ?some)"
    by (simp only: mset_append mset_subset_eq_add_left)
  ultimately show ?thesis using all some by simp
qed

theorem shuffle_permutes_witness:
  "mset (shuffle (\<lambda>_. 1 / 2) [1, 2, 3 :: nat]) = {#1, 2, 3#}"
  using shuffle_permutes [of "\<lambda>_. 1 / 2" "[1, 2, 3 :: nat]"]
  by (simp add: draws_def MAX_ARRAY_LENGTH_def)

end
