(* ===== verification/LodashSlices.thy ===== *)
theory LodashSlices
  imports LodashNumbers
begin

text \<open>
  Parts of arrays in \<open>lodash-4.2.1.js\<close>: \<open>baseSlice\<close>, on which \<open>chunk\<close>, \<open>drop\<close>, \<open>take\<close> and their
  variants are built, \<open>fill\<close>, the searches from an index on, and \<open>remove\<close>. A missing array is an empty
  one. Lengths are 32-bit: \<open>baseSlice\<close> converts its positions with \<open>>>> 0\<close>. Predicates are functions of
  the element and its index. The functions named like a function of HOL have the prefix \<open>lo_\<close>.
\<close>

section \<open>Slices\<close>

text \<open>\<open>array[i]\<close> and \<open>i >>> 0\<close>.\<close>

definition read_at :: "lval list \<Rightarrow> int \<Rightarrow> lval" where
  "read_at array i = (if 0 \<le> i \<and> i < int (length array) then array ! nat i else LUndef)"

definition to_uint32 :: "int \<Rightarrow> nat" where
  "to_uint32 i = unat (word_of_int i :: 32 word)"

definition baseSlice :: "lval list \<Rightarrow> int \<Rightarrow> int \<Rightarrow> lval list" where
  "baseSlice array start stop =
     (let len = int (length array);
          start1 = (if start < 0 then (if - start > len then 0 else len + start) else start);
          stop1 = (if stop > len then len else stop);
          stop2 = (if stop1 < 0 then stop1 + len else stop1);
          n = (if start1 > stop2 then 0 else to_uint32 (stop2 - start1));
          start2 = to_uint32 start1
      in map (\<lambda>index. read_at array (int index + int start2)) [0..<n])"

text \<open>The loop of \<open>chunk\<close>; its guard on the size is the test \<open>chunk\<close> makes before it.\<close>

function chunk_from :: "lval list \<Rightarrow> int \<Rightarrow> int \<Rightarrow> lval list list" where
  "chunk_from array n index =
     (if index < int (length array) \<and> 1 \<le> n
      then baseSlice array index (index + n) # chunk_from array n (index + n)
      else [])"
  by pat_completeness auto
termination by (relation "measure (\<lambda>(array, n, index). nat (int (length array) - index))") auto

declare chunk_from.simps [simp del]

definition chunk :: "lval list \<Rightarrow> jsnum option \<Rightarrow> lval list list" where
  "chunk array sz =
     (let n = max (toInteger sz) 0
      in if array = [] \<or> n < 1 then [] else chunk_from array n 0)"

text \<open>Falsy values: \<open>undefined\<close>, \<open>null\<close>, \<open>false\<close>, zero, \<open>NaN\<close> and the empty string.\<close>

definition lo_truthy :: "lval \<Rightarrow> bool" where
  "lo_truthy v \<longleftrightarrow> v \<notin> {LUndef, LNull, LBool False, LNum (Fin 0), LNum NaN, LStr []}"

definition compact :: "lval list \<Rightarrow> lval list" where
  "compact array =
     foldl (\<lambda>result index. if lo_truthy (array ! index) then result @ [array ! index] else result) []
       [0..<length array]"

text \<open>\<open>guard\<close>: the call comes from an iteration method, and drops the second argument.\<close>

definition count_arg :: "jsnum option \<Rightarrow> bool \<Rightarrow> int" where
  "count_arg n guard = (if guard \<or> n = None then 1 else toInteger n)"

definition lo_drop :: "lval list \<Rightarrow> jsnum option \<Rightarrow> bool \<Rightarrow> lval list" where
  "lo_drop array n guard =
     (if array = [] then []
      else let k = count_arg n guard in baseSlice array (if k < 0 then 0 else k) (int (length array)))"

definition dropRight :: "lval list \<Rightarrow> jsnum option \<Rightarrow> bool \<Rightarrow> lval list" where
  "dropRight array n guard =
     (if array = [] then []
      else let k = int (length array) - count_arg n guard in baseSlice array 0 (if k < 0 then 0 else k))"

definition lo_take :: "lval list \<Rightarrow> jsnum option \<Rightarrow> bool \<Rightarrow> lval list" where
  "lo_take array n guard =
     (if array = [] then []
      else let k = count_arg n guard in baseSlice array 0 (if k < 0 then 0 else k))"

definition takeRight :: "lval list \<Rightarrow> jsnum option \<Rightarrow> bool \<Rightarrow> lval list" where
  "takeRight array n guard =
     (if array = [] then []
      else let k = int (length array) - count_arg n guard
           in baseSlice array (if k < 0 then 0 else k) (int (length array)))"

definition initial :: "lval list \<Rightarrow> lval list" where
  "initial array = dropRight array (Some (Fin 1)) False"

definition tail :: "lval list \<Rightarrow> lval list" where
  "tail array = lo_drop array (Some (Fin 1)) False"

definition head :: "lval list \<Rightarrow> lval" where
  "head array = read_at array 0"

definition lo_last :: "lval list \<Rightarrow> lval" where
  "lo_last array = (if array \<noteq> [] then read_at array (int (length array) - 1) else LUndef)"

text \<open>\<open>slice\<close>: as an iteratee (a third argument that is not a number) it copies the array.\<close>

definition lo_slice :: "lval list \<Rightarrow> jsnum option \<Rightarrow> jsnum option \<Rightarrow> bool \<Rightarrow> lval list" where
  "lo_slice array start stop iteratee_call =
     (let len = int (length array)
      in if array = [] then []
         else if iteratee_call then baseSlice array 0 len
         else baseSlice array (case start of None \<Rightarrow> 0 | Some _ \<Rightarrow> toInteger start)
                (case stop of None \<Rightarrow> len | Some _ \<Rightarrow> toInteger stop))"

section \<open>While a predicate holds\<close>

definition baseWhile :: "lval list \<Rightarrow> (lval \<Rightarrow> nat \<Rightarrow> bool) \<Rightarrow> bool \<Rightarrow> bool \<Rightarrow> lval list" where
  "baseWhile array predicate isDrop fromRight =
     (let len = length array;
          fails = (\<lambda>i. \<not> predicate (array ! i) i);
          index = (if fromRight
                   then (case find fails (rev [0..<len]) of Some i \<Rightarrow> int i | None \<Rightarrow> -1)
                   else (case find fails [0..<len] of Some i \<Rightarrow> int i | None \<Rightarrow> int len))
      in if isDrop
         then baseSlice array (if fromRight then 0 else index) (if fromRight then index + 1 else int len)
         else baseSlice array (if fromRight then index + 1 else 0) (if fromRight then int len else index))"

definition lo_dropWhile :: "lval list \<Rightarrow> (lval \<Rightarrow> nat \<Rightarrow> bool) \<Rightarrow> lval list" where
  "lo_dropWhile array predicate = (if array \<noteq> [] then baseWhile array predicate True False else [])"

definition dropRightWhile :: "lval list \<Rightarrow> (lval \<Rightarrow> nat \<Rightarrow> bool) \<Rightarrow> lval list" where
  "dropRightWhile array predicate = (if array \<noteq> [] then baseWhile array predicate True True else [])"

definition lo_takeWhile :: "lval list \<Rightarrow> (lval \<Rightarrow> nat \<Rightarrow> bool) \<Rightarrow> lval list" where
  "lo_takeWhile array predicate = (if array \<noteq> [] then baseWhile array predicate False False else [])"

definition takeRightWhile :: "lval list \<Rightarrow> (lval \<Rightarrow> nat \<Rightarrow> bool) \<Rightarrow> lval list" where
  "takeRightWhile array predicate = (if array \<noteq> [] then baseWhile array predicate False True else [])"

section \<open>Filling\<close>

definition baseFill :: "lval list \<Rightarrow> lval \<Rightarrow> jsnum option \<Rightarrow> jsnum option \<Rightarrow> lval list" where
  "baseFill array v start stop =
     (let len = int (length array);
          s = toInteger start;
          s1 = (if s < 0 then (if - s > len then 0 else len + s) else s);
          e = (case stop of None \<Rightarrow> len
               | Some n \<Rightarrow> if num_less (num_int len) n then len else toInteger (Some n));
          e1 = (if e < 0 then e + len else e);
          e2 = (if s1 > e1 then 0 else int (toLength (Some (num_int e1))))
      in foldl (\<lambda>a index. a[index := v]) array [nat s1..<nat e2])"

definition fill :: "lval list \<Rightarrow> lval \<Rightarrow> jsnum option \<Rightarrow> jsnum option \<Rightarrow> bool \<Rightarrow> lval list" where
  "fill array v start stop iteratee_call =
     (if array = [] then []
      else if iteratee_call then baseFill array v (Some (Fin 0)) (Some (num_int (int (length array))))
      else baseFill array v start stop)"

section \<open>Searching\<close>

definition lo_indexOf :: "lval list \<Rightarrow> lval \<Rightarrow> jsnum option \<Rightarrow> int" where
  "lo_indexOf array v fromIndex =
     (if array = [] then -1
      else let k = toInteger fromIndex;
               k1 = (if k < 0 then max (int (length array) + k) 0 else k)
           in baseIndexOf array v (nat k1))"

definition lo_lastIndexOf :: "lval list \<Rightarrow> lval \<Rightarrow> jsnum option \<Rightarrow> int" where
  "lo_lastIndexOf array v fromIndex =
     (if array = [] then -1
      else let len = int (length array);
               index = (case fromIndex of
                   None \<Rightarrow> len
                 | Some n \<Rightarrow> (let k = toInteger (Some n)
                     in (if k < 0 then max (len + k) 0 else min k (len - 1)) + 1))
           in if \<not> strict_eq v v then indexOfNaN array (nat index) True
              else (case find (\<lambda>i. strict_eq (array ! i) v) (rev [0..<nat index]) of
                      Some i \<Rightarrow> int i | None \<Rightarrow> -1))"

section \<open>Removing\<close>

text \<open>\<open>basePullAt\<close> on indexes: from the last to the first, equal neighbours once.\<close>

definition pull_index :: "lval list \<times> nat option \<Rightarrow> nat \<Rightarrow> lval list \<times> nat option" where
  "pull_index st index = (case st of (array, previous) \<Rightarrow>
     if previous \<noteq> Some index then (take index array @ drop (Suc index) array, Some index) else st)"

definition basePullAt :: "lval list \<Rightarrow> nat list \<Rightarrow> lval list" where
  "basePullAt array indexes = fst (foldl pull_index (array, None) (rev indexes))"

definition lo_remove :: "lval list \<Rightarrow> (lval \<Rightarrow> nat \<Rightarrow> bool) \<Rightarrow> lval list \<times> lval list" where
  "lo_remove array predicate =
     (if array = [] then ([], array)
      else let (result, indexes) = foldl (\<lambda>(result, indexes) index.
                 if predicate (array ! index) index
                 then (result @ [array ! index], indexes @ [index]) else (result, indexes))
               ([], []) [0..<length array]
           in (result, basePullAt array indexes))"

section \<open>What a slice is\<close>

text \<open>A position relative to the end if negative, brought into the array.\<close>

definition rel :: "'x list \<Rightarrow> int \<Rightarrow> nat" where
  "rel xs i = nat (if i < 0 then max 0 (int (length xs) + i) else min i (int (length xs)))"

definition array_ok :: "'x list \<Rightarrow> bool" where
  "array_ok xs \<longleftrightarrow> length xs \<le> MAX_ARRAY_LENGTH"

lemma to_uint32_small: "0 \<le> i \<Longrightarrow> i \<le> int MAX_ARRAY_LENGTH \<Longrightarrow> to_uint32 i = nat i"
  by (simp add: to_uint32_def MAX_ARRAY_LENGTH_def unsigned_of_int take_bit_int_eq_self)

lemma map_read_at:
  assumes "m + s \<le> length xs"
  shows "map (\<lambda>i. read_at xs (int i + int s)) [0..<m] = take m (drop s xs)"
proof (rule nth_equalityI)
  fix i assume "i < length (map (\<lambda>i. read_at xs (int i + int s)) [0..<m])"
  with assms show "map (\<lambda>i. read_at xs (int i + int s)) [0..<m] ! i = take m (drop s xs) ! i"
    by (simp add: read_at_def add.commute flip: of_nat_add)
qed (use assms in simp)

lemma baseSlice_rel:
  assumes "array_ok xs"
  shows "baseSlice xs s e = take (rel xs e - rel xs s) (drop (rel xs s) xs)"
proof -
  let ?n = "int (length xs)"
  let ?s = "if s < 0 then (if - s > ?n then 0 else ?n + s) else s"
  let ?e = "if (if e > ?n then ?n else e) < 0 then (if e > ?n then ?n else e) + ?n else (if e > ?n then ?n else e)"
  have n: "?n \<le> int MAX_ARRAY_LENGTH" using assms by (simp add: array_ok_def)
  have e: "rel xs e = nat ?e" "?e \<le> ?n" by (auto simp: rel_def)
  show ?thesis
  proof (cases "?s > ?e")
    case True
    have "rel xs e \<le> rel xs s" using True unfolding rel_def by (auto split: if_splits)
    then show ?thesis using True by (simp only: baseSlice_def Let_def if_True) simp
  next
    case False
    have s: "0 \<le> ?s" "?s \<le> ?n" using False e by auto
    have rs: "rel xs s = nat ?s" using s by (auto simp: rel_def split: if_splits)
    have "to_uint32 ?s = nat ?s" using s n by (intro to_uint32_small) linarith+
    moreover have "to_uint32 (?e - ?s) = nat (?e - ?s)" using s e False n by (intro to_uint32_small) linarith+
    moreover have "nat (?e - ?s) = rel xs e - rel xs s" using e rs s by (simp add: nat_diff_distrib)
    moreover have "rel xs e - rel xs s + rel xs s \<le> length xs"
      using e rs s False by (simp add: nat_diff_distrib)
    ultimately show ?thesis
      using False map_read_at [of "rel xs e - rel xs s" "rel xs s" xs] rs
      by (simp only: baseSlice_def Let_def if_False)
  qed
qed

lemma rel_nat [simp]: "rel xs (int k) = min k (length xs)"
  by (simp add: rel_def)

lemma rel_0 [simp]: "rel xs 0 = 0"
  by (simp add: rel_def)

lemma baseSlice_between:
  assumes "array_ok xs"
  shows "baseSlice xs (int i) (int j) = take (j - i) (drop i xs)"
  using assms by (simp add: baseSlice_rel min_def)

lemma baseSlice_prefix:
  assumes "array_ok xs" and "0 \<le> k"
  shows "baseSlice xs 0 k = take (nat k) xs"
  using assms baseSlice_between [of xs 0 "nat k"] by simp

lemma baseSlice_suffix:
  assumes "array_ok xs" and "0 \<le> k"
  shows "baseSlice xs k (int (length xs)) = drop (nat k) xs"
  using assms baseSlice_between [of xs "nat k" "length xs"] by simp

lemmas slices = baseSlice_prefix baseSlice_suffix

lemma take_forms:
  assumes "array_ok xs"
  shows "lo_take xs n g = take (nat (count_arg n g)) xs"
    and "lo_drop xs n g = drop (nat (count_arg n g)) xs"
    and "dropRight xs n g = take (nat (int (length xs) - count_arg n g)) xs"
    and "takeRight xs n g = drop (nat (int (length xs) - count_arg n g)) xs"
  using slices [OF assms]
  by (auto simp: lo_take_def lo_drop_def dropRight_def takeRight_def Let_def)

section \<open>Chunks\<close>

lemma chunk_from_step:
  assumes "array_ok xs" and "0 < n"
  shows "chunk_from xs (int n) (int i) =
    (if i < length xs then take n (drop i xs) # chunk_from xs (int n) (int (i + n)) else [])"
  using baseSlice_between [OF assms(1), of i "i + n"] assms(2)
  by (subst chunk_from.simps) simp

text \<open>The reference: cut off \<open>n\<close> elements until there are none.\<close>

fun chunks_of :: "nat \<Rightarrow> 'x list \<Rightarrow> 'x list list" where
  "chunks_of n [] = []"
| "chunks_of n (x # xs) = (x # take (n - 1) xs) # chunks_of n (drop (n - 1) xs)"

lemma chunk_from_chunks:
  assumes "array_ok xs" and "0 < n"
  shows "chunk_from xs (int n) (int i) = chunks_of n (drop i xs)"
proof (induction "length xs - i" arbitrary: i rule: less_induct)
  case less
  show ?case
  proof (cases "drop i xs")
    case (Cons y ys)
    then have i: "i < length xs" by (metis drop_all leI list.distinct(1))
    have "drop (i + n) xs = drop n (drop i xs)" by (simp add: add.commute)
    with Cons have "drop (i + n) xs = drop (n - 1) ys" using assms(2) by (cases n) simp_all
    moreover have "take n (drop i xs) = y # take (n - 1) ys" using Cons assms(2) by (cases n) simp_all
    ultimately show ?thesis
      using Cons i less [of "i + n"] assms(2) by (simp add: chunk_from_step [OF assms])
  qed (simp add: chunk_from_step [OF assms])
qed

lemma chunks_of_concat: "0 < n \<Longrightarrow> concat (chunks_of n xs) = xs"
  by (induction n xs rule: chunks_of.induct) simp_all

lemma chunks_of_sizes: "0 < n \<Longrightarrow> \<forall>c \<in> set (chunks_of n xs). c \<noteq> [] \<and> length c \<le> n"
  by (induction n xs rule: chunks_of.induct) auto

lemma chunks_of_Nil: "chunks_of n xs = [] \<longleftrightarrow> xs = []"
  by (cases xs) simp_all

lemma chunks_of_full: "0 < n \<Longrightarrow> \<forall>c \<in> set (butlast (chunks_of n xs)). length c = n"
  by (induction n xs rule: chunks_of.induct) (auto simp: chunks_of_Nil)

lemma chunks_of_count:
  "0 < n \<Longrightarrow> length xs \<le> length (chunks_of n xs) * n \<and> length (chunks_of n xs) * n < length xs + n"
proof (induction n xs rule: chunks_of.induct)
  case (2 n x xs)
  then show ?case by (cases "length xs \<le> n - 1") auto
qed simp_all

lemma chunk_chunks:
  assumes "array_ok xs" and "0 < n"
  shows "chunk xs (Some (num_int (int n))) = chunks_of n xs"
  using chunk_from_chunks [OF assms, of 0] assms(2) by (auto simp: chunk_def Let_def)

section \<open>While\<close>

lemma find_upt_takeWhile:
  "(case find (\<lambda>i. \<not> p (xs ! i)) [0..<length xs] of Some i \<Rightarrow> i | None \<Rightarrow> length xs) =
     length (takeWhile p xs)"
proof (cases "find (\<lambda>i. \<not> p (xs ! i)) [0..<length xs]")
  case None
  then have "\<forall>x \<in> set xs. p x" by (auto simp: find_None_iff in_set_conv_nth)
  then show ?thesis using None by (simp add: takeWhile_eq_all_conv [THEN iffD2])
next
  case (Some k)
  then have k: "k < length xs" "\<not> p (xs ! k)" "\<forall>i<k. p (xs ! i)" by (auto simp: find_upt_Some)
  then have "takeWhile p xs = take k xs" by (intro takeWhile_eq_take_P_nth) auto
  then show ?thesis using Some k by simp
qed

lemma find_rev_takeWhile:
  "(case find (\<lambda>i. \<not> p (xs ! i)) (rev [0..<length xs]) of Some i \<Rightarrow> int i | None \<Rightarrow> -1) =
     int (length xs) - 1 - int (length (takeWhile p (rev xs)))"
proof (induction xs rule: rev_induct)
  case (snoc x xs)
  have "find (\<lambda>i. \<not> p ((xs @ [x]) ! i)) (rev [0..<length xs]) =
      find (\<lambda>i. \<not> p (xs ! i)) (rev [0..<length xs])"
    by (rule find_cong) (auto simp: nth_append)
  with snoc show ?case by (simp add: nth_append)
qed simp

lemma while_forms:
  assumes "array_ok xs"
  shows "lo_takeWhile xs (\<lambda>x i. p x) = takeWhile p xs"
    and "lo_dropWhile xs (\<lambda>x i. p x) = dropWhile p xs"
    and "takeRightWhile xs (\<lambda>x i. p x) = rev (takeWhile p (rev xs))"
    and "dropRightWhile xs (\<lambda>x i. p x) = rev (dropWhile p (rev xs))"
proof -
  let ?n = "length (takeWhile p xs)" and ?r = "length (takeWhile p (rev xs))"
  have left: "(case find (\<lambda>i. \<not> p (xs ! i)) [0..<length xs] of Some i \<Rightarrow> int i | None \<Rightarrow> int (length xs)) = int ?n"
    unfolding find_upt_takeWhile [symmetric] by (simp split: option.splits)
  have r: "?r \<le> length xs" using length_takeWhile_le [of p "rev xs"] by simp
  have right: "int (length xs) - 1 - int ?r + 1 = int (length xs - ?r)" using r by simp
  show "lo_takeWhile xs (\<lambda>x i. p x) = takeWhile p xs"
    using slices(1) [OF assms, of "int ?n"] takeWhile_eq_take [of p xs]
    by (simp add: lo_takeWhile_def baseWhile_def Let_def left)
  show "lo_dropWhile xs (\<lambda>x i. p x) = dropWhile p xs"
    using slices(2) [OF assms, of "int ?n"] dropWhile_eq_drop [of p xs]
    by (simp add: lo_dropWhile_def baseWhile_def Let_def left)
  have "takeRightWhile xs (\<lambda>x i. p x) =
      (if xs \<noteq> [] then baseSlice xs (int (length xs - ?r)) (int (length xs)) else [])"
    by (simp only: takeRightWhile_def baseWhile_def Let_def find_rev_takeWhile right if_True if_False)
  then show "takeRightWhile xs (\<lambda>x i. p x) = rev (takeWhile p (rev xs))"
    using slices(2) [OF assms, of "int (length xs - ?r)"] takeWhile_eq_take [of p "rev xs"]
    by (metis nat_int of_nat_0_le_iff rev.simps(1) rev_rev_ident takeWhile.simps(1) take_rev)
  have "dropRightWhile xs (\<lambda>x i. p x) =
      (if xs \<noteq> [] then baseSlice xs 0 (int (length xs - ?r)) else [])"
    by (simp only: dropRightWhile_def baseWhile_def Let_def find_rev_takeWhile right if_True if_False)
  then show "dropRightWhile xs (\<lambda>x i. p x) = rev (dropWhile p (rev xs))"
    using slices(1) [OF assms, of "int (length xs - ?r)"] dropWhile_eq_drop [of p "rev xs"]
    by (metis nat_int of_nat_0_le_iff rev.simps(1) rev_rev_ident dropWhile.simps(1) drop_rev)
qed

section \<open>Fill and search positions\<close>

lemma trunc_less: "num_less (num_int i) (Fin q) \<Longrightarrow> 0 \<le> i \<Longrightarrow> i \<le> trunc q"
  by (auto simp: num_int_def trunc_def le_floor_iff)

lemma trunc_le: "\<not> num_less (num_int i) (Fin q) \<Longrightarrow> 0 \<le> i \<Longrightarrow> trunc q \<le> i"
proof (cases "q < 0")
  case True
  then have nonneg: "0 \<le> \<lfloor>- q\<rfloor>" by simp
  show "trunc q \<le> i" if "0 \<le> i" using that True nonneg by (simp add: trunc_def del: zero_le_floor)
qed (simp add: num_int_def trunc_def floor_le_iff)

lemma fill_stop:
  assumes "array_ok xs"
  shows "rel xs (if num_less (num_int (int (length xs))) n then int (length xs) else toInteger (Some n)) =
      rel xs (toInteger (Some n)) \<and>
    (\<not> num_less (num_int (int (length xs))) n \<longrightarrow> toInteger (Some n) \<le> int (length xs))"
proof -
  have "int (length xs) \<le> MAX_INTEGER"
    using assms by (simp add: array_ok_def MAX_ARRAY_LENGTH_def MAX_INTEGER_def)
  moreover have "int (length xs) \<le> trunc q \<Longrightarrow> rel xs (trunc q) = length xs" for q
    by (simp add: rel_def)
  ultimately show ?thesis
    using trunc_less [of "int (length xs)"] trunc_le [of "int (length xs)"]
    by (cases n) (auto simp: toInteger_def num_int_NaN, auto simp: rel_def num_int_def)
qed

lemma rel_order:
  fixes s e :: int and xs :: "'x list"
  defines "n \<equiv> int (length xs)"
  defines "s1 \<equiv> if s < 0 then (if - s > n then 0 else n + s) else s"
    and "e1 \<equiv> if e < 0 then e + n else e"
  assumes "e \<le> n"
  shows "s1 > e1 \<Longrightarrow> rel xs e \<le> rel xs s"
    and "\<not> s1 > e1 \<Longrightarrow> rel xs s = nat s1 \<and> rel xs e = nat e1 \<and> 0 \<le> s1 \<and> s1 \<le> e1 \<and> e1 \<le> n"
  using assms(4) unfolding s1_def e1_def n_def rel_def by (auto split: if_splits)

lemma foldl_fill: "foldl (\<lambda>a i. a[i := v]) xs [i..<j] = (if i \<le> j \<and> j \<le> length xs
    then take i xs @ replicate (j - i) v @ drop j xs else foldl (\<lambda>a i. a[i := v]) xs [i..<j])"
proof (induction j)
  case (Suc j)
  have "take i xs @ replicate (Suc j - i) v @ drop (Suc j) xs = (take i xs @ replicate (j - i) v @ drop j xs)[j := v]"
    if "i \<le> j" "Suc j \<le> length xs"
  proof -
    have "drop j xs = xs ! j # drop (Suc j) xs" using that by (simp add: Cons_nth_drop_Suc)
    moreover have "replicate (Suc j - i) v = replicate (j - i) v @ [v]"
      using that by (simp add: Suc_diff_le replicate_append_same)
    ultimately show ?thesis using that by (simp add: list_update_append)
  qed
  then show ?case using Suc by (cases "i \<le> j"; cases "Suc j \<le> length xs") (auto simp: le_Suc_eq)
qed simp

lemma baseFill_rel:
  assumes "array_ok xs"
  shows "baseFill xs v start stop =
    (let i = rel xs (toInteger start);
         j = (case stop of None \<Rightarrow> length xs | Some n \<Rightarrow> rel xs (toInteger (Some n)))
     in take i xs @ replicate (j - i) v @ drop (max i j) xs)"
proof -
  let ?n = "int (length xs)"
  let ?e = "case stop of None \<Rightarrow> ?n | Some n \<Rightarrow> if num_less (num_int ?n) n then ?n else toInteger (Some n)"
  let ?e1 = "if ?e < 0 then ?e + ?n else ?e"
  let ?s = "toInteger start"
  let ?s1 = "if ?s < 0 then (if - ?s > ?n then 0 else ?n + ?s) else ?s"
  let ?i = "rel xs ?s" and ?j = "case stop of None \<Rightarrow> length xs | Some n \<Rightarrow> rel xs (toInteger (Some n))"
  have n: "?n \<le> int MAX_ARRAY_LENGTH" using assms by (simp add: array_ok_def)
  have j: "rel xs ?e = ?j" "?e \<le> ?n" using fill_stop [OF assms] by (auto split: option.splits)
  have fill: "baseFill xs v start stop = foldl (\<lambda>a index. a[index := v]) xs
      [nat ?s1..<nat (if ?s1 > ?e1 then 0 else int (toLength (Some (num_int ?e1))))]"
    by (simp only: baseFill_def Let_def)
  show ?thesis
  proof (cases "?s1 > ?e1")
    case True
    then have "?j \<le> ?i" using rel_order(1) [OF j(2), of ?s] j(1) by simp
    then show ?thesis using True by (simp only: fill if_True) (simp add: max_def)
  next
    case False
    note order = rel_order(2) [OF j(2) False]
    have "int (toLength (Some (num_int ?e1))) = ?e1" using order n by (simp only: toLength_clamped toInteger_int) linarith
    then have "baseFill xs v start stop = foldl (\<lambda>a index. a[index := v]) xs [?i..<?j]"
      using False order j(1) by (simp only: fill if_False)
    moreover have "?i \<le> ?j" "?j \<le> length xs" using order j(1) by linarith+
    ultimately show ?thesis using foldl_fill [of v xs ?i ?j] by (simp add: Let_def max_def)
  qed
qed

lemma find_mapped: "find p (map f xs) = map_option f (find (\<lambda>x. p (f x)) xs)"
  by (induction xs) auto

section \<open>Removing positions\<close>

lemma pull_sorted:
  assumes "sorted_wrt (<) is" and "\<forall>i \<in> set is. i < length xs"
  shows "fst (foldl pull_index (xs, None) (rev is)) = map ((!) xs) (filter (\<lambda>i. i \<notin> set is) [0..<length xs]) \<and>
    (\<forall>p. snd (foldl pull_index (xs, None) (rev is)) = Some p \<longrightarrow> p \<in> set is)"
  using assms
proof (induction "is")
  case (Cons i "is")
  let ?kept = "\<lambda>S. map ((!) xs) (filter (\<lambda>i. i \<notin> S) [0..<length xs])"
  obtain a p where st: "foldl pull_index (xs, None) (rev is) = (a, p)" by fastforce
  with Cons have IH: "a = ?kept (set is)" "\<forall>q. p = Some q \<longrightarrow> q \<in> set is" by auto
  have i: "i < length xs" "\<forall>j \<in> set is. i < j" using Cons.prems by auto
  then have new: "p \<noteq> Some i" using IH(2) by auto
  have upt: "[0..<length xs] = [0..<i] @ i # [Suc i..<length xs]"
    using i(1) by (metis less_imp_le_nat upt_add_eq_append upt_conv_Cons zero_le le_add_diff_inverse)
  have low: "filter (\<lambda>j. j \<notin> S) [0..<i] = [0..<i]" if "S \<subseteq> {i..}" for S
    using that by (intro filter_True) auto
  have high: "filter (\<lambda>j. j \<noteq> i \<and> j \<notin> set is) [Suc i..<length xs] = filter (\<lambda>j. j \<notin> set is) [Suc i..<length xs]"
    by (rule filter_cong) auto
  have "set is \<subseteq> {i..}" "i \<notin> set is" using i(2) by force+
  then have "take i a @ drop (Suc i) a = ?kept (set (i # is))"
    using low [of "set is"] low [of "set (i # is)"] high unfolding IH(1) upt by simp
  moreover have "pull_index (a, p) i = (take i a @ drop (Suc i) a, Some i)"
    using new by (simp add: pull_index_def)
  ultimately show ?case using st by simp
qed (simp add: map_nth)

lemma lo_remove_positions:
  "lo_remove xs p = (map ((!) xs) (filter (\<lambda>i. p (xs ! i) i) [0..<length xs]),
     map ((!) xs) (filter (\<lambda>i. \<not> p (xs ! i) i) [0..<length xs]))"
proof -
  let ?hit = "\<lambda>i. p (xs ! i) i"
  let ?step = "\<lambda>(result, indexes) index. if ?hit index
      then (result @ [xs ! index], indexes @ [index]) else (result, indexes)"
  have loop: "foldl ?step (r, js) is = (r @ map ((!) xs) (filter ?hit is), js @ filter ?hit is)" for r js "is"
    by (induction "is" arbitrary: r js) auto
  have "sorted_wrt (<) (filter ?hit [0..<length xs])"
    by (intro sorted_wrt_filter) (simp add: sorted_wrt_upt)
  moreover have "\<forall>i \<in> set (filter ?hit [0..<length xs]). i < length xs" by simp
  ultimately have "basePullAt xs (filter ?hit [0..<length xs]) =
      map ((!) xs) (filter (\<lambda>i. i \<notin> set (filter ?hit [0..<length xs])) [0..<length xs])"
    unfolding basePullAt_def using pull_sorted by blast
  also have "filter (\<lambda>i. i \<notin> set (filter ?hit [0..<length xs])) [0..<length xs] =
      filter (\<lambda>i. \<not> ?hit i) [0..<length xs]"
    by (rule filter_cong) auto
  finally have rest: "basePullAt xs (filter ?hit [0..<length xs]) =
      map ((!) xs) (filter (\<lambda>i. \<not> ?hit i) [0..<length xs])" .
  show ?thesis
  proof (cases "xs = []")
    case False
    then show ?thesis
      unfolding lo_remove_def loop [of "[]" "[]"] append_Nil Let_def prod.case rest by (rule if_not_P)
  qed (simp add: lo_remove_def)
qed

section \<open>Properties\<close>

text \<open>\<open>slice\<close> is the part between two positions, each counted from the end if it is negative
  and brought into the array, whatever numbers they are; its length is bounded by the array's.\<close>
theorem slice_between_positions:
  assumes "array_ok xs"
  shows "lo_slice xs start stop False =
      (let i = (case start of None \<Rightarrow> 0 | Some n \<Rightarrow> rel xs (toInteger (Some n)));
           j = (case stop of None \<Rightarrow> length xs | Some n \<Rightarrow> rel xs (toInteger (Some n)))
       in take (j - i) (drop i xs)) \<and>
    lo_slice xs start stop True = xs \<and>
    length (lo_slice xs start stop False) \<le> length xs"
proof -
  have copy: "lo_slice xs start stop True = xs"
    using baseSlice_prefix [OF assms, of "int (length xs)"] by (simp add: lo_slice_def Let_def)
  have len: "rel xs (int (length xs)) = length xs" by simp
  have "lo_slice xs start stop False =
      (let i = (case start of None \<Rightarrow> 0 | Some n \<Rightarrow> rel xs (toInteger (Some n)));
           j = (case stop of None \<Rightarrow> length xs | Some n \<Rightarrow> rel xs (toInteger (Some n)))
       in take (j - i) (drop i xs))"
    by (cases start; cases stop) (auto simp: lo_slice_def baseSlice_rel [OF assms] Let_def)
  then show ?thesis using copy by (simp add: Let_def)
qed

theorem slice_between_positions_witness:
  "lo_slice [LNull, LBool True, LStr ''a''] (Some (Fin (-2))) (Some PosInf) False = [LBool True, LStr ''a'']"
  using slice_between_positions [of "[LNull, LBool True, LStr ''a'']" "Some (Fin (-2))" "Some PosInf"]
  by (simp add: array_ok_def MAX_ARRAY_LENGTH_def rel_def toInteger_def trunc_def MAX_INTEGER_def)

text \<open>\<open>take\<close> and \<open>drop\<close> with the same argument, whatever it is, split the array, and so do
  \<open>dropRight\<close> and \<open>takeRight\<close>; the right variants are the left ones on the reversed array.\<close>
theorem take_drop_split:
  assumes "array_ok xs"
  shows "lo_take xs n g @ lo_drop xs n g = xs \<and> dropRight xs n g @ takeRight xs n g = xs \<and>
    length (lo_take xs n g) = nat (max 0 (min (count_arg n g) (int (length xs)))) \<and>
    takeRight xs n g = rev (lo_take (rev xs) n g) \<and>
    (xs \<noteq> [] \<longrightarrow> head xs # tail xs = xs \<and> initial xs @ [lo_last xs] = xs)"
proof -
  have rev: "array_ok (rev xs)" using assms by (simp add: array_ok_def)
  have one: "count_arg (Some (Fin 1)) False = 1" by (simp add: count_arg_def toInteger_def trunc_def)
  have "rev (take (nat (count_arg n g)) (rev xs)) = drop (nat (int (length xs) - count_arg n g)) xs"
  proof (cases "0 \<le> count_arg n g")
    case True
    then have "nat (int (length xs) - count_arg n g) = length xs - nat (count_arg n g)" by simp
    then show ?thesis by (simp add: take_rev)
  qed simp
  moreover have "head xs # tail xs = xs \<and> initial xs @ [lo_last xs] = xs" if "xs \<noteq> []"
  proof -
    have "nat (int (length xs) - 1) = length xs - 1" by simp
    then have "tail xs = tl xs" "initial xs = butlast xs"
      by (simp_all add: tail_def initial_def take_forms [OF assms] one drop_Suc butlast_conv_take)
    moreover have "head xs = hd xs" "lo_last xs = last xs"
      using that by (simp_all add: head_def lo_last_def read_at_def hd_conv_nth last_conv_nth nat_diff_distrib
          Suc_le_eq)
    ultimately show ?thesis using that by simp
  qed
  ultimately show ?thesis
    by (simp add: take_forms [OF assms] take_forms [OF rev])
qed

theorem take_drop_split_witness:
  "lo_take [LNull, LBool True, LStr ''a''] (Some (Fin 2)) False @
   lo_drop [LNull, LBool True, LStr ''a''] (Some (Fin 2)) False = [LNull, LBool True, LStr ''a'']"
  using take_drop_split [of "[LNull, LBool True, LStr ''a'']" "Some (Fin 2)" False]
  by (simp add: array_ok_def MAX_ARRAY_LENGTH_def)

text \<open>\<open>chunk\<close> cuts an array into pieces that put together are the array, all of the
  wanted size but the last, which is not empty; it makes exactly as many as the array it
  preallocates has places, and none for a size below one.\<close>
theorem chunk_concat:
  assumes "array_ok xs" and "0 < n"
  shows "concat (chunk xs (Some (num_int (int n)))) = xs \<and>
    (\<forall>c \<in> set (butlast (chunk xs (Some (num_int (int n))))). length c = n) \<and>
    (\<forall>c \<in> set (chunk xs (Some (num_int (int n)))). c \<noteq> [] \<and> length c \<le> n) \<and>
    int (length (chunk xs (Some (num_int (int n))))) = \<lceil>rat_of_nat (length xs) / rat_of_nat n\<rceil> \<and>
    chunk xs (Some (num_int (- int n))) = [] \<and> chunk xs (Some NaN) = []"
proof -
  let ?m = "length (chunks_of n xs)"
  have "length xs \<le> ?m * n" "?m * n < length xs + n" using chunks_of_count [OF assms(2)] by auto
  then have "rat_of_nat (length xs) \<le> rat_of_nat ?m * rat_of_nat n"
    "rat_of_nat ?m * rat_of_nat n < rat_of_nat (length xs) + rat_of_nat n"
    by (simp_all flip: of_nat_mult of_nat_add)
  then have "\<lceil>rat_of_nat (length xs) / rat_of_nat n\<rceil> = int ?m"
    using assms(2) by (intro ceiling_unique) (simp_all add: field_simps)
  moreover have "chunk xs (Some (num_int (- int n))) = []" by (simp add: chunk_def)
  moreover have "chunk xs (Some NaN) = []" by (simp add: chunk_def toInteger_def)
  ultimately show ?thesis
    using chunks_of_concat [OF assms(2), of xs] chunks_of_full [OF assms(2), of xs]
      chunks_of_sizes [OF assms(2), of xs]
    by (simp add: chunk_chunks [OF assms])
qed

theorem chunk_concat_witness:
  "concat (chunk [LNull, LBool True, LStr ''a''] (Some (num_int (int 2)))) = [LNull, LBool True, LStr ''a'']"
  using chunk_concat [of "[LNull, LBool True, LStr ''a'']" 2]
  by (simp add: array_ok_def MAX_ARRAY_LENGTH_def)

text \<open>The four \<open>While\<close> functions are the maximal prefix, or suffix, on which a predicate
  holds, and the rest.\<close>
theorem while_splits:
  assumes "array_ok xs"
  shows "lo_takeWhile xs (\<lambda>x i. p x) = takeWhile p xs \<and> lo_dropWhile xs (\<lambda>x i. p x) = dropWhile p xs \<and>
    takeRightWhile xs (\<lambda>x i. p x) = rev (takeWhile p (rev xs)) \<and>
    dropRightWhile xs (\<lambda>x i. p x) @ takeRightWhile xs (\<lambda>x i. p x) = xs"
proof -
  have "rev (dropWhile p (rev xs)) @ rev (takeWhile p (rev xs)) = xs"
    by (metis rev_append rev_rev_ident takeWhile_dropWhile_id)
  then show ?thesis using while_forms [OF assms, of p] by simp
qed

theorem while_splits_witness:
  "takeRightWhile [LNull, LBool True, LNull] (\<lambda>x i. x = LNull) = [LNull]"
  using while_splits [of "[LNull, LBool True, LNull]" "\<lambda>x. x = LNull"]
  by (simp add: array_ok_def MAX_ARRAY_LENGTH_def)

text \<open>\<open>fill\<close> overwrites exactly the elements between its two positions, which are read as
  \<open>slice\<close> reads them, and never writes outside the array.\<close>
theorem fill_between_positions:
  assumes "array_ok xs" and "xs \<noteq> []"
  shows "fill xs v start stop False =
      (let i = rel xs (toInteger start);
           j = (case stop of None \<Rightarrow> length xs | Some n \<Rightarrow> rel xs (toInteger (Some n)))
       in take i xs @ replicate (j - i) v @ drop (max i j) xs) \<and>
    fill xs v start stop True = replicate (length xs) v"
proof -
  have "toInteger (Some (Fin 0)) = 0" by (simp add: toInteger_def trunc_def)
  moreover have "rel xs (int (length xs)) = length xs" by simp
  ultimately show ?thesis using assms by (simp add: fill_def baseFill_rel [OF assms(1)] Let_def)
qed

theorem fill_between_positions_witness:
  "fill [LNull, LNull, LNull] (LBool True) (Some (Fin (-2))) None False = [LNull, LBool True, LBool True]"
  using fill_between_positions [of "[LNull, LNull, LNull]" "LBool True" "Some (Fin (-2))" None]
  by (simp add: array_ok_def MAX_ARRAY_LENGTH_def rel_def toInteger_def trunc_def numeral_2_eq_2)

text \<open>\<open>remove\<close> returns the elements a predicate holds of and leaves the others in the array,
  both in their order, although it deletes them in place one by one.\<close>
theorem remove_partitions:
  "lo_remove xs (\<lambda>x i. p x) = (filter p xs, filter (\<lambda>x. \<not> p x) xs)"
  using filter_positions [of xs p] filter_positions [of xs "\<lambda>x. \<not> p x"]
  by (simp add: lo_remove_positions)

text \<open>\<open>indexOf\<close> returns the first position, from the given one on, of a value equal to the one
  searched (\<open>NaN\<close> is found too); \<open>lastIndexOf\<close> is \<open>indexOf\<close> in the reversed array.\<close>
theorem indexOf_lastIndexOf:
  "lo_indexOf xs v n =
     (case find (\<lambda>i. xs ! i = v) [rel xs (toInteger n)..<length xs] of Some i \<Rightarrow> int i | None \<Rightarrow> -1) \<and>
   lo_lastIndexOf xs v None =
     (if lo_indexOf (rev xs) v None = -1 then -1
      else int (length xs) - 1 - lo_indexOf (rev xs) v None)"
proof -
  have pos: "lo_indexOf xs v n =
     (case find (\<lambda>i. xs ! i = v) [rel xs (toInteger n)..<length xs] of Some i \<Rightarrow> int i | None \<Rightarrow> -1)" for xs n
  proof (cases "toInteger n > int (length xs)")
    case True
    then have "length xs \<le> nat (toInteger n)" "rel xs (toInteger n) = length xs"
      by (simp_all add: rel_def)
    with True show ?thesis by (simp add: lo_indexOf_def baseIndexOf_iff Let_def)
  qed (auto simp: lo_indexOf_def baseIndexOf_iff Let_def rel_def max_def min_def add.commute)
  have "lo_lastIndexOf xs v None =
      (case find (\<lambda>i. xs ! i = v) (rev [0..<length xs]) of Some i \<Rightarrow> int i | None \<Rightarrow> -1)"
  proof (cases "is_NaN v")
    case True
    then have "(\<lambda>i. is_NaN (xs ! i)) = (\<lambda>i. xs ! i = v)" by (auto simp: is_NaN_def)
    with True show ?thesis by (simp add: lo_lastIndexOf_def indexOfNaN_def)
  next
    case False
    then have "(\<lambda>i. strict_eq (xs ! i) v) = (\<lambda>i. xs ! i = v)" by (auto simp: strict_eq_def is_NaN_def)
    with False show ?thesis by (simp add: lo_lastIndexOf_def)
  qed
  moreover have "find (\<lambda>i. xs ! i = v) (rev [0..<length xs]) =
      map_option (\<lambda>i. length xs - 1 - i) (find (\<lambda>i. rev xs ! i = v) [0..<length xs])"
  proof -
    have "find (\<lambda>i. xs ! i = v) (rev [0..<length xs]) = find (\<lambda>i. xs ! i = v) (map (\<lambda>i. length xs - 1 - i) [0..<length xs])"
      by (rule arg_cong [where f = "find _"], rule nth_equalityI) (auto simp: rev_nth)
    also have "\<dots> = map_option (\<lambda>i. length xs - 1 - i) (find (\<lambda>i. rev xs ! i = v) [0..<length xs])"
      by (simp only: find_mapped) (rule arg_cong [where f = "map_option _"], rule find_cong, auto simp: rev_nth)
    finally show ?thesis .
  qed
  ultimately have last: "lo_lastIndexOf xs v None =
      (case find (\<lambda>i. rev xs ! i = v) [0..<length xs] of
         Some i \<Rightarrow> int (length xs - 1 - i) | None \<Rightarrow> -1)"
    by (simp split: option.splits)
  have "lo_indexOf (rev xs) v None =
      (case find (\<lambda>i. rev xs ! i = v) [0..<length xs] of Some i \<Rightarrow> int i | None \<Rightarrow> -1)"
    using pos [of "rev xs" None] by (simp add: toInteger_def)
  with last have "lo_lastIndexOf xs v None =
      (if lo_indexOf (rev xs) v None = -1 then -1 else int (length xs) - 1 - lo_indexOf (rev xs) v None)"
    by (cases "find (\<lambda>i. rev xs ! i = v) [0..<length xs]") (auto simp: find_upt_Some)
  with pos show ?thesis by blast
qed

end
