(* ===== verification/LodashLazy.thy ===== *)
theory LodashLazy
  imports LodashSlices LodashCache
begin

text \<open>
  Lazy sequences of \<open>lodash-4.2.1.js\<close>. A chain \<open>_(array).filter(f).take(3)\<close> is recorded twice: as
  a view, a list of iteratees and a limit, which \<open>lazyValue\<close> runs in one loop over a large array,
  and as a list of actions, the ordinary functions, which it runs one after the other when the
  array is small or the view is the whole array.

  The arrays are values: \<open>reverse\<close>, which the actions run in place, returns a new list. An iteratee
  is a function of one element; \<open>lodash.prototype\<close> does not build a lazy sequence for others.
\<close>

section \<open>Wrappers\<close>

datatype lazy_type = LAZY_FILTER_FLAG | LAZY_MAP_FLAG | LAZY_WHILE_FLAG

datatype view_type = VDrop | VDropRight | VTake | VTakeRight

type_synonym action = "lval list \<Rightarrow> lval list"

record lazy_state =
  lz_dir :: int
  lz_filtered :: bool
  lz_iteratees :: "((lval \<Rightarrow> lval) \<times> lazy_type) list"
  lz_takeCount :: int
  lz_views :: "(view_type \<times> int) list"
  lz_actions :: "action list"

text \<open>
  What a \<open>LodashWrapper\<close> holds: an array with the actions of the chain so far, or a lazy wrapper
  around such a value. Cloning a wrapper is using its value twice.
\<close>

datatype seq = Base "lval list" "action list" | Lazy seq lazy_state

definition LazyWrapper :: "seq \<Rightarrow> seq" where
  "LazyWrapper v = Lazy v \<lparr>lz_dir = 1, lz_filtered = False, lz_iteratees = [],
     lz_takeCount = int MAX_ARRAY_LENGTH, lz_views = [], lz_actions = []\<rparr>"

text \<open>\<open>lazyReverse\<close>\<close>

fun lazyReverse :: "seq \<Rightarrow> seq" where
  "lazyReverse (Lazy w st) =
     (if lz_filtered st
      then (case LazyWrapper (Lazy w st) of
              Lazy w1 st1 \<Rightarrow> Lazy w1 (st1\<lparr>lz_dir := -1, lz_filtered := True\<rparr>)
            | s \<Rightarrow> s)
      else Lazy w (st\<lparr>lz_dir := lz_dir st * -1\<rparr>))"
| "lazyReverse (Base array actions) = Base array actions"

section \<open>Evaluation\<close>

text \<open>\<open>getView\<close>: the bounds of the part of the array the views leave.\<close>

fun view_step :: "int \<times> int \<Rightarrow> view_type \<times> int \<Rightarrow> int \<times> int" where
  "view_step (start, stop) (VDrop, k) = (start + k, stop)"
| "view_step (start, stop) (VDropRight, k) = (start, stop - k)"
| "view_step (start, stop) (VTake, k) = (start, min stop (start + k))"
| "view_step (start, stop) (VTakeRight, k) = (max start (stop - k), stop)"

definition getView :: "int \<Rightarrow> int \<Rightarrow> (view_type \<times> int) list \<Rightarrow> int \<times> int" where
  "getView start stop transforms = foldl view_step (start, stop) transforms"

text \<open>The iteratees on one value: a result to emit, \<open>continue outer\<close> or \<open>break outer\<close>.\<close>

datatype outcome = Emit lval | Skip | Stop

fun run_iteratees :: "((lval \<Rightarrow> lval) \<times> lazy_type) list \<Rightarrow> lval \<Rightarrow> outcome" where
  "run_iteratees [] v = Emit v"
| "run_iteratees ((iteratee, type) # its) v =
     (let computed = iteratee v
      in if type = LAZY_MAP_FLAG then run_iteratees its computed
         else if \<not> lo_truthy computed then (if type = LAZY_FILTER_FLAG then Skip else Stop)
         else run_iteratees its v)"

fun lazy_loop ::
  "lval list \<Rightarrow> ((lval \<Rightarrow> lval) \<times> lazy_type) list \<Rightarrow> int \<Rightarrow> int \<Rightarrow> nat \<Rightarrow> int \<Rightarrow> lval list \<Rightarrow> lval list" where
  "lazy_loop array its dir takeCount 0 index result = result"
| "lazy_loop array its dir takeCount (Suc len) index result =
     (if int (length result) < takeCount
      then (case run_iteratees its (read_at array (index + dir)) of
              Emit v \<Rightarrow> lazy_loop array its dir takeCount len (index + dir) (result @ [v])
            | Skip \<Rightarrow> lazy_loop array its dir takeCount len (index + dir) result
            | Stop \<Rightarrow> result)
      else result)"

definition baseWrapperValue :: "lval list \<Rightarrow> action list \<Rightarrow> lval list" where
  "baseWrapperValue v actions = foldl (\<lambda>result action. action result) v actions"

text \<open>
  \<open>lazyValue\<close> for an array. A view of negative length makes the limit negative as well, so that
  the loop ends at once, as it does here after no iteration.
\<close>

definition lazyValue :: "lval list \<Rightarrow> lazy_state \<Rightarrow> lval list" where
  "lazyValue array st =
     (let isRight = lz_dir st < 0;
          arrLength = int (length array);
          view = getView 0 arrLength (lz_views st);
          start = fst view; stop = snd view;
          len = stop - start;
          index = (if isRight then stop else start - 1);
          takeCount = min len (lz_takeCount st)
      in if arrLength < int LARGE_ARRAY_SIZE \<or> (arrLength = len \<and> takeCount = len)
         then baseWrapperValue array (lz_actions st)
         else lazy_loop array (lz_iteratees st) (lz_dir st) takeCount (nat len) index [])"

fun seq_value :: "seq \<Rightarrow> lval list" where
  "seq_value (Base array actions) = baseWrapperValue array actions"
| "seq_value (Lazy w st) = lazyValue (seq_value w) st"

section \<open>Operations of a lazy wrapper\<close>

fun push_iteratee :: "(lval \<Rightarrow> lval) \<Rightarrow> lazy_type \<Rightarrow> seq \<Rightarrow> seq" where
  "push_iteratee f type (Lazy w st) = Lazy w (st\<lparr>
     lz_iteratees := lz_iteratees st @ [(f, type)],
     lz_filtered := lz_filtered st \<or> type = LAZY_FILTER_FLAG \<or> type = LAZY_WHILE_FLAG\<rparr>)"
| "push_iteratee f type (Base array actions) = Base array actions"

definition lazy_count :: "jsnum option \<Rightarrow> int" where
  "lazy_count n = (if n = None then 1 else max (toInteger n) 0)"

fun lazy_drop :: "jsnum option \<Rightarrow> seq \<Rightarrow> seq" where
  "lazy_drop n (Lazy w st) =
     (if lz_filtered st then LazyWrapper (Lazy w st)
      else Lazy w (st\<lparr>lz_views := lz_views st @
        [(if lz_dir st < 0 then VDropRight else VDrop, min (lazy_count n) (int MAX_ARRAY_LENGTH))]\<rparr>))"
| "lazy_drop n (Base array actions) = Base array actions"

fun lazy_take :: "jsnum option \<Rightarrow> seq \<Rightarrow> seq" where
  "lazy_take n (Lazy w st) =
     (if lz_filtered st then Lazy w (st\<lparr>lz_takeCount := min (lazy_count n) (lz_takeCount st)\<rparr>)
      else Lazy w (st\<lparr>lz_views := lz_views st @
        [(if lz_dir st < 0 then VTakeRight else VTake, min (lazy_count n) (int MAX_ARRAY_LENGTH))]\<rparr>))"
| "lazy_take n (Base array actions) = Base array actions"

definition lazy_dropRight :: "jsnum option \<Rightarrow> seq \<Rightarrow> seq" where
  "lazy_dropRight n s = lazyReverse (lazy_drop n (lazyReverse s))"

definition lazy_takeRight :: "jsnum option \<Rightarrow> seq \<Rightarrow> seq" where
  "lazy_takeRight n s = lazyReverse (lazy_take n (lazyReverse s))"

fun is_filtered :: "seq \<Rightarrow> bool" where
  "is_filtered (Lazy w st) \<longleftrightarrow> lz_filtered st"
| "is_filtered (Base array actions) \<longleftrightarrow> False"

definition lazy_initial :: "seq \<Rightarrow> seq" where
  "lazy_initial s = (if is_filtered s then LazyWrapper s else lazy_dropRight (Some (Fin 1)) s)"

definition lazy_tail :: "seq \<Rightarrow> seq" where
  "lazy_tail s = (if is_filtered s then LazyWrapper s else lazy_drop (Some (Fin 1)) s)"

definition lazy_compact :: "seq \<Rightarrow> seq" where
  "lazy_compact s = push_iteratee (\<lambda>v. v) LAZY_FILTER_FLAG s"

definition lazy_reject :: "(lval \<Rightarrow> lval) \<Rightarrow> seq \<Rightarrow> seq" where
  "lazy_reject p s = push_iteratee (\<lambda>v. LBool (\<not> lo_truthy (p v))) LAZY_FILTER_FLAG s"

definition lazy_takeRightWhile :: "(lval \<Rightarrow> lval) \<Rightarrow> seq \<Rightarrow> seq" where
  "lazy_takeRightWhile p s = lazyReverse (push_iteratee p LAZY_WHILE_FLAG (lazyReverse s))"

definition lazy_toArray :: "seq \<Rightarrow> seq" where
  "lazy_toArray s = lazy_take (Some (num_int (int MAX_ARRAY_LENGTH))) s"

text \<open>\<open>slice\<close> of a lazy wrapper; \<open>undefined\<close> for the start is zero.\<close>

definition lazy_slice :: "jsnum option \<Rightarrow> jsnum option \<Rightarrow> seq \<Rightarrow> seq" where
  "lazy_slice start stop s =
     (let k = toInteger start
      in if is_filtered s \<and> (k > 0 \<or> (case stop of Some e \<Rightarrow> num_less e (Fin 0) | None \<Rightarrow> False))
         then LazyWrapper s
         else let s1 = (if k < 0 then lazy_takeRight (Some (num_int (- k))) s
                        else if k \<noteq> 0 then lazy_drop (Some (num_int k)) s else s)
              in (case stop of
                    None \<Rightarrow> s1
                  | Some _ \<Rightarrow>
                      (let e = toInteger stop
                       in if e < 0 then lazy_dropRight (Some (num_int (- e))) s1
                          else lazy_take (Some (num_int (e - k))) s1)))"

section \<open>Chains\<close>

text \<open>The methods of a chain, and the functions of \<open>lodash\<close> their actions call.\<close>

datatype lazy_op =
    OFilter "lval \<Rightarrow> lval"
  | OReject "lval \<Rightarrow> lval"
  | OMap "lval \<Rightarrow> lval"
  | OTakeWhile "lval \<Rightarrow> lval"
  | OTakeRightWhile "lval \<Rightarrow> lval"
  | OCompact
  | OTake "jsnum option"
  | OTakeRight "jsnum option"
  | ODrop "jsnum option"
  | ODropRight "jsnum option"
  | OInitial
  | OTail
  | OToArray
  | OSlice "jsnum option" "jsnum option"
  | OReverse

fun pure_result :: "(unit, jserr, 'x list) stm \<Rightarrow> 'x list" where
  "pure_result m = (case m () of (Inr r, s) \<Rightarrow> r | (Inl e, s) \<Rightarrow> [])"

definition lo_filter :: "lval list \<Rightarrow> (lval \<Rightarrow> lval) \<Rightarrow> lval list" where
  "lo_filter array p = pure_result (arrayFilter array (\<lambda>x i. sret (lo_truthy (p x))))"

definition lo_map :: "lval list \<Rightarrow> (lval \<Rightarrow> lval) \<Rightarrow> lval list" where
  "lo_map array f = pure_result (arrayMap array (\<lambda>x i. sret (f x)))"

fun eager :: "lazy_op \<Rightarrow> action" where
  "eager (OFilter p) array = lo_filter array p"
| "eager (OReject p) array = lo_filter array (\<lambda>v. LBool (\<not> lo_truthy (p v)))"
| "eager (OMap f) array = lo_map array f"
| "eager (OTakeWhile p) array = lo_takeWhile array (\<lambda>x i. lo_truthy (p x))"
| "eager (OTakeRightWhile p) array = takeRightWhile array (\<lambda>x i. lo_truthy (p x))"
| "eager OCompact array = compact array"
| "eager (OTake n) array = lo_take array n False"
| "eager (OTakeRight n) array = takeRight array n False"
| "eager (ODrop n) array = lo_drop array n False"
| "eager (ODropRight n) array = dropRight array n False"
| "eager OInitial array = initial array"
| "eager OTail array = tail array"
| "eager OToArray array = array"
| "eager (OSlice start stop) array = lo_slice array start stop False"
| "eager OReverse array = rev array"

declare eager.simps [simp del]

fun lazy_method :: "lazy_op \<Rightarrow> seq \<Rightarrow> seq" where
  "lazy_method (OFilter p) s = push_iteratee p LAZY_FILTER_FLAG s"
| "lazy_method (OReject p) s = lazy_reject p s"
| "lazy_method (OMap f) s = push_iteratee f LAZY_MAP_FLAG s"
| "lazy_method (OTakeWhile p) s = push_iteratee p LAZY_WHILE_FLAG s"
| "lazy_method (OTakeRightWhile p) s = lazy_takeRightWhile p s"
| "lazy_method OCompact s = lazy_compact s"
| "lazy_method (OTake n) s = lazy_take n s"
| "lazy_method (OTakeRight n) s = lazy_takeRight n s"
| "lazy_method (ODrop n) s = lazy_drop n s"
| "lazy_method (ODropRight n) s = lazy_dropRight n s"
| "lazy_method OInitial s = lazy_initial s"
| "lazy_method OTail s = lazy_tail s"
| "lazy_method OToArray s = lazy_toArray s"
| "lazy_method (OSlice start stop) s = lazy_slice start stop s"
| "lazy_method OReverse s = lazyReverse s"

fun push_action :: "action \<Rightarrow> seq \<Rightarrow> seq" where
  "push_action a (Lazy w st) = Lazy w (st\<lparr>lz_actions := lz_actions st @ [a]\<rparr>)"
| "push_action a (Base array actions) = Base array (actions @ [a])"

text \<open>
  A method of \<open>lodash.prototype\<close>: on an array the chain becomes lazy, except for \<open>reverse\<close>, which
  only adds its action there.
\<close>

definition wrapperReverse :: "seq \<Rightarrow> seq" where
  "wrapperReverse s = (case s of
     Lazy w st \<Rightarrow> push_action (eager OReverse) (lazyReverse s)
   | Base array actions \<Rightarrow> push_action (eager OReverse) s)"

definition chain_method :: "lazy_op \<Rightarrow> seq \<Rightarrow> seq" where
  "chain_method op s =
     (case op of
        OReverse \<Rightarrow> wrapperReverse s
      | _ \<Rightarrow> push_action (eager op) (lazy_method op
               (case s of Base array actions \<Rightarrow> LazyWrapper s | Lazy w st \<Rightarrow> s)))"

definition run_chain :: "lval list \<Rightarrow> lazy_op list \<Rightarrow> lval list" where
  "run_chain array ops = seq_value (foldl (\<lambda>s op. chain_method op s) (Base array []) ops)"

section \<open>What a lazy wrapper denotes\<close>

text \<open>A view, a step of the iteratees, and the whole, on lists.\<close>

fun view_den :: "'x list \<Rightarrow> view_type \<times> int \<Rightarrow> 'x list" where
  "view_den ys (VDrop, k) = drop (nat k) ys"
| "view_den ys (VDropRight, k) = take (length ys - nat k) ys"
| "view_den ys (VTake, k) = take (nat k) ys"
| "view_den ys (VTakeRight, k) = drop (length ys - nat k) ys"

fun pipe_step :: "lval list \<Rightarrow> (lval \<Rightarrow> lval) \<times> lazy_type \<Rightarrow> lval list" where
  "pipe_step vs (f, LAZY_FILTER_FLAG) = filter (\<lambda>v. lo_truthy (f v)) vs"
| "pipe_step vs (f, LAZY_MAP_FLAG) = map f vs"
| "pipe_step vs (f, LAZY_WHILE_FLAG) = takeWhile (\<lambda>v. lo_truthy (f v)) vs"

definition pipe :: "((lval \<Rightarrow> lval) \<times> lazy_type) list \<Rightarrow> lval list \<Rightarrow> lval list" where
  "pipe its vs = foldl pipe_step vs its"

definition facing :: "lazy_state \<Rightarrow> lval list \<Rightarrow> lval list" where
  "facing st xs = (let ys = foldl view_den xs (lz_views st) in if lz_dir st < 0 then rev ys else ys)"

definition lazy_den :: "lazy_state \<Rightarrow> lval list \<Rightarrow> lval list" where
  "lazy_den st xs = take (nat (lz_takeCount st)) (pipe (lz_iteratees st) (facing st xs))"

definition wf_state :: "lazy_state \<Rightarrow> bool" where
  "wf_state st \<longleftrightarrow> lz_dir st \<in> {1, -1} \<and> (\<forall>v \<in> set (lz_views st). 0 \<le> snd v)"

text \<open>A part of a list, by its bounds.\<close>

definition part :: "'x list \<Rightarrow> int \<times> int \<Rightarrow> 'x list" where
  "part xs b = take (nat (snd b - fst b)) (drop (nat (fst b)) xs)"

definition inside :: "'x list \<Rightarrow> int \<times> int \<Rightarrow> bool" where
  "inside xs b \<longleftrightarrow> 0 \<le> fst b \<and> snd b \<le> int (length xs)"

lemma length_part: "inside xs b \<Longrightarrow> length (part xs b) = nat (snd b - fst b)"
  by (auto simp: part_def inside_def)

lemma view_step_part:
  assumes "inside xs b" and "0 \<le> snd v"
  shows "part xs (view_step b v) = view_den (part xs b) v \<and> inside xs (view_step b v)"
proof -
  obtain s e t k where b: "b = (s, e)" "v = (t, k)" by (metis surj_pair)
  with assms have s: "0 \<le> s" "e \<le> int (length xs)" "0 \<le> k" by (simp_all add: inside_def)
  have len: "length (part xs (s, e)) = nat (e - s)" using assms(1) b by (simp add: length_part)
  show ?thesis
  proof (cases t)
    case VDrop
    have "nat (e - (s + k)) = nat (e - s) - nat k" "nat (s + k) = nat s + nat k" using s by linarith+
    then show ?thesis using VDrop b s by (auto simp: part_def inside_def drop_take add.commute)
  next
    case VDropRight
    have "nat (e - k - s) = nat (e - s) - nat k" using s by linarith
    then show ?thesis using VDropRight b s len by (auto simp: part_def inside_def min_def)
  next
    case VTake
    have "nat (min e (s + k) - s) = min (nat k) (nat (e - s))" using s by linarith
    then show ?thesis using VTake b s by (auto simp: part_def inside_def)
  next
    case VTakeRight
    show ?thesis
    proof (cases "s \<le> e - k")
      case True
      then have "max s (e - k) = s + int (nat (e - s) - nat k)" "nat (e - s) - (nat (e - s) - nat k) = nat (e - max s (e - k))"
        using s by auto
      moreover have "nat (s + int m) = nat s + m" for m using s by simp
      ultimately show ?thesis using VTakeRight b s len
        by (simp add: part_def inside_def drop_take add.commute)
    next
      case False
      then have "max s (e - k) = s" "nat (e - s) - nat k = 0" using s by linarith+
      then show ?thesis using VTakeRight b s len by (simp add: part_def inside_def)
    qed
  qed
qed

lemma getView_part:
  assumes "\<forall>v \<in> set vs. 0 \<le> snd v" and "inside xs b"
  shows "part xs (foldl view_step b vs) = foldl view_den (part xs b) vs \<and> inside xs (foldl view_step b vs)"
  using assms
proof (induction vs arbitrary: b)
  case (Cons v vs)
  then show ?case using view_step_part [of xs b v] by simp
qed simp

lemma pipe_step_Nil [simp]: "pipe_step [] it = []"
  by (induction "[] :: lval list" it rule: pipe_step.induct) simp_all

lemma pipe_step_length: "length (pipe_step vs it) \<le> length vs"
  by (induction vs it rule: pipe_step.induct) (simp_all add: length_takeWhile_le)

lemma pipe_simps:
  "pipe [] vs = vs" "pipe (it # its) vs = pipe its (pipe_step vs it)"
  by (simp_all add: pipe_def)

lemma pipe_Nil [simp]: "pipe its [] = []"
  by (induction its) (simp_all add: pipe_simps)

lemma pipe_Cons:
  "pipe its (v # vs) = (case run_iteratees its v of Emit w \<Rightarrow> w # pipe its vs | Skip \<Rightarrow> pipe its vs | Stop \<Rightarrow> [])"
proof (induction its arbitrary: v vs)
  case (Cons it its)
  obtain f t where "it = (f, t)" by fastforce
  then show ?case
    using Cons.IH by (cases t) (simp_all add: pipe_simps Let_def split: outcome.split)
qed (simp add: pipe_simps)

lemma pipe_length: "length (pipe its vs) \<le> length vs"
proof (induction its arbitrary: vs)
  case (Cons it its)
  show ?case unfolding pipe_simps using Cons.IH pipe_step_length by (rule order_trans)
qed (simp add: pipe_simps)

lemma pipe_snoc: "pipe (its @ [it]) vs = pipe_step (pipe its vs) it"
  by (simp add: pipe_def)

lemma lazy_loop_pipe:
  assumes "int (length result) \<le> tc"
  shows "lazy_loop xs its dir tc n index result =
    result @ take (nat (tc - int (length result)))
      (pipe its (map (\<lambda>k. read_at xs (index + dir * (int k + 1))) [0..<n]))"
  using assms
proof (induction n arbitrary: index result)
  case (Suc n)
  let ?vals = "\<lambda>index n. map (\<lambda>k. read_at xs (index + dir * (int k + 1))) [0..<n]"
  have vals: "?vals index (Suc n) = read_at xs (index + dir) # ?vals (index + dir) n"
    by (simp add: upt_conv_Cons map_Suc_upt [symmetric] algebra_simps del: upt_Suc)
  show ?case
  proof (cases "int (length result) < tc")
    case True
    then obtain m where m: "nat (tc - int (length result)) = Suc m"
      by (cases "nat (tc - int (length result))") auto
    then have "nat (tc - int (length (result @ [w]))) = m" for w by simp
    then show ?thesis using True m Suc.IH [of result] Suc.IH [of "result @ [_]"]
      by (auto simp only: lazy_loop.simps if_True vals pipe_Cons split: outcome.split) auto
  next
    case False
    then show ?thesis using Suc.prems by simp
  qed
qed simp

text \<open>The values the loop visits, from either end.\<close>

lemma visited:
  assumes "inside xs (s, e)"
  shows "map (\<lambda>k. read_at xs (s - 1 + 1 * (int k + 1))) [0..<nat (e - s)] = part xs (s, e)"
    and "map (\<lambda>k. read_at xs (e + -1 * (int k + 1))) [0..<nat (e - s)] = rev (part xs (s, e))"
proof -
  have se: "0 \<le> s" "e \<le> int (length xs)" using assms by (simp_all add: inside_def)
  have at: "read_at xs (s + int k) = part xs (s, e) ! k" if "k < nat (e - s)" for k
  proof -
    have "s + int k < int (length xs)" using that se by linarith
    moreover have "nat (s + int k) = nat s + k" using se by simp
    ultimately show ?thesis using that se by (simp add: part_def read_at_def)
  qed
  show "map (\<lambda>k. read_at xs (s - 1 + 1 * (int k + 1))) [0..<nat (e - s)] = part xs (s, e)"
    using at by (intro nth_equalityI) (simp_all add: length_part [OF assms])
  show "map (\<lambda>k. read_at xs (e + -1 * (int k + 1))) [0..<nat (e - s)] = rev (part xs (s, e))"
  proof (rule nth_equalityI)
    fix k assume "k < length (map (\<lambda>k. read_at xs (e + -1 * (int k + 1))) [0..<nat (e - s)])"
    then have k: "k < nat (e - s)" by simp
    let ?m = "nat (e - s) - Suc k"
    have idx: "e + -1 * (int k + 1) = s + int ?m" using k by simp
    have "read_at xs (e + -1 * (int k + 1)) = part xs (s, e) ! ?m"
      unfolding idx using k by (intro at) linarith
    then show "map (\<lambda>k. read_at xs (e + -1 * (int k + 1))) [0..<nat (e - s)] ! k = rev (part xs (s, e)) ! k"
      using k by (simp only: nth_map_upt rev_nth length_part [OF assms] fst_conv snd_conv diff_zero plus_nat.add_0)
  qed (simp add: length_part [OF assms])
qed

definition whole :: "lval list \<Rightarrow> lazy_state \<Rightarrow> bool" where
  "whole xs st \<longleftrightarrow> (let view = getView 0 (int (length xs)) (lz_views st)
     in snd view - fst view = int (length xs) \<and> int (length xs) \<le> lz_takeCount st)"

lemma lazyValue_den:
  assumes "wf_state st" and "0 \<le> lz_takeCount st"
  shows "lazyValue xs st = (if length xs < LARGE_ARRAY_SIZE \<or> whole xs st
    then baseWrapperValue xs (lz_actions st) else lazy_den st xs)"
proof -
  let ?n = "int (length xs)" and ?its = "lz_iteratees st" and ?tc = "lz_takeCount st"
  obtain s e where view: "getView 0 ?n (lz_views st) = (s, e)" by fastforce
  have "inside xs (0, ?n)" by (simp add: inside_def)
  with getView_part [of "lz_views st" xs "(0, ?n)"] assms(1)
  have part: "part xs (s, e) = foldl view_den xs (lz_views st)" "inside xs (s, e)"
    unfolding view [symmetric] getView_def by (simp_all add: wf_state_def part_def)
  let ?tc' = "min (e - s) ?tc"
  have eager: "(?n < int LARGE_ARRAY_SIZE \<or> (?n = e - s \<and> ?tc' = e - s)) \<longleftrightarrow>
      length xs < LARGE_ARRAY_SIZE \<or> whole xs st"
    by (auto simp: whole_def view)
  have limit: "take (nat ?tc') (pipe ?its vs) = take (nat ?tc) (pipe ?its vs)" if "length vs = nat (e - s)" for vs
    using pipe_length [of ?its vs] that by (auto simp: min_def)
  have loop: "lazy_loop xs ?its (lz_dir st) ?tc' (nat (e - s)) (if lz_dir st < 0 then e else s - 1) [] =
      take (nat ?tc) (pipe ?its (if lz_dir st < 0 then rev (part xs (s, e)) else part xs (s, e)))"
  proof (cases "0 \<le> ?tc'")
    case True
    then have "lazy_loop xs ?its (lz_dir st) ?tc' (nat (e - s)) (if lz_dir st < 0 then e else s - 1) [] =
        take (nat ?tc') (pipe ?its (if lz_dir st < 0 then rev (part xs (s, e)) else part xs (s, e)))"
      using assms(1) visited [OF part(2)] lazy_loop_pipe [of "[]" ?tc' xs ?its "lz_dir st" "nat (e - s)"]
      by (auto simp: wf_state_def)
    then show ?thesis using limit length_part [OF part(2)] by simp
  next
    case False
    then have "nat (e - s) = 0" using assms(2) by linarith
    then show ?thesis using length_part [OF part(2)] by simp
  qed
  show ?thesis
    unfolding lazyValue_def Let_def view fst_conv snd_conv eager loop
    by (simp add: lazy_den_def facing_def part)
qed

lemma whole_fresh: "lz_views st = [] \<Longrightarrow> lz_takeCount st = int MAX_ARRAY_LENGTH \<Longrightarrow> array_ok xs \<Longrightarrow> whole xs st"
  by (simp add: whole_def getView_def array_ok_def)

section \<open>Which chains are faithful\<close>

text \<open>
  What the lazy side of a wrapper knows of the chain: views and maps only; filters; a limit on
  the results as well; or nothing, after an operation that only left its action behind.
\<close>

datatype mode = Viewing | Filtering | Limited | Behind

fun next_mode :: "mode \<Rightarrow> lazy_op \<Rightarrow> mode option" where
  "next_mode m (OMap f) = Some m"
| "next_mode m (OTakeWhile p) = Some (if m = Viewing then Filtering else m)"
| "next_mode m (OFilter p) = (if m = Limited then None else Some (if m = Viewing then Filtering else m))"
| "next_mode m (OReject p) = (if m = Limited then None else Some (if m = Viewing then Filtering else m))"
| "next_mode m OCompact = (if m = Limited then None else Some (if m = Viewing then Filtering else m))"
| "next_mode m (OTake n) = (case m of Viewing \<Rightarrow> Some Viewing | Behind \<Rightarrow> None | _ \<Rightarrow> Some Limited)"
| "next_mode m OToArray = (case m of Viewing \<Rightarrow> Some Viewing | Behind \<Rightarrow> None | _ \<Rightarrow> Some Limited)"
| "next_mode m (ODrop n) = (case m of Viewing \<Rightarrow> Some Viewing | Behind \<Rightarrow> None | _ \<Rightarrow> Some Behind)"
| "next_mode m OTail = (case m of Viewing \<Rightarrow> Some Viewing | Behind \<Rightarrow> None | _ \<Rightarrow> Some Behind)"
| "next_mode m (ODropRight n) = (case m of Viewing \<Rightarrow> Some Viewing | Behind \<Rightarrow> None | _ \<Rightarrow> Some Behind)"
| "next_mode m OInitial = (case m of Viewing \<Rightarrow> Some Viewing | Behind \<Rightarrow> None | _ \<Rightarrow> Some Behind)"
| "next_mode m (OTakeRight n) = (case m of Viewing \<Rightarrow> Some Viewing | _ \<Rightarrow> None)"
| "next_mode m OReverse = (case m of Viewing \<Rightarrow> Some Viewing | Behind \<Rightarrow> None | _ \<Rightarrow> Some Filtering)"
| "next_mode m (OTakeRightWhile p) = None"
| "next_mode m (OSlice start stop) = None"

fun chain_ok :: "mode \<Rightarrow> lazy_op list \<Rightarrow> bool" where
  "chain_ok m [] \<longleftrightarrow> True"
| "chain_ok m (op # ops) \<longleftrightarrow> (case next_mode m op of Some m' \<Rightarrow> chain_ok m' ops | None \<Rightarrow> False)"

text \<open>The lazy side agrees with the value \<open>r\<close> of the chain so far, on the wrapped array \<open>xs\<close>.\<close>

definition state_inv :: "mode \<Rightarrow> lval list \<Rightarrow> lazy_state \<Rightarrow> lval list \<Rightarrow> bool" where
  "state_inv m xs st r \<longleftrightarrow> wf_state st \<and> 0 \<le> lz_takeCount st \<and> array_ok xs \<and>
     (case m of
        Viewing \<Rightarrow> \<not> lz_filtered st \<and> (\<forall>it \<in> set (lz_iteratees st). snd it = LAZY_MAP_FLAG) \<and>
          lz_takeCount st = int MAX_ARRAY_LENGTH \<and> lazy_den st xs = r
      | Filtering \<Rightarrow> lz_filtered st \<and> lz_takeCount st = int MAX_ARRAY_LENGTH \<and> lazy_den st xs = r
      | Limited \<Rightarrow> lz_filtered st \<and> lazy_den st xs = r
      | Behind \<Rightarrow> lz_views st = [] \<and> lz_takeCount st = int MAX_ARRAY_LENGTH)"

lemma lazyValue_inv:
  assumes "state_inv m xs st r" and "baseWrapperValue xs (lz_actions st) = r"
  shows "lazyValue xs st = r"
  using assms lazyValue_den [of st xs] whole_fresh [of st xs]
  by (cases m) (auto simp: state_inv_def)

lemma view_den_length: "length (view_den ys v) \<le> length ys"
  by (induction ys v rule: view_den.induct) simp_all

lemma facing_length: "length (facing st xs) \<le> length xs"
proof -
  have "length (foldl view_den xs vs) \<le> length xs" for vs
  proof (induction vs rule: rev_induct)
    case (snoc v vs)
    then show ?case using view_den_length order_trans by (simp, blast)
  qed simp
  then show ?thesis by (simp add: facing_def Let_def)
qed

lemma lazy_den_unlimited:
  assumes "lz_takeCount st = int MAX_ARRAY_LENGTH" and "array_ok xs"
  shows "lazy_den st xs = pipe (lz_iteratees st) (facing st xs)"
  using order_trans [OF pipe_length facing_length, of "lz_iteratees st" st xs] assms
  by (simp add: lazy_den_def array_ok_def)

lemma pipe_maps:
  assumes "\<forall>it \<in> set its. snd it = LAZY_MAP_FLAG"
  obtains f where "\<And>vs. pipe its vs = map f vs"
proof -
  have "\<exists>f. \<forall>vs. pipe its vs = map f vs"
    using assms
  proof (induction its)
    case Nil
    show ?case by (intro exI [of _ "\<lambda>v. v"]) (simp add: pipe_simps)
  next
    case (Cons it its)
    then obtain f where "\<forall>vs. pipe its vs = map f vs" by auto
    moreover from Cons.prems obtain g where "it = (g, LAZY_MAP_FLAG)" by (cases it) simp
    ultimately show ?case by (intro exI [of _ "f \<circ> g"]) (simp add: pipe_simps)
  qed
  then show thesis using that by blast
qed

lemma takeWhile_take: "takeWhile p (take n xs) = take n (takeWhile p xs)"
  by (induction xs arbitrary: n) (auto simp: take_Cons split: nat.split)

lemma facing_update [simp]:
  "facing (st\<lparr>lz_iteratees := a\<rparr>) xs = facing st xs" "facing (st\<lparr>lz_filtered := b\<rparr>) xs = facing st xs"
  "facing (st\<lparr>lz_takeCount := n\<rparr>) xs = facing st xs" "facing (st\<lparr>lz_actions := c\<rparr>) xs = facing st xs"
  by (simp_all add: facing_def)

lemma inv_iteratee:
  assumes "state_inv m xs st r" and "t = LAZY_FILTER_FLAG \<Longrightarrow> m \<noteq> Limited"
  shows "state_inv (if m = Viewing \<and> t \<noteq> LAZY_MAP_FLAG then Filtering else m) xs
    (st\<lparr>lz_iteratees := lz_iteratees st @ [(f, t)],
        lz_filtered := lz_filtered st \<or> t = LAZY_FILTER_FLAG \<or> t = LAZY_WHILE_FLAG\<rparr>) (pipe_step r (f, t))"
    (is "state_inv _ xs ?st _")
proof -
  have "lazy_den ?st xs = pipe_step (lazy_den st xs) (f, t)" if "m \<noteq> Behind"
  proof (cases "t = LAZY_FILTER_FLAG")
    case True
    then have "lz_takeCount st = int MAX_ARRAY_LENGTH" "array_ok xs"
      using assms that by (cases m; simp add: state_inv_def)+
    then show ?thesis using lazy_den_unlimited [of st xs] lazy_den_unlimited [of ?st xs]
      by (simp add: pipe_snoc)
  next
    case False
    then show ?thesis
      by (cases t) (simp_all add: lazy_den_def pipe_snoc take_map takeWhile_take)
  qed
  then show ?thesis using assms
    by (cases m; cases t) (auto simp: state_inv_def wf_state_def)
qed

text \<open>Views, taken from the end the wrapper faces.\<close>

lemma inv_view:
  assumes "state_inv Viewing xs st r" and "0 \<le> k"
  shows "state_inv Viewing xs (st\<lparr>lz_views := lz_views st @
      [(if lz_dir st < 0 then VDropRight else VDrop, k)]\<rparr>) (drop (nat k) r)"
    and "state_inv Viewing xs (st\<lparr>lz_views := lz_views st @
      [(if lz_dir st < 0 then VTakeRight else VTake, k)]\<rparr>) (take (nat k) r)"
proof -
  let ?drop = "st\<lparr>lz_views := lz_views st @ [(if lz_dir st < 0 then VDropRight else VDrop, k)]\<rparr>"
  let ?take = "st\<lparr>lz_views := lz_views st @ [(if lz_dir st < 0 then VTakeRight else VTake, k)]\<rparr>"
  have inv: "lz_takeCount st = int MAX_ARRAY_LENGTH" "array_ok xs" "r = lazy_den st xs"
    "\<forall>it \<in> set (lz_iteratees st). snd it = LAZY_MAP_FLAG"
    using assms(1) by (simp_all add: state_inv_def)
  obtain f where f: "\<And>vs. pipe (lz_iteratees st) vs = map f vs" using pipe_maps [OF inv(4)] by blast
  have "facing ?drop xs = drop (nat k) (facing st xs)" "facing ?take xs = take (nat k) (facing st xs)"
    by (simp_all add: facing_def Let_def take_rev drop_rev)
  then have "lazy_den ?drop xs = drop (nat k) r" "lazy_den ?take xs = take (nat k) r"
    using inv f lazy_den_unlimited [of st xs] lazy_den_unlimited [of ?drop xs] lazy_den_unlimited [of ?take xs]
    by (simp_all add: drop_map take_map)
  then show "state_inv Viewing xs ?drop (drop (nat k) r)" "state_inv Viewing xs ?take (take (nat k) r)"
    using assms by (auto simp: state_inv_def wf_state_def)
qed

lemma inv_flip:
  assumes "state_inv Viewing xs st r"
  shows "state_inv Viewing xs (st\<lparr>lz_dir := lz_dir st * -1\<rparr>) (rev r)"
proof -
  let ?st = "st\<lparr>lz_dir := lz_dir st * -1\<rparr>"
  have inv: "lz_takeCount st = int MAX_ARRAY_LENGTH" "array_ok xs" "r = lazy_den st xs" "wf_state st"
    "\<forall>it \<in> set (lz_iteratees st). snd it = LAZY_MAP_FLAG"
    using assms(1) by (simp_all add: state_inv_def)
  obtain f where f: "\<And>vs. pipe (lz_iteratees st) vs = map f vs" using pipe_maps [OF inv(5)] by blast
  have "facing ?st xs = rev (facing st xs)" using inv(4) by (auto simp: facing_def Let_def wf_state_def)
  then have "lazy_den ?st xs = rev r"
    using inv f lazy_den_unlimited [of st xs] lazy_den_unlimited [of ?st xs] by (simp add: rev_map)
  then show ?thesis using assms by (auto simp: state_inv_def wf_state_def)
qed

lemma inv_limit:
  assumes "state_inv m xs st r" and "m = Filtering \<or> m = Limited" and "0 \<le> k"
  shows "state_inv Limited xs (st\<lparr>lz_takeCount := min k (lz_takeCount st)\<rparr>) (take (nat k) r)"
proof -
  have "lazy_den (st\<lparr>lz_takeCount := min k (lz_takeCount st)\<rparr>) xs = take (nat k) (lazy_den st xs)"
    by (simp add: lazy_den_def facing_def min_def nat_mono min.commute)
  with assms show ?thesis by (auto simp: state_inv_def wf_state_def)
qed

definition fresh :: lazy_state where
  "fresh = \<lparr>lz_dir = 1, lz_filtered = False, lz_iteratees = [],
     lz_takeCount = int MAX_ARRAY_LENGTH, lz_views = [], lz_actions = []\<rparr>"

lemma LazyWrapper_fresh: "LazyWrapper v = Lazy v fresh"
  by (simp add: LazyWrapper_def fresh_def)

lemma inv_fresh:
  assumes "array_ok xs"
  shows "state_inv Viewing xs fresh xs" "state_inv Behind xs fresh r"
    "state_inv Filtering xs (fresh\<lparr>lz_dir := -1, lz_filtered := True\<rparr>) (rev xs)"
    "state_inv Behind xs (fresh\<lparr>lz_dir := -1\<rparr>) r"
  using assms
  by (simp_all add: state_inv_def wf_state_def fresh_def lazy_den_def facing_def pipe_simps array_ok_def)

lemma inv_actions [simp]: "state_inv m xs (st\<lparr>lz_actions := a\<rparr>) r \<longleftrightarrow> state_inv m xs st r"
  by (cases m) (simp_all add: state_inv_def wf_state_def lazy_den_def facing_def)

section \<open>A chain computes its actions\<close>

text \<open>What the actions of the faithful operations compute.\<close>

lemma eager_forms:
  assumes "array_ok xs"
  shows "eager (OFilter p) xs = filter (\<lambda>v. lo_truthy (p v)) xs"
    and "eager (OReject p) xs = filter (\<lambda>v. \<not> lo_truthy (p v)) xs"
    and "eager (OMap f) xs = map f xs"
    and "eager (OTakeWhile p) xs = takeWhile (\<lambda>v. lo_truthy (p v)) xs"
    and "eager OCompact xs = filter lo_truthy xs"
    and "eager (OTake n) xs = take (nat (lazy_count n)) xs"
    and "eager (ODrop n) xs = drop (nat (lazy_count n)) xs"
    and "eager (OTakeRight n) xs = rev (take (nat (lazy_count n)) (rev xs))"
    and "eager (ODropRight n) xs = rev (drop (nat (lazy_count n)) (rev xs))"
proof -
  have count: "nat (lazy_count n) = nat (count_arg n False)" by (auto simp: lazy_count_def count_arg_def max_def)
  have "compact xs = filter lo_truthy xs"
  proof -
    have "foldl (\<lambda>r i. if lo_truthy (xs ! i) then r @ [xs ! i] else r) r is =
        r @ map ((!) xs) (filter (\<lambda>i. lo_truthy (xs ! i)) is)" for r "is"
      by (induction "is" arbitrary: r) auto
    then show ?thesis by (simp add: compact_def filter_positions)
  qed
  then show "eager OCompact xs = filter lo_truthy xs" by (simp add: eager.simps)
  have filter: "lo_filter xs q = filter (\<lambda>v. lo_truthy (q v)) xs" for q
    using filter_positions [of xs "\<lambda>v. lo_truthy (q v)"] by (simp add: lo_filter_def arrayFilter_pure)
  then show "eager (OFilter p) xs = filter (\<lambda>v. lo_truthy (p v)) xs" by (simp add: eager.simps)
  have "lo_truthy (LBool b) \<longleftrightarrow> b" for b by (simp add: lo_truthy_def)
  with filter show "eager (OReject p) xs = filter (\<lambda>v. \<not> lo_truthy (p v)) xs" by (simp add: eager.simps)
  show "eager (OMap f) xs = map f xs" by (simp add: eager.simps lo_map_def arrayMap_pure map_positions)
  show "eager (OTakeWhile p) xs = takeWhile (\<lambda>v. lo_truthy (p v)) xs"
    by (simp add: eager.simps while_forms(1) [OF assms])
  show "eager (OTake n) xs = take (nat (lazy_count n)) xs" "eager (ODrop n) xs = drop (nat (lazy_count n)) xs"
    by (simp_all add: eager.simps take_forms [OF assms] count)
  have "nat (int (length xs) - count_arg n False) = length xs - nat (lazy_count n)" if "0 \<le> count_arg n False"
    using that count by simp
  then show "eager (OTakeRight n) xs = rev (take (nat (lazy_count n)) (rev xs))"
    "eager (ODropRight n) xs = rev (drop (nat (lazy_count n)) (rev xs))"
    using count by (cases "0 \<le> count_arg n False"; simp add: eager.simps take_forms [OF assms] take_rev drop_rev)+
qed

lemma eager_aliases:
  "eager OInitial xs = eager (ODropRight (Some (Fin 1))) xs" "eager OTail xs = eager (ODrop (Some (Fin 1))) xs"
  "eager OToArray xs = xs" "eager OReverse xs = rev xs"
  by (simp_all add: eager.simps initial_def tail_def)

text \<open>
  A wrapper in the middle of a method: its actions compute \<open>r\<close>, its lazy side already \<open>q\<close>.
\<close>

definition pre_inv :: "mode \<Rightarrow> seq \<Rightarrow> lval list \<Rightarrow> lval list \<Rightarrow> bool" where
  "pre_inv m s r q \<longleftrightarrow> (case s of
     Base xs actions \<Rightarrow> False
   | Lazy w st \<Rightarrow> baseWrapperValue (seq_value w) (lz_actions st) = r \<and> state_inv m (seq_value w) st q)"

lemma pre_iteratee:
  assumes "pre_inv m s r q" and "t = LAZY_FILTER_FLAG \<Longrightarrow> m \<noteq> Limited"
  shows "pre_inv (if m = Viewing \<and> t \<noteq> LAZY_MAP_FLAG then Filtering else m) (push_iteratee f t s) r
    (pipe_step q (f, t))"
  using assms inv_iteratee [of m _ _ q t f] by (cases s) (auto simp: pre_inv_def)

lemma clamp_count:
  assumes "array_ok q"
  shows "take (nat (min (lazy_count n) (int MAX_ARRAY_LENGTH))) q = take (nat (lazy_count n)) q"
    and "drop (nat (min (lazy_count n) (int MAX_ARRAY_LENGTH))) q = drop (nat (lazy_count n)) q"
  using assms by (auto simp: array_ok_def min_def)

lemma lazy_count_nonneg [simp]: "0 \<le> lazy_count n"
  by (simp add: lazy_count_def)

lemma pre_view:
  assumes "pre_inv Viewing s r q" and "array_ok q"
  shows "pre_inv Viewing (lazy_drop n s) r (drop (nat (lazy_count n)) q)"
    and "pre_inv Viewing (lazy_take n s) r (take (nat (lazy_count n)) q)"
    and "pre_inv Viewing (lazyReverse s) r (rev q)"
proof -
  obtain w st where s: "s = Lazy w st" using assms(1) by (cases s) (simp_all add: pre_inv_def)
  with assms(1) have st: "\<not> lz_filtered st" "state_inv Viewing (seq_value w) st q"
    by (simp_all add: pre_inv_def state_inv_def)
  note views = inv_view [OF st(2), of "min (lazy_count n) (int MAX_ARRAY_LENGTH)", unfolded clamp_count [OF assms(2)]]
  show "pre_inv Viewing (lazy_drop n s) r (drop (nat (lazy_count n)) q)"
    "pre_inv Viewing (lazy_take n s) r (take (nat (lazy_count n)) q)"
    using assms(1) st views by (simp_all add: s pre_inv_def)
  show "pre_inv Viewing (lazyReverse s) r (rev q)"
    using assms(1) st inv_flip [OF st(2)] by (simp add: s pre_inv_def)
qed

lemma pre_limit:
  assumes "pre_inv m s r q" and "m = Filtering \<or> m = Limited"
  shows "pre_inv Limited (lazy_take n s) r (take (nat (lazy_count n)) q)"
proof -
  obtain w st where s: "s = Lazy w st" using assms(1) by (cases s) (simp_all add: pre_inv_def)
  with assms have "lz_filtered st" "state_inv m (seq_value w) st q"
    by (auto simp: pre_inv_def state_inv_def)
  with inv_limit [of m _ st q] assms show ?thesis by (simp add: s pre_inv_def)
qed

lemma pre_value: "pre_inv m s r r \<Longrightarrow> seq_value s = r"
  by (cases s) (auto simp: pre_inv_def intro: lazyValue_inv)

text \<open>A wrapper around a faithful one, as it is or reversed.\<close>

lemma pre_wrap:
  assumes "seq_value s = r" and "array_ok r"
  shows "pre_inv Behind (LazyWrapper s) r q"
  using assms inv_fresh(2) [of r q] by (simp add: pre_inv_def LazyWrapper_fresh fresh_def baseWrapperValue_def)

lemma pre_reverse_filtered:
  assumes "seq_value s = r" and "array_ok r" and "is_filtered s"
  shows "pre_inv Filtering (lazyReverse s) r (rev r)" "pre_inv Behind (lazyReverse s) r q"
    "is_filtered (lazyReverse s)"
  using assms inv_fresh(3) [of r]
  by (cases s; auto simp: pre_inv_def LazyWrapper_fresh fresh_def baseWrapperValue_def state_inv_def wf_state_def)+

lemma pre_behind_value: "pre_inv Behind s r q \<Longrightarrow> seq_value s = r"
  by (rule pre_value [where m = Behind]) (cases s; auto simp: pre_inv_def state_inv_def)

lemma pre_filtered: "pre_inv m s r q \<Longrightarrow> m = Filtering \<or> m = Limited \<Longrightarrow> is_filtered s"
  by (cases s) (auto simp: pre_inv_def state_inv_def)

lemma drop_filtered: "is_filtered s \<Longrightarrow> lazy_drop n s = LazyWrapper s"
  by (cases s) simp_all

lemma pre_dropRight_filtered:
  assumes "seq_value s = r" and "array_ok r" and "is_filtered s"
  shows "pre_inv Behind (lazy_dropRight n s) r q"
proof -
  have "seq_value (lazyReverse s) = r" using pre_reverse_filtered(2) [OF assms] by (rule pre_behind_value)
  then show ?thesis
    using assms(2) pre_reverse_filtered(3) [OF assms] inv_fresh(4) [of r q]
    by (simp add: lazy_dropRight_def drop_filtered LazyWrapper_fresh pre_inv_def fresh_def baseWrapperValue_def)
qed

text \<open>One method of a chain.\<close>

definition chain_inv :: "mode \<Rightarrow> seq \<Rightarrow> lval list \<Rightarrow> bool" where
  "chain_inv m s r \<longleftrightarrow> array_ok r \<and> (case s of
     Base xs actions \<Rightarrow> m = Viewing \<and> baseWrapperValue xs actions = r
   | Lazy w st \<Rightarrow> pre_inv m s r r)"

lemma pre_push:
  assumes "pre_inv m s r (a r)" and "array_ok (a r)"
  shows "chain_inv m (push_action a s) (a r)"
  using assms by (cases s) (auto simp: chain_inv_def pre_inv_def baseWrapperValue_def)

lemma eager_length:
  assumes "array_ok r" and "next_mode m op = Some m'"
  shows "array_ok (eager op r)"
proof -
  have "length (filter p r) \<le> MAX_ARRAY_LENGTH" "length (takeWhile p r) \<le> MAX_ARRAY_LENGTH" for p
    using assms(1) order_trans [OF length_filter_le] order_trans [OF length_takeWhile_le]
    by (simp_all add: array_ok_def)
  then show ?thesis using assms
    by (cases op) (auto simp: eager_aliases eager_forms array_ok_def)
qed

text \<open>By the kind of operation: iteratees, views, and operations on a filtered wrapper.\<close>

lemma method_iteratee:
  assumes "pre_inv m s r r" and "array_ok r" and "next_mode m op = Some m'"
    and "op = OFilter f \<or> op = OReject f \<or> op = OMap f \<or> op = OTakeWhile f \<or> op = OCompact"
  shows "pre_inv m' (lazy_method op s) r (eager op r)"
proof -
  let ?m = "if m = Viewing then Filtering else m"
  have filter: "pre_inv ?m (push_iteratee g LAZY_FILTER_FLAG s) r (filter (\<lambda>v. lo_truthy (g v)) r)"
    if "m \<noteq> Limited" for g
    using pre_iteratee [OF assms(1), of LAZY_FILTER_FLAG g] that by simp
  have others: "pre_inv ?m (push_iteratee g LAZY_WHILE_FLAG s) r (takeWhile (\<lambda>v. lo_truthy (g v)) r)"
    "pre_inv m (push_iteratee g LAZY_MAP_FLAG s) r (map g r)" for g
    using pre_iteratee [OF assms(1), of LAZY_WHILE_FLAG g] pre_iteratee [OF assms(1), of LAZY_MAP_FLAG g]
    by simp_all
  have bool: "lo_truthy (LBool b) \<longleftrightarrow> b" for b by (simp add: lo_truthy_def)
  note filter_not = filter [of "\<lambda>v. LBool (\<not> lo_truthy (f v))", unfolded bool]
  show ?thesis using assms(4)
    by (elim disjE) (use assms(3) filter [of f] filter [of "\<lambda>v. v"] filter_not others [of f] in
      \<open>simp_all add: eager_forms [OF assms(2)] lazy_reject_def lazy_compact_def split: if_split_asm\<close>)
qed

lemma method_view:
  assumes "pre_inv Viewing s r r" and "array_ok r" and "next_mode Viewing op = Some m'"
    and "op \<in> {OTake n, OTakeRight n, ODrop n, ODropRight n, OReverse}"
  shows "pre_inv m' (lazy_method op s) r (eager op r)"
proof -
  let ?k = "nat (lazy_count n)"
  have ok: "array_ok (rev r)" "array_ok (drop ?k (rev r))" "array_ok (take ?k (rev r))"
    using assms(2) by (simp_all add: array_ok_def)
  note rev = pre_view(3) [OF assms(1,2)]
  note right = pre_view(3) [OF pre_view(1) [OF rev ok(1)] ok(2)] pre_view(3) [OF pre_view(2) [OF rev ok(1)] ok(3)]
  from pre_view(1,2) [OF assms(1,2), of n] rev right assms(2-4) show ?thesis
    by (auto simp: eager_forms eager_aliases lazy_dropRight_def lazy_takeRight_def)
qed

lemma method_filtered:
  assumes "pre_inv m s r r" and "array_ok r" and "next_mode m op = Some m'"
    and "m = Filtering \<or> m = Limited" and "op \<in> {OTake n, OToArray, ODrop n, ODropRight n, OInitial, OTail, OReverse}"
  shows "pre_inv m' (lazy_method op s) r (eager op r)"
proof -
  note val = pre_value [OF assms(1)] and filt = pre_filtered [OF assms(1,4)]
  have "nat (lazy_count (Some (num_int (int MAX_ARRAY_LENGTH)))) = MAX_ARRAY_LENGTH"
    by (simp add: lazy_count_def)
  with pre_limit [OF assms(1,4), of "Some (num_int (int MAX_ARRAY_LENGTH))"]
  have all: "pre_inv Limited (lazy_toArray s) r r"
    using assms(2) by (simp add: lazy_toArray_def array_ok_def)
  note drop = pre_wrap [OF val assms(2)] pre_dropRight_filtered [OF val assms(2) filt]
  note rev = pre_reverse_filtered(1) [OF val assms(2) filt]
  from all drop rev pre_limit [OF assms(1,4), of n] filt assms(2-5) show ?thesis
    by (auto simp: eager_forms(6) eager_aliases(3,4) drop_filtered lazy_initial_def lazy_tail_def)
qed

lemma lazy_method_inv:
  assumes "pre_inv m s r r" and "array_ok r" and "next_mode m op = Some m'"
  shows "pre_inv m' (lazy_method op s) r (eager op r)"
proof -
  consider (iteratee) f where "op = OFilter f \<or> op = OReject f \<or> op = OMap f \<or> op = OTakeWhile f \<or> op = OCompact"
    | (right) p where "op = OTakeRightWhile p" | (slice) i j where "op = OSlice i j"
    | (part) n where "op \<in> {OTake n, OTakeRight n, ODrop n, ODropRight n, OReverse, OToArray, OInitial, OTail}"
    by (cases op) auto
  then show ?thesis
  proof cases
    case iteratee
    with assms show ?thesis by (rule method_iteratee)
  next
    case part
    show ?thesis
    proof (cases "m = Viewing")
      case True
      note view = method_view [OF assms(1) [unfolded True] assms(2)]
      have unf: "\<not> is_filtered s" using assms(1) True by (cases s) (auto simp: pre_inv_def state_inv_def)
      have "nat (lazy_count (Some (num_int (int MAX_ARRAY_LENGTH)))) = MAX_ARRAY_LENGTH"
        by (simp add: lazy_count_def)
      with pre_view(2) [OF assms(1) [unfolded True] assms(2), of "Some (num_int (int MAX_ARRAY_LENGTH))"]
      have "pre_inv Viewing (lazy_toArray s) r r" using assms(2) by (simp add: lazy_toArray_def array_ok_def)
      moreover have "lazy_initial s = lazy_method (ODropRight (Some (Fin 1))) s"
        "lazy_tail s = lazy_method (ODrop (Some (Fin 1))) s"
        using unf by (simp_all add: lazy_initial_def lazy_tail_def)
      ultimately show ?thesis
        using part assms(3) True view [of op m' n] view [of "ODropRight (Some (Fin 1))" m' "Some (Fin 1)"]
          view [of "ODrop (Some (Fin 1))" m' "Some (Fin 1)"]
        by (auto simp: eager_aliases)
    next
      case False
      then have "m = Filtering \<or> m = Limited" using part assms(3) by (cases m) auto
      with assms part show ?thesis by (intro method_filtered [of m s r op m' n]) auto
    qed
  qed (use assms(3) in simp_all)
qed

lemma chain_method_inv:
  assumes "chain_inv m s r" and "next_mode m op = Some m'"
  shows "chain_inv m' (chain_method op s) (eager op r)"
proof -
  have r: "array_ok r" and r': "array_ok (eager op r)"
    using assms eager_length by (auto simp: chain_inv_def)
  show ?thesis
  proof (cases s)
    case (Lazy w st)
    with assms(1) have "pre_inv m s r r" by (simp add: chain_inv_def)
    with lazy_method_inv [OF _ r assms(2)] r' have "chain_inv m' (push_action (eager op) (lazy_method op s)) (eager op r)"
      by (intro pre_push)
    then show ?thesis using Lazy by (cases op) (simp_all add: chain_method_def wrapperReverse_def)
  next
    case (Base xs actions)
    with assms(1) have base: "m = Viewing" "seq_value s = r" by (simp_all add: chain_inv_def)
    have "pre_inv Viewing (LazyWrapper s) r r"
      using inv_fresh(1) [OF r] base(2) by (simp add: pre_inv_def LazyWrapper_fresh fresh_def baseWrapperValue_def)
    from lazy_method_inv [OF this r] assms(2) base
    have "chain_inv m' (push_action (eager op) (lazy_method op (LazyWrapper s))) (eager op r)"
      using r' by (intro pre_push) simp_all
    moreover have "chain_inv m' (push_action (eager op) s) (eager op r)" if "op = OReverse"
      using that assms(2) base Base r' by (simp add: chain_inv_def baseWrapperValue_def)
    ultimately show ?thesis using Base by (cases op) (simp_all add: chain_method_def wrapperReverse_def)
  qed
qed

lemma chain_value: "chain_inv m s r \<Longrightarrow> seq_value s = r"
  by (cases s) (auto simp: chain_inv_def dest: pre_value)

text \<open>C9: A lazy chain that \<open>chain_ok\<close> accepts computes what the chained functions compute one after the
  other, for arrays of every size. Before the first filter (\<open>filter\<close>, \<open>reject\<close>, \<open>compact\<close>, \<open>takeWhile\<close>) it
  accepts every function but \<open>slice\<close> and \<open>takeRightWhile\<close>, in any order; after it, \<open>map\<close>, \<open>takeWhile\<close>,
  \<open>take\<close> and \<open>reverse\<close>, further filters unless a \<open>take\<close> came in between (a \<open>reverse\<close> ends that), and a
  \<open>drop\<close>, \<open>dropRight\<close>, \<open>tail\<close> or \<open>initial\<close> when only maps and filters follow. Of other chains some
  differ.\<close>
theorem lazy_chain_is_eager:
  assumes "array_ok xs" and "chain_ok Viewing ops"
  shows "run_chain xs ops = foldl (\<lambda>r op. eager op r) xs ops"
proof -
  have "chain_inv m s r \<Longrightarrow> chain_ok m ops \<Longrightarrow>
      seq_value (foldl (\<lambda>s op. chain_method op s) s ops) = foldl (\<lambda>r op. eager op r) r ops" for m s r
  proof (induction ops arbitrary: m s r)
    case (Cons op ops)
    then obtain m' where m': "next_mode m op = Some m'" "chain_ok m' ops" by (auto split: option.splits)
    from Cons.IH [OF chain_method_inv [OF Cons.prems(1) m'(1)] m'(2)] show ?case by simp
  qed (simp add: chain_value)
  moreover have "chain_inv Viewing (Base xs []) xs"
    using assms(1) by (simp add: chain_inv_def baseWrapperValue_def)
  ultimately show ?thesis using assms(2) by (simp add: run_chain_def)
qed

theorem lazy_chain_is_eager_witness:
  "run_chain (replicate 300 (LBool True)) [ODrop (Some (Fin 1)), OMap (\<lambda>v. LNull), OFilter (\<lambda>v. LBool True), OTake (Some (Fin 2))]
   = [LNull, LNull]"
proof -
  have ok: "array_ok (replicate n v)" if "n \<le> 300" for n and v :: lval
    using that by (simp add: array_ok_def MAX_ARRAY_LENGTH_def)
  have count: "lazy_count (Some (Fin 1)) = 1" "lazy_count (Some (Fin 2)) = 2"
    by (simp_all add: lazy_count_def toInteger_def trunc_def)
  have "lo_truthy (LBool True)" by (simp add: lo_truthy_def)
  with lazy_chain_is_eager [of "replicate 300 (LBool True)"
      "[ODrop (Some (Fin 1)), OMap (\<lambda>v. LNull), OFilter (\<lambda>v. LBool True), OTake (Some (Fin 2))]"]
  show ?thesis by (simp add: ok eager_forms count numeral_2_eq_2)
qed

section \<open>Where the two sides differ\<close>

lemma lazy_count_nat [simp]: "lazy_count (Some (num_int (int n))) = int n"
  by (simp add: lazy_count_def)

text \<open>The wrapper of a filtered array.\<close>

definition filtered_by :: "(lval \<Rightarrow> lval) \<Rightarrow> lval list \<Rightarrow> seq" where
  "filtered_by p xs = chain_method (OFilter p) (Base xs [])"

lemma filtered_by_form:
  "filtered_by p xs = Lazy (Base xs []) (fresh\<lparr>lz_iteratees := [(p, LAZY_FILTER_FLAG)], lz_filtered := True,
     lz_actions := [eager (OFilter p)]\<rparr>)"
  by (simp add: filtered_by_def chain_method_def LazyWrapper_fresh fresh_def)

lemma filtered_by_value:
  assumes "array_ok xs"
  shows "seq_value (filtered_by p xs) = filter (\<lambda>v. lo_truthy (p v)) xs"
proof -
  have "chain_inv Viewing (Base xs []) xs" using assms by (simp add: chain_inv_def baseWrapperValue_def)
  then have "chain_inv Filtering (filtered_by p xs) (eager (OFilter p) xs)"
    unfolding filtered_by_def by (rule chain_method_inv) simp
  from chain_value [OF this] show ?thesis by (simp add: eager_forms [OF assms])
qed

lemma lazyValue_limited:
  assumes "wf_state st" and "LARGE_ARRAY_SIZE \<le> length xs" and "0 \<le> lz_takeCount st" and "\<not> whole xs st"
  shows "lazyValue xs st = lazy_den st xs"
  using assms by (simp add: lazyValue_den)

text \<open>On large arrays three kinds of chains do not compute what their functions do: a \<open>drop\<close>
  after a filter is forgotten when a \<open>take\<close> follows; \<open>takeRight\<close> after a filter returns its
  elements in reverse; and a filter after a limited filter is applied before the limit.\<close>
theorem lazy_chain_differs:
  assumes "array_ok xs" and "LARGE_ARRAY_SIZE \<le> length (filter (\<lambda>v. lo_truthy (p v)) xs)"
    and "n < length (filter (\<lambda>v. lo_truthy (p v)) xs)"
  shows "run_chain xs [OFilter p, ODrop k, OTake (Some (num_int (int n)))] =
      take n (filter (\<lambda>v. lo_truthy (p v)) xs) \<and>
    run_chain xs [OFilter p, OTakeRight (Some (num_int (int n)))] =
      take n (rev (filter (\<lambda>v. lo_truthy (p v)) xs)) \<and>
    run_chain xs [OFilter p, OTake (Some (num_int (int n))), OFilter q] =
      take n (filter (\<lambda>v. lo_truthy (q v)) (filter (\<lambda>v. lo_truthy (p v)) xs))"
proof -
  let ?ys = "filter (\<lambda>v. lo_truthy (p v)) xs" and ?F = "filtered_by p xs"
  have ys: "seq_value ?F = ?ys" by (rule filtered_by_value [OF assms(1)])
  have "length ?ys \<le> length xs" by (rule length_filter_le)
  then have large: "LARGE_ARRAY_SIZE \<le> length xs" "n < length xs" "n \<le> MAX_ARRAY_LENGTH" "array_ok ?ys"
    using assms unfolding array_ok_def by linarith+
  let ?view = "fresh\<lparr>lz_views := [(VTake, int n)], lz_actions := [eager (ODrop k), eager (OTake (Some (num_int (int n))))]\<rparr>"
  have "run_chain xs [OFilter p, ODrop k, OTake (Some (num_int (int n)))] = lazyValue (seq_value ?F) ?view"
    using large(3) by (simp add: run_chain_def filtered_by_def [symmetric])
      (simp add: filtered_by_form chain_method_def LazyWrapper_fresh fresh_def min_def)
  also have "\<dots> = take n ?ys"
    unfolding ys using assms(2,3) large
    by (subst lazyValue_limited) (simp_all add: wf_state_def whole_def getView_def fresh_def
        lazy_den_def facing_def pipe_simps array_ok_def)
  finally have drop: "run_chain xs [OFilter p, ODrop k, OTake (Some (num_int (int n)))] = take n ?ys" .
  let ?last = "fresh\<lparr>lz_dir := -1, lz_filtered := True, lz_takeCount := int n\<rparr>"
  let ?again = "fresh\<lparr>lz_dir := -1, lz_filtered := True,
    lz_actions := [eager (OTakeRight (Some (num_int (int n))))]\<rparr>"
  have inner: "lazyValue ?ys ?last = take n (rev ?ys)"
    using assms(2,3) large
    by (subst lazyValue_limited) (simp_all add: wf_state_def whole_def getView_def fresh_def
        lazy_den_def facing_def pipe_simps array_ok_def)
  have "run_chain xs [OFilter p, OTakeRight (Some (num_int (int n)))] = lazyValue (lazyValue (seq_value ?F) ?last) ?again"
    using large(3) by (simp add: run_chain_def filtered_by_def [symmetric])
      (simp add: filtered_by_form chain_method_def LazyWrapper_fresh fresh_def lazy_takeRight_def)
  also have "\<dots> = lazyValue (take n (rev ?ys)) ?again" by (simp only: ys inner)
  also have "\<dots> = take n (rev ?ys)"
  proof (rule lazyValue_inv)
    show "state_inv Behind (take n (rev ?ys)) ?again (take n (rev ?ys))"
      using large(3) by (simp add: state_inv_def wf_state_def fresh_def array_ok_def)
    show "baseWrapperValue (take n (rev ?ys)) (lz_actions ?again) = take n (rev ?ys)"
      using large(3) assms(3) by (simp add: baseWrapperValue_def eager_forms(8) array_ok_def)
  qed
  finally have right: "run_chain xs [OFilter p, OTakeRight (Some (num_int (int n)))] = take n (rev ?ys)" .
  let ?limited = "fresh\<lparr>lz_iteratees := [(p, LAZY_FILTER_FLAG), (q, LAZY_FILTER_FLAG)], lz_filtered := True,
    lz_takeCount := int n, lz_actions := [eager (OFilter p), eager (OTake (Some (num_int (int n)))), eager (OFilter q)]\<rparr>"
  have "run_chain xs [OFilter p, OTake (Some (num_int (int n))), OFilter q] = lazyValue xs ?limited"
    using large(3) by (simp add: run_chain_def filtered_by_def [symmetric])
      (simp add: filtered_by_form chain_method_def fresh_def baseWrapperValue_def)
  also have "\<dots> = take n (filter (\<lambda>v. lo_truthy (q v)) ?ys)"
    using large
    by (subst lazyValue_limited) (simp_all add: wf_state_def whole_def getView_def fresh_def
        lazy_den_def facing_def pipe_simps)
  finally show ?thesis using drop right by blast
qed

theorem lazy_chain_differs_witness:
  "run_chain (LNull # replicate 250 (LBool True)) [OFilter (\<lambda>v. LBool True), ODrop (Some (Fin 1)), OTake (Some (num_int (int 1)))]
     = [LNull] \<and>
   foldl (\<lambda>r op. eager op r) (LNull # replicate 250 (LBool True))
     [OFilter (\<lambda>v. LBool True), ODrop (Some (Fin 1)), OTake (Some (num_int (int 1)))] = [LBool True]"
proof -
  have ok: "array_ok (replicate n v)" "array_ok (u # replicate n v)" if "n \<le> 300" for n and u v :: lval
    using that by (simp_all add: array_ok_def MAX_ARRAY_LENGTH_def)
  have count: "lazy_count (Some (Fin 1)) = 1" "lazy_count (Some (num_int 1)) = 1"
    using lazy_count_nat [of 1] by (simp_all add: lazy_count_def toInteger_def trunc_def)
  have "lo_truthy (LBool True)" by (simp add: lo_truthy_def)
  with lazy_chain_differs [of "LNull # replicate 250 (LBool True)" "\<lambda>v. LBool True" 1 "Some (Fin 1)" "\<lambda>v. LNull"]
  show ?thesis by (simp add: ok eager_forms count LARGE_ARRAY_SIZE_def del: int_ops)
qed

end
