(* ===== verification/LodashTimers.thy ===== *)
theory LodashTimers
  imports LodashArray
begin

text \<open>
  \<open>debounce\<close> and \<open>throttle\<close> of \<open>lodash-4.2.1.js\<close>: a state machine over the closure variables of a
  debounced function and the timers of the engine. Its events are calls, the two timers going
  off, at their time or later, the passing of time, \<open>cancel\<close> and \<open>flush\<close>. Times and delays are
  whole milliseconds. The wrapped function is a function of its arguments that does not call the
  debounced one; \<open>this\<close> is one of the arguments.
\<close>

section \<open>State\<close>

record config =
  c_func :: "lval list \<Rightarrow> lval"
  c_wait :: int
  c_maxWait :: "int option"
  c_leading :: bool
  c_trailing :: bool

datatype callback = Delayed | MaxDelayed

record timer =
  t_id :: nat
  t_due :: int
  t_callback :: callback

text \<open>The variables of \<open>debounce\<close>; the clock and the timers; the invocations of the function.\<close>

record machine =
  m_args :: "lval list option"
  m_maxTimeoutId :: "nat option"
  m_result :: lval
  m_stamp :: int
  m_timeoutId :: "nat option"
  m_trailingCall :: bool
  m_lastCalled :: int
  m_now :: int
  m_nextId :: nat
  m_timers :: "timer list"
  m_invocations :: "(int \<times> lval list) list"

definition initial_machine :: "int \<Rightarrow> machine" where
  "initial_machine now = \<lparr>m_args = None, m_maxTimeoutId = None, m_result = LUndef, m_stamp = 0,
     m_timeoutId = None, m_trailingCall = False, m_lastCalled = 0, m_now = now, m_nextId = 1,
     m_timers = [], m_invocations = []\<rparr>"

text \<open>
  The first half of \<open>debounce\<close>: its arguments. A function that is none is a \<open>TypeError\<close>; a wait that
  is not a number has become zero.
\<close>

record options =
  o_leading :: "bool option"
  o_maxWait :: "int option"
  o_trailing :: "bool option"

definition debounce ::
  "(lval list \<Rightarrow> lval) option \<Rightarrow> int \<Rightarrow> options option \<Rightarrow> jserr + config" where
  "debounce func wait opts = (case func of
     None \<Rightarrow> Inl TypeErr
   | Some f \<Rightarrow> Inr (case opts of
       None \<Rightarrow> \<lparr>c_func = f, c_wait = wait, c_maxWait = None, c_leading = False, c_trailing = True\<rparr>
     | Some os \<Rightarrow> \<lparr>c_func = f, c_wait = wait,
         c_maxWait = map_option (\<lambda>m. max m wait) (o_maxWait os),
         c_leading = (o_leading os = Some True),
         c_trailing = (case o_trailing os of Some b \<Rightarrow> b | None \<Rightarrow> True)\<rparr>))"

definition throttle ::
  "(lval list \<Rightarrow> lval) option \<Rightarrow> int \<Rightarrow> options option \<Rightarrow> jserr + config" where
  "throttle func wait opts = (case func of
     None \<Rightarrow> Inl TypeErr
   | Some f \<Rightarrow>
       (let leading = (case opts of Some os \<Rightarrow> (case o_leading os of Some b \<Rightarrow> b | None \<Rightarrow> True) | None \<Rightarrow> True);
            trailing = (case opts of Some os \<Rightarrow> (case o_trailing os of Some b \<Rightarrow> b | None \<Rightarrow> True) | None \<Rightarrow> True)
        in debounce func wait
             (Some \<lparr>o_leading = Some leading, o_maxWait = Some wait, o_trailing = Some trailing\<rparr>)))"

section \<open>Timers and invocations\<close>

definition setTimeout :: "callback \<Rightarrow> int \<Rightarrow> machine \<Rightarrow> nat \<times> machine" where
  "setTimeout cb delay s = (m_nextId s, s\<lparr>m_nextId := Suc (m_nextId s),
     m_timers := m_timers s @ [\<lparr>t_id = m_nextId s, t_due = m_now s + max delay 0, t_callback = cb\<rparr>]\<rparr>)"

text \<open>\<open>if (id) clearTimeout(id)\<close>\<close>

definition clearTimeout :: "nat option \<Rightarrow> machine \<Rightarrow> machine" where
  "clearTimeout tm s = (case tm of
     None \<Rightarrow> s | Some i \<Rightarrow> s\<lparr>m_timers := filter (\<lambda>t. t_id t \<noteq> i) (m_timers s)\<rparr>)"

text \<open>\<open>result = func.apply(thisArg, args)\<close>\<close>

definition invoke :: "config \<Rightarrow> machine \<Rightarrow> machine" where
  "invoke c s =
     (let args = (case m_args s of Some a \<Rightarrow> a | None \<Rightarrow> [])
      in s\<lparr>m_result := c_func c args, m_invocations := m_invocations s @ [(m_now s, args)]\<rparr>)"

section \<open>The functions of the closure\<close>

definition cancel :: "machine \<Rightarrow> machine" where
  "cancel s =
     (let s1 = clearTimeout (m_timeoutId s) s;
          s2 = clearTimeout (m_maxTimeoutId s) s1
      in s2\<lparr>m_lastCalled := 0, m_args := None, m_maxTimeoutId := None, m_timeoutId := None,
           m_trailingCall := False\<rparr>)"

definition complete :: "config \<Rightarrow> bool \<Rightarrow> nat option \<Rightarrow> machine \<Rightarrow> machine" where
  "complete c isCalled tm s =
     (let s1 = (clearTimeout tm s)\<lparr>m_maxTimeoutId := None, m_timeoutId := None, m_trailingCall := False\<rparr>
      in if isCalled
         then let s2 = invoke c (s1\<lparr>m_lastCalled := m_now s1\<rparr>)
              in (if m_timeoutId s2 = None \<and> m_maxTimeoutId s2 = None then s2\<lparr>m_args := None\<rparr> else s2)
         else s1)"

definition delayed :: "config \<Rightarrow> machine \<Rightarrow> machine" where
  "delayed c s =
     (let remaining = c_wait c - (m_now s - m_stamp s)
      in if remaining \<le> 0 \<or> remaining > c_wait c
         then complete c (m_trailingCall s) (m_maxTimeoutId s) s
         else let (tm, s1) = setTimeout Delayed remaining s in s1\<lparr>m_timeoutId := Some tm\<rparr>)"

definition flush :: "config \<Rightarrow> machine \<Rightarrow> machine" where
  "flush c s = cancel
     (if m_timeoutId s \<noteq> None \<and> m_trailingCall s \<or> m_maxTimeoutId s \<noteq> None \<and> c_trailing c
      then invoke c s else s)"

definition maxDelayed :: "config \<Rightarrow> machine \<Rightarrow> machine" where
  "maxDelayed c s = complete c (c_trailing c) (m_timeoutId s) s"

text \<open>\<open>debounced\<close>, in four parts: what it notes, the maximal wait, the timer, the leading call.\<close>

definition note_call :: "config \<Rightarrow> lval list \<Rightarrow> machine \<Rightarrow> machine" where
  "note_call c args s = s\<lparr>m_args := Some args, m_stamp := m_now s,
     m_trailingCall := c_trailing c \<and> (m_timeoutId s \<noteq> None \<or> \<not> c_leading c)\<rparr>"

definition check_maxWait :: "config \<Rightarrow> machine \<Rightarrow> bool \<times> machine" where
  "check_maxWait c s = (case c_maxWait c of
     None \<Rightarrow> (False, s)
   | Some maxWait \<Rightarrow>
       (let s1 = (if m_maxTimeoutId s = None \<and> \<not> c_leading c then s\<lparr>m_lastCalled := m_stamp s\<rparr> else s);
            remaining = maxWait - (m_stamp s1 - m_lastCalled s1);
            isCalled = (remaining \<le> 0 \<or> remaining > maxWait)
        in (isCalled,
            if isCalled
            then invoke c ((clearTimeout (m_maxTimeoutId s1) s1)\<lparr>m_maxTimeoutId := None, m_lastCalled := m_stamp s1\<rparr>)
            else if m_maxTimeoutId s1 = None
            then (let (tm, s2) = setTimeout MaxDelayed remaining s1 in s2\<lparr>m_maxTimeoutId := Some tm\<rparr>)
            else s1)))"

definition check_timeout :: "config \<Rightarrow> bool \<Rightarrow> machine \<Rightarrow> machine" where
  "check_timeout c isCalled s =
     (if isCalled \<and> m_timeoutId s \<noteq> None then (clearTimeout (m_timeoutId s) s)\<lparr>m_timeoutId := None\<rparr>
      else if m_timeoutId s = None \<and> Some (c_wait c) \<noteq> c_maxWait c
      then (let (tm, s1) = setTimeout Delayed (c_wait c) s in s1\<lparr>m_timeoutId := Some tm\<rparr>)
      else s)"

definition debounced :: "config \<Rightarrow> lval list \<Rightarrow> machine \<Rightarrow> machine" where
  "debounced c args s =
     (let s1 = note_call c args s;
          leadingCall = (c_maxWait c = None \<and> c_leading c \<and> m_timeoutId s1 = None);
          (isCalled, s2) = check_maxWait c s1;
          s3 = check_timeout c isCalled s2;
          s4 = (if leadingCall then invoke c s3 else s3)
      in if (isCalled \<or> leadingCall) \<and> m_timeoutId s4 = None \<and> m_maxTimeoutId s4 = None
         then s4\<lparr>m_args := None\<rparr> else s4)"

section \<open>Runs\<close>

datatype event = Call "lval list" | Tick int | Fire timer | Cancel | Flush

text \<open>A timer goes off at its time or later, once.\<close>

inductive step :: "config \<Rightarrow> machine \<Rightarrow> event \<Rightarrow> machine \<Rightarrow> bool" for c where
  call: "step c s (Call args) (debounced c args s)"
| tick: "0 \<le> d \<Longrightarrow> step c s (Tick d) (s\<lparr>m_now := m_now s + d\<rparr>)"
| fire_delayed: "t \<in> set (m_timers s) \<Longrightarrow> t_due t \<le> m_now s \<Longrightarrow> t_callback t = Delayed \<Longrightarrow>
    step c s (Fire t) (delayed c (clearTimeout (Some (t_id t)) s))"
| fire_max: "t \<in> set (m_timers s) \<Longrightarrow> t_due t \<le> m_now s \<Longrightarrow> t_callback t = MaxDelayed \<Longrightarrow>
    step c s (Fire t) (maxDelayed c (clearTimeout (Some (t_id t)) s))"
| cancel: "step c s Cancel (cancel s)"
| flush: "step c s Flush (flush c s)"

inductive run :: "config \<Rightarrow> machine \<Rightarrow> event list \<Rightarrow> machine \<Rightarrow> bool" for c s0 where
  start: "run c s0 [] s0"
| step: "run c s0 es s \<Longrightarrow> step c s e s' \<Longrightarrow> run c s0 (es @ [e]) s'"

inductive_cases step_call: "step c s (Call args) s'"
inductive_cases step_fire: "step c s (Fire t) s'"

section \<open>The timers and the variables\<close>

text \<open>
  The timers of each kind are the one the variable names, or none: no timer is forgotten and no
  variable names a timer that has gone off.
\<close>

definition slot :: "callback \<Rightarrow> timer list \<Rightarrow> nat option \<Rightarrow> bool" where
  "slot cb ts tm \<longleftrightarrow> map t_id (filter (\<lambda>t. t_callback t = cb) ts) = (case tm of None \<Rightarrow> [] | Some i \<Rightarrow> [i])"

definition armed :: "timer list \<Rightarrow> nat \<Rightarrow> nat option \<Rightarrow> nat option \<Rightarrow> bool" where
  "armed ts n tid mid \<longleftrightarrow> slot Delayed ts tid \<and> slot MaxDelayed ts mid \<and>
     distinct (map t_id ts) \<and> (\<forall>t \<in> set ts. t_id t < n)"

lemma slot_set: "slot cb (ts @ [\<lparr>t_id = i, t_due = d, t_callback = cb\<rparr>]) (Some i) \<longleftrightarrow> slot cb ts None"
  by (simp add: slot_def)

lemma slot_set_other:
  "cb \<noteq> cb' \<Longrightarrow> slot cb (ts @ [\<lparr>t_id = i, t_due = d, t_callback = cb'\<rparr>]) tm \<longleftrightarrow> slot cb ts tm"
  by (simp add: slot_def)

lemma slot_ids: "slot cb ts (Some i) \<Longrightarrow> \<exists>t \<in> set ts. t_id t = i \<and> t_callback t = cb"
  by (auto simp: slot_def map_eq_Cons_conv filter_eq_Cons_iff)

lemma slot_mem: "slot cb ts tm \<Longrightarrow> t \<in> set ts \<Longrightarrow> t_callback t = cb \<Longrightarrow> tm = Some (t_id t)"
proof -
  assume a: "slot cb ts tm" "t \<in> set ts" "t_callback t = cb"
  then have "t_id t \<in> set (map t_id (filter (\<lambda>t. t_callback t = cb) ts))" by simp
  with a(1) show ?thesis by (cases tm) (simp_all add: slot_def)
qed

lemma slot_clear: "slot cb ts (Some i) \<Longrightarrow> slot cb (filter (\<lambda>t. t_id t \<noteq> i) ts) None"
  using slot_mem [of cb ts "Some i"] by (auto simp: slot_def [of _ _ None] filter_empty_conv)

lemma slot_clear_other:
  assumes "slot cb ts tm" and "slot cb' ts (Some i)" and "cb \<noteq> cb'" and "distinct (map t_id ts)"
  shows "slot cb (filter (\<lambda>t. t_id t \<noteq> i) ts) tm"
proof -
  obtain u where u: "u \<in> set ts" "t_id u = i" "t_callback u = cb'" using slot_ids [OF assms(2)] by blast
  have "t_id t \<noteq> i" if "t \<in> set ts" "t_callback t = cb" for t
    using that u assms(3,4) by (metis distinct_map inj_on_eq_iff)
  then have "filter (\<lambda>t. t_callback t = cb) (filter (\<lambda>t. t_id t \<noteq> i) ts) = filter (\<lambda>t. t_callback t = cb) ts"
    by (auto simp: conj_commute intro!: filter_cong)
  with assms(1) show ?thesis by (simp add: slot_def)
qed

lemma armed_set:
  "armed ts n None mid \<Longrightarrow> armed (ts @ [\<lparr>t_id = n, t_due = d, t_callback = Delayed\<rparr>]) (Suc n) (Some n) mid"
  "armed ts n tid None \<Longrightarrow> armed (ts @ [\<lparr>t_id = n, t_due = d, t_callback = MaxDelayed\<rparr>]) (Suc n) tid (Some n)"
  by (auto simp: armed_def slot_set slot_set_other less_Suc_eq)

lemma armed_clear:
  "armed ts n (Some i) mid \<Longrightarrow> armed (filter (\<lambda>t. t_id t \<noteq> i) ts) n None mid"
  "armed ts n tid (Some j) \<Longrightarrow> armed (filter (\<lambda>t. t_id t \<noteq> j) ts) n tid None"
  by (auto simp: armed_def slot_clear slot_clear_other distinct_map_filter)

lemma armed_none: "armed ts n None None \<Longrightarrow> ts = []"
proof (rule ccontr)
  assume "armed ts n None None" "ts \<noteq> []"
  then show False using slot_mem [of _ ts None "hd ts"] by (cases "t_callback (hd ts)") (auto simp: armed_def)
qed

definition timers_ok :: "machine \<Rightarrow> bool" where
  "timers_ok s \<longleftrightarrow> armed (m_timers s) (m_nextId s) (m_timeoutId s) (m_maxTimeoutId s)"

lemma timer_named:
  assumes "timers_ok s" and "t \<in> set (m_timers s)"
  shows "t_callback t = Delayed \<Longrightarrow> m_timeoutId s = Some (t_id t)"
    and "t_callback t = MaxDelayed \<Longrightarrow> m_maxTimeoutId s = Some (t_id t)"
  using assms slot_mem unfolding timers_ok_def armed_def by blast+

text \<open>What the parts of the machine do to the timers.\<close>

lemma clearTimeout_simps [simp]:
  "m_args (clearTimeout tm s) = m_args s" "m_maxTimeoutId (clearTimeout tm s) = m_maxTimeoutId s"
  "m_result (clearTimeout tm s) = m_result s" "m_stamp (clearTimeout tm s) = m_stamp s"
  "m_timeoutId (clearTimeout tm s) = m_timeoutId s" "m_trailingCall (clearTimeout tm s) = m_trailingCall s"
  "m_lastCalled (clearTimeout tm s) = m_lastCalled s" "m_now (clearTimeout tm s) = m_now s"
  "m_nextId (clearTimeout tm s) = m_nextId s" "m_invocations (clearTimeout tm s) = m_invocations s"
  by (cases tm; simp add: clearTimeout_def)+

lemma invoke_simps [simp]:
  "m_args (invoke c s) = m_args s" "m_maxTimeoutId (invoke c s) = m_maxTimeoutId s"
  "m_stamp (invoke c s) = m_stamp s" "m_timeoutId (invoke c s) = m_timeoutId s"
  "m_trailingCall (invoke c s) = m_trailingCall s" "m_lastCalled (invoke c s) = m_lastCalled s"
  "m_now (invoke c s) = m_now s" "m_nextId (invoke c s) = m_nextId s" "m_timers (invoke c s) = m_timers s"
  by (simp_all add: invoke_def Let_def)

lemma armed_clearTimeout:
  "armed (m_timers s) n tid mid \<Longrightarrow> armed (m_timers (clearTimeout tid s)) n None mid"
  "armed (m_timers s) n tid mid \<Longrightarrow> armed (m_timers (clearTimeout mid s)) n tid None"
  by (cases tid; cases mid; simp add: clearTimeout_def armed_clear)+

lemma timers_cancel: "timers_ok s \<Longrightarrow> timers_ok (cancel s)"
proof -
  assume "timers_ok s"
  then have "armed (m_timers (clearTimeout (m_timeoutId s) s)) (m_nextId s) None (m_maxTimeoutId s)"
    by (simp add: timers_ok_def armed_clearTimeout)
  from armed_clearTimeout(2) [OF this] show ?thesis by (simp add: timers_ok_def cancel_def Let_def)
qed

lemma timers_complete:
  assumes "armed (m_timers (clearTimeout tm s)) (m_nextId s) None None"
  shows "timers_ok (complete c b tm s)"
  using assms by (simp add: timers_ok_def complete_def Let_def)

lemma timers_delayed:
  assumes "armed (m_timers s) (m_nextId s) None (m_maxTimeoutId s)"
  shows "timers_ok (delayed c s)"
  using timers_complete [OF armed_clearTimeout(2) [OF assms]] armed_set(1) [OF assms]
  by (auto simp: delayed_def Let_def timers_ok_def setTimeout_def)

lemma timers_check_maxWait: "timers_ok s \<Longrightarrow> timers_ok (snd (check_maxWait c s))"
  using armed_clearTimeout(2) [of s _ _ "m_maxTimeoutId s"] armed_set(2)
  by (auto simp: timers_ok_def check_maxWait_def Let_def setTimeout_def clearTimeout_def armed_clear
      split: option.splits)

lemma timers_check_timeout: "timers_ok s \<Longrightarrow> timers_ok (check_timeout c b s)"
  using armed_clearTimeout(1) [of s _ "m_timeoutId s"] armed_set(1)
  by (auto simp: timers_ok_def check_timeout_def Let_def setTimeout_def)

lemma timers_debounced: "timers_ok s \<Longrightarrow> timers_ok (debounced c args s)"
proof -
  assume "timers_ok s"
  then have ok: "timers_ok (note_call c args s)" by (simp add: timers_ok_def note_call_def)
  obtain b s2 where called: "check_maxWait c (note_call c args s) = (b, s2)" by fastforce
  then have "timers_ok (check_timeout c b s2)"
    using timers_check_maxWait [OF ok, of c] by (intro timers_check_timeout) simp
  then show ?thesis by (auto simp: debounced_def Let_def called timers_ok_def)
qed

lemma timers_step: "step c s e s' \<Longrightarrow> timers_ok s \<Longrightarrow> timers_ok s'"
proof (induction rule: step.induct)
  case (fire_delayed t s)
  then have "m_timeoutId s = Some (t_id t)" using timer_named(1) by blast
  with fire_delayed armed_clearTimeout(1) [of s _ "m_timeoutId s"] show ?case
    by (intro timers_delayed) (simp add: timers_ok_def)
next
  case (fire_max t s)
  then have mid: "m_maxTimeoutId s = Some (t_id t)" using timer_named(2) by blast
  with fire_max armed_clearTimeout(2) [of s _ _ "m_maxTimeoutId s"]
  have "armed (m_timers (clearTimeout (Some (t_id t)) s)) (m_nextId s) (m_timeoutId s) None"
    by (simp add: timers_ok_def)
  from armed_clearTimeout(1) [OF this] show ?case
    unfolding maxDelayed_def by (intro timers_complete) simp
next
  case (flush s)
  then show ?case unfolding flush_def by (intro timers_cancel) (simp add: timers_ok_def)
qed (simp_all add: timers_debounced timers_cancel, simp add: timers_ok_def)

section \<open>Invocations and arguments\<close>

definition given :: "machine \<Rightarrow> lval list" where
  "given s = (case m_args s of Some a \<Rightarrow> a | None \<Rightarrow> [])"

lemma invoke_invocations [simp]: "m_invocations (invoke c s) = m_invocations s @ [(m_now s, given s)]"
  by (simp add: invoke_def given_def Let_def)

lemma given_update [simp]:
  "given (clearTimeout tm s) = given s" "given (s\<lparr>m_maxTimeoutId := i\<rparr>) = given s"
  "given (s\<lparr>m_timeoutId := i\<rparr>) = given s" "given (s\<lparr>m_trailingCall := b\<rparr>) = given s"
  "given (s\<lparr>m_lastCalled := t\<rparr>) = given s"
  by (simp_all add: given_def)

lemma complete_effects:
  "m_invocations (complete c b tm s) = m_invocations s @ (if b then [(m_now s, given s)] else [])"
  "m_args (complete c b tm s) = (if b then None else m_args s)"
  "m_timeoutId (complete c b tm s) = None" "m_maxTimeoutId (complete c b tm s) = None"
  "m_now (complete c b tm s) = m_now s" "m_stamp (complete c b tm s) = m_stamp s"
  "m_trailingCall (complete c b tm s) = False"
  "m_lastCalled (complete c b tm s) = (if b then m_now s else m_lastCalled s)"
  by (simp_all add: complete_def Let_def)

lemma cancel_effects [simp]:
  "m_invocations (cancel s) = m_invocations s" "m_args (cancel s) = None"
  "m_timeoutId (cancel s) = None" "m_maxTimeoutId (cancel s) = None" "m_now (cancel s) = m_now s"
  "m_stamp (cancel s) = m_stamp s" "m_trailingCall (cancel s) = False"
  by (simp_all add: cancel_def Let_def)

definition quiet :: "config \<Rightarrow> machine \<Rightarrow> bool" where
  "quiet c s \<longleftrightarrow> c_wait c - (m_now s - m_stamp s) \<le> 0 \<or> c_wait c - (m_now s - m_stamp s) > c_wait c"

lemma delayed_quiet: "quiet c s \<Longrightarrow> delayed c s = complete c (m_trailingCall s) (m_maxTimeoutId s) s"
  by (auto simp: delayed_def quiet_def Let_def)

lemma delayed_again:
  "\<not> quiet c s \<Longrightarrow> delayed c s = s\<lparr>m_timeoutId := Some (m_nextId s), m_nextId := Suc (m_nextId s),
     m_timers := m_timers s @ [\<lparr>t_id = m_nextId s,
       t_due = m_now s + max (c_wait c - (m_now s - m_stamp s)) 0, t_callback = Delayed\<rparr>]\<rparr>"
  by (auto simp: delayed_def quiet_def Let_def setTimeout_def)

lemma check_maxWait_effects:
  assumes "check_maxWait c s = (b, s')"
  shows "m_invocations s' = m_invocations s @ (if b then [(m_now s, given s)] else [])"
    "m_args s' = m_args s" "m_now s' = m_now s" "m_stamp s' = m_stamp s" "m_trailingCall s' = m_trailingCall s"
    "m_timeoutId s' = m_timeoutId s"
  using assms
  by (auto simp: check_maxWait_def Let_def setTimeout_def split: option.splits if_splits)

lemma check_timeout_effects [simp]:
  "m_invocations (check_timeout c b s) = m_invocations s" "m_args (check_timeout c b s) = m_args s"
  "m_now (check_timeout c b s) = m_now s" "m_stamp (check_timeout c b s) = m_stamp s"
  "m_trailingCall (check_timeout c b s) = m_trailingCall s" "m_lastCalled (check_timeout c b s) = m_lastCalled s"
  "m_maxTimeoutId (check_timeout c b s) = m_maxTimeoutId s"
  by (simp_all add: check_timeout_def Let_def setTimeout_def)

text \<open>Whether a call invokes the function at once.\<close>

definition calls_now :: "config \<Rightarrow> lval list \<Rightarrow> machine \<Rightarrow> bool" where
  "calls_now c args s \<longleftrightarrow> fst (check_maxWait c (note_call c args s)) \<or>
     c_maxWait c = None \<and> c_leading c \<and> m_timeoutId s = None"

lemma note_call_effects [simp]:
  "m_invocations (note_call c args s) = m_invocations s" "m_args (note_call c args s) = Some args"
  "m_now (note_call c args s) = m_now s" "m_stamp (note_call c args s) = m_now s"
  "m_timeoutId (note_call c args s) = m_timeoutId s" "m_maxTimeoutId (note_call c args s) = m_maxTimeoutId s"
  "m_lastCalled (note_call c args s) = m_lastCalled s"
  "m_timers (note_call c args s) = m_timers s" "m_nextId (note_call c args s) = m_nextId s"
  "given (note_call c args s) = args"
  by (simp_all add: note_call_def given_def)

lemma debounced_effects:
  "m_invocations (debounced c args s) =
     m_invocations s @ (if calls_now c args s then [(m_now s, args)] else [])"
  "m_now (debounced c args s) = m_now s" "m_stamp (debounced c args s) = m_now s"
  "m_trailingCall (debounced c args s) \<longleftrightarrow> c_trailing c \<and> (m_timeoutId s \<noteq> None \<or> \<not> c_leading c)"
  "m_args (debounced c args s) = Some args \<or>
     m_args (debounced c args s) = None \<and> m_timeoutId (debounced c args s) = None \<and>
       m_maxTimeoutId (debounced c args s) = None"
proof -
  obtain b s2 where called: "check_maxWait c (note_call c args s) = (b, s2)" by fastforce
  note effects = check_maxWait_effects [OF called]
  have none: "c_maxWait c = None \<Longrightarrow> \<not> b" using called by (simp add: check_maxWait_def)
  have given: "given (check_timeout c x s2) = args" for x by (simp add: given_def effects)
  let ?lead = "c_maxWait c = None \<and> c_leading c \<and> m_timeoutId s = None"
  let ?s3 = "check_timeout c b s2"
  define s4 where "s4 = (if ?lead then invoke c ?s3 else ?s3)"
  have form: "debounced c args s = (if (b \<or> ?lead) \<and> m_timeoutId s4 = None \<and> m_maxTimeoutId s4 = None
      then s4\<lparr>m_args := None\<rparr> else s4)"
    by (simp only: debounced_def called Let_def prod.case note_call_effects s4_def)
  have now: "calls_now c args s \<longleftrightarrow> b \<or> ?lead" by (simp add: calls_now_def called)
  have s4: "m_invocations s4 = m_invocations s @ (if calls_now c args s then [(m_now s, args)] else [])"
    "m_now s4 = m_now s" "m_stamp s4 = m_now s" "m_args s4 = Some args"
    "m_trailingCall s4 = m_trailingCall (note_call c args s)"
    using none given unfolding s4_def now by (cases "?lead"; simp add: effects)+
  from form have fields: "m_invocations (debounced c args s) = m_invocations s4"
    "m_now (debounced c args s) = m_now s4" "m_stamp (debounced c args s) = m_stamp s4"
    "m_trailingCall (debounced c args s) = m_trailingCall s4"
    by simp_all
  then show "m_invocations (debounced c args s) =
      m_invocations s @ (if calls_now c args s then [(m_now s, args)] else [])"
    "m_now (debounced c args s) = m_now s" "m_stamp (debounced c args s) = m_now s"
    using s4 by simp_all
  show "m_trailingCall (debounced c args s) \<longleftrightarrow> c_trailing c \<and> (m_timeoutId s \<noteq> None \<or> \<not> c_leading c)"
    using fields s4 by (simp add: note_call_def)
  show "m_args (debounced c args s) = Some args \<or>
      m_args (debounced c args s) = None \<and> m_timeoutId (debounced c args s) = None \<and>
        m_maxTimeoutId (debounced c args s) = None"
    unfolding form using s4 by simp
qed

section \<open>Histories\<close>

text \<open>The arguments of the last call, the time since then, and the number of calls.\<close>

fun last_call_from :: "lval list option \<Rightarrow> event list \<Rightarrow> lval list option" where
  "last_call_from r [] = r"
| "last_call_from r (Call a # es) = last_call_from (Some a) es"
| "last_call_from r (e # es) = last_call_from r es"

fun since_call_from :: "int option \<Rightarrow> event list \<Rightarrow> int option" where
  "since_call_from r [] = r"
| "since_call_from r (Call a # es) = since_call_from (Some 0) es"
| "since_call_from r (Tick d # es) = since_call_from (map_option ((+) d) r) es"
| "since_call_from r (e # es) = since_call_from r es"

fun is_call :: "event \<Rightarrow> bool" where
  "is_call (Call a) \<longleftrightarrow> True"
| "is_call e \<longleftrightarrow> False"

definition last_call :: "event list \<Rightarrow> lval list option" where
  "last_call es = last_call_from None es"

definition since_call :: "event list \<Rightarrow> int option" where
  "since_call es = since_call_from None es"

definition calls :: "event list \<Rightarrow> nat" where
  "calls es = length (filter is_call es)"

lemma last_call_from_snoc:
  "last_call_from r (es @ [e]) = (case e of Call a \<Rightarrow> Some a | _ \<Rightarrow> last_call_from r es)"
  by (induction r es rule: last_call_from.induct) (auto split: event.split)

lemma since_call_from_snoc:
  "since_call_from r (es @ [e]) = (case e of Call a \<Rightarrow> Some 0
     | Tick d \<Rightarrow> map_option ((+) d) (since_call_from r es) | _ \<Rightarrow> since_call_from r es)"
  by (induction r es rule: since_call_from.induct) (auto split: event.split)

lemma history_snoc [simp]:
  "last_call (es @ [Call a]) = Some a" "last_call (es @ [Tick d]) = last_call es"
  "last_call (es @ [Fire t]) = last_call es" "last_call (es @ [Cancel]) = last_call es"
  "last_call (es @ [Flush]) = last_call es"
  "since_call (es @ [Call a]) = Some 0" "since_call (es @ [Tick d]) = map_option ((+) d) (since_call es)"
  "since_call (es @ [Fire t]) = since_call es" "since_call (es @ [Cancel]) = since_call es"
  "since_call (es @ [Flush]) = since_call es"
  "calls (es @ [Call a]) = Suc (calls es)" "calls (es @ [Tick d]) = calls es"
  "calls (es @ [Fire t]) = calls es" "calls (es @ [Cancel]) = calls es" "calls (es @ [Flush]) = calls es"
  by (simp_all add: last_call_def since_call_def last_call_from_snoc since_call_from_snoc calls_def)

section \<open>The invariant\<close>

text \<open>
  The timers are the named ones; the arguments kept are those of the last call, and are kept
  while a timer runs; the time of the last call is known; the delayed timer goes off no later
  than the wait after it, and nothing calls the function before there was a call.
\<close>

definition history_inv :: "config \<Rightarrow> event list \<Rightarrow> machine \<Rightarrow> bool" where
  "history_inv c es s \<longleftrightarrow> timers_ok s \<and>
     (\<forall>a. m_args s = Some a \<longrightarrow> last_call es = Some a) \<and>
     (m_timeoutId s \<noteq> None \<or> m_maxTimeoutId s \<noteq> None \<longrightarrow> m_args s \<noteq> None) \<and>
     (last_call es \<noteq> None \<longrightarrow> since_call es = Some (m_now s - m_stamp s) \<and> m_stamp s \<le> m_now s) \<and>
     (\<forall>t \<in> set (m_timers s). t_callback t = Delayed \<longrightarrow> t_due t \<le> m_stamp s + max (c_wait c) 0)"

lemma history_initial: "history_inv c [] (initial_machine now)"
  by (simp add: history_inv_def initial_machine_def timers_ok_def armed_def slot_def last_call_def)

lemma timers_subset:
  "set (m_timers (clearTimeout tm s)) \<subseteq> set (m_timers s)"
  "set (m_timers (cancel s)) \<subseteq> set (m_timers s)"
  "set (m_timers (complete c b tm s)) \<subseteq> set (m_timers s)"
  by (cases tm; cases "m_timeoutId s"; cases "m_maxTimeoutId s";
      auto simp: clearTimeout_def cancel_def complete_def Let_def)+

lemma debounced_due:
  assumes "t \<in> set (m_timers (debounced c args s))" and "t_callback t = Delayed"
    and "\<forall>t \<in> set (m_timers s). t_callback t = Delayed \<longrightarrow> t_due t \<le> m_stamp s + max (c_wait c) 0"
    and "m_stamp s \<le> m_now s"
  shows "t_due t \<le> m_now s + max (c_wait c) 0"
proof -
  obtain b s2 where called: "check_maxWait c (note_call c args s) = (b, s2)" by fastforce
  have s2: "t \<in> set (m_timers s2) \<Longrightarrow> t \<in> set (m_timers s) \<or> t_callback t = MaxDelayed" for t
    using called by (auto simp: check_maxWait_def Let_def setTimeout_def
        split: option.splits if_splits dest!: subsetD [OF timers_subset(1)])
  have "m_timers (debounced c args s) = m_timers (check_timeout c b s2)"
    by (auto simp: debounced_def called Let_def)
  with assms(1) have "t \<in> set (m_timers s2) \<or> t_due t = m_now s + max (c_wait c) 0"
    using check_maxWait_effects(3) [OF called]
    by (auto simp: check_timeout_def Let_def setTimeout_def split: if_splits dest!: subsetD [OF timers_subset(1)])
  with s2 assms(2-4) show ?thesis by force
qed

lemma history_complete:
  assumes "history_inv c es s" and "timers_ok (complete c b tm (clearTimeout tm' s))"
  shows "history_inv c es (complete c b tm (clearTimeout tm' s))"
  using assms timers_subset(3) [of c b tm "clearTimeout tm' s"] timers_subset(1) [of tm' s]
  by (auto simp: history_inv_def complete_effects subset_iff)

lemma fire_complete:
  assumes "quiet c s"
  shows "delayed c (clearTimeout tm s) =
    complete c (m_trailingCall s) (m_maxTimeoutId s) (clearTimeout tm s)"
  using assms delayed_quiet [of c "clearTimeout tm s"] by (simp add: quiet_def)

lemma history_fire: "history_inv c es s \<Longrightarrow> history_inv c (es @ [Fire t]) s"
  by (simp add: history_inv_def)

lemma history_step:
  assumes "step c s e s'" and "history_inv c es s"
  shows "history_inv c (es @ [e]) s'"
proof -
  have ok: "timers_ok s'" using assms timers_step by (auto simp: history_inv_def)
  from assms show ?thesis
  proof cases
    case (call args)
    have first: "last_call es = None \<Longrightarrow> m_timers s = []"
      using assms(2) armed_none by (auto simp: history_inv_def timers_ok_def)
    have "t_due t \<le> m_now s + max (c_wait c) 0" if "t \<in> set (m_timers s')" "t_callback t = Delayed" for t
    proof (cases "last_call es")
      case None
      then show ?thesis
        using debounced_due [of t c args "s\<lparr>m_stamp := m_now s\<rparr>"] that first call
        by (simp add: debounced_def note_call_def)
    next
      case (Some a)
      then show ?thesis using debounced_due [of t c args s] that assms(2) call by (auto simp: history_inv_def)
    qed
    with ok call debounced_effects [of c args s] show ?thesis
      by (auto simp: history_inv_def)
  next
    case (tick d)
    then show ?thesis using assms(2) ok by (auto simp: history_inv_def)
  next
    case (fire_delayed t)
    show ?thesis
    proof (cases "quiet c s")
      case True
      then show ?thesis
        using fire_delayed ok assms(2) by (simp add: fire_complete history_complete history_fire)
    next
      case False
      let ?s1 = "clearTimeout (Some (t_id t)) s"
      have named: "m_timeoutId s = Some (t_id t)"
        using assms(2) fire_delayed timer_named(1) by (simp add: history_inv_def)
      have "\<not> quiet c ?s1" using False by (simp add: quiet_def)
      from delayed_again [OF this] show ?thesis
        using fire_delayed ok assms(2) named False timers_subset(1) [of "Some (t_id t)" s]
        by (auto simp: history_inv_def quiet_def subset_iff)
    qed
  next
    case (fire_max t)
    then show ?thesis
      using ok assms(2) by (simp add: maxDelayed_def history_complete history_fire)
  next
    case cancel
    then show ?thesis using assms(2) ok timers_subset(2) [of s] by (auto simp: history_inv_def)
  next
    case flush
    then show ?thesis
      using assms(2) ok timers_subset(2) [of s] timers_subset(2) [of "invoke c s"]
      by (auto simp: history_inv_def flush_def)
  qed
qed

lemma history_run: "run c (initial_machine now) es s \<Longrightarrow> history_inv c es s"
  by (induction rule: run.induct) (auto intro: history_initial history_step)

section \<open>How many invocations\<close>

text \<open>A timer that would still invoke the function.\<close>

definition can_fire :: "config \<Rightarrow> machine \<Rightarrow> bool" where
  "can_fire c s \<longleftrightarrow> m_timeoutId s \<noteq> None \<and> m_trailingCall s \<or> m_maxTimeoutId s \<noteq> None \<and> c_trailing c"

definition config_ok :: "config \<Rightarrow> bool" where
  "config_ok c \<longleftrightarrow> 0 \<le> c_wait c \<and> (\<forall>m. c_maxWait c = Some m \<longrightarrow> c_wait c \<le> m)"

definition count_inv :: "config \<Rightarrow> event list \<Rightarrow> machine \<Rightarrow> bool" where
  "count_inv c es s \<longleftrightarrow>
     length (m_invocations s) + (if can_fire c s then 1 else 0) \<le> calls es \<and>
     (c_maxWait c \<noteq> Some (c_wait c) \<and> m_maxTimeoutId s \<noteq> None \<longrightarrow> m_timeoutId s \<noteq> None) \<and>
     (c_maxWait c = None \<longrightarrow> m_maxTimeoutId s = None)"

text \<open>What a call leaves armed.\<close>

lemma debounced_timers:
  assumes "config_ok c" and "c_maxWait c = None \<longrightarrow> m_maxTimeoutId s = None"
    and "c_maxWait c \<noteq> Some (c_wait c) \<and> m_maxTimeoutId s \<noteq> None \<longrightarrow> m_timeoutId s \<noteq> None"
  shows "calls_now c args s \<Longrightarrow> \<not> can_fire c (debounced c args s)"
    and "c_maxWait c = None \<longrightarrow> m_maxTimeoutId (debounced c args s) = None"
    and "c_maxWait c \<noteq> Some (c_wait c) \<Longrightarrow> m_maxTimeoutId (debounced c args s) \<noteq> None \<Longrightarrow>
      m_timeoutId (debounced c args s) \<noteq> None"
proof -
  obtain b s2 where called: "check_maxWait c (note_call c args s) = (b, s2)" by fastforce
  note effects = check_maxWait_effects [OF called]
  have ids: "m_timeoutId (debounced c args s) = m_timeoutId (check_timeout c b s2)"
    "m_maxTimeoutId (debounced c args s) = m_maxTimeoutId s2"
    by (auto simp: debounced_def called Let_def)
  have max: "b \<Longrightarrow> m_maxTimeoutId s2 = None" "c_maxWait c = None \<Longrightarrow> \<not> b \<and> m_maxTimeoutId s2 = m_maxTimeoutId s"
    using called by (auto simp: check_maxWait_def Let_def split: option.splits if_splits)
  have timeout: "m_timeoutId (check_timeout c b s2) =
      (if b \<and> m_timeoutId s \<noteq> None then None
       else if m_timeoutId s = None \<and> Some (c_wait c) \<noteq> c_maxWait c then Some (m_nextId s2) else m_timeoutId s)"
    using effects(6) by (auto simp: check_timeout_def Let_def setTimeout_def)
  show "c_maxWait c = None \<longrightarrow> m_maxTimeoutId (debounced c args s) = None"
    using assms(2) max ids by simp
  show "c_maxWait c \<noteq> Some (c_wait c) \<Longrightarrow> m_maxTimeoutId (debounced c args s) \<noteq> None \<Longrightarrow>
      m_timeoutId (debounced c args s) \<noteq> None"
    using max ids timeout by (auto split: if_splits)
  assume now: "calls_now c args s"
  have late: "m_timeoutId s \<noteq> None \<or> Some (c_wait c) = c_maxWait c" if b: "b" and nl: "\<not> c_leading c"
  proof (rule ccontr)
    assume not: "\<not> (m_timeoutId s \<noteq> None \<or> Some (c_wait c) = c_maxWait c)"
    then have none: "m_maxTimeoutId s = None" using assms(3) by auto
    obtain m where m: "c_maxWait c = Some m" "m \<noteq> c_wait c" using max(2) b not by (cases "c_maxWait c") auto
    with assms(1) have "0 < m" by (auto simp: config_ok_def)
    with called b nl m(1) none show False
      by (auto simp: check_maxWait_def Let_def split: if_splits)
  qed
  show "\<not> can_fire c (debounced c args s)"
  proof (cases b)
    case True
    then have "m_maxTimeoutId (debounced c args s) = None" using max ids by simp
    moreover have "m_timeoutId (debounced c args s) = None \<or> \<not> m_trailingCall (debounced c args s)"
      using late True timeout ids by (cases "c_leading c") (auto simp: debounced_effects(4))
    ultimately show ?thesis by (auto simp: can_fire_def)
  next
    case False
    then have "c_maxWait c = None" "c_leading c" "m_timeoutId s = None"
      using now by (simp_all add: calls_now_def called)
    then show ?thesis using assms(2) max ids by (simp add: can_fire_def debounced_effects(4))
  qed
qed

lemma count_step:
  assumes "step c s e s'" and "config_ok c" and "timers_ok s" and "count_inv c es s"
  shows "count_inv c (es @ [e]) s'"
  using assms(1)
proof cases
  case (call args)
  have inv: "length (m_invocations s) \<le> calls es" using assms(4) by (auto simp: count_inv_def)
  show ?thesis
    using debounced_timers [of c s args] debounced_effects(1) [of c args s] assms(2,4) inv call
    by (auto simp: count_inv_def)
next
  case (tick d)
  then show ?thesis using assms(4) by (simp add: count_inv_def can_fire_def)
next
  case (fire_delayed t)
  have named: "m_timeoutId s = Some (t_id t)"
    using assms(3) fire_delayed timer_named(1) by blast
  show ?thesis
  proof (cases "quiet c s")
    case True
    then show ?thesis using fire_delayed assms(4) named
      by (auto simp: fire_complete count_inv_def complete_effects can_fire_def)
  next
    case False
    then have "\<not> quiet c (clearTimeout (Some (t_id t)) s)" by (simp add: quiet_def)
    from delayed_again [OF this] show ?thesis using fire_delayed assms(4) named
      by (auto simp: count_inv_def can_fire_def)
  qed
next
  case (fire_max t)
  have "m_maxTimeoutId s = Some (t_id t)"
    using assms(3) fire_max timer_named(2) by blast
  then show ?thesis using fire_max assms(4)
    by (auto simp: maxDelayed_def count_inv_def complete_effects can_fire_def)
next
  case cancel
  then show ?thesis using assms(4) by (auto simp: count_inv_def can_fire_def)
next
  case flush
  then show ?thesis using assms(4) by (auto simp: count_inv_def can_fire_def flush_def)
qed

lemma count_run: "run c (initial_machine now) es s \<Longrightarrow> config_ok c \<Longrightarrow> count_inv c es s"
proof (induction rule: run.induct)
  case start
  show ?case by (simp add: count_inv_def initial_machine_def calls_def can_fire_def)
next
  case (step es s e s')
  then have "timers_ok s" using history_run by (simp add: history_inv_def)
  with step count_step show ?case by blast
qed

section \<open>How far apart\<close>

definition apart :: "int \<Rightarrow> int list \<Rightarrow> bool" where
  "apart w ts \<longleftrightarrow> sorted_wrt (\<lambda>a b. a + w \<le> b) ts"

definition no_reset :: "event list \<Rightarrow> bool" where
  "no_reset es \<longleftrightarrow> (\<forall>e \<in> set es. e \<noteq> Cancel \<and> e \<noteq> Flush)"

definition spacing_inv :: "int \<Rightarrow> machine \<Rightarrow> bool" where
  "spacing_inv w s \<longleftrightarrow> apart w (map fst (m_invocations s)) \<and>
     (\<forall>t \<in> set (map fst (m_invocations s)). t \<le> m_lastCalled s) \<and> m_lastCalled s \<le> m_now s \<and>
     m_timeoutId s = None \<and> (\<forall>t \<in> set (m_timers s). m_lastCalled s + w \<le> t_due t)"

lemma apart_snoc: "apart w (ts @ [t]) \<longleftrightarrow> apart w ts \<and> (\<forall>a \<in> set ts. a + w \<le> t)"
  by (auto simp: apart_def sorted_wrt_append)

lemma spacing_times:
  "spacing_inv w s \<Longrightarrow> (a, r) \<in> set (m_invocations s) \<Longrightarrow> a \<le> m_lastCalled s \<and> m_lastCalled s \<le> m_now s"
  by (force simp: spacing_inv_def)

lemma throttle_call:
  assumes "c_maxWait c = Some w" and "c_wait c = w" and "0 \<le> w" and "timers_ok s" and "spacing_inv w s"
  shows "spacing_inv w (debounced c args s)"
proof -
  obtain b s2 where called: "check_maxWait c (note_call c args s) = (b, s2)" by fastforce
  have tid: "m_timeoutId s = None" using assms(5) by (simp add: spacing_inv_def)
  have timers: "m_maxTimeoutId s = None \<Longrightarrow> m_timers s = []"
    using assms(4) tid armed_none by (simp add: timers_ok_def)
  have "spacing_inv w s2"
  proof (cases "m_maxTimeoutId s = None \<and> \<not> c_leading c")
    case True
    with timers have "m_timers s = []" by simp
    moreover have "a \<le> m_now s" if "(a, r) \<in> set (m_invocations s)" for a r
      using spacing_times [OF assms(5) that] by simp
    ultimately show ?thesis using called True assms
      by (auto simp: check_maxWait_def Let_def setTimeout_def spacing_inv_def apart_snoc clearTimeout_def
          split: if_splits)
  next
    case False
    have sub: "t \<in> set (m_timers (clearTimeout tm (note_call c args s))) \<Longrightarrow> t \<in> set (m_timers s)" for t tm
      using timers_subset(1) [of tm "note_call c args s"] by auto
    have none: "m_timers (clearTimeout (m_maxTimeoutId s) s') = []" if "m_timers s' = m_timers s" for s'
      using armed_clearTimeout(2) [of s "m_nextId s" "m_timeoutId s" "m_maxTimeoutId s"] assms(4) tid that armed_none
      by (cases "m_maxTimeoutId s") (auto simp: timers_ok_def clearTimeout_def)
    have "a \<le> m_lastCalled s" "a \<le> m_now s" "w \<le> m_now s - m_lastCalled s \<Longrightarrow> a + w \<le> m_now s"
      if "(a, r) \<in> set (m_invocations s)" for a r
      using spacing_times [OF assms(5) that] by simp_all
    then show ?thesis using called False assms none [of "note_call c args s"]
      by (auto simp: check_maxWait_def Let_def setTimeout_def spacing_inv_def apart_snoc split: if_splits)
  qed
  moreover have "m_timeoutId s2 = None" using check_maxWait_effects(6) [OF called] tid by simp
  moreover have "check_timeout c b s2 = s2" using assms(1,2) \<open>m_timeoutId s2 = None\<close> by (simp add: check_timeout_def)
  ultimately show ?thesis using assms(1) by (auto simp: debounced_def called Let_def spacing_inv_def)
qed

lemma throttle_step:
  assumes "step c s e s'" and "c_maxWait c = Some w" and "c_wait c = w" and "0 \<le> w"
    and "timers_ok s" and "spacing_inv w s" and "e \<noteq> Cancel" and "e \<noteq> Flush"
  shows "spacing_inv w s'"
  using assms(1)
proof cases
  case (call args)
  then show ?thesis using throttle_call assms by simp
next
  case (fire_delayed t)
  then have "m_timeoutId s = Some (t_id t)" using assms(5) timer_named(1) by blast
  then show ?thesis using assms(6) by (simp add: spacing_inv_def)
next
  case (fire_max t)
  let ?s1 = "clearTimeout (Some (t_id t)) s"
  have "m_timeoutId s = None" "m_lastCalled s + w \<le> t_due t" using assms(6) fire_max by (auto simp: spacing_inv_def)
  moreover have "m_timers (complete c (c_trailing c) None ?s1) = []"
  proof -
    have "timers_ok s'" using timers_step assms(1,5) by blast
    then show ?thesis using fire_max calculation(1) armed_none
      by (simp add: maxDelayed_def timers_ok_def complete_effects)
  qed
  moreover have "a \<le> m_lastCalled s" "a \<le> m_now s" "a + w \<le> m_now s" if "(a, r) \<in> set (m_invocations s)" for a r
    using spacing_times [OF assms(6) that] calculation(2) fire_max by simp_all
  ultimately show ?thesis using fire_max assms(4,6)
    by (auto simp: maxDelayed_def spacing_inv_def complete_effects apart_snoc)
qed (use assms in \<open>auto simp: spacing_inv_def\<close>)

lemma throttle_run:
  "run c (initial_machine now) es s \<Longrightarrow> c_maxWait c = Some w \<Longrightarrow> c_wait c = w \<Longrightarrow> 0 \<le> w \<Longrightarrow> 0 \<le> now \<Longrightarrow>
     no_reset es \<Longrightarrow> spacing_inv w s"
proof (induction rule: run.induct)
  case start
  then show ?case by (simp add: spacing_inv_def initial_machine_def apart_def)
next
  case (step es s e s')
  then have "timers_ok s" using history_run by (simp add: history_inv_def)
  with step throttle_step [of c s e s' w] show ?case by (simp add: no_reset_def)
qed

section \<open>Properties\<close>

lemma step_invocations:
  assumes "step c s e s'" and "history_inv c es s"
  shows "\<exists>new. m_invocations s' = m_invocations s @ new \<and> length new \<le> 1 \<and>
    (\<forall>(t, a) \<in> set new. t = m_now s \<and> last_call (es @ [e]) = Some a)"
proof -
  have given: "m_args s \<noteq> None \<Longrightarrow> last_call es = Some (given s)"
    using assms(2) by (auto simp: history_inv_def given_def)
  have timers: "t \<in> set (m_timers s) \<Longrightarrow> m_args s \<noteq> None" for t
    using assms(2) timer_named by (cases "t_callback t") (auto simp: history_inv_def)
  from assms(1) show ?thesis
  proof cases
    case (fire_delayed t)
    then show ?thesis using given timers delayed_again [of c "clearTimeout (Some (t_id t)) s"]
      by (cases "quiet c s") (auto simp: fire_complete complete_effects quiet_def)
  next
    case (fire_max t)
    then show ?thesis using given timers by (auto simp: maxDelayed_def complete_effects)
  next
    case flush
    then show ?thesis using given assms(2) by (auto simp: flush_def history_inv_def)
  qed (auto simp: debounced_effects(1))
qed

text \<open>A configuration for the examples, and a run of two events.\<close>

definition demo_config :: "int option \<Rightarrow> config" where
  "demo_config maxWait = \<lparr>c_func = \<lambda>_. LNull, c_wait = 5, c_maxWait = maxWait,
     c_leading = (maxWait \<noteq> None), c_trailing = True\<rparr>"

lemma demo_run:
  "run c s0 [Call a, Tick 7] ((debounced c a s0)\<lparr>m_now := m_now s0 + 7\<rparr>)"
  using run.step [OF run.step [OF run.start step.call] step.tick [of 7], of c s0 a]
  by (simp add: debounced_effects(2))

text \<open>C10: Whatever happens, in whatever order, each step invokes the function at most once, with the
  arguments of the last call; and no timer is left over: the running ones are those the closure
  remembers, at most one of each kind.\<close>
theorem debounce_last_arguments:
  assumes "run c (initial_machine now) es s" and "step c s e s'"
  shows "(\<exists>new. m_invocations s' = m_invocations s @ new \<and> length new \<le> 1 \<and>
      (\<forall>(t, a) \<in> set new. t = m_now s \<and> last_call (es @ [e]) = Some a)) \<and>
    (m_timeoutId s' = None \<and> m_maxTimeoutId s' = None \<longrightarrow> m_timers s' = []) \<and>
    timers_ok s'"
  using step_invocations [OF assms(2) history_run [OF assms(1)]]
    history_step [OF assms(2) history_run [OF assms(1)]] armed_none [of "m_timers s'" "m_nextId s'"]
  by (auto simp: history_inv_def timers_ok_def)

theorem debounce_last_arguments_witness:
  "\<exists>new. m_invocations (debounced (demo_config None) [LNull] (initial_machine 0)) = [] @ new \<and>
     length new \<le> 1"
  using debounce_last_arguments [where c = "demo_config None" and now = 0, OF run.start step.call, of "[LNull]"]
  by (auto simp: initial_machine_def)

text \<open>A debounced function is never invoked before its callers have been quiet for the
  whole wait, unless it is flushed.\<close>
theorem debounce_waits:
  assumes "run c (initial_machine now) es s" and "step c s e s'" and "e \<noteq> Flush"
    and "c_maxWait c = None" and "\<not> c_leading c" and "m_invocations s' \<noteq> m_invocations s"
  shows "\<exists>q. since_call es = Some q \<and> c_wait c \<le> q"
proof -
  have inv: "history_inv c es s" using history_run [OF assms(1)] .
  have nomax: "m_maxTimeoutId s = None"
    using assms(1,4)
  proof (induction rule: run.induct)
    case (step es s e s')
    from step.hyps(2) step.IH [OF step.prems] step.prems show ?case
      by cases (auto simp: debounced_def Let_def check_maxWait_def maxDelayed_def complete_effects flush_def
          delayed_def setTimeout_def)
  qed (simp add: initial_machine_def)
  from assms(2) show ?thesis
  proof cases
    case (fire_delayed t)
    have "m_args s \<noteq> None" using inv fire_delayed timer_named(1) by (auto simp: history_inv_def)
    with inv have since: "since_call es = Some (m_now s - m_stamp s)" "m_stamp s \<le> m_now s"
      by (auto simp: history_inv_def)
    have "quiet c s"
    proof (rule ccontr)
      assume "\<not> quiet c s"
      then have "\<not> quiet c (clearTimeout (Some (t_id t)) s)" by (simp add: quiet_def)
      from delayed_again [OF this] show False using assms(6) fire_delayed by simp
    qed
    with since show ?thesis by (auto simp: quiet_def)
  next
    case (fire_max t)
    then show ?thesis using inv timer_named(2) nomax by (auto simp: history_inv_def)
  qed (use assms in \<open>simp_all add: debounced_effects(1) calls_now_def check_maxWait_def\<close>)
qed

theorem debounce_waits_witness:
  "\<exists>q. since_call [Call [LNull], Tick 7] = Some q \<and> 5 \<le> q"
proof -
  let ?s = "(debounced (demo_config None) [LNull] (initial_machine 0))\<lparr>m_now := m_now (initial_machine 0) + 7\<rparr>"
  let ?t = "\<lparr>t_id = 1, t_due = 5, t_callback = Delayed\<rparr>"
  have s: "?s = (initial_machine 0)\<lparr>m_args := Some [LNull], m_trailingCall := True, m_timeoutId := Some 1,
      m_nextId := 2, m_timers := [?t], m_now := 7\<rparr>"
    by (simp add: debounced_def note_call_def check_maxWait_def check_timeout_def setTimeout_def
        initial_machine_def demo_config_def Let_def)
  have step: "step (demo_config None) ?s (Fire ?t) (delayed (demo_config None) (clearTimeout (Some (t_id ?t)) ?s))"
    unfolding s by (intro step.fire_delayed) simp_all
  have "m_invocations (delayed (demo_config None) (clearTimeout (Some (t_id ?t)) ?s)) \<noteq> m_invocations ?s"
    unfolding s by (simp add: delayed_def complete_effects demo_config_def initial_machine_def Let_def)
  with debounce_waits [OF demo_run step] show ?thesis by (simp add: demo_config_def)
qed

text \<open>After a call, a debounced function that is left alone for the wait is invoked with the
  arguments of that call as soon as its timer goes off, and no timer remains.\<close>
theorem debounce_fires:
  assumes "run c (initial_machine now) es s" and "c_maxWait c = None" and "\<not> c_leading c"
    and "c_trailing c" and "0 \<le> c_wait c"
  shows "\<exists>t s'. step c ((debounced c a s)\<lparr>m_now := m_now s + c_wait c\<rparr>) (Fire t) s' \<and>
    m_invocations s' = m_invocations s @ [(m_now s + c_wait c, a)] \<and> m_timers s' = []"
proof -
  let ?s1 = "debounced c a s" and ?c = "c_wait c"
  let ?s2 = "?s1\<lparr>m_now := m_now s + c_wait c\<rparr>"
  have inv: "history_inv c (es @ [Call a]) ?s1"
    using history_step [OF step.call history_run [OF assms(1)]] .
  have tid: "m_timeoutId ?s1 \<noteq> None"
    using assms(2,3) by (auto simp: debounced_def Let_def check_maxWait_def check_timeout_def setTimeout_def)
  then obtain i where "m_timeoutId ?s1 = Some i" by blast
  with inv obtain t where t: "t \<in> set (m_timers ?s1)" "t_callback t = Delayed"
    using slot_ids by (fastforce simp: history_inv_def timers_ok_def armed_def)
  with inv assms(5) have due: "t_due t \<le> m_now ?s2"
    by (auto simp: history_inv_def debounced_effects(3))
  let ?s' = "delayed c (clearTimeout (Some (t_id t)) ?s2)"
  have step: "step c ?s2 (Fire t) ?s'" using t due by (intro step.fire_delayed) simp_all
  have quiet: "quiet c ?s2" by (simp add: quiet_def debounced_effects(3))
  have "m_args ?s1 = Some a" using debounced_effects(5) [of c a s] tid by auto
  then have "m_invocations ?s' = m_invocations s @ [(m_now s + c_wait c, a)]"
    using assms(2-4) fire_complete [OF quiet]
    by (simp add: complete_effects debounced_effects given_def calls_now_def check_maxWait_def)
  moreover have "m_timers ?s' = []"
  proof -
    have "timers_ok ?s2" using inv by (simp add: history_inv_def timers_ok_def)
    with timers_step [OF step] have "timers_ok ?s'" .
    then show ?thesis using fire_complete [OF quiet] armed_none by (simp add: timers_ok_def complete_effects)
  qed
  ultimately show ?thesis using step by blast
qed

theorem debounce_fires_witness:
  "\<exists>t s'. step (demo_config None) ((debounced (demo_config None) [LNull] (initial_machine 0))\<lparr>m_now := 5\<rparr>) (Fire t) s' \<and>
     m_invocations s' = [(5, [LNull])] \<and> m_timers s' = []"
  using debounce_fires [where c = "demo_config None" and now = 0 and a = "[LNull]", OF run.start]
  by (simp add: demo_config_def initial_machine_def)

text \<open>C11: Every invocation answers a call of its own: however calls, timers, cancels and flushes
  interleave, there are at most as many invocations as calls, also with leading calls and a
  maximal wait.\<close>
theorem debounce_counts:
  assumes "debounce (Some f) wait opts = Inr c" and "0 \<le> wait" and "run c (initial_machine now) es s"
  shows "length (m_invocations s) \<le> calls es"
proof -
  have "config_ok c" using assms(1,2) by (auto simp: debounce_def config_ok_def split: option.splits)
  from count_run [OF assms(3) this] show ?thesis by (auto simp: count_inv_def)
qed

theorem debounce_counts_witness:
  "length (m_invocations ((debounced (demo_config None) [LNull] (initial_machine 0))\<lparr>m_now := m_now (initial_machine 0) + 7\<rparr>)) \<le> 1"
  using debounce_counts [where f = "\<lambda>_. LNull" and wait = 5 and opts = None and c = "demo_config None" and now = 0,
      OF _ _ demo_run, of "[LNull]"]
  by (simp add: debounce_def demo_config_def calls_def)

text \<open>A throttled function is invoked at most once per wait: any two invocations are at
  least the wait apart, until it is cancelled or flushed.\<close>
theorem throttle_spacing:
  assumes "throttle (Some f) wait opts = Inr c" and "0 \<le> wait" and "0 \<le> now"
    and "run c (initial_machine now) es s" and "no_reset es"
  shows "sorted_wrt (\<lambda>a b. a + wait \<le> b) (map fst (m_invocations s))"
proof -
  have "c_maxWait c = Some wait \<and> c_wait c = wait"
    using assms(1) by (auto simp: throttle_def debounce_def Let_def split: option.splits)
  then have "spacing_inv wait s" using throttle_run assms(2-5) by blast
  then show ?thesis by (simp add: spacing_inv_def apart_def)
qed

theorem throttle_spacing_witness:
  "sorted_wrt (\<lambda>a b. a + 5 \<le> b) (map fst (m_invocations
     (debounced (demo_config (Some 5)) [LNull]
       ((debounced (demo_config (Some 5)) [LNull] (initial_machine 10))\<lparr>m_now := m_now (initial_machine 10) + 7\<rparr>))))"
  using throttle_spacing [where f = "\<lambda>_. LNull" and wait = 5 and opts = None and c = "demo_config (Some 5)" and now = 10,
      OF _ _ _ run.step [OF demo_run step.call], of "[LNull]" "[LNull]"]
  by (simp add: throttle_def debounce_def demo_config_def no_reset_def)

end
