(* ===== verification/LodashFunctions.thy ===== *)
theory LodashFunctions
  imports LodashSets LodashNumbers
begin

text \<open>
  Functions that count or remember their calls, of \<open>lodash-4.2.1.js\<close>: \<open>after\<close>, \<open>before\<close>, \<open>once\<close>,
  \<open>negate\<close> and \<open>memoize\<close>. The closure variables are the state; the calls of the wrapped function are
  recorded. A wrapped function is a function of its arguments.
\<close>

section \<open>Counting calls\<close>

type_synonym func = "lval list \<Rightarrow> lval"

text \<open>The variables of \<open>after\<close> and \<open>before\<close>, and the arguments the function was called with.\<close>

record counter =
  ct_n :: int
  ct_func :: "func option"
  ct_result :: lval
  ct_calls :: "lval list list"

definition after :: "jsnum option \<Rightarrow> func option \<Rightarrow> jserr + counter" where
  "after n func = (case func of
     None \<Rightarrow> Inl TypeErr
   | Some f \<Rightarrow> Inr \<lparr>ct_n = toInteger n, ct_func = Some f, ct_result = LUndef, ct_calls = []\<rparr>)"

text \<open>\<open>func.apply(this, arguments)\<close>; applying a variable that was cleared is a \<open>TypeError\<close>.\<close>

definition apply_func :: "lval list \<Rightarrow> (counter, jserr, lval) stm" where
  "apply_func args s = (case ct_func s of
     None \<Rightarrow> (Inl TypeErr, s)
   | Some f \<Rightarrow> (Inr (f args), s\<lparr>ct_calls := ct_calls s @ [args]\<rparr>))"

definition after_call :: "lval list \<Rightarrow> (counter, jserr, lval) stm" where
  "after_call args s =
     (let s1 = s\<lparr>ct_n := ct_n s - 1\<rparr>
      in if ct_n s1 < 1 then apply_func args s1 else (Inr LUndef, s1))"

definition before :: "jsnum option \<Rightarrow> func option \<Rightarrow> jserr + counter" where
  "before n func = (case func of
     None \<Rightarrow> Inl TypeErr
   | Some f \<Rightarrow> Inr \<lparr>ct_n = toInteger n, ct_func = Some f, ct_result = LUndef, ct_calls = []\<rparr>)"

definition before_call :: "lval list \<Rightarrow> (counter, jserr, lval) stm" where
  "before_call args s =
     (let s1 = s\<lparr>ct_n := ct_n s - 1\<rparr>
      in case (if ct_n s1 > 0
               then (case apply_func args s1 of
                       (Inl e, s2) \<Rightarrow> (Inl e, s2)
                     | (Inr r, s2) \<Rightarrow> (Inr r, s2\<lparr>ct_result := r\<rparr>))
               else (Inr LUndef, s1)) of
           (Inl e, s2) \<Rightarrow> (Inl e, s2)
         | (Inr r, s2) \<Rightarrow>
             (let s3 = (if ct_n s2 \<le> 1 then s2\<lparr>ct_func := None\<rparr> else s2)
              in (Inr (ct_result s3), s3)))"

definition once :: "func option \<Rightarrow> jserr + counter" where
  "once func = before (Some (Fin 2)) func"

definition negate :: "(lval list \<Rightarrow> bool) option \<Rightarrow> jserr + (lval list \<Rightarrow> bool)" where
  "negate predicate = (case predicate of
     None \<Rightarrow> Inl TypeErr | Some p \<Rightarrow> Inr (\<lambda>args. \<not> p args))"

text \<open>A sequence of calls: the results, and the state after them.\<close>

fun call_all :: "('a \<Rightarrow> ('s, jserr, lval) stm) \<Rightarrow> 'a list \<Rightarrow> ('s, jserr, lval list) stm" where
  "call_all f [] = sret []"
| "call_all f (a # as) = sbind (f a) (\<lambda>r. sbind (call_all f as) (\<lambda>rs. sret (r # rs)))"

section \<open>Memoizing\<close>

text \<open>\<open>memoized\<close>, over the operations of its cache.\<close>

record 'm memo =
  me_cache :: 'm
  me_calls :: "lval list list"

definition memo_key :: "func option \<Rightarrow> lval list \<Rightarrow> lval" where
  "memo_key resolver args = (case resolver of
     Some f \<Rightarrow> f args | None \<Rightarrow> (case args of a # _ \<Rightarrow> a | [] \<Rightarrow> LUndef))"

definition memo_call ::
  "('m \<Rightarrow> lval \<Rightarrow> bool) \<Rightarrow> ('m \<Rightarrow> lval \<Rightarrow> lval) \<Rightarrow> ('m \<Rightarrow> lval \<Rightarrow> lval \<Rightarrow> 'm) \<Rightarrow> func \<Rightarrow> func option \<Rightarrow>
     lval list \<Rightarrow> ('m memo, jserr, lval) stm" where
  "memo_call has get put func resolver args s =
     (let key = memo_key resolver args; cache = me_cache s
      in if has cache key then (Inr (get cache key), s)
         else let result = func args
              in (Inr result, \<lparr>me_cache = put cache key result, me_calls = me_calls s @ [args]\<rparr>))"

definition memoize :: "engine \<Rightarrow> func option \<Rightarrow> func option option \<Rightarrow>
    jserr + mapcache memo \<times> (lval list \<Rightarrow> (mapcache memo, jserr, lval) stm)" where
  "memoize rt func resolver = (case (func, resolver) of
     (Some f, Some (Some r)) \<Rightarrow> Inr (\<lparr>me_cache = MapCache rt [], me_calls = []\<rparr>,
       memo_call (mapHas rt) (mapGet rt) (mapSet rt) f (Some r))
   | (Some f, None) \<Rightarrow> Inr (\<lparr>me_cache = MapCache rt [], me_calls = []\<rparr>,
       memo_call (mapHas rt) (mapGet rt) (mapSet rt) f None)
   | _ \<Rightarrow> Inl TypeErr)"

section \<open>Counting is exact\<close>

lemma after_calls:
  assumes "ct_func s = Some f"
  shows "\<exists>t. call_all after_call as s =
      (Inr (map (\<lambda>i. if ct_n s \<le> int i + 1 then f (as ! i) else LUndef) [0..<length as]), t) \<and>
    ct_calls t = ct_calls s @ drop (nat (ct_n s - 1)) as"
  using assms
proof (induction as arbitrary: s)
  case (Cons a as)
  let ?s1 = "s\<lparr>ct_n := ct_n s - 1\<rparr>"
  let ?s2 = "if ct_n s \<le> 1 then ?s1\<lparr>ct_calls := ct_calls s @ [a]\<rparr> else ?s1"
  have call: "after_call a s = (Inr (if ct_n s \<le> 1 then f a else LUndef), ?s2)"
    using Cons.prems by (simp add: after_call_def apply_func_def Let_def)
  have "ct_func ?s2 = Some f" using Cons.prems by simp
  from Cons.IH [OF this] obtain t where t: "call_all after_call as ?s2 =
      (Inr (map (\<lambda>i. if ct_n ?s2 \<le> int i + 1 then f (as ! i) else LUndef) [0..<length as]), t)"
    "ct_calls t = ct_calls ?s2 @ drop (nat (ct_n ?s2 - 1)) as" by blast
  have n: "ct_n ?s2 = ct_n s - 1" by simp
  have "map (\<lambda>i. if ct_n s \<le> int i + 1 then f ((a # as) ! i) else LUndef) [0..<length (a # as)] =
      (if ct_n s \<le> 1 then f a else LUndef) #
      map (\<lambda>i. if ct_n s - 1 \<le> int i + 1 then f (as ! i) else LUndef) [0..<length as]"
    by (simp add: upt_conv_Cons map_Suc_upt [symmetric] algebra_simps del: upt_Suc)
  moreover have "ct_calls ?s2 @ drop (nat (ct_n s - 1 - 1)) as = ct_calls s @ drop (nat (ct_n s - 1)) (a # as)"
  proof (cases "ct_n s \<le> 1")
    case False
    then have "nat (ct_n s - 1) = Suc (nat (ct_n s - 1 - 1))" by linarith
    with False show ?thesis by simp
  qed simp
  ultimately show ?case using call t unfolding n by (simp add: sbind_def)
qed simp

lemma before_calls:
  assumes "ct_n s \<le> 1 \<or> ct_func s = Some f"
  shows "\<exists>t. call_all before_call as s =
      (Inr (map (\<lambda>i. let k = min (Suc i) (nat (ct_n s - 1)) in if k = 0 then ct_result s else f (as ! (k - 1)))
         [0..<length as]), t) \<and>
    ct_calls t = ct_calls s @ take (nat (ct_n s - 1)) as"
  using assms
proof (induction as arbitrary: s)
  case (Cons a as)
  let ?s1 = "s\<lparr>ct_n := ct_n s - 1\<rparr>"
  let ?s2 = "if ct_n s > 1 then ?s1\<lparr>ct_calls := ct_calls s @ [a], ct_result := f a\<rparr> else ?s1"
  let ?s3 = "if ct_n s \<le> 2 then ?s2\<lparr>ct_func := None\<rparr> else ?s2"
  have call: "before_call a s = (Inr (if ct_n s > 1 then f a else ct_result s), ?s3)"
    using Cons.prems by (auto simp: before_call_def apply_func_def Let_def)
  have "ct_n ?s3 \<le> 1 \<or> ct_func ?s3 = Some f" using Cons.prems by auto
  from Cons.IH [OF this] obtain t where t: "call_all before_call as ?s3 =
      (Inr (map (\<lambda>i. let k = min (Suc i) (nat (ct_n ?s3 - 1)) in if k = 0 then ct_result ?s3 else f (as ! (k - 1)))
         [0..<length as]), t)"
    "ct_calls t = ct_calls ?s3 @ take (nat (ct_n ?s3 - 1)) as" by blast
  have s3: "ct_n ?s3 = ct_n s - 1" "ct_result ?s3 = (if ct_n s > 1 then f a else ct_result s)"
    "ct_calls ?s3 = (if ct_n s > 1 then ct_calls s @ [a] else ct_calls s)" by simp_all
  have "map (\<lambda>i. let k = min (Suc i) (nat (ct_n s - 1)) in if k = 0 then ct_result s else f ((a # as) ! (k - 1)))
        [0..<length (a # as)] = (if ct_n s > 1 then f a else ct_result s) #
      map (\<lambda>i. let k = min (Suc i) (nat (ct_n s - 1 - 1))
             in if k = 0 then (if ct_n s > 1 then f a else ct_result s) else f (as ! (k - 1))) [0..<length as]"
  proof (cases "ct_n s > 1")
    case True
    then have "nat (ct_n s - 1) = Suc (nat (ct_n s - 1 - 1))" by linarith
    with True show ?thesis
      by (auto simp: upt_conv_Cons map_Suc_upt [symmetric] Let_def min_def nth_Cons' simp del: upt_Suc)
  next
    case False
    then have "nat (ct_n s - 1) = 0" "nat (ct_n s - 1 - 1) = 0" by linarith+
    with False show ?thesis by (simp add: upt_conv_Cons map_Suc_upt [symmetric] Let_def del: upt_Suc)
  qed
  moreover have "(if ct_n s > 1 then ct_calls s @ [a] else ct_calls s) @ take (nat (ct_n s - 1 - 1)) as =
      ct_calls s @ take (nat (ct_n s - 1)) (a # as)"
  proof (cases "ct_n s > 1")
    case True
    then have "nat (ct_n s - 1) = Suc (nat (ct_n s - 1 - 1))" by linarith
    with True show ?thesis by simp
  qed simp
  ultimately show ?case using call t unfolding s3 by (simp add: sbind_def)
qed simp

section \<open>Memoizing is transparent\<close>

text \<open>The results of a function are determined by the keys of its arguments.\<close>

definition determined :: "('a \<Rightarrow> 'k) \<Rightarrow> ('a \<Rightarrow> 'v) \<Rightarrow> 'a list \<Rightarrow> bool" where
  "determined key f as \<longleftrightarrow> (\<forall>a \<in> set as. \<forall>b \<in> set as. key a = key b \<longrightarrow> f a = f b)"

lemma determined_tail: "determined key f (a # as) \<Longrightarrow> determined key f as"
  unfolding determined_def by (meson list.set_intros(2))

lemma determined_head: "determined key f (a # as) \<Longrightarrow> b \<in> set as \<Longrightarrow> key b = key a \<Longrightarrow> f a = f b"
  unfolding determined_def by (metis list.set_intros)

text \<open>On any cache that keeps the contract of a map.\<close>

context js_map
begin

lemma memo_run:
  assumes "ok (me_cache s)"
    and "\<forall>a \<in> set as. storable (func a)"
    and "determined (memo_key resolver) func as"
    and "\<forall>a \<in> set as. \<forall>r. view (me_cache s) (memo_key resolver a) = Some r \<longrightarrow> r = func a"
  shows "\<exists>t. call_all (memo_call has get put func resolver) as s = (Inr (map func as), t) \<and>
    me_calls t = me_calls s @ uniq_spec (memo_key resolver) (dom (view (me_cache s))) as"
  using assms
proof (induction as arbitrary: s)
  case (Cons a as)
  let ?k = "memo_key resolver a" and ?c = "me_cache s"
  have rest: "\<forall>a \<in> set as. storable (func a)"
    "determined (memo_key resolver) func as"
    using Cons.prems(2) determined_tail [OF Cons.prems(3)] by simp_all
  show ?case
  proof (cases "view ?c ?k")
    case (Some r)
    then have "r = func a" using Cons.prems(4) by simp
    then have call: "memo_call has get put func resolver a s = (Inr (func a), s)"
      using Some Cons.prems(1) by (simp add: memo_call_def Let_def has_view get_view spec_get_def)
    have key: "?k \<in> dom (view ?c)" using Some by blast
    have "\<forall>a \<in> set as. \<forall>r. view ?c (memo_key resolver a) = Some r \<longrightarrow> r = func a"
      using Cons.prems(4) by simp
    from Cons.IH [OF Cons.prems(1) rest this] obtain t where
      "call_all (memo_call has get put func resolver) as s = (Inr (map func as), t)"
      "me_calls t = me_calls s @ uniq_spec (memo_key resolver) (dom (view ?c)) as" by blast
    then show ?thesis using call key by (simp add: sbind_def)
  next
    case None
    let ?s1 = "\<lparr>me_cache = put ?c ?k (func a), me_calls = me_calls s @ [a]\<rparr>"
    have st: "storable (func a)" using Cons.prems(2) by simp
    have call: "memo_call has get put func resolver a s = (Inr (func a), ?s1)"
      using None Cons.prems(1) by (simp add: memo_call_def Let_def has_view)
    have view: "view (me_cache ?s1) = (view ?c)(?k \<mapsto> func a)"
      using set_view [OF Cons.prems(1) st] by simp
    have ok: "ok (me_cache ?s1)" using set_ok [OF Cons.prems(1) st] by simp
    have vals: "\<forall>b \<in> set as. \<forall>r. view (me_cache ?s1) (memo_key resolver b) = Some r \<longrightarrow> r = func b"
    proof (intro ballI allI impI)
      fix b r assume b: "b \<in> set as" and r: "view (me_cache ?s1) (memo_key resolver b) = Some r"
      show "r = func b"
      proof (cases "memo_key resolver b = ?k")
        case True
        then have "func a = func b" by (rule determined_head [OF Cons.prems(3) b])
        then show ?thesis using r True unfolding view by simp
      next
        case False
        then show ?thesis using r b Cons.prems(4) unfolding view by simp
      qed
    qed
    from Cons.IH [OF ok rest vals] obtain t where
      "call_all (memo_call has get put func resolver) as ?s1 = (Inr (map func as), t)"
      "me_calls t = me_calls ?s1 @ uniq_spec (memo_key resolver) (dom (view (me_cache ?s1))) as" by blast
    moreover have "?k \<notin> dom (view ?c)" using None by blast
    moreover have "dom (view (me_cache ?s1)) = insert ?k (dom (view ?c))" unfolding view by simp
    ultimately show ?thesis using call by (simp add: sbind_def)
  qed
qed simp

end

section \<open>Properties\<close>

text \<open>\<open>after(n)\<close> invokes the function from the \<open>n\<close>th call on and returns \<open>undefined\<close> before;
  \<open>before(n)\<close> invokes it on the first \<open>n - 1\<close> calls only, and then repeats the last result, so that
  \<open>once\<close> invokes it on the first call. None of them ever applies the function it has let go.\<close>
theorem counted_calls:
  assumes "after n (Some f) = Inr sa" and "before n (Some f) = Inr sb"
  shows "(\<exists>t. call_all after_call as sa =
        (Inr (map (\<lambda>i. if toInteger n \<le> int i + 1 then f (as ! i) else LUndef) [0..<length as]), t) \<and>
      ct_calls t = drop (nat (toInteger n - 1)) as) \<and>
    (\<exists>t. call_all before_call as sb = (Inr (map (\<lambda>i. let k = min (Suc i) (nat (toInteger n - 1))
        in if k = 0 then LUndef else f (as ! (k - 1))) [0..<length as]), t) \<and>
      ct_calls t = take (nat (toInteger n - 1)) as)"
proof -
  have a: "ct_func sa = Some f" "ct_n sa = toInteger n" "ct_calls sa = []"
    using assms(1) by (auto simp: after_def)
  have b: "ct_func sb = Some f" "ct_n sb = toInteger n" "ct_calls sb = []" "ct_result sb = LUndef"
    using assms(2) by (auto simp: before_def)
  show ?thesis
    using after_calls [OF a(1), of as] before_calls [OF disjI2 [OF b(1)], of as]
    unfolding a b append_Nil by (rule conjI)
qed

theorem counted_calls_witness:
  "\<exists>t. call_all before_call [[LNull], [LUndef]]
      \<lparr>ct_n = 2, ct_func = Some (\<lambda>as. as ! 0), ct_result = LUndef, ct_calls = []\<rparr>
     = (Inr [LNull, LNull], t) \<and> ct_calls t = [[LNull]]"
proof -
  have n: "toInteger (Some (Fin 2)) = 2" by (simp add: toInteger_def trunc_def)
  have a: "after (Some (Fin 2)) (Some f) = Inr \<lparr>ct_n = 2, ct_func = Some f, ct_result = LUndef, ct_calls = []\<rparr>"
    and b: "before (Some (Fin 2)) (Some f) = Inr \<lparr>ct_n = 2, ct_func = Some f, ct_result = LUndef, ct_calls = []\<rparr>"
    for f by (simp_all add: after_def before_def n)
  show ?thesis
    using conjunct2 [OF counted_calls [OF a b, of "[[LNull], [LUndef]]" "\<lambda>as. as ! 0"]]
    by (simp add: n)
qed

text \<open>Memoizing is transparent: a memoized function whose results depend on the key only
  returns what the function returns, for any sequence of calls, and calls it once for each key,
  with the first arguments that have it.\<close>
theorem memoize_transparent:
  assumes "number_names_ok rt" and "memoize rt (Some f) (map_option Some resolver) = Inr (s, call)"
    and "\<forall>a \<in> set as. f a \<noteq> HASH_UNDEFINED"
    and "determined (memo_key resolver) f as"
  shows "\<exists>t. call_all call as s = (Inr (map f as), t) \<and> me_calls t = uniq_spec (memo_key resolver) {} as"
proof -
  have s: "me_cache s = mapClear" "me_calls s = []" "call = memo_call (mapHas rt) (mapGet rt) (mapSet rt) f resolver"
    using assms(2) by (cases resolver; auto simp: memoize_def MapCache_def)+
  have view: "cache_view rt mapClear = Map.empty" by (rule map_cache.empty_view)
  have ok: "cache_ok rt mapClear" using assms(1) by (rule map_cache.empty_ok)
  have "\<exists>t. call_all (memo_call (mapHas rt) (mapGet rt) (mapSet rt) f resolver) as s = (Inr (map f as), t) \<and>
      me_calls t = me_calls s @ uniq_spec (memo_key resolver) (dom (cache_view rt (me_cache s))) as"
    by (rule map_cache.memo_run [OF _ assms(3,4)]) (simp_all add: s ok view)
  then show ?thesis by (simp add: s view)
qed

theorem memoize_transparent_witness:
  "\<exists>t. call_all (memo_call (mapHas (demo_engine True True)) (mapGet (demo_engine True True))
      (mapSet (demo_engine True True)) (\<lambda>as. as ! 0) None) [[LNull], [LStr ''a''], [LNull]]
      \<lparr>me_cache = mapClear, me_calls = []\<rparr> = (Inr [LNull, LStr ''a'', LNull], t) \<and>
    me_calls t = [[LNull], [LStr ''a'']]"
proof -
  have "memoize (demo_engine True True) (Some f) (map_option Some None) =
      Inr (\<lparr>me_cache = mapClear, me_calls = []\<rparr>, memo_call (mapHas (demo_engine True True))
        (mapGet (demo_engine True True)) (mapSet (demo_engine True True)) f None)" for f
    by (simp add: memoize_def MapCache_def)
  from memoize_transparent [OF demo_engine_names this, of "[[LNull], [LStr ''a''], [LNull]]" "\<lambda>as. as ! 0"]
  show ?thesis by (simp add: determined_def memo_key_def HASH_UNDEFINED_def)
qed

end
