(* ===== verification/LodashWrappers.thy ===== *)
theory LodashWrappers
  imports LodashSlices "HOL-Library.Word"
begin

unbundle bit_operations_syntax

text \<open>
  The function wrappers of \<open>lodash-4.2.1.js\<close>: \<open>bind\<close>, \<open>bindKey\<close>, \<open>partial\<close>, \<open>partialRight\<close>,
  \<open>curry\<close>, \<open>curryRight\<close>, \<open>ary\<close>, \<open>rearg\<close> and \<open>flip\<close>, all made by \<open>createWrapper\<close> from a bit mask and
  the metadata of the function wrapped. A wrapped function is a value: a native function with its
  identity and \<open>length\<close>, a property key, or a wrapper with the variables of its closure. A call of
  a wrapper ends in the call of a native function or method, or returns a wrapper.
\<close>

section \<open>Arguments\<close>

definition PLACEHOLDER :: lval where
  "PLACEHOLDER = LStr ''__lodash_placeholder__''"

text \<open>\<open>array[i] = v\<close>; a write past the end extends the array.\<close>

definition write_at :: "lval list \<Rightarrow> nat \<Rightarrow> lval \<Rightarrow> lval list" where
  "write_at array i v =
     (if i < length array then array[i := v] else array @ replicate (i - length array) LUndef @ [v])"

definition replaceHolders :: "lval list \<Rightarrow> lval \<Rightarrow> lval list \<times> nat list" where
  "replaceHolders array placeholder =
     fold (\<lambda>index (array, result).
         if strict_eq (array ! index) placeholder
         then (write_at array index PLACEHOLDER, result @ [index]) else (array, result))
       [0..<length array] (array, [])"

definition composeArgs :: "lval list \<Rightarrow> lval list \<Rightarrow> nat list \<Rightarrow> lval list" where
  "composeArgs args partials holders =
     (let holdersLength = length holders;
          argsLength = length args - holdersLength;
          leftLength = length partials;
          result = replicate (leftLength + argsLength) LUndef;
          result = fold (\<lambda>leftIndex r. write_at r leftIndex (partials ! leftIndex)) [0..<leftLength] result;
          result = fold (\<lambda>argsIndex r. write_at r (holders ! argsIndex) (read_at args (int argsIndex)))
                     [0..<holdersLength] result
      in fold (\<lambda>i r. write_at r (leftLength + i) (read_at args (int (holdersLength + i)))) [0..<argsLength] result)"

definition composeArgsRight :: "lval list \<Rightarrow> lval list \<Rightarrow> nat list \<Rightarrow> lval list" where
  "composeArgsRight args partials holders =
     (let holdersLength = length holders;
          argsLength = length args - holdersLength;
          rightLength = length partials;
          result = replicate (argsLength + rightLength) LUndef;
          result = fold (\<lambda>argsIndex r. write_at r argsIndex (read_at args (int argsIndex))) [0..<argsLength] result;
          offset = argsLength;
          result = fold (\<lambda>rightIndex r. write_at r (offset + rightIndex) (partials ! rightIndex))
                     [0..<rightLength] result
      in fold (\<lambda>holdersIndex r. write_at r (offset + holders ! holdersIndex)
                 (read_at args (int (argsLength + holdersIndex)))) [0..<holdersLength] result)"

text \<open>The indexes of \<open>rearg\<close> are numbers.\<close>

definition reorder :: "lval list \<Rightarrow> jsnum list \<Rightarrow> lval list" where
  "reorder array indexes =
     (let arrLength = length array; len = min (length indexes) arrLength; oldArray = array
      in fold (\<lambda>i r. write_at r i
             (if isIndex (indexes ! i) (Some (int arrLength))
              then read_at oldArray (toInteger (Some (indexes ! i))) else LUndef))
           (rev [0..<len]) array)"

section \<open>Wrapped functions\<close>

abbreviation BIND_FLAG :: "32 word" where "BIND_FLAG \<equiv> 1"
abbreviation BIND_KEY_FLAG :: "32 word" where "BIND_KEY_FLAG \<equiv> 2"
abbreviation CURRY_BOUND_FLAG :: "32 word" where "CURRY_BOUND_FLAG \<equiv> 4"
abbreviation CURRY_FLAG :: "32 word" where "CURRY_FLAG \<equiv> 8"
abbreviation CURRY_RIGHT_FLAG :: "32 word" where "CURRY_RIGHT_FLAG \<equiv> 16"
abbreviation PARTIAL_FLAG :: "32 word" where "PARTIAL_FLAG \<equiv> 32"
abbreviation PARTIAL_RIGHT_FLAG :: "32 word" where "PARTIAL_RIGHT_FLAG \<equiv> 64"
abbreviation ARY_FLAG :: "32 word" where "ARY_FLAG \<equiv> 128"
abbreviation REARG_FLAG :: "32 word" where "REARG_FLAG \<equiv> 256"
abbreviation FLIP_FLAG :: "32 word" where "FLIP_FLAG \<equiv> 512"

text \<open>The array \<open>newData\<close>, by its indexes.\<close>

datatype 'f wdata = WData
  (w_func: 'f) (w_bits: "32 word") (w_this: lval)
  (w_partials: "lval list option") (w_holders: "nat list option")
  (w_partialsRight: "lval list option") (w_holdersRight: "nat list option")
  (w_argPos: "jsnum list option") (w_ary: "int option") (w_arity: "int option")

text \<open>
  A wrapper has the variables of its closure, its metadata (the entry of \<open>metaMap\<close>) and its property
  \<open>placeholder\<close>. The shapes are the four functions \<open>wrapper\<close>.
\<close>

datatype wshape = BaseShape | CurryShape | PartialShape | HybridShape

datatype wfn =
    WNative nat nat
  | WKey string
  | Wrapper wshape "wfn wdata" "wfn wdata option" lval

definition is_function :: "wfn \<Rightarrow> bool" where
  "is_function f = (case f of WKey k \<Rightarrow> False | _ \<Rightarrow> True)"

definition fn_length :: "wfn \<Rightarrow> nat" where
  "fn_length f = (case f of WNative i n \<Rightarrow> n | WKey k \<Rightarrow> length k | Wrapper s d m ph \<Rightarrow> 0)"

definition on :: "32 word \<Rightarrow> 32 word \<Rightarrow> bool" where
  "on bits flag \<longleftrightarrow> bits AND flag \<noteq> 0"

text \<open>
  What the wrappers take from their surroundings: whether there is a \<open>WeakMap\<close>, which functions have a
  lazy counterpart, whether \<open>setData\<close> has tripped its breaker, the value of \<open>lodash\<close>, which is the
  \<open>placeholder\<close> of \<open>bind\<close>, \<open>bindKey\<close>, \<open>curry\<close>, \<open>curryRight\<close>, \<open>partial\<close> and \<open>partialRight\<close>, and
  \<open>lodash.placeholder\<close>.
\<close>

record wenv =
  we_metaMap :: bool
  we_laziable :: "wfn \<Rightarrow> bool"
  we_tripped :: bool
  we_lodash :: lval
  we_placeholder :: lval

definition placeholder_of :: "wenv \<Rightarrow> lval \<Rightarrow> lval" where
  "placeholder_of e own = (if lo_truthy (we_placeholder e) then we_placeholder e else own)"

definition getData :: "wenv \<Rightarrow> wfn \<Rightarrow> wfn wdata option" where
  "getData e f = (if \<not> we_metaMap e then None else case f of Wrapper s d m ph \<Rightarrow> m | _ \<Rightarrow> None)"

definition baseSetData :: "wenv \<Rightarrow> wfn \<Rightarrow> wfn wdata \<Rightarrow> wfn" where
  "baseSetData e f data = (case f of
     Wrapper s d m ph \<Rightarrow> if we_metaMap e then Wrapper s d (Some data) ph else f
   | _ \<Rightarrow> f)"

definition setData :: "wenv \<Rightarrow> wfn \<Rightarrow> wfn wdata \<Rightarrow> wfn" where
  "setData e key v = (if we_tripped e then key else baseSetData e key v)"

definition set_placeholder :: "wfn \<Rightarrow> lval \<Rightarrow> wfn" where
  "set_placeholder f v = (case f of Wrapper s d m ph \<Rightarrow> Wrapper s d m v | _ \<Rightarrow> f)"

text \<open>The breaker of \<open>setData\<close>: 150 calls, each within 16 milliseconds of the one before.\<close>

record breaker =
  br_count :: nat
  br_lastCalled :: int

definition breaker_step :: "int \<Rightarrow> breaker \<Rightarrow> bool \<times> breaker" where
  "breaker_step stamp b =
     (let remaining = 16 - (stamp - br_lastCalled b); b = b\<lparr>br_lastCalled := stamp\<rparr>
      in if remaining > 0
         then (let b = b\<lparr>br_count := br_count b + 1\<rparr> in (br_count b \<ge> 150, b))
         else (False, b\<lparr>br_count := 0\<rparr>))"

section \<open>Making wrappers\<close>

definition createBaseWrapper :: "wfn \<Rightarrow> 32 word \<Rightarrow> lval \<Rightarrow> wfn" where
  "createBaseWrapper func bits thisArg =
     Wrapper BaseShape (WData func bits thisArg None None None None None None None) None LUndef"

definition createCurryWrapper :: "wfn \<Rightarrow> 32 word \<Rightarrow> int \<Rightarrow> wfn" where
  "createCurryWrapper func bits arity =
     Wrapper CurryShape (WData func bits LUndef None None None None None None (Some arity)) None LUndef"

definition createPartialWrapper :: "wfn \<Rightarrow> 32 word \<Rightarrow> lval \<Rightarrow> lval list option \<Rightarrow> wfn" where
  "createPartialWrapper func bits thisArg partials =
     Wrapper PartialShape (WData func bits thisArg partials None None None None None None) None LUndef"

definition createHybridWrapper :: "wfn wdata \<Rightarrow> wfn" where
  "createHybridWrapper data = Wrapper HybridShape data None LUndef"

definition createRecurryWrapper ::
  "wenv \<Rightarrow> wfn \<Rightarrow> 32 word \<Rightarrow> lval \<Rightarrow> lval \<Rightarrow> lval list \<Rightarrow> nat list \<Rightarrow> jsnum list option \<Rightarrow> int option \<Rightarrow> int \<Rightarrow> wfn" where
  "createRecurryWrapper e func bits placeholder thisArg partials holders argPos ary arity =
     (let isCurry = on bits CURRY_FLAG;
          newHolders = (if isCurry then Some holders else None);
          newHoldersRight = (if isCurry then None else Some holders);
          newPartials = (if isCurry then Some partials else None);
          newPartialsRight = (if isCurry then None else Some partials);
          bits = bits OR (if isCurry then PARTIAL_FLAG else PARTIAL_RIGHT_FLAG);
          bits = bits AND NOT (if isCurry then PARTIAL_RIGHT_FLAG else PARTIAL_FLAG);
          bits = (if \<not> on bits CURRY_BOUND_FLAG then bits AND NOT (BIND_FLAG OR BIND_KEY_FLAG) else bits);
          newData = WData func bits thisArg newPartials newHolders newPartialsRight newHoldersRight argPos ary (Some arity);
          result = createHybridWrapper newData;
          result = (if we_laziable e func then setData e result newData else result)
      in set_placeholder result placeholder)"

text \<open>Metadata that cannot be merged is left as it is; \<open>data\<close> is the outer wrapper, \<open>source\<close> the inner.\<close>

definition mergeable :: "wfn wdata \<Rightarrow> wfn wdata \<Rightarrow> bool" where
  "mergeable data source =
     (let bits = w_bits data; srcBits = w_bits source; newBits = bits OR srcBits;
          isCommon = newBits < (BIND_FLAG OR BIND_KEY_FLAG OR ARY_FLAG);
          fits = (\<lambda>argPos. case (argPos, w_ary source) of
                    (Some p, Some a) \<Rightarrow> int (length p) \<le> a | _ \<Rightarrow> False);
          isCombo = srcBits = ARY_FLAG \<and> bits = CURRY_FLAG
            \<or> srcBits = ARY_FLAG \<and> bits = REARG_FLAG \<and> fits (w_argPos data)
            \<or> srcBits = (ARY_FLAG OR REARG_FLAG) \<and> fits (w_argPos source) \<and> bits = CURRY_FLAG
      in isCommon \<or> isCombo)"

definition opt_list :: "'x list option \<Rightarrow> 'x list" where
  "opt_list x = (case x of Some l \<Rightarrow> l | None \<Rightarrow> [])"

definition mergeData :: "wfn wdata \<Rightarrow> wfn wdata \<Rightarrow> wfn wdata" where
  "mergeData data source =
     (let bits = w_bits data; srcBits = w_bits source; newBits = bits OR srcBits
      in if \<not> mergeable data source then data
         else let
           thisArg = (if on srcBits BIND_FLAG then w_this source else w_this data);
           newBits = (if on srcBits BIND_FLAG
                      then newBits OR (if on bits BIND_FLAG then 0 else CURRY_BOUND_FLAG) else newBits);
           (partials, holders) = (case w_partials source of
               None \<Rightarrow> (w_partials data, w_holders data)
             | Some v \<Rightarrow> (case w_partials data of
                   None \<Rightarrow> (Some v, w_holders source)
                 | Some p \<Rightarrow> map_prod Some Some
                     (replaceHolders (composeArgs p v (opt_list (w_holders source))) PLACEHOLDER)));
           (partialsRight, holdersRight) = (case w_partialsRight source of
               None \<Rightarrow> (w_partialsRight data, w_holdersRight data)
             | Some v \<Rightarrow> (case w_partialsRight data of
                   None \<Rightarrow> (Some v, w_holdersRight source)
                 | Some p \<Rightarrow> map_prod Some Some
                     (replaceHolders (composeArgsRight p v (opt_list (w_holdersRight source))) PLACEHOLDER)));
           argPos = (case w_argPos source of Some v \<Rightarrow> Some v | None \<Rightarrow> w_argPos data);
           ary = (if on srcBits ARY_FLAG
                  then (case w_ary data of None \<Rightarrow> w_ary source
                        | Some a \<Rightarrow> map_option (\<lambda>b. min a b) (w_ary source))
                  else w_ary data);
           arity = (case w_arity data of None \<Rightarrow> w_arity source | Some a \<Rightarrow> Some a)
         in WData (w_func source) newBits thisArg partials holders partialsRight holdersRight argPos ary arity)"

text \<open>The wrapper for complete metadata, by its flags.\<close>

definition makeWrapper :: "wfn wdata \<Rightarrow> int \<Rightarrow> jserr + wfn" where
  "makeWrapper newData arity =
     (let bits = (if arity = 0 \<and> on (w_bits newData) (CURRY_FLAG OR CURRY_RIGHT_FLAG)
                  then w_bits newData AND NOT (CURRY_FLAG OR CURRY_RIGHT_FLAG) else w_bits newData)
      in if bits = 0 \<or> bits = BIND_FLAG
         then Inr (createBaseWrapper (w_func newData) bits (w_this newData))
         else if bits = CURRY_FLAG \<or> bits = CURRY_RIGHT_FLAG
         then Inr (createCurryWrapper (w_func newData) bits arity)
         else if bits = PARTIAL_FLAG \<or> bits = (BIND_FLAG OR PARTIAL_FLAG)
         then (case w_holders newData of
             None \<Rightarrow> Inl TypeErr
           | Some h \<Rightarrow> if h = []
                       then Inr (createPartialWrapper (w_func newData) bits (w_this newData) (w_partials newData))
                       else Inr (createHybridWrapper newData))
         else Inr (createHybridWrapper newData))"

text \<open>The arguments of \<open>createWrapper\<close> as metadata, before it is merged with that of the function.\<close>

definition argData ::
  "wfn \<Rightarrow> 32 word \<Rightarrow> lval \<Rightarrow> lval list option \<Rightarrow> nat list option \<Rightarrow> jsnum list option \<Rightarrow>
     jsnum option \<Rightarrow> jsnum option \<Rightarrow> wfn wdata" where
  "argData func bits thisArg partials holders argPos ary arity =
     (let empty = (opt_list partials = []);
          bits = (if empty then bits AND NOT (PARTIAL_FLAG OR PARTIAL_RIGHT_FLAG) else bits);
          partials = (if empty then None else partials);
          holders = (if empty then None else holders);
          ary = map_option (\<lambda>n. max (toInteger (Some n)) 0) ary;
          arity = map_option (\<lambda>n. toInteger (Some n)) arity;
          right = on bits PARTIAL_RIGHT_FLAG
      in WData func bits thisArg (if right then None else partials) (if right then None else holders)
           (if right then partials else None) (if right then holders else None) argPos ary arity)"

definition set_arity :: "'f wdata \<Rightarrow> int \<Rightarrow> 'f wdata" where
  "set_arity d n = WData (w_func d) (w_bits d) (w_this d) (w_partials d) (w_holders d)
     (w_partialsRight d) (w_holdersRight d) (w_argPos d) (w_ary d) (Some n)"

definition createWrapper ::
  "wenv \<Rightarrow> wfn \<Rightarrow> 32 word \<Rightarrow> lval \<Rightarrow> lval list option \<Rightarrow> nat list option \<Rightarrow> jsnum list option \<Rightarrow>
     jsnum option \<Rightarrow> jsnum option \<Rightarrow> jserr + wfn" where
  "createWrapper e func bits thisArg partials holders argPos ary arity =
     (let isBindKey = on bits BIND_KEY_FLAG
      in if \<not> isBindKey \<and> \<not> is_function func then Inl TypeErr
         else let
           len = int (length (opt_list partials)) -
             (if opt_list partials = [] then 0 else int (length (opt_list holders)));
           newData = argData func bits thisArg partials holders argPos ary arity;
           data = (if isBindKey then None else getData e func);
           newData = (case data of Some source \<Rightarrow> mergeData newData source | None \<Rightarrow> newData);
           arity = (case w_arity newData of
               None \<Rightarrow> (if isBindKey then 0 else int (fn_length (w_func newData)))
             | Some a \<Rightarrow> max (a - len) 0);
           newData = set_arity newData arity
         in map_sum id
              (\<lambda>result. case data of Some s \<Rightarrow> baseSetData e result newData | None \<Rightarrow> setData e result newData)
              (makeWrapper newData arity))"

section \<open>Calling wrappers\<close>

text \<open>
  A wrapper calls the function wrapped, or returns a wrapper that waits for more arguments. In a call
  by \<open>new\<close> the flag is set, \<open>this\<close> is the new object and every function called is a constructor.
\<close>

datatype waction = Go lval "lval list" | Curried wfn

definition pass_this :: "wfn wdata \<Rightarrow> bool \<Rightarrow> lval \<Rightarrow> lval" where
  "pass_this d new this = (if new then this else if on (w_bits d) BIND_FLAG then w_this d else this)"

definition base_call :: "wfn wdata \<Rightarrow> bool \<Rightarrow> lval \<Rightarrow> lval list \<Rightarrow> waction" where
  "base_call d new this args = Go (pass_this d new this) args"

definition curry_call :: "wenv \<Rightarrow> wfn wdata \<Rightarrow> lval \<Rightarrow> lval \<Rightarrow> lval list \<Rightarrow> waction" where
  "curry_call e d own this args =
     (let len = int (length args);
          placeholder = placeholder_of e own;
          (args, holders) =
            (if len < 3 \<and> \<not> strict_eq (read_at args 0) placeholder \<and> \<not> strict_eq (read_at args (len - 1)) placeholder
             then (args, []) else replaceHolders args placeholder);
          len = len - int (length holders)
      in case w_arity d of
           Some arity \<Rightarrow>
             if len < arity
             then Curried (createRecurryWrapper e (w_func d) (w_bits d) placeholder LUndef args holders None None (arity - len))
             else Go this args
         | None \<Rightarrow> Go this args)"

definition partial_call :: "wfn wdata \<Rightarrow> bool \<Rightarrow> lval \<Rightarrow> lval list \<Rightarrow> waction" where
  "partial_call d new this args =
     (let partials = opt_list (w_partials d); leftLength = length partials; argsLength = length args;
          r = replicate (leftLength + argsLength) LUndef;
          r = fold (\<lambda>leftIndex r. write_at r leftIndex (partials ! leftIndex)) [0..<leftLength] r;
          r = fold (\<lambda>argsIndex r. write_at r (leftLength + argsIndex) (args ! argsIndex)) [0..<argsLength] r
      in Go (pass_this d new this) r)"

definition hybrid_call :: "wenv \<Rightarrow> wfn wdata \<Rightarrow> lval \<Rightarrow> bool \<Rightarrow> lval \<Rightarrow> lval list \<Rightarrow> waction" where
  "hybrid_call e d own new this args =
     (let bits = w_bits d;
          len = int (length args);
          args = (case w_partials d of Some p \<Rightarrow> composeArgs args p (opt_list (w_holders d)) | None \<Rightarrow> args);
          args = (case w_partialsRight d of
                    Some p \<Rightarrow> composeArgsRight args p (opt_list (w_holdersRight d)) | None \<Rightarrow> args);
          isCurry = on bits CURRY_FLAG \<or> on bits CURRY_RIGHT_FLAG;
          placeholder = placeholder_of e own;
          (args, argsHolders) = (if isCurry then replaceHolders args placeholder else (args, []));
          len = len - int (length argsHolders)
      in if isCurry \<and> (case w_arity d of Some arity \<Rightarrow> len < arity | None \<Rightarrow> False)
         then Curried (createRecurryWrapper e (w_func d) bits placeholder (w_this d) args argsHolders
                (w_argPos d) (w_ary d) (case w_arity d of Some arity \<Rightarrow> arity - len | None \<Rightarrow> 0))
         else let
           thisBinding = (if on bits BIND_FLAG then w_this d else this);
           args = (case w_argPos d of
               Some p \<Rightarrow> reorder args p
             | None \<Rightarrow> if on bits FLIP_FLAG \<and> length args > 1 then rev args else args);
           args = (case w_ary d of
               Some ary \<Rightarrow> if on bits ARY_FLAG \<and> ary < int (length args) then take (nat ary) args else args
             | None \<Rightarrow> args)
         in Go (if on bits BIND_KEY_FLAG then thisBinding else pass_this d new this) args)"

fun wrapper_call :: "wenv \<Rightarrow> wshape \<Rightarrow> wfn wdata \<Rightarrow> lval \<Rightarrow> bool \<Rightarrow> lval \<Rightarrow> lval list \<Rightarrow> waction" where
  "wrapper_call e BaseShape d own new this args = base_call d new this args"
| "wrapper_call e CurryShape d own new this args = curry_call e d own this args"
| "wrapper_call e PartialShape d own new this args = partial_call d new this args"
| "wrapper_call e HybridShape d own new this args = hybrid_call e d own new this args"

text \<open>
  The end of a chain of calls: a native function, the method \<open>k\<close> of an object, or a wrapper returned.
\<close>

datatype woutcome =
    Called nat bool lval "lval list"
  | CalledMethod lval string bool "lval list"
  | Returned wfn

lemma size_w_func: "size (w_func d) < size (Wrapper s d m ph)"
  by (cases d) simp

function call_fn :: "wenv \<Rightarrow> wfn \<Rightarrow> bool \<Rightarrow> lval \<Rightarrow> lval list \<Rightarrow> woutcome" where
  "call_fn e (WNative i n) new this args = Called i new this args"
| "call_fn e (WKey k) new this args = CalledMethod this k new args"
| "call_fn e (Wrapper s d m own) new this args = (case wrapper_call e s d own new this args of
     Go this args \<Rightarrow> call_fn e (w_func d) new this args
   | Curried f \<Rightarrow> Returned f)"
  by pat_completeness auto
termination
  by (relation "measure (\<lambda>(e, f, new, this, args). size f)") (simp_all add: size_w_func del: wfn.size)

section \<open>The functions of the library\<close>

definition lo_bind :: "wenv \<Rightarrow> wfn \<Rightarrow> lval \<Rightarrow> lval list \<Rightarrow> jserr + wfn" where
  "lo_bind e func thisArg partials =
     (if partials \<noteq> []
      then let (partials, holders) = replaceHolders partials (placeholder_of e (we_lodash e))
           in createWrapper e func (BIND_FLAG OR PARTIAL_FLAG) thisArg (Some partials) (Some holders) None None None
      else createWrapper e func BIND_FLAG thisArg (Some partials) None None None None)"

definition bindKey :: "wenv \<Rightarrow> lval \<Rightarrow> string \<Rightarrow> lval list \<Rightarrow> jserr + wfn" where
  "bindKey e object key partials =
     (if partials \<noteq> []
      then let (partials, holders) = replaceHolders partials (placeholder_of e (we_lodash e))
           in createWrapper e (WKey key) ((BIND_FLAG OR BIND_KEY_FLAG) OR PARTIAL_FLAG) object (Some partials)
                (Some holders) None None None
      else createWrapper e (WKey key) (BIND_FLAG OR BIND_KEY_FLAG) object (Some partials) None None None None)"

definition lo_partial :: "wenv \<Rightarrow> wfn \<Rightarrow> lval list \<Rightarrow> jserr + wfn" where
  "lo_partial e func partials =
     (let (partials, holders) = replaceHolders partials (placeholder_of e (we_lodash e))
      in createWrapper e func PARTIAL_FLAG LUndef (Some partials) (Some holders) None None None)"

definition partialRight :: "wenv \<Rightarrow> wfn \<Rightarrow> lval list \<Rightarrow> jserr + wfn" where
  "partialRight e func partials =
     (let (partials, holders) = replaceHolders partials (placeholder_of e (we_lodash e))
      in createWrapper e func PARTIAL_RIGHT_FLAG LUndef (Some partials) (Some holders) None None None)"

definition lo_curry :: "wenv \<Rightarrow> wfn \<Rightarrow> jsnum option \<Rightarrow> bool \<Rightarrow> jserr + wfn" where
  "lo_curry e func arity guarded =
     map_sum id (\<lambda>result. set_placeholder result (placeholder_of e (we_lodash e)))
       (createWrapper e func CURRY_FLAG LUndef None None None None (if guarded then None else arity))"

definition curryRight :: "wenv \<Rightarrow> wfn \<Rightarrow> jsnum option \<Rightarrow> bool \<Rightarrow> jserr + wfn" where
  "curryRight e func arity guarded =
     map_sum id (\<lambda>result. set_placeholder result (placeholder_of e (we_lodash e)))
       (createWrapper e func CURRY_RIGHT_FLAG LUndef None None None None (if guarded then None else arity))"

definition lo_ary :: "wenv \<Rightarrow> wfn \<Rightarrow> jsnum option \<Rightarrow> bool \<Rightarrow> jserr + wfn" where
  "lo_ary e func n guarded =
     (let n = (if guarded then None else n);
          n = (case n of None \<Rightarrow> Some (num_int (int (fn_length func))) | Some m \<Rightarrow> Some m)
      in createWrapper e func ARY_FLAG LUndef None None None n None)"

definition flip :: "wenv \<Rightarrow> wfn \<Rightarrow> jserr + wfn" where
  "flip e func = createWrapper e func FLIP_FLAG LUndef None None None None None"

definition rearg :: "wenv \<Rightarrow> wfn \<Rightarrow> jsnum list \<Rightarrow> jserr + wfn" where
  "rearg e func indexes = createWrapper e func REARG_FLAG LUndef None None (Some indexes) None None"

end
