(* ===== verification/LodashWrapperLaws.thy ===== *)
theory LodashWrapperLaws
  imports LodashWrappers
begin

text \<open>
  What the wrappers of \<open>LodashWrappers\<close> do. A list of partial arguments with placeholders stands for
  a pattern, a list of values and holes; composing arguments is filling the pattern.
\<close>

section \<open>Patterns\<close>

type_synonym pattern = "lval option list"

definition encode :: "pattern \<Rightarrow> lval list" where
  "encode pat = map (\<lambda>x. case x of Some v \<Rightarrow> v | None \<Rightarrow> PLACEHOLDER) pat"

definition holes :: "pattern \<Rightarrow> nat list" where
  "holes pat = filter (\<lambda>i. pat ! i = None) [0..<length pat]"

fun fill_pat :: "pattern \<Rightarrow> lval list \<Rightarrow> lval list" where
  "fill_pat [] as = as"
| "fill_pat (Some v # pat) as = v # fill_pat pat as"
| "fill_pat (None # pat) [] = LUndef # fill_pat pat []"
| "fill_pat (None # pat) (a # as) = a # fill_pat pat as"

definition fill_right :: "pattern \<Rightarrow> lval list \<Rightarrow> lval list" where
  "fill_right pat as =
     (let n = length as - length (holes pat) in take n as @ fill_pat pat (drop n as))"

text \<open>The pattern arguments stand for, with the placeholder as hole.\<close>

definition decode :: "lval \<Rightarrow> lval list \<Rightarrow> pattern" where
  "decode ph = map (\<lambda>v. if strict_eq v ph then None else Some v)"

text \<open>What the pattern itself becomes, without the arguments left over.\<close>

definition filled :: "pattern \<Rightarrow> lval list \<Rightarrow> lval list" where
  "filled pat as = take (length pat) (fill_pat pat as)"

lemma encode_simps [simp]:
  "encode [] = []" "encode (x # pat) = (case x of Some v \<Rightarrow> v | None \<Rightarrow> PLACEHOLDER) # encode pat"
  "encode (p @ q) = encode p @ encode q" "length (encode pat) = length pat"
  by (simp_all add: encode_def)

lemma holes_snoc: "holes (pat @ [x]) = holes pat @ (if x = None then [length pat] else [])"
proof -
  have "filter (\<lambda>i. (pat @ [x]) ! i = None) [0..<length pat] = filter (\<lambda>i. pat ! i = None) [0..<length pat]"
    by (rule filter_cong) (auto simp: nth_append)
  then show ?thesis by (simp add: holes_def)
qed

lemma holes_Nil [simp]: "holes [] = []"
  by (simp add: holes_def)

lemma holes_Cons: "holes (x # pat) = (if x = None then [0] else []) @ map Suc (holes pat)"
  by (induction pat rule: rev_induct) (simp_all add: holes_snoc flip: append_Cons, simp_all add: holes_def)

lemma holes_bound: "h \<in> set (holes pat) \<Longrightarrow> h < length pat"
  by (simp add: holes_def)

lemma length_holes: "length (holes pat) = length (filter (\<lambda>x. x = None) pat)"
  by (induction pat rule: rev_induct) (simp_all add: holes_snoc)

lemma length_fill: "length (fill_pat pat as) = length pat + (length as - length (holes pat))"
  by (induction pat as rule: fill_pat.induct) (simp_all add: length_holes)

lemma fill_split: "fill_pat pat as = filled pat as @ drop (length (holes pat)) as"
  unfolding filled_def by (induction pat as rule: fill_pat.induct) (simp_all add: length_holes)

lemma length_filled [simp]: "length (filled pat as) = length pat"
  by (simp add: filled_def length_fill)

lemma filled_simps [simp]:
  "filled [] as = []" "filled (Some v # pat) as = v # filled pat as"
  "filled (None # pat) (a # as) = a # filled pat as" "filled (None # pat) [] = LUndef # filled pat []"
  by (simp_all add: filled_def)

lemma read_at_nth: "i < length xs \<Longrightarrow> read_at xs (int i) = xs ! i"
  by (simp add: read_at_def)

lemma read_at_drop: "read_at (drop k xs) (int i) = read_at xs (int (k + i))"
  by (auto simp: read_at_def nat_add_distrib)

lemma filled_snoc:
  "filled (pat @ [x]) as = filled pat as @ [case x of Some v \<Rightarrow> v | None \<Rightarrow> read_at as (int (length (holes pat)))]"
proof (induction pat as rule: fill_pat.induct)
  case (1 as)
  then show ?case by (cases x; cases as) (simp_all add: read_at_def)
next
  case (4 pat a as)
  have "read_at (a # as) (1 + int n) = read_at as (int n)" for n
    using read_at_drop [of 1 "a # as" n] by simp
  with 4 show ?case by (simp add: length_holes split: option.splits)
qed (simp_all add: length_holes read_at_def split: option.splits)

lemma filled_reads:
  "\<forall>i < length (holes pat). read_at as (int i) = read_at bs (int i) \<Longrightarrow> filled pat as = filled pat bs"
  by (induction pat rule: rev_induct) (auto simp: filled_snoc holes_snoc split: option.splits if_splits)

section \<open>Composing is filling\<close>

lemma length_write_at: "i < length r \<Longrightarrow> length (write_at r i v) = length r"
  by (simp add: write_at_def)

lemma write_at_middle: "write_at (p @ x # q) (length p) v = p @ v # q"
  by (simp add: write_at_def)

text \<open>A loop that writes consecutive elements.\<close>

lemma write_run:
  "n \<le> length q \<Longrightarrow> fold (\<lambda>i r. write_at r (length p + i) (f i)) [0..<n] (p @ q) = p @ map f [0..<n] @ drop n q"
proof (induction n)
  case (Suc n)
  have "p @ map f [0..<n] @ drop n q = (p @ map f [0..<n]) @ q ! n # drop (Suc n) q"
    using Suc.prems by (simp add: Cons_nth_drop_Suc)
  moreover have "length p + n = length (p @ map f [0..<n])" by simp
  ultimately have "write_at (p @ map f [0..<n] @ drop n q) (length p + n) (f n) =
      (p @ map f [0..<n]) @ f n # drop (Suc n) q" using write_at_middle by metis
  with Suc show ?case by simp
qed simp

text \<open>A loop that writes the holes.\<close>

lemma write_holes:
  "fold (\<lambda>i r. write_at r (length p + holes pat ! i) (f i)) [0..<length (holes pat)] (p @ encode pat @ q) =
     p @ filled pat (map f [0..<length (holes pat)]) @ q"
proof (induction pat arbitrary: q rule: rev_induct)
  case (snoc x pat)
  let ?n = "length (holes pat)"
  let ?step = "\<lambda>pat i r. write_at r (length p + holes pat ! i) (f i)"
  have "fold (?step (pat @ [x])) [0..<?n] r = fold (?step pat) [0..<?n] r" for r
    by (rule fold_cong) (simp_all add: holes_snoc nth_append)
  moreover have "fold (?step pat) [0..<?n] (p @ encode pat @ encode [x] @ q) =
      p @ filled pat (map f [0..<?n]) @ encode [x] @ q" by (rule snoc.IH)
  ultimately have run: "fold (?step (pat @ [x])) [0..<?n] (p @ encode (pat @ [x]) @ q) =
      (p @ filled pat (map f [0..<?n])) @ encode [x] @ q" by simp
  show ?case
  proof (cases x)
    case (Some v)
    then show ?thesis using run by (simp add: holes_snoc filled_snoc)
  next
    case None
    have short: "filled pat (map f [0..<Suc ?n]) = filled pat (map f [0..<?n])"
      by (rule filled_reads) (simp add: read_at_nth nth_append)
    have "write_at ((p @ filled pat (map f [0..<?n])) @ encode [x] @ q) (length p + length pat) (f ?n) =
        (p @ filled pat (map f [0..<?n])) @ f ?n # q"
      using None write_at_middle [of "p @ filled pat (map f [0..<?n])" PLACEHOLDER q "f ?n"] by simp
    then show ?thesis using run None short
      by (simp add: holes_snoc filled_snoc nth_append read_at_def)
  qed
qed simp

text \<open>The arguments that fill the holes, and those left over.\<close>

lemma filled_args: "filled pat (map (\<lambda>i. read_at as (int i)) [0..<length (holes pat)]) = filled pat as"
  by (rule filled_reads) (simp add: read_at_nth)

lemma rest_args: "map (\<lambda>i. read_at as (int (n + i))) [0..<length as - n] = drop n as"
  by (rule nth_equalityI) (simp_all add: read_at_nth del: of_nat_add)

lemma first_args: "n \<le> length as \<Longrightarrow> map (\<lambda>i. read_at as (int i)) [0..<n] = take n as"
  by (rule nth_equalityI) (simp_all add: read_at_nth)

lemma copy_run: "map ((!) xs) [0..<length xs] = xs"
  by (rule map_nth)

lemma composeArgs_fill: "composeArgs args (encode pat) (holes pat) = fill_pat pat args"
proof -
  let ?h = "length (holes pat)" and ?n = "length args - length (holes pat)"
  have "fold (\<lambda>i r. write_at r i (encode pat ! i)) [0..<length pat] (replicate (length pat + ?n) LUndef) =
      encode pat @ replicate ?n LUndef"
    using write_run [of "length pat" "replicate (length pat + ?n) LUndef" "[]" "(!) (encode pat)"]
      copy_run [of "encode pat"] by simp
  moreover have "fold (\<lambda>i r. write_at r (holes pat ! i) (read_at args (int i))) [0..<?h]
      (encode pat @ replicate ?n LUndef) = filled pat args @ replicate ?n LUndef"
    using write_holes [of "[]" pat "\<lambda>i. read_at args (int i)"] by (simp add: filled_args)
  moreover have "fold (\<lambda>i r. write_at r (length pat + i) (read_at args (int (?h + i)))) [0..<?n]
      (filled pat args @ replicate ?n LUndef) = filled pat args @ drop ?h args"
    using write_run [of ?n "replicate ?n LUndef" "filled pat args" "\<lambda>i. read_at args (int (?h + i))"]
    by (simp add: rest_args del: of_nat_add)
  ultimately show ?thesis by (simp add: composeArgs_def fill_split [of pat args] Let_def)
qed

lemma composeArgsRight_fill: "composeArgsRight args (encode pat) (holes pat) = fill_right pat args"
proof -
  let ?h = "length (holes pat)" and ?n = "length args - length (holes pat)"
  have "fold (\<lambda>i r. write_at r i (read_at args (int i))) [0..<?n] (replicate (?n + length pat) LUndef) =
      take ?n args @ replicate (length pat) LUndef"
    using write_run [of ?n "replicate (?n + length pat) LUndef" "[]" "\<lambda>i. read_at args (int i)"]
    by (simp add: first_args)
  moreover have "fold (\<lambda>i r. write_at r (?n + i) (encode pat ! i)) [0..<length pat]
      (take ?n args @ replicate (length pat) LUndef) = take ?n args @ encode pat"
    using write_run [of "length pat" "replicate (length pat) LUndef" "take ?n args" "(!) (encode pat)"]
      copy_run [of "encode pat"] by simp
  moreover have "fold (\<lambda>i r. write_at r (?n + holes pat ! i) (read_at args (int (?n + i)))) [0..<?h]
      (take ?n args @ encode pat) = take ?n args @ filled pat (drop ?n args)"
    using write_holes [of "take ?n args" pat "\<lambda>i. read_at args (int (?n + i))" "[]"] filled_args [of pat "drop ?n args"]
    by (simp add: read_at_drop del: of_nat_add)
  moreover have "drop ?h (drop ?n args) = []" by simp
  ultimately show ?thesis
    using fill_split [of pat "drop ?n args"] by (simp add: composeArgsRight_def fill_right_def Let_def)
qed

lemma decode_simps [simp]: "length (decode ph xs) = length xs" "decode ph [] = []"
  "decode ph (xs @ ys) = decode ph xs @ decode ph ys"
  "decode ph (x # xs) = (if strict_eq x ph then None else Some x) # decode ph xs"
  by (simp_all add: decode_def)

lemma replaceHolders_decode: "replaceHolders xs ph = (encode (decode ph xs), holes (decode ph xs))"
proof -
  have "n \<le> length xs \<Longrightarrow> fold (\<lambda>index (array, result).
        if strict_eq (array ! index) ph then (write_at array index PLACEHOLDER, result @ [index]) else (array, result))
      [0..<n] (xs, []) = (encode (decode ph (take n xs)) @ drop n xs, holes (decode ph (take n xs)))" for n
  proof (induction n)
    case (Suc n)
    have d: "drop n xs = xs ! n # drop (Suc n) xs" using Suc.prems by (simp add: Cons_nth_drop_Suc)
    have len: "length (encode (decode ph (take n xs))) = n" using Suc.prems by simp
    then have nth: "(encode (decode ph (take n xs)) @ drop n xs) ! n = xs ! n"
      using d by (simp add: nth_append)
    have "write_at (encode (decode ph (take n xs)) @ xs ! n # drop (Suc n) xs) n PLACEHOLDER =
        encode (decode ph (take n xs)) @ PLACEHOLDER # drop (Suc n) xs"
      using write_at_middle [of "encode (decode ph (take n xs))"] len by simp
    then show ?case using Suc d nth len by (simp add: take_Suc_conv_app_nth holes_snoc)
  qed simp
  from this [of "length xs"] show ?thesis by (simp add: replaceHolders_def)
qed

section \<open>Composing patterns\<close>

fun compose_pat :: "pattern \<Rightarrow> pattern \<Rightarrow> pattern" where
  "compose_pat [] q = q"
| "compose_pat (Some v # p) q = Some v # compose_pat p q"
| "compose_pat (None # p) [] = Some LUndef # compose_pat p []"
| "compose_pat (None # p) (x # q) = x # compose_pat p q"

definition compose_right :: "pattern \<Rightarrow> pattern \<Rightarrow> pattern" where
  "compose_right p q = (let n = length q - length (holes p) in take n q @ compose_pat p (drop n q))"

text \<open>No value of the pattern is the internal placeholder.\<close>

definition clean :: "pattern \<Rightarrow> bool" where
  "clean pat \<longleftrightarrow> Some PLACEHOLDER \<notin> set pat"

lemma clean_simps [simp]: "clean []" "clean (x # pat) \<longleftrightarrow> x \<noteq> Some PLACEHOLDER \<and> clean pat"
  "clean (p @ q) \<longleftrightarrow> clean p \<and> clean q"
  by (auto simp: clean_def)

lemma clean_take: "clean p \<Longrightarrow> clean (take n p)" and clean_drop: "clean p \<Longrightarrow> clean (drop n p)"
  unfolding clean_def by (meson in_set_takeD in_set_dropD)+

lemma PLACEHOLDER_neq [simp]: "PLACEHOLDER \<noteq> LUndef" "LUndef \<noteq> PLACEHOLDER" "\<not> is_NaN PLACEHOLDER"
  by (simp_all add: PLACEHOLDER_def is_NaN_def)

lemma decode_encode: "clean pat \<Longrightarrow> decode PLACEHOLDER (encode pat) = pat"
  by (induction pat) (auto simp: strict_eq_def split: option.splits)

lemma clean_decode: "PLACEHOLDER \<notin> set xs \<or> ph = PLACEHOLDER \<Longrightarrow> clean (decode ph xs)"
  by (induction xs) (auto simp: strict_eq_def)

lemma clean_compose: "clean p \<Longrightarrow> clean q \<Longrightarrow> clean (compose_pat p q)"
  by (induction p q rule: compose_pat.induct) auto

lemma fill_encode: "clean p \<Longrightarrow> clean q \<Longrightarrow> decode PLACEHOLDER (fill_pat p (encode q)) = compose_pat p q"
  by (induction p q rule: compose_pat.induct)
    (auto simp: decode_encode strict_eq_def split: option.splits)

lemma length_holes_le: "length (holes pat) \<le> length pat"
  by (simp add: length_holes)

lemma holes_append_length: "length (holes (p @ q)) = length (holes p) + length (holes q)"
  by (simp add: length_holes)

lemma encode_take: "take n (encode q) = encode (take n q)" and encode_drop: "drop n (encode q) = encode (drop n q)"
  by (simp_all add: encode_def take_map drop_map)

lemma fill_right_encode:
  "clean p \<Longrightarrow> clean q \<Longrightarrow> decode PLACEHOLDER (fill_right p (encode q)) = compose_right p q"
  by (simp add: fill_right_def compose_right_def Let_def encode_take encode_drop decode_encode fill_encode
      clean_take clean_drop)

lemma clean_compose_right: "clean p \<Longrightarrow> clean q \<Longrightarrow> clean (compose_right p q)"
  by (simp add: compose_right_def Let_def clean_compose clean_take clean_drop)

lemma fill_compose: "length (holes p) \<le> length q \<Longrightarrow> fill_pat (compose_pat p q) as = fill_pat p (fill_pat q as)"
proof (induction p q arbitrary: as rule: compose_pat.induct)
  case (4 p x q)
  then have IH: "fill_pat (compose_pat p q) bs = fill_pat p (fill_pat q bs)" for bs by (simp add: holes_Cons)
  show ?case by (cases x; cases as) (simp_all add: IH)
qed (simp_all add: holes_Cons)

lemma holes_compose: "length (holes p) = length q \<Longrightarrow> length (holes (compose_pat p q)) = length (holes q)"
  by (induction p q rule: compose_pat.induct) (simp_all add: length_holes)

lemma fill_append_pat: "fill_pat (p @ q) as = filled p as @ fill_pat q (drop (length (holes p)) as)"
  by (induction p as rule: fill_pat.induct) (simp_all add: length_holes)

lemma fill_append_args: "length (holes p) \<le> length as \<Longrightarrow> fill_pat p (as @ bs) = fill_pat p as @ bs"
  by (induction p as rule: fill_pat.induct) (simp_all add: length_holes)

lemma length_fill_right: "length (fill_right p as) = length as - length (holes p) + length p"
  by (simp add: fill_right_def Let_def length_fill)

lemma fill_right_suffix: "length ys = length (holes p) \<Longrightarrow> fill_right p (xs @ ys) = xs @ fill_pat p ys"
  by (simp add: fill_right_def Let_def)

lemma fill_compose_right:
  assumes "length (holes p) \<le> length q"
  shows "fill_right (compose_right p q) as = fill_right p (fill_right q as)"
proof -
  let ?k = "length q - length (holes p)" and ?n = "length as - length (holes q)"
  let ?bs = "drop ?n as" and ?a = "take ?k q" and ?b = "drop ?k q"
  have b: "length ?b = length (holes p)" using assms by simp
  have q: "?a @ ?b = q" by simp
  have "length (holes (compose_right p q)) = length (holes (?a @ ?b))"
    unfolding compose_right_def Let_def holes_append_length using holes_compose [of p ?b] b by simp
  then have "length (holes (compose_right p q)) = length (holes q)" by (simp only: q)
  then have "fill_right (compose_right p q) as = take ?n as @ fill_pat (?a @ compose_pat p ?b) ?bs"
    by (simp add: fill_right_def compose_right_def Let_def)
  also have "\<dots> = take ?n as @ filled ?a ?bs @ fill_pat p (fill_pat ?b (drop (length (holes ?a)) ?bs))"
    using fill_compose [of p ?b] b by (simp add: fill_append_pat)
  also have "\<dots> = fill_right p (fill_right q as)"
  proof -
    have "fill_pat q ?bs = filled ?a ?bs @ fill_pat ?b (drop (length (holes ?a)) ?bs)"
      using fill_append_pat [of ?a ?b] q by simp
    moreover have "length (fill_pat ?b (drop (length (holes ?a)) ?bs)) = length (holes p)"
    proof -
      have "length ?bs \<le> length (holes ?a) + length (holes ?b)"
        using holes_append_length [of ?a ?b] unfolding q by simp
      then have "length (drop (length (holes ?a)) ?bs) - length (holes ?b) = 0" by simp
      then show ?thesis unfolding length_fill b by simp
    qed
    moreover have "fill_right q as = take ?n as @ fill_pat q ?bs" by (simp add: fill_right_def Let_def)
    ultimately show ?thesis
      using fill_right_suffix [of "fill_pat ?b (drop (length (holes ?a)) ?bs)" p "take ?n as @ filled ?a ?bs"] by simp
  qed
  finally show ?thesis .
qed

lemma fill_commute:
  assumes "length (holes p) + length (holes q) \<le> length as"
  shows "fill_right q (fill_pat p as) = fill_pat p (fill_right q as)"
proof -
  let ?n = "length as - length (holes q)"
  have "fill_pat p as = fill_pat p (take ?n as) @ drop ?n as"
    using fill_append_args [of p "take ?n as" "drop ?n as"] assms by simp
  moreover have "length (fill_pat p as) - length (holes q) = length (fill_pat p (take ?n as))"
    using assms by (simp add: length_fill)
  ultimately have "fill_right q (fill_pat p as) = fill_pat p (take ?n as) @ fill_pat q (drop ?n as)"
    by (simp add: fill_right_def Let_def)
  then show ?thesis
    using fill_append_args [of p "take ?n as" "fill_pat q (drop ?n as)"] assms by (simp add: fill_right_def Let_def)
qed

section \<open>Flags\<close>

lemma on_or: "on (a OR b) f \<longleftrightarrow> on a f \<or> on b f"
  by (auto simp: on_def bit.conj_disj_distrib2 or_eq_0_iff)

lemma on_or_right: "on a (f OR g) \<longleftrightarrow> on a f \<or> on a g"
  by (auto simp: on_def bit.conj_disj_distrib or_eq_0_iff)

lemma on_0 [simp]: "\<not> on 0 f"
  by (simp add: on_def)

text \<open>Flags that are merged whatever their combination: with \<open>ary\<close> there are no partial arguments.\<close>

lemma common_ary:
  assumes "a < (BIND_FLAG OR BIND_KEY_FLAG OR ARY_FLAG)" and "on a ARY_FLAG"
  shows "\<not> on a PARTIAL_FLAG \<and> \<not> on a PARTIAL_RIGHT_FLAG"
proof -
  have "a div 128 \<noteq> 0"
  proof
    assume "a div 128 = 0"
    then have "\<not> bit a 7" unfolding bit_iff_odd by simp
    then have "a AND 2 ^ 7 = 0" by (simp only: and_exp_eq_0_iff_not_bit not_False_eq_True)
    moreover have "(2 :: 32 word) ^ 7 = ARY_FLAG" by simp
    ultimately show False using assms(2) unfolding on_def by metis
  qed
  then have "unat a div 128 \<noteq> 0" by (simp add: unat_div word_unat_eq_iff)
  then have "128 \<le> unat a" by simp
  moreover have "unat a < 131" using assms(1) by (simp add: word_less_nat_alt)
  ultimately have "unat a = 128 \<or> unat a = 129 \<or> unat a = 130" by linarith
  then have "a = 128 \<or> a = 129 \<or> a = 130" by (auto simp: word_unat_eq_iff)
  then show ?thesis by (auto simp: on_def)
qed

text \<open>The flags of the wrappers that only compose arguments.\<close>

definition plain_bits :: "32 word \<Rightarrow> bool" where
  "plain_bits bits \<longleftrightarrow> \<not> on bits BIND_KEY_FLAG \<and> \<not> on bits CURRY_FLAG \<and> \<not> on bits CURRY_RIGHT_FLAG \<and>
     \<not> on bits REARG_FLAG \<and> \<not> on bits FLIP_FLAG"

lemma plain_bits_or: "plain_bits (a OR b) \<longleftrightarrow> plain_bits a \<and> plain_bits b"
  by (auto simp: plain_bits_def on_or)

lemma plain_mergeable:
  assumes "plain_bits (w_bits data)" and "mergeable data source"
  shows "w_bits data OR w_bits source < (BIND_FLAG OR BIND_KEY_FLAG OR ARY_FLAG)"
proof -
  have "w_bits data \<noteq> CURRY_FLAG" "w_bits data \<noteq> REARG_FLAG"
    using assms(1) by (auto simp: plain_bits_def on_def)
  with assms(2) show ?thesis by (simp add: mergeable_def Let_def)
qed

section \<open>Metadata that composes arguments\<close>

definition plain :: "'f wdata \<Rightarrow> pattern option \<Rightarrow> pattern option \<Rightarrow> bool" where
  "plain d l r \<longleftrightarrow> plain_bits (w_bits d) \<and> w_argPos d = None \<and>
     w_partials d = map_option encode l \<and> w_holders d = map_option holes l \<and>
     w_partialsRight d = map_option encode r \<and> w_holdersRight d = map_option holes r \<and>
     pred_option clean l \<and> pred_option clean r \<and>
     (on (w_bits d) PARTIAL_FLAG \<longleftrightarrow> l \<noteq> None) \<and> (on (w_bits d) PARTIAL_RIGHT_FLAG \<longleftrightarrow> r \<noteq> None) \<and>
     (on (w_bits d) ARY_FLAG \<longleftrightarrow> w_ary d \<noteq> None)"

definition opt_fill :: "pattern option \<Rightarrow> lval list \<Rightarrow> lval list" where
  "opt_fill l as = (case l of None \<Rightarrow> as | Some p \<Rightarrow> fill_pat p as)"

definition opt_fill_right :: "pattern option \<Rightarrow> lval list \<Rightarrow> lval list" where
  "opt_fill_right r as = (case r of None \<Rightarrow> as | Some p \<Rightarrow> fill_right p as)"

definition trim :: "int option \<Rightarrow> lval list \<Rightarrow> lval list" where
  "trim n as = (case n of None \<Rightarrow> as | Some k \<Rightarrow> take (nat k) as)"

definition meaning :: "'f wdata \<Rightarrow> pattern option \<Rightarrow> pattern option \<Rightarrow> lval list \<Rightarrow> lval list" where
  "meaning d l r as = trim (w_ary d) (opt_fill_right r (opt_fill l as))"

lemma plain_call:
  assumes "plain d l r"
  shows "hybrid_call e d own new this as = Go (pass_this d new this) (meaning d l r as)"
proof -
  have flags: "\<not> on (w_bits d) CURRY_FLAG" "\<not> on (w_bits d) CURRY_RIGHT_FLAG" "\<not> on (w_bits d) FLIP_FLAG"
    "\<not> on (w_bits d) BIND_KEY_FLAG" and pos: "w_argPos d = None"
    and ary: "on (w_bits d) ARY_FLAG \<longleftrightarrow> w_ary d \<noteq> None"
    using assms by (auto simp: plain_def plain_bits_def)
  have left: "(case w_partials d of Some p \<Rightarrow> composeArgs as p (opt_list (w_holders d)) | None \<Rightarrow> as) = opt_fill l as"
    using assms by (cases l) (simp_all add: plain_def opt_list_def opt_fill_def composeArgs_fill)
  have right: "(case w_partialsRight d of Some p \<Rightarrow> composeArgsRight bs p (opt_list (w_holdersRight d)) | None \<Rightarrow> bs) =
      opt_fill_right r bs" for bs
    using assms by (cases r) (simp_all add: plain_def opt_list_def opt_fill_right_def composeArgsRight_fill)
  have "hybrid_call e d own new this as = (let bs = opt_fill_right r (opt_fill l as) in
      Go (pass_this d new this) (case w_ary d of
               Some ary \<Rightarrow> if on (w_bits d) ARY_FLAG \<and> ary < int (length bs) then take (nat ary) bs else bs
             | None \<Rightarrow> bs))"
    unfolding hybrid_call_def Let_def left right pos option.case by (simp add: flags)
  then show ?thesis using ary by (auto simp: meaning_def trim_def Let_def split: option.splits)
qed

fun merge_with :: "(pattern \<Rightarrow> pattern \<Rightarrow> pattern) \<Rightarrow> pattern option \<Rightarrow> pattern option \<Rightarrow> pattern option" where
  "merge_with f None q = q"
| "merge_with f (Some p) None = Some p"
| "merge_with f (Some p) (Some q) = Some (f p q)"

lemma merge_with_None [simp]: "merge_with f p None = p"
  by (cases p) simp_all

lemma clean_merge: "pred_option clean p \<Longrightarrow> pred_option clean q \<Longrightarrow> pred_option clean (merge_with compose_pat p q)"
  "pred_option clean p \<Longrightarrow> pred_option clean q \<Longrightarrow> pred_option clean (merge_with compose_right p q)"
  by (cases p; cases q; simp add: clean_compose clean_compose_right)+

lemma merge_plain:
  assumes o: "plain data lo ro" and i: "plain source li ri" and m: "mergeable data source"
  shows "plain (mergeData data source) (merge_with compose_pat li lo) (merge_with compose_right ri ro) \<and>
    w_func (mergeData data source) = w_func source \<and>
    pass_this (mergeData data source) new this = pass_this source new (pass_this data new this) \<and>
    w_ary (mergeData data source) = (if w_ary source = None then w_ary data
      else if w_ary data = None then w_ary source else Some (min (the (w_ary data)) (the (w_ary source))))"
proof -
  let ?d = "mergeData data source"
  have left: "(case w_partials source of
               None \<Rightarrow> (w_partials data, w_holders data)
             | Some v \<Rightarrow> (case w_partials data of
                   None \<Rightarrow> (Some v, w_holders source)
                 | Some p \<Rightarrow> map_prod Some Some
                     (replaceHolders (composeArgs p v (opt_list (w_holders source))) PLACEHOLDER))) =
      (map_option encode (merge_with compose_pat li lo), map_option holes (merge_with compose_pat li lo))"
    using o i by (cases li; cases lo)
      (simp_all add: plain_def opt_list_def composeArgs_fill replaceHolders_decode fill_encode)
  have right: "(case w_partialsRight source of
               None \<Rightarrow> (w_partialsRight data, w_holdersRight data)
             | Some v \<Rightarrow> (case w_partialsRight data of
                   None \<Rightarrow> (Some v, w_holdersRight source)
                 | Some p \<Rightarrow> map_prod Some Some
                     (replaceHolders (composeArgsRight p v (opt_list (w_holdersRight source))) PLACEHOLDER))) =
      (map_option encode (merge_with compose_right ri ro), map_option holes (merge_with compose_right ri ro))"
    using o i by (cases ri; cases ro)
      (simp_all add: plain_def opt_list_def composeArgsRight_fill replaceHolders_decode fill_right_encode)
  have pos: "w_argPos source = None" "w_argPos data = None" using o i by (simp_all add: plain_def)
  have ary: "on (w_bits source) ARY_FLAG \<longleftrightarrow> w_ary source \<noteq> None" "on (w_bits data) ARY_FLAG \<longleftrightarrow> w_ary data \<noteq> None"
    using o i by (simp_all add: plain_def)
  have d: "w_func ?d = w_func source" "w_argPos ?d = None"
    "w_partials ?d = map_option encode (merge_with compose_pat li lo)"
    "w_holders ?d = map_option holes (merge_with compose_pat li lo)"
    "w_partialsRight ?d = map_option encode (merge_with compose_right ri ro)"
    "w_holdersRight ?d = map_option holes (merge_with compose_right ri ro)"
    "w_this ?d = (if on (w_bits source) BIND_FLAG then w_this source else w_this data)"
    "w_ary ?d = (if w_ary source = None then w_ary data
      else if w_ary data = None then w_ary source else Some (min (the (w_ary data)) (the (w_ary source))))"
    using m ary unfolding mergeData_def Let_def left right by (auto simp: pos split: option.splits)
  have bits: "\<exists>c. (c = 0 \<or> c = CURRY_BOUND_FLAG) \<and> w_bits ?d = (w_bits data OR w_bits source) OR c"
    using m unfolding mergeData_def Let_def left right
    by (cases "on (w_bits source) BIND_FLAG"; cases "on (w_bits data) BIND_FLAG") auto
  then have on: "on (w_bits ?d) f \<longleftrightarrow> on (w_bits data) f \<or> on (w_bits source) f" if "\<not> on CURRY_BOUND_FLAG f" for f
    using that by (auto simp: on_or)
  have plain_bits: "plain_bits (w_bits ?d)"
    using o i by (simp add: plain_def plain_bits_def on on_def [of CURRY_BOUND_FLAG])
  have "on (w_bits ?d) PARTIAL_FLAG \<longleftrightarrow> merge_with compose_pat li lo \<noteq> None"
    using o i by (cases li; cases lo) (simp_all add: plain_def on on_def [of CURRY_BOUND_FLAG])
  moreover have "on (w_bits ?d) PARTIAL_RIGHT_FLAG \<longleftrightarrow> merge_with compose_right ri ro \<noteq> None"
    using o i by (cases ri; cases ro) (simp_all add: plain_def on on_def [of CURRY_BOUND_FLAG])
  moreover have "on (w_bits ?d) ARY_FLAG \<longleftrightarrow> w_ary ?d \<noteq> None"
    using ary by (simp add: d on on_def [of CURRY_BOUND_FLAG])
  moreover have "pred_option clean (merge_with compose_pat li lo)" "pred_option clean (merge_with compose_right ri ro)"
    using o i by (simp_all add: plain_def clean_merge)
  ultimately have "plain ?d (merge_with compose_pat li lo) (merge_with compose_right ri ro)"
    unfolding plain_def using plain_bits d(2-6) by simp
  moreover have "pass_this ?d new this = pass_this source new (pass_this data new this)"
    by (simp add: pass_this_def d on on_def [of CURRY_BOUND_FLAG])
  ultimately show ?thesis using d by simp
qed

text \<open>
  When merging is nesting: the outer partial arguments must fill every hole of the inner ones, and
  there must be arguments for the holes on both sides.
\<close>

definition room :: "pattern option \<Rightarrow> pattern option \<Rightarrow> pattern option \<Rightarrow> pattern option \<Rightarrow> nat \<Rightarrow> bool" where
  "room li ri lo ro n \<longleftrightarrow>
     (case (li, lo) of (Some p, Some q) \<Rightarrow> length (holes p) \<le> length q | _ \<Rightarrow> True) \<and>
     (case (ri, ro) of (Some p, Some q) \<Rightarrow> length (holes p) \<le> length q | _ \<Rightarrow> True) \<and>
     (case (li, ro) of (Some p, Some q) \<Rightarrow> length (holes p) + length (holes q) \<le> n | _ \<Rightarrow> True)"

lemma opt_fill_merge:
  assumes "room li ri lo ro (length (opt_fill lo as))"
  shows "opt_fill_right (merge_with compose_right ri ro) (opt_fill (merge_with compose_pat li lo) as) =
    opt_fill_right ri (opt_fill li (opt_fill_right ro (opt_fill lo as)))"
proof -
  have "opt_fill (merge_with compose_pat li lo) as = opt_fill li (opt_fill lo as)"
    using assms by (cases li; cases lo) (simp_all add: opt_fill_def room_def fill_compose)
  moreover have "opt_fill_right (merge_with compose_right ri ro) bs = opt_fill_right ri (opt_fill_right ro bs)" for bs
    using assms by (cases ri; cases ro) (simp_all add: opt_fill_right_def room_def fill_compose_right)
  moreover have "opt_fill_right ro (opt_fill li (opt_fill lo as)) = opt_fill li (opt_fill_right ro (opt_fill lo as))"
    using assms by (cases li; cases ro) (simp_all add: opt_fill_def opt_fill_right_def room_def fill_commute)
  ultimately show ?thesis by simp
qed

lemma take_min: "take (nat (min a b)) as = take (nat b) (take (nat a) as)"
proof -
  have "nat (min a b) = min (nat b) (nat a)" by linarith
  then show ?thesis by (simp only: take_take)
qed

lemma meaning_merge:
  assumes o: "plain data lo ro" and i: "plain source li ri" and m: "mergeable data source"
    and room: "room li ri lo ro (length (opt_fill lo as))"
  shows "meaning (mergeData data source) (merge_with compose_pat li lo) (merge_with compose_right ri ro) as =
    meaning source li ri (meaning data lo ro as)"
proof -
  let ?d = "mergeData data source" and ?bits = "w_bits data OR w_bits source"
  have ary: "w_ary ?d = (if w_ary source = None then w_ary data
      else if w_ary data = None then w_ary source else Some (min (the (w_ary data)) (the (w_ary source))))"
    using merge_plain [OF o i m, of True LUndef] by blast
  show ?thesis
  proof (cases "w_ary data = None \<and> w_ary source = None")
    case True
    then have "w_ary ?d = None" using ary by simp
    then show ?thesis using opt_fill_merge [OF room] True by (simp add: meaning_def trim_def)
  next
    case False
    then have "on ?bits ARY_FLAG" using o i by (auto simp: on_or plain_def)
    moreover have "?bits < (BIND_FLAG OR BIND_KEY_FLAG OR ARY_FLAG)"
      using o by (intro plain_mergeable [OF _ m]) (simp add: plain_def)
    ultimately have "\<not> on ?bits PARTIAL_FLAG" "\<not> on ?bits PARTIAL_RIGHT_FLAG" using common_ary by blast+
    then have "lo = None" "ro = None" "li = None" "ri = None" using o i by (auto simp: plain_def on_or)
    then show ?thesis using False
      by (auto simp: meaning_def opt_fill_def opt_fill_right_def ary trim_def take_min)
  qed
qed

section \<open>Shapes\<close>

lemma no_holes: "holes p = [] \<Longrightarrow> fill_pat p as = encode p @ as"
  by (induction p as rule: fill_pat.induct) (simp_all add: holes_Cons)

lemma partial_call_append: "partial_call d new this as = Go (pass_this d new this) (opt_list (w_partials d) @ as)"
proof -
  let ?p = "opt_list (w_partials d)"
  have "fold (\<lambda>i r. write_at r i (?p ! i)) [0..<length ?p] (replicate (length ?p + length as) LUndef) =
      ?p @ replicate (length as) LUndef"
    using write_run [of "length ?p" "replicate (length ?p + length as) LUndef" "[]" "(!) ?p"] copy_run [of ?p] by simp
  moreover have "fold (\<lambda>i r. write_at r (length ?p + i) (as ! i)) [0..<length as] (?p @ replicate (length as) LUndef) =
      ?p @ as"
    using write_run [of "length as" "replicate (length as) LUndef" ?p "(!) as"] copy_run [of as] by simp
  ultimately show ?thesis by (simp add: partial_call_def Let_def)
qed

lemma make_plain_eq:
  assumes "plain d l r"
  shows "makeWrapper d n = (if w_bits d = 0 \<or> w_bits d = BIND_FLAG
      then Inr (createBaseWrapper (w_func d) (w_bits d) (w_this d))
      else if w_bits d = PARTIAL_FLAG \<or> w_bits d = (BIND_FLAG OR PARTIAL_FLAG)
      then (case w_holders d of None \<Rightarrow> Inl TypeErr
           | Some h \<Rightarrow> if h = [] then Inr (createPartialWrapper (w_func d) (w_bits d) (w_this d) (w_partials d))
                       else Inr (createHybridWrapper d))
      else Inr (createHybridWrapper d))"
proof -
  have on: "\<not> on (w_bits d) CURRY_FLAG" "\<not> on (w_bits d) CURRY_RIGHT_FLAG"
    using assms by (simp_all add: plain_def plain_bits_def)
  then have "\<not> on (w_bits d) (CURRY_FLAG OR CURRY_RIGHT_FLAG)" unfolding on_or_right by blast
  moreover have "w_bits d \<noteq> CURRY_FLAG" "w_bits d \<noteq> CURRY_RIGHT_FLAG" using on by (auto simp: on_def)
  ultimately show ?thesis unfolding makeWrapper_def Let_def by simp
qed

text \<open>The shape chosen for metadata does what the general one would.\<close>

lemma make_plain:
  assumes "plain d l r" and "makeWrapper d n = Inr w"
  shows "\<exists>s c. w = Wrapper s c None LUndef \<and> w_func c = w_func d \<and>
    (\<forall>e own new this as. wrapper_call e s c own new this as = Go (pass_this d new this) (meaning d l r as))"
proof -
  have on: "on (w_bits d) PARTIAL_FLAG \<longleftrightarrow> l \<noteq> None" "on (w_bits d) PARTIAL_RIGHT_FLAG \<longleftrightarrow> r \<noteq> None"
    "on (w_bits d) ARY_FLAG \<longleftrightarrow> w_ary d \<noteq> None"
    using assms(1) by (simp_all add: plain_def)
  note make = make_plain_eq [OF assms(1)]
  consider (base) "w_bits d = 0 \<or> w_bits d = BIND_FLAG"
      "w = createBaseWrapper (w_func d) (w_bits d) (w_this d)"
    | (part) p where "w_bits d = PARTIAL_FLAG \<or> w_bits d = (BIND_FLAG OR PARTIAL_FLAG)" "l = Some p" "holes p = []"
      "w = createPartialWrapper (w_func d) (w_bits d) (w_this d) (w_partials d)"
    | (hybrid) "w = createHybridWrapper d"
    using assms unfolding make by (cases l) (auto simp: plain_def split: if_splits)
  then show ?thesis
  proof cases
    case base
    then have "l = None" "r = None" "w_ary d = None" using on by (auto simp: on_def)
    with base show ?thesis
      by (auto simp: createBaseWrapper_def base_call_def pass_this_def meaning_def trim_def opt_fill_def opt_fill_right_def)
  next
    case part
    then have "r = None" "w_ary d = None" using on by (auto simp: on_def)
    moreover have "w_partials d = Some (encode p)" using assms(1) part(2) by (simp add: plain_def)
    ultimately show ?thesis using part
      by (auto simp: createPartialWrapper_def partial_call_append pass_this_def meaning_def trim_def opt_fill_def
          opt_fill_right_def opt_list_def no_holes)
  next
    case hybrid
    then show ?thesis using plain_call [OF assms(1)] by (simp add: createHybridWrapper_def)
  qed
qed

end
