(* ===== verification/LodashPartials.thy ===== *)
theory LodashPartials
  imports LodashWrapperLaws
begin

unbundle bit_operations_syntax

text \<open>
  What the functions of \<open>LodashWrappers\<close> promise to their callers. A wrapper around a wrapper is
  merged with it, one level of calls instead of two; the properties say when this cannot be told
  from calling one after the other, where it can, and that every call ends in one of the native
  function without the internal placeholder among its arguments.
\<close>

section \<open>Functions whose metadata can be merged\<close>

text \<open>
  The metadata of a wrapper either describes its calls, as arguments composed and a \<open>this\<close> chosen,
  or has flags that nothing but currying would merge.
\<close>

definition sound :: "wfn \<Rightarrow> bool" where
  "sound f \<longleftrightarrow> is_function f \<and> (case f of
     Wrapper s c (Some d) own \<Rightarrow>
       \<not> w_bits d < (BIND_FLAG OR BIND_KEY_FLAG OR ARY_FLAG) \<or>
       (\<exists>l r. plain d l r \<and> is_function (w_func d) \<and>
         (\<forall>e new this as. call_fn e f new this as =
            call_fn e (w_func d) new (pass_this d new this) (meaning d l r as)))
   | _ \<Rightarrow> True)"

text \<open>The holes a function still has, by its metadata.\<close>

definition open_left :: "wfn \<Rightarrow> nat" where
  "open_left f = (case f of Wrapper s c (Some d) own \<Rightarrow> length (opt_list (w_holders d)) | _ \<Rightarrow> 0)"

definition open_right :: "wfn \<Rightarrow> nat" where
  "open_right f = (case f of Wrapper s c (Some d) own \<Rightarrow> length (opt_list (w_holdersRight d)) | _ \<Rightarrow> 0)"

lemma sound_native [simp]: "sound (WNative i n)"
  by (simp add: sound_def is_function_def)

lemma sound_function: "sound f \<Longrightarrow> is_function f"
  by (simp add: sound_def)

lemma set_arity_sel [simp]: "w_func (set_arity d n) = w_func d" "w_bits (set_arity d n) = w_bits d"
  "w_this (set_arity d n) = w_this d" "w_ary (set_arity d n) = w_ary d"
  "plain (set_arity d n) l r = plain d l r" "pass_this (set_arity d n) = pass_this d"
  "meaning (set_arity d n) = meaning d"
  by (simp_all add: set_arity_def plain_def pass_this_def meaning_def fun_eq_iff)

lemma call_Wrapper: "\<forall>own new this as. wrapper_call e s c own new this as = Go (t new this) (g as) \<Longrightarrow>
    call_fn e (Wrapper s c m own) new this as = call_fn e (w_func c) new (t new this) (g as)"
  by simp

lemma metadata_cases:
  "baseSetData e (Wrapper s c None ph) d = Wrapper s c (if we_metaMap e then Some d else None) ph"
  "setData e (Wrapper s c None ph) d =
     Wrapper s c (if we_metaMap e \<and> \<not> we_tripped e then Some d else None) ph"
  by (simp_all add: baseSetData_def setData_def)

lemma created:
  assumes "createWrapper e func bits thisArg partials holders argPos n k = Inr w"
    and "\<not> on bits BIND_KEY_FLAG" and "is_function func"
    and "(case getData e func of
        Some source \<Rightarrow> mergeData (argData func bits thisArg partials holders argPos n k) source
      | None \<Rightarrow> argData func bits thisArg partials holders argPos n k) = d"
  obtains j v where "makeWrapper (set_arity d j) j = Inr v"
    and "w = (case getData e func of Some s \<Rightarrow> baseSetData e v (set_arity d j)
      | None \<Rightarrow> setData e v (set_arity d j))"
  using assms(1-3) unfolding createWrapper_def Let_def assms(4) [symmetric]
  by (auto simp: map_sum_def split: sum.splits)

text \<open>
  Functions whose calls pass no internal placeholder on, and end in a native function.
\<close>

inductive tidy :: "wfn \<Rightarrow> bool" where
  native: "tidy (WNative i n)"
| wrapper: "tidy (w_func c) \<Longrightarrow>
    (\<forall>e own new this as. PLACEHOLDER \<notin> set as \<longrightarrow>
       (\<exists>t bs. wrapper_call e s c own new this as = Go t bs \<and> PLACEHOLDER \<notin> set bs)) \<Longrightarrow>
    pred_option (\<lambda>d. tidy (w_func d)) m \<Longrightarrow> tidy (Wrapper s c m own)"

inductive_cases tidy_WrapperE: "tidy (Wrapper s c m own)"

lemma tidy_calls:
  "tidy f \<Longrightarrow> PLACEHOLDER \<notin> set as \<Longrightarrow>
     \<exists>i n t bs. call_fn e f new this as = Called i n t bs \<and> PLACEHOLDER \<notin> set bs"
proof (induction f arbitrary: e new this as rule: tidy.induct)
  case (wrapper c s m own)
  from wrapper.hyps(2) wrapper.prems obtain t bs where
    "wrapper_call e s c own new this as = Go t bs" "PLACEHOLDER \<notin> set bs" by blast
  with wrapper.IH(1) [of bs e new t] show ?case by simp
qed simp

lemma fill_keeps: "clean p \<Longrightarrow> PLACEHOLDER \<notin> set as \<Longrightarrow> PLACEHOLDER \<notin> set (fill_pat p as)"
  by (induction p as rule: fill_pat.induct) auto

lemma fill_right_keeps: "clean p \<Longrightarrow> PLACEHOLDER \<notin> set as \<Longrightarrow> PLACEHOLDER \<notin> set (fill_right p as)"
  using fill_keeps by (auto simp: fill_right_def Let_def dest: in_set_takeD in_set_dropD)

lemma meaning_keeps: "plain d l r \<Longrightarrow> PLACEHOLDER \<notin> set as \<Longrightarrow> PLACEHOLDER \<notin> set (meaning d l r as)"
  using fill_keeps fill_right_keeps
  by (auto simp: plain_def meaning_def trim_def opt_fill_def opt_fill_right_def
      dest: in_set_takeD split: option.splits)

text \<open>Making a wrapper of flags that compose arguments.\<close>

lemma create_plain:
  fixes func bits thisArg partials holders n
  defines "a \<equiv> argData func bits thisArg partials holders None n None"
  assumes f: "sound func" and a: "plain a lo ro" and bits: "\<not> on bits BIND_KEY_FLAG"
    and w: "createWrapper e func bits thisArg partials holders None n None = Inr w"
  shows "sound w \<and> (tidy func \<longrightarrow> tidy w) \<and>
    (\<forall>new this as. (\<forall>li ri. pred_option (\<lambda>p. length (holes p) = open_left func) li \<longrightarrow>
        pred_option (\<lambda>p. length (holes p) = open_right func) ri \<longrightarrow> room li ri lo ro (length (opt_fill lo as))) \<longrightarrow>
      call_fn e' w new this as = call_fn e' func new (pass_this a new this) (meaning a lo ro as))"
proof -
  have a_func: "w_func a = func" by (simp add: a_def argData_def Let_def)
  let ?data = "getData e func"
  let ?merged = "case ?data of Some source \<Rightarrow> mergeData a source | None \<Rightarrow> a"
  obtain k v where made: "makeWrapper (set_arity ?merged k) k = Inr v"
    and w_def: "w = (case ?data of Some s \<Rightarrow> baseSetData e v (set_arity ?merged k)
      | None \<Rightarrow> setData e v (set_arity ?merged k))"
    using created [OF w bits sound_function [OF f] refl] unfolding a_def by blast
  have step: "sound w \<and> (tidy (w_func d) \<longrightarrow> tidy w) \<and> (\<forall>new this as. call_fn e' w new this as =
      call_fn e' (w_func d) new (pass_this d new this) (meaning d l r as))"
    if d: "?merged = d" and p: "plain d l r" and fn: "is_function (w_func d)" for d l r
  proof -
    have "plain (set_arity d k) l r" using p by simp
    from make_plain [OF this made [unfolded d]] obtain s c where v: "v = Wrapper s c None LUndef"
      and c: "w_func c = w_func d"
      and body: "wrapper_call e s c own new this as = Go (pass_this d new this) (meaning d l r as)"
      for e own new this as by auto
    have w: "w = Wrapper s c (Some (set_arity d k)) LUndef \<or> w = Wrapper s c None LUndef"
      unfolding w_def d v by (auto simp: metadata_cases split: option.splits)
    have call: "call_fn e w new this as = call_fn e (w_func d) new (pass_this d new this) (meaning d l r as)"
      for e new this as using w body c by auto
    have "is_function w" using w by (auto simp: is_function_def)
    then have "sound w" unfolding sound_def using w p fn call by (elim disjE) (auto simp del: call_fn.simps)
    moreover have "tidy w" if t: "tidy (w_func d)"
    proof -
      have "\<forall>e own new this as. PLACEHOLDER \<notin> set as \<longrightarrow>
          (\<exists>t bs. wrapper_call e s c own new this as = Go t bs \<and> PLACEHOLDER \<notin> set bs)"
        unfolding body using meaning_keeps [OF p] by blast
      then have "tidy (Wrapper s c m LUndef)" if "pred_option (\<lambda>d. tidy (w_func d)) m" for m
        using that t by (intro tidy.wrapper) (simp_all add: c)
      then show ?thesis using w t by auto
    qed
    ultimately show ?thesis using call by blast
  qed
  have fn: "is_function (w_func a)" using sound_function [OF f] a_func by simp
  show ?thesis
  proof (cases "\<exists>s c d own. func = Wrapper s c (Some d) own \<and> ?data = Some d \<and> mergeable a d")
    case False
    have "?merged = a"
      using False by (auto simp: getData_def mergeData_def Let_def split: wfn.splits option.splits if_splits)
    from step [OF this a fn] show ?thesis by (simp add: a_func)
  next
    case True
    then obtain s c d own where func: "func = Wrapper s c (Some d) own" and data: "?data = Some d"
      and m: "mergeable a d" by blast
    have "w_bits a OR w_bits d < (BIND_FLAG OR BIND_KEY_FLAG OR ARY_FLAG)"
      using a by (intro plain_mergeable [OF _ m]) (simp add: plain_def)
    moreover have "w_bits d \<le> w_bits a OR w_bits d" by (rule le_word_or1)
    ultimately have "w_bits d < (BIND_FLAG OR BIND_KEY_FLAG OR ARY_FLAG)" by (meson le_less_trans)
    then obtain li ri where d: "plain d li ri" "is_function (w_func d)"
      and call: "call_fn e func new this as = call_fn e (w_func d) new (pass_this d new this) (meaning d li ri as)"
      for e new this as using f unfolding func sound_def by (auto simp del: call_fn.simps)
    have holes: "pred_option (\<lambda>p. length (holes p) = open_left func) li"
      "pred_option (\<lambda>p. length (holes p) = open_right func) ri"
      using d(1) by (cases li; cases ri; simp add: func open_left_def open_right_def plain_def opt_list_def)+
    have merged: "?merged = mergeData a d" using data by simp
    note mp = merge_plain [OF a d(1) m]
    have "plain (mergeData a d) (merge_with compose_pat li lo) (merge_with compose_right ri ro)"
      "is_function (w_func (mergeData a d))" using mp d(2) by auto
    note step = step [OF merged this]
    moreover have "tidy (w_func (mergeData a d))" if "tidy func"
      using that mp unfolding func by (auto elim: tidy_WrapperE)
    ultimately show ?thesis
      using step mp meaning_merge [OF a d(1) m] holes call by (auto simp del: call_fn.simps)
  qed
qed

section \<open>Partial application\<close>

text \<open>No partial arguments are the same as none given.\<close>

definition some_pat :: "pattern \<Rightarrow> pattern option" where
  "some_pat p = (if p = [] then None else Some p)"

lemma encode_empty [simp]: "encode p = [] \<longleftrightarrow> p = []"
  by (simp add: encode_def)

lemma opt_fill_some [simp]: "opt_fill (some_pat p) as = fill_pat p as"
  by (simp add: opt_fill_def some_pat_def)

lemma opt_fill_right_some [simp]: "opt_fill_right (some_pat p) as = fill_right p as"
  by (simp add: opt_fill_right_def fill_right_def some_pat_def)

lemma opt_fill_None [simp]: "opt_fill None as = as" "opt_fill_right None as = as" "trim None as = as"
  by (simp_all add: opt_fill_def opt_fill_right_def trim_def)

lemma decode_empty [simp]: "decode ph xs = [] \<longleftrightarrow> xs = []"
  by (simp add: decode_def)

lemma plain_partial:
  assumes "clean p" and "bits = PARTIAL_FLAG \<or> bits = (BIND_FLAG OR PARTIAL_FLAG)"
  shows "plain (argData f bits thisArg (Some (encode p)) (Some (holes p)) None None None) (some_pat p) None"
  using assms by (auto simp: plain_def plain_bits_def argData_def Let_def opt_list_def on_def some_pat_def)

lemma plain_partialRight:
  assumes "clean p"
  shows "plain (argData f PARTIAL_RIGHT_FLAG thisArg (Some (encode p)) (Some (holes p)) None None None)
    None (some_pat p)"
  using assms by (auto simp: plain_def plain_bits_def argData_def Let_def opt_list_def on_def some_pat_def)

lemma plain_no_partials:
  "plain (argData f BIND_FLAG thisArg (Some []) None None None None) None None"
  "plain (argData f ARY_FLAG thisArg None None None (Some n) None) None None"
  by (simp_all add: plain_def plain_bits_def argData_def Let_def opt_list_def on_def)

lemma argData_sel:
  "w_ary (argData f bits thisArg ps hs pos n k) = map_option (\<lambda>n. max (toInteger (Some n)) 0) n"
  "w_this (argData f bits thisArg ps hs pos n k) = thisArg"
  by (simp_all add: argData_def Let_def)

lemma pass_argData:
  "pass_this (argData f PARTIAL_FLAG thisArg ps hs pos n k) new this = this"
  "pass_this (argData f PARTIAL_RIGHT_FLAG thisArg ps hs pos n k) new this = this"
  "pass_this (argData f ARY_FLAG thisArg ps hs pos n k) new this = this"
  "pass_this (argData f BIND_FLAG thisArg ps hs pos n k) new this = (if new then this else thisArg)"
  "pass_this (argData f (BIND_FLAG OR PARTIAL_FLAG) thisArg ps hs pos n k) new this = (if new then this else thisArg)"
  by (simp_all add: pass_this_def argData_def Let_def on_def)

lemma room_left: "p = [] \<or> k \<le> length p \<Longrightarrow> pred_option (\<lambda>p. length (holes p) = k) li \<Longrightarrow> room li ri (some_pat p) None n"
  by (cases li; cases ri) (auto simp: room_def some_pat_def)

lemma room_right:
  "p = [] \<or> kr \<le> length p \<and> kl + length (holes p) \<le> n \<Longrightarrow> pred_option (\<lambda>p. length (holes p) = kl) li \<Longrightarrow>
     pred_option (\<lambda>p. length (holes p) = kr) ri \<Longrightarrow> room li ri None (some_pat p) n"
  by (cases li; cases ri) (auto simp: room_def some_pat_def)

lemma room_none [simp]: "room li ri None None n"
  by (cases li; cases ri) (auto simp: room_def some_pat_def)

lemma partial_law:
  assumes f: "sound f" and ps: "PLACEHOLDER \<notin> set ps" and w: "lo_partial e f ps = Inr w"
  shows "sound w \<and> (tidy f \<longrightarrow> tidy w) \<and> (ps = [] \<or> open_left f \<le> length ps \<longrightarrow>
    call_fn e' w new this as = call_fn e' f new this (fill_pat (decode (placeholder_of e (we_lodash e)) ps) as))"
proof -
  let ?p = "decode (placeholder_of e (we_lodash e)) ps"
  have clean: "clean ?p" using ps by (simp add: clean_decode)
  have room: "pred_option (\<lambda>p. length (holes p) = open_left f) li \<Longrightarrow> room li ri (some_pat ?p) None n"
    if "ps = [] \<or> open_left f \<le> length ps" for li ri n
    using that by (intro room_left [of ?p "open_left f"]) simp_all
  have bits: "\<not> on PARTIAL_FLAG BIND_KEY_FLAG" by (simp add: on_def)
  have "createWrapper e f PARTIAL_FLAG LUndef (Some (encode ?p)) (Some (holes ?p)) None None None = Inr w"
    using w by (simp add: lo_partial_def replaceHolders_decode)
  from create_plain [OF f plain_partial [OF clean disjI1 [OF refl]] bits this] room
  show ?thesis by (simp add: meaning_def argData_sel pass_argData)
qed

lemma partialRight_law:
  assumes f: "sound f" and ps: "PLACEHOLDER \<notin> set ps" and w: "partialRight e f ps = Inr w"
  shows "sound w \<and> (tidy f \<longrightarrow> tidy w) \<and> (ps = [] \<or> open_right f \<le> length ps \<and>
      open_left f + length (holes (decode (placeholder_of e (we_lodash e)) ps)) \<le> length as \<longrightarrow>
    call_fn e' w new this as =
      call_fn e' f new this (fill_right (decode (placeholder_of e (we_lodash e)) ps) as))"
proof -
  let ?p = "decode (placeholder_of e (we_lodash e)) ps"
  have clean: "clean ?p" using ps by (simp add: clean_decode)
  have room: "pred_option (\<lambda>p. length (holes p) = open_left f) li \<Longrightarrow>
      pred_option (\<lambda>p. length (holes p) = open_right f) ri \<Longrightarrow> room li ri None (some_pat ?p) (length as)"
    if "ps = [] \<or> open_right f \<le> length ps \<and> open_left f + length (holes ?p) \<le> length as" for li ri
    using that by (intro room_right [of ?p "open_right f" "open_left f"]) simp_all
  have bits: "\<not> on PARTIAL_RIGHT_FLAG BIND_KEY_FLAG" by (simp add: on_def)
  have "createWrapper e f PARTIAL_RIGHT_FLAG LUndef (Some (encode ?p)) (Some (holes ?p)) None None None = Inr w"
    using w by (simp add: partialRight_def replaceHolders_decode)
  from create_plain [OF f plain_partialRight [OF clean] bits this] room
  show ?thesis by (simp add: meaning_def argData_sel pass_argData)
qed

lemma bind_law:
  assumes f: "sound f" and ps: "PLACEHOLDER \<notin> set ps" and w: "lo_bind e f thisArg ps = Inr w"
  shows "sound w \<and> (tidy f \<longrightarrow> tidy w) \<and> (ps = [] \<or> open_left f \<le> length ps \<longrightarrow>
    call_fn e' w new this as =
      call_fn e' f new (if new then this else thisArg) (fill_pat (decode (placeholder_of e (we_lodash e)) ps) as))"
proof (cases "ps = []")
  case True
  have bits: "\<not> on BIND_FLAG BIND_KEY_FLAG" by (simp add: on_def)
  have "createWrapper e f BIND_FLAG thisArg (Some []) None None None None = Inr w"
    using w True by (simp add: lo_bind_def)
  from create_plain [OF f plain_no_partials(1) bits this] True
  show ?thesis by (simp add: meaning_def argData_sel pass_argData)
next
  case False
  let ?p = "decode (placeholder_of e (we_lodash e)) ps"
  have clean: "clean ?p" using ps by (simp add: clean_decode)
  have room: "pred_option (\<lambda>p. length (holes p) = open_left f) li \<Longrightarrow> room li ri (some_pat ?p) None n"
    if "ps = [] \<or> open_left f \<le> length ps" for li ri n
    using that by (intro room_left [of ?p "open_left f"]) simp_all
  have bits: "\<not> on (BIND_FLAG OR PARTIAL_FLAG) BIND_KEY_FLAG" by (simp add: on_def)
  have "createWrapper e f (BIND_FLAG OR PARTIAL_FLAG) thisArg (Some (encode ?p)) (Some (holes ?p)) None None None = Inr w"
    using w False by (simp add: lo_bind_def replaceHolders_decode)
  from create_plain [OF f plain_partial [OF clean disjI2 [OF refl]] bits this] room
  show ?thesis by (simp only: meaning_def argData_sel pass_argData) simp
qed

text \<open>The number of arguments \<open>ary\<close> lets through.\<close>

definition ary_limit :: "wfn \<Rightarrow> jsnum option \<Rightarrow> bool \<Rightarrow> nat" where
  "ary_limit f n guarded = (case (if guarded then None else n) of
     None \<Rightarrow> fn_length f | Some m \<Rightarrow> nat (toInteger (Some m)))"

lemma ary_law:
  assumes f: "sound f" and w: "lo_ary e f n guarded = Inr w"
  shows "sound w \<and> (tidy f \<longrightarrow> tidy w) \<and>
    call_fn e' w new this as = call_fn e' f new this (take (ary_limit f n guarded) as)"
proof -
  let ?n = "case (if guarded then None else n) of None \<Rightarrow> num_int (int (fn_length f)) | Some m \<Rightarrow> m"
  have bits: "\<not> on ARY_FLAG BIND_KEY_FLAG" by (simp add: on_def)
  have "createWrapper e f ARY_FLAG LUndef None None None (Some ?n) None = Inr w"
    using w by (simp add: lo_ary_def Let_def split: option.splits if_splits)
  from create_plain [OF f plain_no_partials(2) bits this]
  have "sound w \<and> (tidy f \<longrightarrow> tidy w) \<and> call_fn e' w new this as = call_fn e' f new this (take (nat (max (toInteger (Some ?n)) 0)) as)"
    by (simp add: meaning_def argData_sel pass_argData trim_def)
  moreover have "nat (max (toInteger (Some ?n)) 0) = ary_limit f n guarded"
    by (auto simp: ary_limit_def split: option.splits)
  ultimately show ?thesis by simp
qed

section \<open>Rearranging arguments\<close>

text \<open>Flags too large to be merged with the flags of partial arguments.\<close>

lemma large_bits: "a = 256 \<or> a = 512 \<Longrightarrow> \<not> a OR b < (BIND_FLAG OR BIND_KEY_FLAG OR ARY_FLAG)" for a :: "32 word"
proof
  assume a: "a = 256 \<or> a = 512" and "a OR b < (BIND_FLAG OR BIND_KEY_FLAG OR ARY_FLAG)"
  then have "a < (BIND_FLAG OR BIND_KEY_FLAG OR ARY_FLAG)" using le_word_or2 [of a b] by (meson le_less_trans)
  with a show False by auto
qed

lemma write_at_keeps: "PLACEHOLDER \<notin> set r \<Longrightarrow> v \<noteq> PLACEHOLDER \<Longrightarrow> PLACEHOLDER \<notin> set (write_at r i v)"
  by (auto simp: write_at_def dest: set_update_subset_insert [THEN subsetD])

lemma fold_write_keeps:
  "PLACEHOLDER \<notin> set r \<Longrightarrow> (\<And>i. v i \<noteq> PLACEHOLDER) \<Longrightarrow> PLACEHOLDER \<notin> set (fold (\<lambda>i r. write_at r i (v i)) js r)"
  by (induction js arbitrary: r) (simp_all add: write_at_keeps)

lemma reorder_keeps: "PLACEHOLDER \<notin> set as \<Longrightarrow> PLACEHOLDER \<notin> set (reorder as idx)"
  unfolding reorder_def Let_def
proof (rule fold_write_keeps, assumption)
  fix i
  assume as: "PLACEHOLDER \<notin> set as"
  have "read_at as k \<noteq> PLACEHOLDER" for k
  proof (cases "0 \<le> k \<and> k < int (length as)")
    case True
    then have "as ! nat k \<in> set as" by (intro nth_mem) linarith
    with as True show ?thesis unfolding read_at_def by (metis (full_types))
  next
    case False
    then show ?thesis unfolding read_at_def by (simp only: if_False PLACEHOLDER_neq not_False_eq_True)
  qed
  then show "(if isIndex (idx ! i) (Some (int (length as))) then read_at as (toInteger (Some (idx ! i))) else LUndef)
      \<noteq> PLACEHOLDER" by simp
qed

text \<open>A wrapper that changes the arguments by \<open>g\<close> only.\<close>

lemma changes_args:
  assumes w: "w = Wrapper s c (if q then Some (set_arity d k) else None) LUndef" and c: "w_func c = w_func d"
    and body: "\<And>e own new this as. wrapper_call e s c own new this as = Go this (g as)"
    and large: "\<not> w_bits d < (BIND_FLAG OR BIND_KEY_FLAG OR ARY_FLAG)"
    and keeps: "\<And>as. PLACEHOLDER \<notin> set as \<Longrightarrow> PLACEHOLDER \<notin> set (g as)"
  shows "sound w \<and> (tidy (w_func d) \<longrightarrow> tidy w) \<and> call_fn e w new this as = call_fn e (w_func d) new this (g as)"
proof -
  have "sound w" using large by (simp add: w sound_def is_function_def del: call_fn.simps)
  moreover have "tidy w" if "tidy (w_func d)"
  proof -
    have "\<forall>e own new this as. PLACEHOLDER \<notin> set as \<longrightarrow>
        (\<exists>t bs. wrapper_call e s c own new this as = Go t bs \<and> PLACEHOLDER \<notin> set bs)"
      unfolding body using keeps by blast
    moreover have "tidy (w_func c)" using that c by simp
    ultimately show ?thesis unfolding w using that by (intro tidy.wrapper) simp_all
  qed
  moreover have "call_fn e w new this as = call_fn e (w_func d) new this (g as)"
    unfolding w call_fn.simps body c by simp
  ultimately show ?thesis by blast
qed

lemma hybrid_rearg:
  assumes "w_bits d = REARG_FLAG \<and> w_ary d = None \<or> w_bits d = (REARG_FLAG OR ARY_FLAG)"
    and "w_partials d = None" and "w_partialsRight d = None" and "w_argPos d = Some idx"
  shows "hybrid_call e d own new this as = Go this (trim (w_ary d) (reorder as idx))"
  using assms by (cases "w_ary d") (auto simp: hybrid_call_def pass_this_def on_def trim_def Let_def)

lemma hybrid_flip:
  assumes "w_bits d = FLIP_FLAG" and "w_partials d = None" and "w_partialsRight d = None"
    and "w_argPos d = None" and "w_ary d = None"
  shows "hybrid_call e d own new this as = Go this (rev as)"
  using assms by (cases as; cases "tl as") (simp_all add: hybrid_call_def pass_this_def on_def)

lemma make_large:
  "w_bits d = FLIP_FLAG \<or> w_bits d = REARG_FLAG \<or> w_bits d = (REARG_FLAG OR ARY_FLAG) \<Longrightarrow>
     makeWrapper d n = Inr (createHybridWrapper d)"
  by (auto simp: makeWrapper_def on_def)

lemma created_large:
  assumes "createWrapper e func bits thisArg partials holders argPos n k = Inr w"
    and "\<not> on bits BIND_KEY_FLAG" and "is_function func"
    and "(case getData e func of
        Some source \<Rightarrow> mergeData (argData func bits thisArg partials holders argPos n k) source
      | None \<Rightarrow> argData func bits thisArg partials holders argPos n k) = d"
    and "w_bits d = FLIP_FLAG \<or> w_bits d = REARG_FLAG \<or> w_bits d = (REARG_FLAG OR ARY_FLAG)"
  obtains j q where "w = Wrapper HybridShape (set_arity d j) (if q then Some (set_arity d j) else None) LUndef"
proof -
  from created [OF assms(1-4)] obtain j v where v: "makeWrapper (set_arity d j) j = Inr v"
    and w: "w = (case getData e func of Some s \<Rightarrow> baseSetData e v (set_arity d j)
      | None \<Rightarrow> setData e v (set_arity d j))" .
  have "v = Wrapper HybridShape (set_arity d j) None LUndef"
    using v make_large [of "set_arity d j" j] assms(5) by (simp add: createHybridWrapper_def)
  then have "w = Wrapper HybridShape (set_arity d j)
      (if we_metaMap e \<and> (getData e func = None \<longrightarrow> \<not> we_tripped e) then Some (set_arity d j) else None) LUndef"
    unfolding w by (simp add: metadata_cases split: option.splits)
  then show ?thesis by (rule that)
qed

lemma set_arity_idem [simp]: "set_arity (set_arity d k) k = set_arity d k"
  by (simp add: set_arity_def)

lemma set_arity_rest [simp]: "w_partials (set_arity d k) = w_partials d" "w_holders (set_arity d k) = w_holders d"
  "w_partialsRight (set_arity d k) = w_partialsRight d" "w_holdersRight (set_arity d k) = w_holdersRight d"
  "w_argPos (set_arity d k) = w_argPos d"
  by (simp_all add: set_arity_def)

lemma flip_law:
  assumes f: "sound f" and w: "flip e f = Inr w"
  shows "sound w \<and> (tidy f \<longrightarrow> tidy w) \<and> call_fn e' w new this as = call_fn e' f new this (rev as)"
proof -
  let ?a = "WData f FLIP_FLAG LUndef None None None None None None None"
  have a: "argData f FLIP_FLAG LUndef None None None None None = ?a"
    by (simp add: argData_def opt_list_def on_def)
  have "\<not> mergeable ?a s" for s using large_bits [of 512 "w_bits s"] by (simp add: mergeable_def Let_def)
  then have merged: "(case x of Some source \<Rightarrow> mergeData ?a source | None \<Rightarrow> ?a) = ?a" for x
    by (simp add: mergeData_def Let_def split: option.splits)
  have on: "\<not> on FLIP_FLAG BIND_KEY_FLAG" by (simp add: on_def)
  from created_large [OF w [unfolded flip_def] on sound_function [OF f], unfolded a, OF merged]
  obtain k q where w: "w = Wrapper HybridShape (set_arity ?a k) (if q then Some (set_arity ?a k) else None) LUndef"
    by auto
  have "wrapper_call e HybridShape (set_arity ?a k) own new this as = Go this (rev as)" for e own new this as
    by (simp add: hybrid_flip)
  from changes_args [OF w _ this] show ?thesis using large_bits [of 512 0] by simp
qed

lemma rearg_law:
  assumes f: "sound f" and w: "rearg e f idx = Inr w"
  shows "sound w \<and> (tidy f \<longrightarrow> tidy w) \<and> call_fn e' w new this as = call_fn e' f new this (reorder as idx)"
proof -
  let ?a = "WData f REARG_FLAG LUndef None None None None (Some idx) None None"
  have a: "argData f REARG_FLAG LUndef None None (Some idx) None None = ?a"
    by (simp add: argData_def opt_list_def on_def)
  let ?merged = "case getData e f of Some source \<Rightarrow> mergeData ?a source | None \<Rightarrow> ?a"
  have on: "\<not> on REARG_FLAG BIND_KEY_FLAG" by (simp add: on_def)
  have step: "sound w \<and> (tidy (w_func d) \<longrightarrow> tidy w) \<and>
      call_fn e' w new this as = call_fn e' (w_func d) new this (trim (w_ary d) (reorder as idx))"
    if d: "?merged = d" and bits: "w_bits d = REARG_FLAG \<and> w_ary d = None \<or> w_bits d = (REARG_FLAG OR ARY_FLAG)"
      and rest: "w_partials d = None" "w_partialsRight d = None" "w_argPos d = Some idx" for d
  proof -
    from created_large [OF w [unfolded rearg_def] on sound_function [OF f], unfolded a, OF d] bits
    obtain k q where w: "w = Wrapper HybridShape (set_arity d k) (if q then Some (set_arity d k) else None) LUndef"
      by blast
    have body: "wrapper_call e HybridShape (set_arity d k) own new this as = Go this (trim (w_ary d) (reorder as idx))"
      for e own new this as using hybrid_rearg [of "set_arity d k"] bits rest by simp
    have "\<not> w_bits d < (BIND_FLAG OR BIND_KEY_FLAG OR ARY_FLAG)"
      using bits large_bits [of 256 0] large_bits [of 256 128] by auto
    moreover have "PLACEHOLDER \<notin> set (trim (w_ary d) (reorder bs idx))" if "PLACEHOLDER \<notin> set bs" for bs
      using reorder_keeps [OF that] by (auto simp: trim_def dest: in_set_takeD split: option.splits)
    ultimately show ?thesis by (intro changes_args [OF w _ body]) simp_all
  qed
  show ?thesis
  proof (cases "\<exists>s c d own. f = Wrapper s c (Some d) own \<and> getData e f = Some d \<and> mergeable ?a d")
    case False
    have "?merged = ?a"
      using False by (auto simp: getData_def mergeData_def Let_def split: wfn.splits option.splits if_splits)
    from step [OF this] show ?thesis by simp
  next
    case True
    then obtain s c d own where func: "f = Wrapper s c (Some d) own" and data: "getData e f = Some d"
      and m: "mergeable ?a d" by blast
    have bits: "w_bits d = ARY_FLAG"
      using m large_bits [of 256 "w_bits d"] by (simp add: mergeable_def Let_def)
    then obtain l r where d: "plain d l r"
      and call: "call_fn e f new this as = call_fn e (w_func d) new (pass_this d new this) (meaning d l r as)"
      for e new this as using f unfolding func sound_def by (auto simp del: call_fn.simps)
    have none: "l = None" "r = None" "w_partials d = None" "w_partialsRight d = None" "w_argPos d = None"
      using d bits by (auto simp: plain_def on_def)
    have meaning: "meaning d l r as = trim (w_ary d) as" "pass_this d new this = this" for as new this
      using none bits by (simp_all add: meaning_def pass_this_def on_def)
    have merged: "?merged = mergeData ?a d" using data by simp
    have sel: "w_func (mergeData ?a d) = w_func d" "w_bits (mergeData ?a d) = (REARG_FLAG OR ARY_FLAG)"
      "w_partials (mergeData ?a d) = None" "w_partialsRight (mergeData ?a d) = None"
      "w_argPos (mergeData ?a d) = Some idx" "w_ary (mergeData ?a d) = w_ary d"
      using m none bits by (simp_all add: mergeData_def Let_def on_def)
    have "tidy (w_func d)" if "tidy f" using that unfolding func by (auto elim: tidy_WrapperE)
    then show ?thesis using step [OF merged] sel call meaning by simp
  qed
qed

section \<open>Wrappers are made\<close>

lemma make_total:
  assumes "plain d l r"
  shows "\<exists>w. makeWrapper d n = Inr w"
proof -
  have "w_holders d \<noteq> None" if "w_bits d = PARTIAL_FLAG \<or> w_bits d = (BIND_FLAG OR PARTIAL_FLAG)"
    using that assms by (auto simp: plain_def on_def)
  then show ?thesis unfolding make_plain_eq [OF assms] by auto
qed

lemma create_total:
  assumes f: "sound func" and a: "plain (argData func bits thisArg partials holders None n None) lo ro"
    and bits: "\<not> on bits BIND_KEY_FLAG"
  shows "\<exists>w. createWrapper e func bits thisArg partials holders None n None = Inr w"
proof -
  let ?a = "argData func bits thisArg partials holders None n None"
  let ?d = "case getData e func of Some s \<Rightarrow> mergeData ?a s | None \<Rightarrow> ?a"
  have "\<exists>l r. plain ?d l r"
  proof (cases "\<exists>s c d own. func = Wrapper s c (Some d) own \<and> getData e func = Some d \<and> mergeable ?a d")
    case False
    then have "?d = ?a"
      by (auto simp: getData_def mergeData_def Let_def split: wfn.splits option.splits if_splits)
    with a show ?thesis by metis
  next
    case True
    then obtain s c d own where func: "func = Wrapper s c (Some d) own" and data: "getData e func = Some d"
      and m: "mergeable ?a d" by blast
    have "w_bits ?a OR w_bits d < (BIND_FLAG OR BIND_KEY_FLAG OR ARY_FLAG)"
      using a by (intro plain_mergeable [OF _ m]) (simp add: plain_def)
    then have "w_bits d < (BIND_FLAG OR BIND_KEY_FLAG OR ARY_FLAG)" by (meson le_less_trans le_word_or1)
    then obtain li ri where "plain d li ri" using f unfolding func sound_def by (auto simp del: call_fn.simps)
    from merge_plain [OF a this m] data show ?thesis by auto
  qed
  then obtain l r where "plain ?d l r" by blast
  then have "plain (set_arity ?d k) l r" for k by simp
  from make_total [OF this] have total: "\<exists>w. makeWrapper (set_arity ?d k) k = Inr w" for k .
  show ?thesis
  proof (cases "createWrapper e func bits thisArg partials holders None n None")
    case (Inl x)
    then show ?thesis using total bits sound_function [OF f] unfolding createWrapper_def Let_def
      by (auto simp: map_sum_def split: sum.splits) (metis Inr_not_Inl)+
  qed blast
qed

text \<open>The functions a program makes of native ones.\<close>

inductive made :: "wenv \<Rightarrow> wfn \<Rightarrow> bool" for e where
  native: "made e (WNative i n)"
| bound: "made e f \<Longrightarrow> PLACEHOLDER \<notin> set ps \<Longrightarrow> lo_bind e f thisArg ps = Inr w \<Longrightarrow> made e w"
| left: "made e f \<Longrightarrow> PLACEHOLDER \<notin> set ps \<Longrightarrow> lo_partial e f ps = Inr w \<Longrightarrow> made e w"
| right: "made e f \<Longrightarrow> PLACEHOLDER \<notin> set ps \<Longrightarrow> partialRight e f ps = Inr w \<Longrightarrow> made e w"
| capped: "made e f \<Longrightarrow> lo_ary e f n guarded = Inr w \<Longrightarrow> made e w"
| flipped: "made e f \<Longrightarrow> flip e f = Inr w \<Longrightarrow> made e w"
| rearranged: "made e f \<Longrightarrow> rearg e f idx = Inr w \<Longrightarrow> made e w"

lemma made_invariant: "made e f \<Longrightarrow> sound f \<and> tidy f"
proof (induction rule: made.induct)
  case (native i n)
  show ?case by (simp add: tidy.native)
next
  case (bound f ps thisArg w)
  then show ?case using bind_law [of f ps e thisArg w] by blast
next
  case (left f ps w)
  then show ?case using partial_law [of f ps e w] by blast
next
  case (right f ps w)
  then show ?case using partialRight_law [of f ps e w] by blast
next
  case (capped f n guarded w)
  then show ?case using ary_law [of f e n guarded w] by blast
next
  case (flipped f w)
  then show ?case using flip_law [of f e w] by blast
next
  case (rearranged f idx w)
  then show ?case using rearg_law [of f e idx w] by blast
qed

section \<open>Properties\<close>

definition demo_wenv :: wenv where
  "demo_wenv = \<lparr>we_metaMap = True, we_laziable = (\<lambda>f. False), we_tripped = False,
     we_lodash = LRef 0, we_placeholder = LUndef\<rparr>"

text \<open>\<open>_.partial(f, _, 'a')\<close> on a native function of three parameters.\<close>

definition demo_partial :: wfn where
  "demo_partial = (let d = WData (WNative 7 3) PARTIAL_FLAG LUndef (Some [PLACEHOLDER, LStr ''a'']) (Some [0])
       None None None None (Some 3)
     in Wrapper HybridShape d (Some d) LUndef)"

lemmas wrapper_demo_defs = lo_partial_def replaceHolders_def write_at_def strict_eq_def is_NaN_def placeholder_of_def
  demo_wenv_def lo_truthy_def createWrapper_def argData_def opt_list_def on_def is_function_def getData_def
  set_arity_def makeWrapper_def createHybridWrapper_def createPartialWrapper_def setData_def baseSetData_def
  fn_length_def mergeData_def mergeable_def composeArgs_def read_at_def hybrid_call_def partial_call_def
  pass_this_def PLACEHOLDER_def Let_def upt_rec

lemma demo_partial_created: "lo_partial demo_wenv (WNative 7 3) [LRef 0, LStr ''a''] = Inr demo_partial"
  by (simp add: demo_partial_def wrapper_demo_defs)

lemma demo_partial_made: "made demo_wenv demo_partial"
  by (rule made.left [OF made.native _ demo_partial_created]) (simp add: PLACEHOLDER_def)

text \<open>C33: A call of a function made of a native one by \<open>bind\<close>, \<open>partial\<close>, \<open>partialRight\<close>, \<open>ary\<close>, \<open>flip\<close>
  and \<open>rearg\<close>, any number of times, from arguments without the internal placeholder, always ends in a
  call of the native function, and never passes it the internal placeholder. (Currying can.)\<close>
theorem placeholder_stays_inside:
  assumes "made e f" and "PLACEHOLDER \<notin> set as"
  shows "\<exists>i n t bs. call_fn e f new this as = Called i n t bs \<and> PLACEHOLDER \<notin> set bs"
  using tidy_calls made_invariant assms by blast

theorem placeholder_stays_inside_witness:
  "\<exists>i n t bs. call_fn demo_wenv demo_partial False LNull [LNull] = Called i n t bs \<and> PLACEHOLDER \<notin> set bs"
  by (rule placeholder_stays_inside [OF demo_partial_made]) (simp add: PLACEHOLDER_def)

text \<open>C12: For a function made of a native one by \<open>bind\<close>, \<open>partial\<close>, \<open>partialRight\<close>, \<open>ary\<close>, \<open>flip\<close> and
  \<open>rearg\<close>, calling what \<open>partial\<close> returns is calling the function with the partial arguments, the
  placeholders among them filled in order, and \<open>partialRight\<close> takes the last arguments for its
  placeholders, provided the new arguments are at least as many as the holes the function still has (for
  \<open>partialRight\<close> the call must also fill all holes on the left). Then the merging of wrappers cannot be
  told; with fewer arguments it can, as \<open>hole_lost\<close> shows.\<close>
theorem partial_composes:
  assumes "made e f" and "PLACEHOLDER \<notin> set ps"
  shows "\<exists>l r. lo_partial e f ps = Inr l \<and> partialRight e f ps = Inr r \<and>
    (ps = [] \<or> open_left f \<le> length ps \<longrightarrow> call_fn e l new this as =
       call_fn e f new this (fill_pat (decode (placeholder_of e (we_lodash e)) ps) as)) \<and>
    (ps = [] \<or> open_right f \<le> length ps \<and>
        open_left f + length (holes (decode (placeholder_of e (we_lodash e)) ps)) \<le> length as \<longrightarrow>
      call_fn e r new this as =
       call_fn e f new this (fill_right (decode (placeholder_of e (we_lodash e)) ps) as))"
proof -
  let ?p = "decode (placeholder_of e (we_lodash e)) ps"
  have f: "sound f" using made_invariant [OF assms(1)] by blast
  have clean: "clean ?p" using assms(2) by (simp add: clean_decode)
  have "\<not> on PARTIAL_FLAG BIND_KEY_FLAG" "\<not> on PARTIAL_RIGHT_FLAG BIND_KEY_FLAG" by (simp_all add: on_def)
  then obtain l r where lr: "lo_partial e f ps = Inr l" "partialRight e f ps = Inr r"
    using create_total [OF f plain_partial [OF clean disjI1 [OF refl]], where e = e and thisArg = LUndef]
      create_total [OF f plain_partialRight [OF clean], where e = e and thisArg = LUndef]
    by (auto simp: lo_partial_def partialRight_def replaceHolders_decode)
  then show ?thesis
    using partial_law [OF f assms(2) lr(1)] partialRight_law [OF f assms(2) lr(2)] by blast
qed

theorem partial_composes_witness:
  "\<exists>l. lo_partial demo_wenv demo_partial [LNull] = Inr l \<and>
    call_fn demo_wenv l False LNull [LBool True] = call_fn demo_wenv demo_partial False LNull [LNull, LBool True]"
  using partial_composes [OF demo_partial_made, of "[LNull]" False LNull "[LBool True]"]
  by (auto simp: PLACEHOLDER_def placeholder_of_def demo_wenv_def lo_truthy_def strict_eq_def open_left_def
      demo_partial_def opt_list_def Let_def simp del: call_fn.simps)

text \<open>Calling what \<open>bind\<close> returns is calling the function with the value bound as \<open>this\<close>, and the
  arguments filled; a \<open>new\<close> call keeps the new object. The value bound first stays bound.\<close>
theorem bind_composes:
  assumes "made e f" and "PLACEHOLDER \<notin> set ps" and "ps = [] \<or> open_left f \<le> length ps"
  shows "\<exists>w v. lo_bind e f thisArg ps = Inr w \<and> lo_bind e w other [] = Inr v \<and>
    call_fn e w new this as = call_fn e f new (if new then this else thisArg)
      (fill_pat (decode (placeholder_of e (we_lodash e)) ps) as) \<and>
    call_fn e v new this as = call_fn e w new this as"
proof -
  have total: "\<exists>w. lo_bind e g t qs = Inr w" if "sound g" "PLACEHOLDER \<notin> set qs" for g t qs
  proof -
    let ?p = "decode (placeholder_of e (we_lodash e)) qs"
    have clean: "clean ?p" using that(2) by (simp add: clean_decode)
    have on: "\<not> on (BIND_FLAG OR PARTIAL_FLAG) BIND_KEY_FLAG" "\<not> on BIND_FLAG BIND_KEY_FLAG"
      by (simp_all add: on_def)
    show ?thesis
      using create_total [OF that(1) plain_partial [OF clean disjI2 [OF refl]] on(1), where e = e and thisArg = t]
        create_total [OF that(1) plain_no_partials(1) on(2), where e = e and thisArg = t]
      by (simp add: lo_bind_def replaceHolders_decode)
  qed
  have f: "sound f" using made_invariant [OF assms(1)] by blast
  obtain w where w: "lo_bind e f thisArg ps = Inr w" using total [OF f assms(2)] by blast
  note law = bind_law [OF f assms(2) w]
  have ws: "sound w" using law by blast
  obtain v where v: "lo_bind e w other [] = Inr v" using total [OF ws, of "[]" other] by auto
  have "call_fn e v new this as = call_fn e w new (if new then this else other) as"
    using bind_law [OF ws _ v, of e new this as] by simp
  also have "\<dots> = call_fn e w new this as" using law [of e new _ as] assms(3) by simp
  finally show ?thesis using w v law [of e new this as] assms(3) by blast
qed

theorem bind_composes_witness:
  "\<exists>w. lo_bind demo_wenv demo_partial (LRef 5) [LNull] = Inr w \<and>
    call_fn demo_wenv w False (LRef 6) [] = call_fn demo_wenv demo_partial False (LRef 5) [LNull]"
  using bind_composes [OF demo_partial_made, of "[LNull]" "LRef 5" LNull False "LRef 6" "[]"]
  by (auto simp: PLACEHOLDER_def placeholder_of_def demo_wenv_def lo_truthy_def strict_eq_def open_left_def
      demo_partial_def opt_list_def Let_def simp del: call_fn.simps)

text \<open>\<open>ary\<close> passes the first arguments only, \<open>flip\<close> reverses them, and \<open>rearg\<close> passes the arguments
  at its indexes, \<open>undefined\<close> for those out of range.\<close>
theorem arguments_rearranged:
  assumes "made e f" and "lo_ary e f n guarded = Inr a" and "flip e f = Inr b" and "rearg e f idx = Inr c"
  shows "call_fn e a new this as = call_fn e f new this (take (ary_limit f n guarded) as) \<and>
    call_fn e b new this as = call_fn e f new this (rev as) \<and>
    call_fn e c new this as = call_fn e f new this (reorder as idx)"
proof -
  have f: "sound f" using made_invariant [OF assms(1)] by blast
  show ?thesis using ary_law [OF f assms(2)] flip_law [OF f assms(3)] rearg_law [OF f assms(4)] by blast
qed

text \<open>Fewer arguments than holes close the holes left with \<open>undefined\<close>: a second call of
  \<open>partial\<close> on \<open>_.partial(f, _, _)\<close> passes its caller's argument as the third.\<close>
theorem hole_lost:
  "\<exists>w v. lo_partial demo_wenv (WNative 7 2) [LRef 0, LRef 0] = Inr w \<and> lo_partial demo_wenv w [LBool x] = Inr v \<and>
    call_fn demo_wenv v False LUndef [LBool y] = Called 7 False LUndef [LBool x, LUndef, LBool y] \<and>
    call_fn demo_wenv w False LUndef [LBool x, LBool y] = Called 7 False LUndef [LBool x, LBool y]"
proof -
  let ?d = "WData (WNative 7 2) PARTIAL_FLAG LUndef (Some [PLACEHOLDER, PLACEHOLDER]) (Some [0, 1])
    None None None None (Some 2)"
  let ?d2 = "WData (WNative 7 2) PARTIAL_FLAG LUndef (Some [LBool x, LUndef]) (Some []) None None None None (Some 1)"
  let ?w = "Wrapper HybridShape ?d (Some ?d) LUndef"
  let ?v = "createPartialWrapper (WNative 7 2) PARTIAL_FLAG LUndef (Some [LBool x, LUndef])"
  have "lo_partial demo_wenv (WNative 7 2) [LRef 0, LRef 0] = Inr ?w"
    by (simp add: wrapper_demo_defs)
  moreover have "lo_partial demo_wenv ?w [LBool x] = Inr (baseSetData demo_wenv ?v ?d2)"
  proof -
    have "decode (LRef 0) [LBool x] = [Some (LBool x)]" "holes [Some (LBool x)] = []"
      by (simp_all add: strict_eq_def holes_Cons)
    then have ps: "replaceHolders [LBool x] (LRef 0) = ([LBool x], [])" by (simp add: replaceHolders_decode)
    have "encode [None, None] = [PLACEHOLDER, PLACEHOLDER]" "holes [None, None] = [0, 1]"
      by (simp_all add: holes_Cons)
    then have comp: "composeArgs [LBool x] [PLACEHOLDER, PLACEHOLDER] [0, 1] = [LBool x, LUndef]"
      using composeArgs_fill [of "[LBool x]" "[None, None]"] by simp
    have "decode PLACEHOLDER [LBool x, LUndef] = [Some (LBool x), Some LUndef]"
      "holes [Some (LBool x), Some LUndef] = []"
      by (simp_all add: strict_eq_def holes_Cons) (simp add: PLACEHOLDER_def)
    then have rep: "replaceHolders [LBool x, LUndef] PLACEHOLDER = ([LBool x, LUndef], [])"
      by (simp add: replaceHolders_decode)
    have arg: "argData ?w PARTIAL_FLAG LUndef (Some [LBool x]) (Some []) None None None =
        WData ?w PARTIAL_FLAG LUndef (Some [LBool x]) (Some []) None None None None None"
      by (simp add: argData_def opt_list_def on_def)
    have merge: "mergeData (WData ?w PARTIAL_FLAG LUndef (Some [LBool x]) (Some []) None None None None None) ?d =
        WData (WNative 7 2) PARTIAL_FLAG LUndef (Some [LBool x, LUndef]) (Some []) None None None None (Some 2)"
      by (simp add: mergeData_def mergeable_def opt_list_def on_def comp [simplified] rep)
    have ph: "placeholder_of demo_wenv (we_lodash demo_wenv) = LRef 0"
      by (simp add: placeholder_of_def demo_wenv_def lo_truthy_def)
    have data: "getData demo_wenv ?w = Some ?d" by (simp add: getData_def demo_wenv_def)
    have make: "makeWrapper ?d2 1 = Inr ?v" by (simp add: makeWrapper_def on_def)
    show ?thesis
      unfolding lo_partial_def ph ps Let_def prod.case createWrapper_def arg data option.case merge
      by (simp add: data [simplified] merge [simplified] set_arity_def make opt_list_def on_def is_function_def)
  qed
  moreover have "call_fn demo_wenv (baseSetData demo_wenv ?v ?d2) False LUndef [LBool y] =
      Called 7 False LUndef [LBool x, LUndef, LBool y]"
    by (simp add: baseSetData_def createPartialWrapper_def partial_call_append pass_this_def on_def opt_list_def)
  moreover have "hybrid_call demo_wenv ?d LUndef False LUndef [LBool x, LBool y] = Go LUndef [LBool x, LBool y]"
    by (simp add: hybrid_call_def composeArgs_def read_at_def write_at_def pass_this_def on_def opt_list_def
        Let_def upt_rec)
  then have "call_fn demo_wenv ?w False LUndef [LBool x, LBool y] = Called 7 False LUndef [LBool x, LBool y]"
    by simp
  ultimately show ?thesis by blast
qed

end
