(* ===== verification/LodashCurry.thy ===== *)
theory LodashCurry
  imports LodashPartials
begin

unbundle bit_operations_syntax

text \<open>
  Currying: \<open>curry\<close> and \<open>curryRight\<close> of \<open>LodashWrappers\<close> return wrappers that collect arguments over
  any number of calls, and call the function once there are enough.
\<close>

section \<open>Collecting arguments\<close>

text \<open>Calls of what the call before returned; each has its own \<open>this\<close>.\<close>

fun feed :: "wenv \<Rightarrow> wfn \<Rightarrow> (lval \<times> lval list) list \<Rightarrow> woutcome" where
  "feed e f [] = Returned f"
| "feed e f ((this, as) # calls) = (case call_fn e f False this as of
     Returned g \<Rightarrow> feed e g calls
   | out \<Rightarrow> out)"

definition join :: "bool \<Rightarrow> lval list \<Rightarrow> lval list \<Rightarrow> lval list" where
  "join right xs as = (if right then as @ xs else xs @ as)"

definition side_flag :: "bool \<Rightarrow> 32 word" where
  "side_flag right = (if right then CURRY_RIGHT_FLAG else CURRY_FLAG)"

lemma join_Nil [simp]: "join right [] as = as"
  by (simp add: join_def)

text \<open>A wrapper that holds the arguments \<open>xs\<close> and waits for \<open>n\<close> more.\<close>

definition collecting :: "bool \<Rightarrow> wfn \<Rightarrow> lval \<Rightarrow> int \<Rightarrow> lval list \<Rightarrow> wfn \<Rightarrow> bool" where
  "collecting right f ph n xs g \<longleftrightarrow>
     (\<exists>m. xs = [] \<and> g = Wrapper CurryShape
        (WData f (side_flag right) LUndef None None None None None None (Some n)) m ph) \<or>
     (\<exists>m. g = Wrapper HybridShape
        (if right
         then WData f (CURRY_RIGHT_FLAG OR PARTIAL_RIGHT_FLAG) LUndef None None (Some xs) (Some []) None None (Some n)
         else WData f (CURRY_FLAG OR PARTIAL_FLAG) LUndef (Some xs) (Some []) None None None None (Some n)) m ph)"

definition free_of :: "lval \<Rightarrow> lval list \<Rightarrow> bool" where
  "free_of ph as \<longleftrightarrow> (\<forall>v \<in> set as. \<not> strict_eq v ph)"

lemma free_of_simps [simp]: "free_of ph []" "free_of ph (v # as) \<longleftrightarrow> \<not> strict_eq v ph \<and> free_of ph as"
  "free_of ph (as @ bs) \<longleftrightarrow> free_of ph as \<and> free_of ph bs"
  by (auto simp: free_of_def)

lemma free_of_join [simp]: "free_of ph (join right xs as) \<longleftrightarrow> free_of ph xs \<and> free_of ph as"
  by (auto simp: join_def)

lemma decode_free: "free_of ph as \<Longrightarrow> decode ph as = map Some as"
  by (induction as) simp_all

lemma holes_Some [simp]: "holes (map Some as) = []"
  by (induction as) (simp_all add: holes_Cons)

lemma encode_Some [simp]: "encode (map Some as) = as"
  by (simp add: encode_def map_idI)

lemma replace_free: "free_of ph as \<Longrightarrow> replaceHolders as ph = (as, [])"
  by (simp add: replaceHolders_decode decode_free)

lemma compose_free: "composeArgs as xs [] = xs @ as" "composeArgsRight as xs [] = as @ xs"
  using composeArgs_fill [of as "map Some xs"] composeArgsRight_fill [of as "map Some xs"]
    no_holes [of "map Some xs"] by (simp_all add: fill_right_def)

lemma placeholder_of_idem: "placeholder_of e (placeholder_of e own) = placeholder_of e own"
  by (simp add: placeholder_of_def)

lemma recurry_collecting:
  assumes "free_of ph xs" and "bits = side_flag right \<or>
    bits = (if right then CURRY_RIGHT_FLAG OR PARTIAL_RIGHT_FLAG else CURRY_FLAG OR PARTIAL_FLAG)"
  shows "collecting right f ph n xs (createRecurryWrapper e f bits ph LUndef xs [] None None n)"
  using assms(2)
  by (auto simp: createRecurryWrapper_def collecting_def side_flag_def on_def createHybridWrapper_def
      setData_def baseSetData_def set_placeholder_def Let_def split: if_splits)

text \<open>One call of a collecting wrapper.\<close>

lemma collecting_call:
  assumes g: "collecting right f ph n xs g" and free: "free_of ph xs" "free_of ph as"
    and ph: "placeholder_of e ph = ph"
  shows "if int (length as) < n
    then \<exists>h. call_fn e g False this as = Returned h \<and> collecting right f ph (n - int (length as)) (join right xs as) h
    else call_fn e g False this as = call_fn e f False this (join right xs as)"
proof -
  have rep: "replaceHolders as ph = (as, [])" "replaceHolders (xs @ as) ph = (xs @ as, [])"
    "replaceHolders (as @ xs) ph = (as @ xs, [])"
    using free by (simp_all add: replace_free)
  from g consider (first) m where "xs = []" "g = Wrapper CurryShape
        (WData f (side_flag right) LUndef None None None None None None (Some n)) m ph"
    | (later) m where "g = Wrapper HybridShape
        (if right
         then WData f (CURRY_RIGHT_FLAG OR PARTIAL_RIGHT_FLAG) LUndef None None (Some xs) (Some []) None None (Some n)
         else WData f (CURRY_FLAG OR PARTIAL_FLAG) LUndef (Some xs) (Some []) None None None None (Some n)) m ph"
    unfolding collecting_def by blast
  then show ?thesis
  proof cases
    case first
    have "call_fn e g False this as = (if int (length as) < n
        then Returned (createRecurryWrapper e f (side_flag right) ph LUndef as [] None None (n - int (length as)))
        else call_fn e f False this as)"
      unfolding first(2) by (simp add: curry_call_def ph rep Let_def del: createRecurryWrapper_def)
    moreover have "collecting right f ph k as (createRecurryWrapper e f (side_flag right) ph LUndef as [] None None k)" for k
      using free by (intro recurry_collecting) simp_all
    ultimately show ?thesis unfolding first(1) join_Nil by auto
  next
    case later
    have "call_fn e g False this as = (if int (length as) < n
        then Returned (createRecurryWrapper e f
          (if right then CURRY_RIGHT_FLAG OR PARTIAL_RIGHT_FLAG else CURRY_FLAG OR PARTIAL_FLAG)
          ph LUndef (join right xs as) [] None None (n - int (length as)))
        else call_fn e f False this (join right xs as))"
      unfolding later
      by (cases right) (simp_all add: hybrid_call_def ph rep Let_def opt_list_def compose_free on_def join_def pass_this_def)
    then show ?thesis
      using recurry_collecting [of ph "join right xs as" _ right] free by (simp add: join_def)
  qed
qed

section \<open>Many calls\<close>

lemma feed_append: "feed e f (cs @ ds) = (case feed e f cs of Returned g \<Rightarrow> feed e g ds | out \<Rightarrow> out)"
  by (induction e f cs rule: feed.induct) (auto split: woutcome.splits)

definition args_given :: "(lval \<times> lval list) list \<Rightarrow> lval list" where
  "args_given calls = concat (map snd calls)"

definition gathered :: "bool \<Rightarrow> (lval \<times> lval list) list \<Rightarrow> lval list" where
  "gathered right calls = (if right then concat (rev (map snd calls)) else concat (map snd calls))"

lemma gathered_snoc [simp]: "gathered right (calls @ [c]) = join right (gathered right calls) (snd c)"
  "gathered right [] = []"
  by (simp_all add: gathered_def join_def)

lemma args_given_snoc [simp]: "args_given (calls @ [c]) = args_given calls @ snd c" "args_given [] = []"
  by (simp_all add: args_given_def)

lemma length_gathered [simp]: "length (gathered right calls) = length (args_given calls)"
  by (induction calls rule: rev_induct) (auto simp: join_def)

lemma free_gathered [simp]: "free_of ph (gathered right calls) \<longleftrightarrow> free_of ph (args_given calls)"
  by (induction calls rule: rev_induct) auto

text \<open>While arguments are missing, every call returns a wrapper that holds those given.\<close>

lemma feed_waits:
  assumes "collecting right f ph n [] g" and "placeholder_of e ph = ph"
  shows "free_of ph (args_given calls) \<Longrightarrow> int (length (args_given calls)) < n \<Longrightarrow>
    \<exists>h. feed e g calls = Returned h \<and> collecting right f ph (n - int (length (args_given calls))) (gathered right calls) h"
proof (induction calls rule: rev_induct)
  case Nil
  then show ?case using assms by simp
next
  case (snoc c calls)
  then obtain h where h: "feed e g calls = Returned h"
    "collecting right f ph (n - int (length (args_given calls))) (gathered right calls) h" by auto
  obtain this as where c: "c = (this, as)" by force
  from snoc.prems c have "int (length as) < n - int (length (args_given calls))" "free_of ph as"
    "free_of ph (gathered right calls)" by auto
  with collecting_call [OF h(2) _ _ assms(2), of as this] obtain k where
    "call_fn e h False this as = Returned k"
    "collecting right f ph (n - int (length (args_given calls)) - int (length as)) (join right (gathered right calls) as) k"
    by auto
  then show ?case using h(1) c by (simp add: feed_append algebra_simps)
qed

lemma feed_one [simp]: "feed e g [(this, as)] = call_fn e g False this as"
  by (simp split: woutcome.splits)

lemma feed_completes:
  assumes "collecting right f ph n [] g" and "placeholder_of e ph = ph"
    and "free_of ph (args_given calls)" and "int (length (args_given calls)) < n"
    and "free_of ph as" and "n \<le> int (length (args_given calls) + length as)"
  shows "feed e g (calls @ [(this, as)]) = call_fn e f False this (join right (gathered right calls) as)"
proof -
  from feed_waits [OF assms(1-4)] obtain h where h: "feed e g calls = Returned h"
    "collecting right f ph (n - int (length (args_given calls))) (gathered right calls) h" by blast
  have "call_fn e h False this as = call_fn e f False this (join right (gathered right calls) as)"
    using collecting_call [OF h(2) _ assms(5) assms(2), of this] assms(3,6) by (simp split: if_splits)
  then show ?thesis using h(1) by (simp add: feed_append del: feed.simps)
qed

section \<open>Curried functions\<close>

definition curry_arity :: "wfn \<Rightarrow> jsnum option \<Rightarrow> bool \<Rightarrow> int" where
  "curry_arity f arity guarded = (case (if guarded then None else arity) of
     None \<Rightarrow> int (fn_length f) | Some n \<Rightarrow> max (toInteger (Some n)) 0)"

lemma curry_created:
  assumes "getData e f = None" and "is_function f"
  shows "\<exists>w. map_sum id (\<lambda>result. set_placeholder result ph)
      (createWrapper e f (side_flag right) LUndef None None None None (if guarded then None else arity)) = Inr w \<and>
    (if curry_arity f arity guarded = 0
     then \<forall>new this as. call_fn e w new this as = call_fn e f new this as
     else \<exists>m. w = Wrapper CurryShape (WData f (side_flag right) LUndef None None None None None None
         (Some (curry_arity f arity guarded))) m ph)"
proof -
  define k where "k = (if guarded then None else arity)"
  define n where "n = curry_arity f arity guarded"
  let ?d = "WData f (side_flag right) LUndef None None None None None None (map_option (\<lambda>n. toInteger (Some n)) k)"
  have a: "argData f (side_flag right) LUndef None None None None k = ?d"
    by (simp add: argData_def opt_list_def on_def side_flag_def)
  have arity: "n = (case k of None \<Rightarrow> int (fn_length f) | Some m \<Rightarrow> max (toInteger (Some m)) 0)"
    by (simp add: n_def k_def curry_arity_def)
  have on: "\<not> on (side_flag right) BIND_KEY_FLAG" by (simp add: on_def side_flag_def)
  have make: "makeWrapper (set_arity ?d n) n = Inr (if n = 0 then createBaseWrapper f 0 LUndef
      else createCurryWrapper f (side_flag right) n)"
    by (simp add: makeWrapper_def on_def side_flag_def Let_def)
  have "createWrapper e f (side_flag right) LUndef None None None None k =
      map_sum id (\<lambda>w. setData e w (set_arity ?d n)) (makeWrapper (set_arity ?d n) n)"
    using assms on unfolding createWrapper_def a Let_def by (cases k) (simp_all add: opt_list_def arity)
  then show ?thesis unfolding make k_def [symmetric] n_def [symmetric]
    by (simp add: createBaseWrapper_def createCurryWrapper_def setData_def baseSetData_def set_placeholder_def
        base_call_def pass_this_def)
qed

section \<open>Properties\<close>

text \<open>C13: A curried function collects arguments over any sequence of calls and calls the function
  exactly when its arity is reached, with all arguments in order and the \<open>this\<close> of the last call;
  until then every call returns a function. \<open>curryRight\<close> collects them from the right.\<close>
theorem curry_collects:
  assumes "getData e f = None" and "is_function f"
    and "free_of (placeholder_of e (we_lodash e)) (args_given calls @ as)"
    and "calls = [] \<or> int (length (args_given calls)) < curry_arity f arity guarded"
  shows "\<exists>l r. lo_curry e f arity guarded = Inr l \<and> curryRight e f arity guarded = Inr r \<and>
    (if curry_arity f arity guarded \<le> int (length (args_given calls @ as))
     then feed e l (calls @ [(this, as)]) = call_fn e f False this (concat (map snd calls) @ as) \<and>
       feed e r (calls @ [(this, as)]) = call_fn e f False this (as @ concat (rev (map snd calls)))
     else \<exists>g h. feed e l (calls @ [(this, as)]) = Returned g \<and> feed e r (calls @ [(this, as)]) = Returned h)"
proof -
  let ?ph = "placeholder_of e (we_lodash e)" and ?n = "curry_arity f arity guarded"
  have ph: "placeholder_of e ?ph = ?ph" by (rule placeholder_of_idem)
  have one: "\<exists>w. map_sum id (\<lambda>result. set_placeholder result ?ph)
        (createWrapper e f (side_flag right) LUndef None None None None (if guarded then None else arity)) = Inr w \<and>
      (if ?n \<le> int (length (args_given calls @ as))
       then feed e w (calls @ [(this, as)]) = call_fn e f False this (join right (gathered right calls) as)
       else \<exists>g. feed e w (calls @ [(this, as)]) = Returned g)" for right
  proof -
    obtain w where w: "map_sum id (\<lambda>result. set_placeholder result ?ph)
        (createWrapper e f (side_flag right) LUndef None None None None (if guarded then None else arity)) = Inr w"
      and zero: "?n = 0 \<Longrightarrow> call_fn e w new this as = call_fn e f new this as"
      and pos: "?n \<noteq> 0 \<Longrightarrow> collecting right f ?ph ?n [] w" for new this as
      using curry_created [OF assms(1,2), of ?ph right guarded arity]
      by (auto simp: collecting_def simp del: call_fn.simps split: if_splits)
    show ?thesis
    proof (cases "?n = 0")
      case True
      then have "calls = []" using assms(4) by auto
      then show ?thesis using w zero [OF True] True by (simp del: feed.simps)
    next
      case False
      have "0 < ?n" using False by (auto simp: curry_arity_def split: option.splits)
      then have lt: "int (length (args_given calls)) < ?n" using assms(4) by auto
      have free: "free_of ?ph (args_given calls)" "free_of ?ph as" using assms(3) by simp_all
      show ?thesis
      proof (cases "?n \<le> int (length (args_given calls @ as))")
        case True
        then show ?thesis using w feed_completes [OF pos [OF False] ph free(1) lt free(2), of this] by simp
      next
        case short: False
        then show ?thesis using w feed_waits [OF pos [OF False] ph, of "calls @ [(this, as)]"] free by auto
      qed
    qed
  qed
  show ?thesis
    using one [of False] one [of True]
    by (simp add: lo_curry_def curryRight_def side_flag_def join_def gathered_def split: if_splits)
qed

theorem curry_collects_witness:
  "\<exists>l. lo_curry demo_wenv (WNative 7 3) None False = Inr l \<and>
    feed demo_wenv l [(LNull, [LBool True, LNull]), (LUndef, []), (LRef 4, [LUndef, LBool False])] =
      Called 7 False (LRef 4) [LBool True, LNull, LUndef, LBool False]"
proof -
  have "curry_arity (WNative 7 3) None False = 3" by (simp add: curry_arity_def fn_length_def)
  then show ?thesis
    using curry_collects [of demo_wenv "WNative 7 3" "[(LNull, [LBool True, LNull]), (LUndef, [])]"
        "[LUndef, LBool False]" None False "LRef 4"]
    by (auto simp: getData_def is_function_def args_given_def placeholder_of_def demo_wenv_def lo_truthy_def strict_eq_def)
qed

text \<open>With enough other arguments, placeholders do not wait: the function is called with the internal
  placeholder in their places.\<close>
theorem curry_passes_placeholder:
  assumes "getData e f = None" and "is_function f" and "lo_curry e f arity guarded = Inr w"
    and "0 < curry_arity f arity guarded" and "ph = placeholder_of e (we_lodash e)"
    and "curry_arity f arity guarded \<le> int (length as) - int (length (holes (decode ph as)))"
  shows "call_fn e w False this as = call_fn e f False this (encode (decode ph as))"
proof -
  obtain m where w: "w = Wrapper CurryShape (WData f CURRY_FLAG LUndef None None None None None None
      (Some (curry_arity f arity guarded))) m ph"
    using curry_created [OF assms(1,2), of ph False guarded arity] assms(3,4)
    unfolding lo_curry_def assms(5) by (auto simp: side_flag_def)
  have idem: "placeholder_of e ph = ph" unfolding assms(5) by (rule placeholder_of_idem)
  have holders: "(if int (length as) < 3 \<and> \<not> strict_eq (read_at as 0) ph \<and> \<not> strict_eq (read_at as (int (length as) - 1)) ph
      then (as, []) else replaceHolders as ph) = (encode (decode ph as), holes (decode ph as))"
  proof (cases "int (length as) < 3 \<and> \<not> strict_eq (read_at as 0) ph \<and> \<not> strict_eq (read_at as (int (length as) - 1)) ph")
    case True
    then have "free_of ph as" by (cases as; cases "tl as") (auto simp: read_at_def)
    then show ?thesis using True by (simp add: decode_free)
  next
    case False
    then show ?thesis by (simp only: if_False replaceHolders_decode)
  qed
  have "curry_call e (WData f CURRY_FLAG LUndef None None None None None None (Some (curry_arity f arity guarded)))
      ph this as = Go this (encode (decode ph as))"
    using assms(6) unfolding curry_call_def Let_def idem holders by simp
  then show ?thesis unfolding w by simp
qed

theorem curry_passes_placeholder_witness:
  "\<exists>w. lo_curry demo_wenv (WNative 7 2) None False = Inr w \<and>
    call_fn demo_wenv w False LNull [LRef 0, LNull, LBool True] =
      Called 7 False LNull [LStr ''__lodash_placeholder__'', LNull, LBool True]"
proof -
  have n: "curry_arity (WNative 7 2) None False = 2" by (simp add: curry_arity_def fn_length_def)
  have d: "getData demo_wenv (WNative 7 2) = None" "is_function (WNative 7 2)"
    by (simp_all add: getData_def is_function_def)
  have ph: "LRef 0 = placeholder_of demo_wenv (we_lodash demo_wenv)"
    by (simp add: placeholder_of_def demo_wenv_def lo_truthy_def)
  obtain w where w: "lo_curry demo_wenv (WNative 7 2) None False = Inr w"
    using curry_created [OF d, of "LRef 0" False False None] by (auto simp: lo_curry_def side_flag_def ph)
  show ?thesis
    using curry_passes_placeholder [OF d w _ ph, of "[LRef 0, LNull, LBool True]" LNull] w
    by (simp add: n strict_eq_def is_NaN_def holes_Cons PLACEHOLDER_def)
qed

text \<open>A partial application of a curried function has no placeholder of its own, so that it takes an
  \<open>undefined\<close> argument for one, and waits where it should call.\<close>
theorem partial_of_curried_waits:
  "\<exists>c w g. lo_curry demo_wenv (WNative 7 2) None False = Inr c \<and> lo_partial demo_wenv c [LBool x] = Inr w \<and>
    call_fn demo_wenv w False LUndef [LNull] = Called 7 False LUndef [LBool x, LNull] \<and>
    call_fn demo_wenv w False LUndef [LUndef] = Returned g"
proof -
  let ?d = "WData (WNative 7 2) CURRY_FLAG LUndef None None None None None None (Some 2)"
  let ?d2 = "WData (WNative 7 2) (CURRY_FLAG OR PARTIAL_FLAG) LUndef (Some [LBool x]) (Some []) None None None None (Some 1)"
  let ?c = "Wrapper CurryShape ?d (Some ?d) (LRef 0)"
  let ?w = "Wrapper HybridShape ?d2 (Some ?d2) LUndef"
  have "lo_curry demo_wenv (WNative 7 2) None False = Inr ?c"
    by (simp add: lo_curry_def createCurryWrapper_def set_placeholder_def wrapper_demo_defs)
  moreover have "lo_partial demo_wenv ?c [LBool x] = Inr ?w" by (simp add: wrapper_demo_defs)
  moreover have "hybrid_call demo_wenv ?d2 LUndef False LUndef [LNull] = Go LUndef [LBool x, LNull]"
    by (simp add: wrapper_demo_defs)
  moreover have "\<exists>g. hybrid_call demo_wenv ?d2 LUndef False LUndef [LUndef] = Curried g"
    by (simp add: wrapper_demo_defs)
  ultimately show ?thesis by (metis (no_types, lifting) call_fn.simps(1,3) waction.simps(5,6) wdata.sel(1) wrapper_call.simps(4))
qed

end
