(* ===== verification/LodashEqual.thy ===== *)
theory LodashEqual
  imports LodashCacheLaws LodashSlices "HOL-Library.Word"
begin

unbundle bit_operations_syntax

text \<open>
  Deep comparison in \<open>lodash-4.2.1.js\<close>: \<open>isEqual\<close>, \<open>isEqualWith\<close> and the functions they are made of.
  Objects live in a store and may refer to each other in cycles; a \<open>Stack\<close> holds the objects being
  compared. Maps, sets, symbols, array buffers, typed arrays and objects of the host are not in the
  store. A nesting depth stands for the engine's call stack.
\<close>

section \<open>The store\<close>

datatype jsobj =
    OArr "lval list"
  | OPlain "lval props"          \<comment> \<open>own enumerable members, in order\<close>
  | OFunc
  | OBoolean bool
  | ODate jsnum
  | ONumber jsnum
  | OString string
  | ORegExp string
  | OError string string         \<comment> \<open>name and message\<close>

text \<open>
  \<open>hp_proto\<close> are the inherited members of an object, \<open>hp_selfinst\<close> the functions that are instances
  of themselves, as \<open>Object\<close> is, \<open>hp_value\<close> what the method \<open>value\<close> of an object returns.
\<close>

record jsheap =
  hp_objs :: "nat \<Rightarrow> jsobj"
  hp_proto :: "nat \<Rightarrow> string \<Rightarrow> lval option"
  hp_selfinst :: "nat \<Rightarrow> bool"
  hp_value :: "nat \<Rightarrow> jserr + lval"

datatype jstag =
  UndefinedTag | NullTag | ArrayTag | ObjectTag | FuncTag | BoolTag | DateTag | NumberTag | StringTag |
  RegexpTag | ErrorTag

fun obj_tag :: "jsobj \<Rightarrow> jstag" where
  "obj_tag (OArr vs) = ArrayTag"
| "obj_tag (OPlain ps) = ObjectTag"
| "obj_tag OFunc = FuncTag"
| "obj_tag (OBoolean b) = BoolTag"
| "obj_tag (ODate n) = DateTag"
| "obj_tag (ONumber n) = NumberTag"
| "obj_tag (OString s) = StringTag"
| "obj_tag (ORegExp s) = RegexpTag"
| "obj_tag (OError n m) = ErrorTag"

fun getTag :: "jsheap \<Rightarrow> lval \<Rightarrow> jstag" where
  "getTag h LUndef = UndefinedTag"
| "getTag h LNull = NullTag"
| "getTag h (LBool b) = BoolTag"
| "getTag h (LNum n) = NumberTag"
| "getTag h (LStr s) = StringTag"
| "getTag h (LRef a) = obj_tag (hp_objs h a)"

definition isObject :: "lval \<Rightarrow> bool" where
  "isObject v \<longleftrightarrow> (case v of LRef a \<Rightarrow> True | _ \<Rightarrow> False)"

definition isObjectLike :: "jsheap \<Rightarrow> lval \<Rightarrow> bool" where
  "isObjectLike h v \<longleftrightarrow> (case v of LRef a \<Rightarrow> hp_objs h a \<noteq> OFunc | _ \<Rightarrow> False)"

definition elements :: "jsheap \<Rightarrow> lval \<Rightarrow> lval list" where
  "elements h v = (case v of LRef a \<Rightarrow> (case hp_objs h a of OArr vs \<Rightarrow> vs | _ \<Rightarrow> []) | _ \<Rightarrow> [])"

definition members :: "jsheap \<Rightarrow> lval \<Rightarrow> lval props" where
  "members h v = (case v of LRef a \<Rightarrow> (case hp_objs h a of OPlain ps \<Rightarrow> ps | _ \<Rightarrow> []) | _ \<Rightarrow> [])"

definition keys :: "jsheap \<Rightarrow> lval \<Rightarrow> string list" where
  "keys h v = map fst (members h v)"

definition baseHas :: "jsheap \<Rightarrow> lval \<Rightarrow> string \<Rightarrow> bool" where
  "baseHas h v key \<longleftrightarrow> map_of (members h v) key \<noteq> None"

text \<open>\<open>v[key]\<close> and \<open>key in v\<close>, own or inherited.\<close>

definition member :: "jsheap \<Rightarrow> lval \<Rightarrow> string \<Rightarrow> lval option" where
  "member h v key = (case map_of (members h v) key of
     Some x \<Rightarrow> Some x
   | None \<Rightarrow> (case v of LRef a \<Rightarrow> hp_proto h a key | _ \<Rightarrow> None))"

definition read_member :: "jsheap \<Rightarrow> lval \<Rightarrow> string \<Rightarrow> lval" where
  "read_member h v key = (case member h v key of Some x \<Rightarrow> x | None \<Rightarrow> LUndef)"

section \<open>Values compared by their tag\<close>

text \<open>\<open>+v\<close> of booleans, dates and numbers, \<open>v + ''\<close> of strings and regular expressions.\<close>

definition plus_value :: "jsheap \<Rightarrow> lval \<Rightarrow> jsnum" where
  "plus_value h v = (case v of
     LBool b \<Rightarrow> Fin (if b then 1 else 0)
   | LNum n \<Rightarrow> n
   | LRef a \<Rightarrow> (case hp_objs h a of
        OBoolean b \<Rightarrow> Fin (if b then 1 else 0) | ODate n \<Rightarrow> n | ONumber n \<Rightarrow> n | _ \<Rightarrow> NaN)
   | _ \<Rightarrow> NaN)"

definition str_value :: "jsheap \<Rightarrow> lval \<Rightarrow> string" where
  "str_value h v = (case v of
     LStr s \<Rightarrow> s
   | LRef a \<Rightarrow> (case hp_objs h a of OString s \<Rightarrow> s | ORegExp s \<Rightarrow> s | _ \<Rightarrow> [])
   | _ \<Rightarrow> [])"

definition error_parts :: "jsheap \<Rightarrow> lval \<Rightarrow> string \<times> string" where
  "error_parts h v = (case v of
     LRef a \<Rightarrow> (case hp_objs h a of OError n m \<Rightarrow> (n, m) | _ \<Rightarrow> ([], []))
   | _ \<Rightarrow> ([], []))"

definition equalByTag :: "jsheap \<Rightarrow> lval \<Rightarrow> lval \<Rightarrow> jstag \<Rightarrow> bool" where
  "equalByTag h object other tag = (case tag of
     BoolTag \<Rightarrow> plus_value h object = plus_value h other \<and> plus_value h object \<noteq> NaN
   | DateTag \<Rightarrow> plus_value h object = plus_value h other \<and> plus_value h object \<noteq> NaN
   | ErrorTag \<Rightarrow> fst (error_parts h object) = fst (error_parts h other) \<and>
       snd (error_parts h object) = snd (error_parts h other)
   | NumberTag \<Rightarrow> if plus_value h object = NaN then plus_value h other = NaN
       else plus_value h object = plus_value h other
   | RegexpTag \<Rightarrow> str_value h object = str_value h other
   | StringTag \<Rightarrow> str_value h object = str_value h other
   | _ \<Rightarrow> False)"

section \<open>Comparing\<close>

text \<open>
  A comparison takes and returns the stack. \<open>None\<close> is a call stack that is exhausted. The stack is made
  when it is first needed; nothing differs if it is made at the start.
\<close>

type_synonym 'm cmp = "'m \<Rightarrow> ((jserr + bool) \<times> 'm) option"

definition cret :: "bool \<Rightarrow> 'm cmp" where
  "cret b st = Some (Inr b, st)"

text \<open>A loop that breaks at the first element that differs, and \<open>arraySome\<close>.\<close>

fun all_true :: "('x \<Rightarrow> 'm cmp) \<Rightarrow> 'x list \<Rightarrow> 'm cmp" where
  "all_true f [] st = cret True st"
| "all_true f (x # xs) st = (case f x st of
     Some (Inr b, s) \<Rightarrow> if b then all_true f xs s else cret False s
   | r \<Rightarrow> r)"

fun any_true :: "('x \<Rightarrow> 'm cmp) \<Rightarrow> 'x list \<Rightarrow> 'm cmp" where
  "any_true f [] st = cret False st"
| "any_true f (x # xs) st = (case f x st of
     Some (Inr b, s) \<Rightarrow> if b then cret True s else any_true f xs s
   | r \<Rightarrow> r)"

text \<open>
  The customizer gets the two values and the index or key. \<open>UNORDERED_COMPARE_FLAG\<close> is 1,
  \<open>PARTIAL_COMPARE_FLAG\<close> is 2.
\<close>

type_synonym customizer = "lval \<Rightarrow> lval \<Rightarrow> lval \<Rightarrow> lval"

definition compared :: "customizer option \<Rightarrow> bool \<Rightarrow> lval \<Rightarrow> lval \<Rightarrow> lval \<Rightarrow> lval" where
  "compared customizer isPartial objValue othValue key = (case customizer of
     None \<Rightarrow> LUndef
   | Some f \<Rightarrow> if isPartial then f othValue objValue key else f objValue othValue key)"

definition equalArrays ::
  "jsheap \<Rightarrow> ('m \<Rightarrow> lval \<Rightarrow> lval) \<Rightarrow> ('m \<Rightarrow> lval \<Rightarrow> lval \<Rightarrow> 'm) \<Rightarrow> ('m \<Rightarrow> lval \<Rightarrow> bool \<times> 'm) \<Rightarrow>
     customizer option \<Rightarrow> 32 word \<Rightarrow> (lval \<Rightarrow> lval \<Rightarrow> 'm cmp) \<Rightarrow> lval \<Rightarrow> lval \<Rightarrow> 'm cmp" where
  "equalArrays h get put del customizer bitmask equalFunc array other st =
     (let isPartial = (bitmask AND 2 \<noteq> 0); isUnordered = (bitmask AND 1 \<noteq> 0);
          arr = elements h array; oth = elements h other
      in if length arr \<noteq> length oth \<and> \<not> (isPartial \<and> length oth > length arr) then cret False st
         else let stacked = get st array
         in if lo_truthy stacked then cret (stacked = other) st
         else (case all_true (\<lambda>index.
                 let arrValue = arr ! index;
                     othValue = read_at oth (int index);
                     c = compared customizer isPartial arrValue othValue (LNum (num_int (int index)))
                 in if c \<noteq> LUndef then cret (lo_truthy c)
                    else if isUnordered
                    then any_true (\<lambda>othValue.
                      if strict_eq arrValue othValue then cret True else equalFunc arrValue othValue) oth
                    else if strict_eq arrValue othValue then cret True else equalFunc arrValue othValue)
               [0..<length arr] (put st array other) of
            Some (Inr result, s) \<Rightarrow> Some (Inr result, snd (del s array))
          | r \<Rightarrow> r))"

text \<open>Constructors are compared unless the objects have an own member of that name.\<close>

definition same_ctor :: "jsheap \<Rightarrow> lval \<Rightarrow> lval \<Rightarrow> bool" where
  "same_ctor h object other =
     (let self = (\<lambda>v. case v of LRef a \<Rightarrow> hp_objs h a = OFunc \<and> hp_selfinst h a | _ \<Rightarrow> False);
          objCtor = read_member h object ''constructor''; othCtor = read_member h other ''constructor''
      in \<not> (objCtor \<noteq> othCtor \<and>
           (member h object ''constructor'' \<noteq> None \<and> member h other ''constructor'' \<noteq> None) \<and>
           \<not> (self objCtor \<and> self othCtor)))"

definition equalObjects ::
  "jsheap \<Rightarrow> ('m \<Rightarrow> lval \<Rightarrow> lval) \<Rightarrow> ('m \<Rightarrow> lval \<Rightarrow> lval \<Rightarrow> 'm) \<Rightarrow> ('m \<Rightarrow> lval \<Rightarrow> bool \<times> 'm) \<Rightarrow>
     customizer option \<Rightarrow> 32 word \<Rightarrow> (lval \<Rightarrow> lval \<Rightarrow> 'm cmp) \<Rightarrow> lval \<Rightarrow> lval \<Rightarrow> 'm cmp" where
  "equalObjects h get put del customizer bitmask equalFunc object other st =
     (let isPartial = (bitmask AND 2 \<noteq> 0); objProps = keys h object; othProps = keys h other
      in if length objProps \<noteq> length othProps \<and> \<not> isPartial then cret False st
         else if \<exists>key \<in> set objProps. \<not> (if isPartial then member h other key \<noteq> None else baseHas h other key)
         then cret False st
         else let stacked = get st object
         in if lo_truthy stacked then cret (stacked = other) st
         else (case all_true (\<lambda>key.
                 let objValue = read_member h object key;
                     othValue = read_member h other key;
                     c = compared customizer isPartial objValue othValue (LStr key)
                 in if c = LUndef
                    then (if strict_eq objValue othValue then cret True else equalFunc objValue othValue)
                    else cret (lo_truthy c))
               objProps (put st object other) of
            Some (Inr result, s) \<Rightarrow>
              (let skipCtor = (isPartial \<or> ''constructor'' \<in> set objProps);
                   result = (if result \<and> \<not> skipCtor then same_ctor h object other else result)
               in Some (Inr result, snd (del s object)))
          | r \<Rightarrow> r))"

text \<open>An object with an own member \<open>__wrapped__\<close> is taken for a lodash wrapper.\<close>

definition is_wrapped :: "jsheap \<Rightarrow> lval \<Rightarrow> bool" where
  "is_wrapped h v \<longleftrightarrow> getTag h v = ObjectTag \<and> map_of (members h v) ''__wrapped__'' \<noteq> None"

definition unwrapped :: "jsheap \<Rightarrow> lval \<Rightarrow> jserr + lval" where
  "unwrapped h v = (if is_wrapped h v then (case v of LRef a \<Rightarrow> hp_value h a | _ \<Rightarrow> Inr v) else Inr v)"

definition baseIsEqualDeep ::
  "jsheap \<Rightarrow> ('m \<Rightarrow> lval \<Rightarrow> lval) \<Rightarrow> ('m \<Rightarrow> lval \<Rightarrow> lval \<Rightarrow> 'm) \<Rightarrow> ('m \<Rightarrow> lval \<Rightarrow> bool \<times> 'm) \<Rightarrow>
     customizer option \<Rightarrow> 32 word \<Rightarrow> (lval \<Rightarrow> lval \<Rightarrow> 'm cmp) \<Rightarrow> lval \<Rightarrow> lval \<Rightarrow> 'm cmp" where
  "baseIsEqualDeep h get put del customizer bitmask equalFunc object other st =
     (let objTag = getTag h object; othTag = getTag h other;
          objIsArr = (objTag = ArrayTag); objIsObj = (objTag = ObjectTag);
          isSameTag = (objTag = othTag)
      in if isSameTag \<and> \<not> (objIsArr \<or> objIsObj) then cret (equalByTag h object other objTag) st
         else if bitmask AND 2 = 0 \<and> (is_wrapped h object \<or> is_wrapped h other)
         then (case unwrapped h object of
             Inl e \<Rightarrow> Some (Inl e, st)
           | Inr v \<Rightarrow> (case unwrapped h other of
               Inl e \<Rightarrow> Some (Inl e, st)
             | Inr w \<Rightarrow> equalFunc v w st))
         else if \<not> isSameTag then cret False st
         else if objIsArr then equalArrays h get put del customizer bitmask equalFunc object other st
         else equalObjects h get put del customizer bitmask equalFunc object other st)"

fun baseIsEqual ::
  "jsheap \<Rightarrow> ('m \<Rightarrow> lval \<Rightarrow> lval) \<Rightarrow> ('m \<Rightarrow> lval \<Rightarrow> lval \<Rightarrow> 'm) \<Rightarrow> ('m \<Rightarrow> lval \<Rightarrow> bool \<times> 'm) \<Rightarrow>
     customizer option \<Rightarrow> 32 word \<Rightarrow> nat \<Rightarrow> lval \<Rightarrow> lval \<Rightarrow> 'm cmp" where
  "baseIsEqual h get put del customizer bitmask 0 v other st = None"
| "baseIsEqual h get put del customizer bitmask (Suc n) v other st =
     (if strict_eq v other then cret True st
      else if v \<in> {LUndef, LNull} \<or> other \<in> {LUndef, LNull} \<or> (\<not> isObject v \<and> \<not> isObjectLike h other)
      then cret (\<not> strict_eq v v \<and> \<not> strict_eq other other) st
      else baseIsEqualDeep h get put del customizer bitmask
             (baseIsEqual h get put del customizer bitmask n) v other st)"

definition isEqual :: "engine \<Rightarrow> jsheap \<Rightarrow> nat \<Rightarrow> lval \<Rightarrow> lval \<Rightarrow> (jserr + bool) option" where
  "isEqual rt h n v other =
     map_option fst (baseIsEqual h (stackGet rt) (stackSet rt) (stackDelete rt) None 0 n v other stackClear)"

definition isEqualWith ::
  "engine \<Rightarrow> jsheap \<Rightarrow> nat \<Rightarrow> lval \<Rightarrow> lval \<Rightarrow> customizer option \<Rightarrow> (jserr + bool) option" where
  "isEqualWith rt h n v other customizer =
     (let result = (case customizer of Some f \<Rightarrow> f v other LUndef | None \<Rightarrow> LUndef)
      in if result = LUndef
         then map_option fst
           (baseIsEqual h (stackGet rt) (stackSet rt) (stackDelete rt) customizer 0 n v other stackClear)
         else Some (Inr (lo_truthy result)))"

section \<open>Matching\<close>

definition isStrictComparable :: "lval \<Rightarrow> bool" where
  "isStrictComparable v \<longleftrightarrow> strict_eq v v \<and> \<not> isObject v"

text \<open>
  A source is a plain object; what an object that is not plain has at a key is left to \<open>hp_proto\<close>.
  The own members of a source, and whether their values are compared by \<open>===\<close>.
\<close>

definition getMatchData :: "jsheap \<Rightarrow> lval \<Rightarrow> (string \<times> lval \<times> bool) list" where
  "getMatchData h object = map (\<lambda>(k, v). (k, v, isStrictComparable v)) (members h object)"

definition match_equal :: "engine \<Rightarrow> jsheap \<Rightarrow> nat \<Rightarrow> customizer option \<Rightarrow> lval \<Rightarrow> lval \<Rightarrow> (jserr + bool) option" where
  "match_equal rt h n customizer srcValue objValue =
     map_option fst (baseIsEqual h (stackGet rt) (stackSet rt) (stackDelete rt) customizer (1 OR 2) n
       srcValue objValue stackClear)"

fun match_loop ::
  "engine \<Rightarrow> jsheap \<Rightarrow> nat \<Rightarrow> lval \<Rightarrow> customizer option \<Rightarrow> (string \<times> lval \<times> bool) list \<Rightarrow> (jserr + bool) option" where
  "match_loop rt h n object customizer [] = Some (Inr True)"
| "match_loop rt h n object customizer ((key, srcValue, strict) # rest) =
     (let objValue = read_member h object key
      in if customizer = None \<and> strict
         then (if objValue = LUndef \<and> member h object key = None then Some (Inr False)
               else match_loop rt h n object customizer rest)
         else (let result = (case customizer of Some f \<Rightarrow> f objValue srcValue (LStr key) | None \<Rightarrow> LUndef)
               in case (if result = LUndef then match_equal rt h n customizer srcValue objValue
                        else Some (Inr (lo_truthy result))) of
                    Some (Inr True) \<Rightarrow> match_loop rt h n object customizer rest
                  | r \<Rightarrow> r))"

definition baseIsMatch ::
  "engine \<Rightarrow> jsheap \<Rightarrow> nat \<Rightarrow> lval \<Rightarrow> (string \<times> lval \<times> bool) list \<Rightarrow> customizer option \<Rightarrow> (jserr + bool) option" where
  "baseIsMatch rt h n object matchData customizer =
     (if object \<in> {LUndef, LNull} then Some (Inr (matchData = []))
      else if \<exists>(key, v, strict) \<in> set matchData.
          if customizer = None \<and> strict then \<not> strict_eq v (read_member h object key)
          else member h object key = None
      then Some (Inr False)
      else match_loop rt h n object customizer matchData)"

definition isMatch :: "engine \<Rightarrow> jsheap \<Rightarrow> nat \<Rightarrow> lval \<Rightarrow> lval \<Rightarrow> (jserr + bool) option" where
  "isMatch rt h n object source =
     (if strict_eq object source then Some (Inr True) else baseIsMatch rt h n object (getMatchData h source) None)"

definition baseMatches :: "engine \<Rightarrow> jsheap \<Rightarrow> nat \<Rightarrow> lval \<Rightarrow> lval \<Rightarrow> (jserr + bool) option" where
  "baseMatches rt h n source object =
     (case getMatchData h source of
        [(key, v, True)] \<Rightarrow> Some (Inr (object \<notin> {LUndef, LNull} \<and> strict_eq (read_member h object key) v \<and>
          (v \<noteq> LUndef \<or> member h object key \<noteq> None)))
      | matchData \<Rightarrow> if strict_eq object source then Some (Inr True) else baseIsMatch rt h n object matchData None)"

end
