(* ===== verification/LodashEqualLaws.thy ===== *)
theory LodashEqualLaws
  imports LodashEqual
begin

text \<open>
  What deep comparison decides. The stack is a client of \<open>js_map\<close>: a comparison leaves it as it was,
  and its result is that of a function of the pairs being compared (\<open>aeq\<close>). Values are alike when no
  path into them tells them apart (\<open>alike\<close>, coinductive, so that cycles are covered).
\<close>

section \<open>The comparison over a map of pairs\<close>

text \<open>The children of two objects of the same kind, and the tests on the objects themselves.\<close>

definition pairs :: "jsheap \<Rightarrow> lval \<Rightarrow> lval \<Rightarrow> (lval \<times> lval) list" where
  "pairs h v other = (if getTag h v = ArrayTag
     then map (\<lambda>i. (elements h v ! i, read_at (elements h other) (int i))) [0..<length (elements h v)]
     else map (\<lambda>k. (read_member h v k, read_member h other k)) (keys h v))"

definition shapes_match :: "jsheap \<Rightarrow> lval \<Rightarrow> lval \<Rightarrow> bool" where
  "shapes_match h v other \<longleftrightarrow> (if getTag h v = ArrayTag
     then length (elements h v) = length (elements h other)
     else length (keys h v) = length (keys h other) \<and> (\<forall>k \<in> set (keys h v). baseHas h other k))"

definition ctors_match :: "jsheap \<Rightarrow> lval \<Rightarrow> lval \<Rightarrow> bool" where
  "ctors_match h v other \<longleftrightarrow>
     getTag h v = ArrayTag \<or> ''constructor'' \<in> set (keys h v) \<or> same_ctor h v other"

definition container :: "jstag \<Rightarrow> bool" where
  "container t \<longleftrightarrow> t = ArrayTag \<or> t = ObjectTag"

text \<open>Values decided without looking inside.\<close>

definition decided :: "jsheap \<Rightarrow> lval \<Rightarrow> lval \<Rightarrow> bool option" where
  "decided h v other =
     (if strict_eq v other then Some True
      else if v \<in> {LUndef, LNull} \<or> other \<in> {LUndef, LNull} \<or> (\<not> isObject v \<and> \<not> isObjectLike h other)
      then Some (is_NaN v \<and> is_NaN other)
      else if getTag h v \<noteq> getTag h other then Some False
      else if \<not> container (getTag h v) then Some (equalByTag h v other (getTag h v))
      else if \<not> shapes_match h v other then Some False
      else None)"

fun all_some :: "('x \<Rightarrow> bool option) \<Rightarrow> 'x list \<Rightarrow> bool option" where
  "all_some f [] = Some True"
| "all_some f (x # xs) = (case f x of
     Some b \<Rightarrow> if b then all_some f xs else Some False | None \<Rightarrow> None)"

fun aeq :: "jsheap \<Rightarrow> nat \<Rightarrow> lval \<Rightarrow> lval \<Rightarrow> (lval \<rightharpoonup> lval) \<Rightarrow> bool option" where
  "aeq h 0 v other m = None"
| "aeq h (Suc n) v other m = (case decided h v other of
     Some b \<Rightarrow> Some b
   | None \<Rightarrow> (case m v of
       Some w \<Rightarrow> Some (w = other)
     | None \<Rightarrow> map_option (\<lambda>b. b \<and> ctors_match h v other)
         (all_some (\<lambda>(x, y). if strict_eq x y then Some True else aeq h n x y (m(v \<mapsto> other)))
           (pairs h v other))))"

lemma container_ref: "container (getTag h v) \<Longrightarrow> \<exists>a. v = LRef a"
  by (cases v) (auto simp: container_def)

lemma container_truthy: "container (getTag h v) \<Longrightarrow> lo_truthy v"
  using container_ref [of h v] by (auto simp: lo_truthy_def)

lemma not_strict_eq_self [simp]: "\<not> strict_eq v v \<longleftrightarrow> is_NaN v"
  by simp

section \<open>The stack is left as it was\<close>

definition plain_members :: "jsheap \<Rightarrow> bool" where
  "plain_members h \<longleftrightarrow> (\<forall>v. \<not> is_wrapped h v)"

lemma all_true_map: "all_true f (map g xs) st = all_true (\<lambda>x. f (g x)) xs st"
  by (induction xs arbitrary: st) (auto split: option.splits sum.splits)

lemma all_true_cong: "(\<And>x s. x \<in> set xs \<Longrightarrow> f x s = g x s) \<Longrightarrow> all_true f xs st = all_true g xs st"
  by (induction xs arbitrary: st) (auto split: option.splits sum.splits)

text \<open>The two kinds of objects compared alike, without a customizer and flags.\<close>

definition compare_children ::
  "jsheap \<Rightarrow> ('m \<Rightarrow> lval \<Rightarrow> lval) \<Rightarrow> ('m \<Rightarrow> lval \<Rightarrow> lval \<Rightarrow> 'm) \<Rightarrow> ('m \<Rightarrow> lval \<Rightarrow> bool \<times> 'm) \<Rightarrow>
     (lval \<Rightarrow> lval \<Rightarrow> 'm cmp) \<Rightarrow> lval \<Rightarrow> lval \<Rightarrow> 'm cmp" where
  "compare_children h get put del eqf v other st =
     (if \<not> shapes_match h v other then cret False st
      else if lo_truthy (get st v) then cret (get st v = other) st
      else (case all_true (\<lambda>(x, y). if strict_eq x y then cret True else eqf x y) (pairs h v other) (put st v other) of
          Some (Inr b, s) \<Rightarrow> Some (Inr (b \<and> ctors_match h v other), snd (del s v))
        | r \<Rightarrow> r))"

lemma equalArrays_children:
  assumes "getTag h v = ArrayTag"
  shows "equalArrays h get put del None 0 eqf v other st = compare_children h get put del eqf v other st"
proof -
  have "all_true (\<lambda>index. let arrValue = elements h v ! index; othValue = read_at (elements h other) (int index);
        c = compared None False arrValue othValue (LNum (num_int (int index)))
      in if c \<noteq> LUndef then cret (lo_truthy c)
         else if False then any_true (\<lambda>othValue. if strict_eq arrValue othValue then cret True else eqf arrValue othValue)
           (elements h other)
         else if strict_eq arrValue othValue then cret True else eqf arrValue othValue)
      [0..<length (elements h v)] s =
    all_true (\<lambda>(x, y). if strict_eq x y then cret True else eqf x y) (pairs h v other) s" for s
    using assms by (simp add: pairs_def all_true_map compared_def Let_def)
  moreover have "ctors_match h v other = True" using assms by (simp add: ctors_match_def)
  ultimately show ?thesis using assms unfolding equalArrays_def compare_children_def
    by (simp add: shapes_match_def Let_def cong: if_cong option.case_cong prod.case_cong sum.case_cong)
qed

lemma equalObjects_children:
  assumes "getTag h v = ObjectTag"
  shows "equalObjects h get put del None 0 eqf v other st = compare_children h get put del eqf v other st"
proof -
  have "all_true (\<lambda>key. let objValue = read_member h v key; othValue = read_member h other key;
        c = compared None False objValue othValue (LStr key)
      in if c = LUndef then (if strict_eq objValue othValue then cret True else eqf objValue othValue)
         else cret (lo_truthy c)) (keys h v) s =
    all_true (\<lambda>(x, y). if strict_eq x y then cret True else eqf x y) (pairs h v other) s" for s
    using assms by (simp add: pairs_def all_true_map compared_def Let_def)
  then show ?thesis using assms unfolding equalObjects_def compare_children_def
    by (auto simp: shapes_match_def ctors_match_def Let_def split: option.splits sum.splits)
qed

lemma baseIsEqual_step:
  assumes "plain_members h"
  shows "baseIsEqual h get put del None 0 (Suc n) v other st = (case decided h v other of
     Some b \<Rightarrow> cret b st
   | None \<Rightarrow> compare_children h get put del (baseIsEqual h get put del None 0 n) v other st)"
proof -
  have w: "is_wrapped h x = False" for x using assms by (simp add: plain_members_def)
  have deep: "baseIsEqualDeep h get put del None 0 eqf v other st =
      (if getTag h v \<noteq> getTag h other then cret False st
       else if \<not> container (getTag h v) then cret (equalByTag h v other (getTag h v)) st
       else compare_children h get put del eqf v other st)" for eqf
    by (auto simp: baseIsEqualDeep_def Let_def w container_def equalArrays_children equalObjects_children)
  show ?thesis
    by (auto simp: deep decided_def compare_children_def simp del: lo_eq_iff)
qed

context js_map
begin

definition agrees :: "bool option \<Rightarrow> ((jserr + bool) \<times> 'm) option \<Rightarrow> (lval \<rightharpoonup> lval) \<Rightarrow> bool" where
  "agrees r c m \<longleftrightarrow> (case r of
     None \<Rightarrow> c = None
   | Some b \<Rightarrow> \<exists>s. c = Some (Inr b, s) \<and> ok s \<and> view s = m)"

lemma all_true_agrees:
  assumes "\<And>x s. x \<in> set xs \<Longrightarrow> ok s \<Longrightarrow> view s = m \<Longrightarrow> agrees (g x) (f x s) m" and "ok s" and "view s = m"
  shows "agrees (all_some g xs) (all_true f xs s) m"
  using assms
proof (induction xs arbitrary: s)
  case Nil
  then show ?case by (simp add: agrees_def cret_def)
next
  case (Cons x xs)
  from Cons.prems have x: "agrees (g x) (f x s) m" by simp
  show ?case
  proof (cases "g x")
    case None
    with x show ?thesis by (simp add: agrees_def)
  next
    case (Some b)
    with x obtain t where t: "f x s = Some (Inr b, t)" "ok t" "view t = m" by (auto simp: agrees_def)
    show ?thesis
    proof (cases b)
      case True
      then show ?thesis using Cons.IH [of t] Cons.prems(1) t Some by simp
    next
      case False
      then show ?thesis using t Some by (simp add: agrees_def cret_def)
    qed
  qed
qed

lemma compare_agrees:
  assumes h: "plain_members h" and refs: "\<And>a. storable (LRef a)"
  shows "ok st \<Longrightarrow> view st = m \<Longrightarrow> \<forall>k w. m k = Some w \<longrightarrow> lo_truthy w \<Longrightarrow>
    agrees (aeq h n v other m) (baseIsEqual h get put del None 0 n v other st) m"
proof (induction n arbitrary: v other st m)
  case 0
  then show ?case by (simp add: agrees_def)
next
  case (Suc n)
  note step = baseIsEqual_step [OF h, of get put del n v other st]
  show ?case
  proof (cases "decided h v other")
    case (Some b)
    then show ?thesis using Suc.prems step by (simp add: agrees_def cret_def)
  next
    case None
    then have tags: "container (getTag h v)" "getTag h other = getTag h v" and shape: "shapes_match h v other"
      by (auto simp: decided_def split: if_splits)
    obtain b where b: "other = LRef b" using container_ref [of h other] tags by auto
    have get: "get st v = spec_get m v" using get_view Suc.prems(1,2) by simp
    show ?thesis
    proof (cases "m v")
      case (Some w)
      then have "lo_truthy w" using Suc.prems(3) by blast
      then show ?thesis using None Some step get shape Suc.prems(1,2)
        by (simp add: agrees_def compare_children_def spec_get_def cret_def)
    next
      case new: None
      let ?m = "m(v \<mapsto> other)"
      let ?f = "\<lambda>(x, y). if strict_eq x y then cret True else baseIsEqual h get put del None 0 n x y"
      let ?g = "\<lambda>(x, y). if strict_eq x y then Some True else aeq h n x y ?m"
      have put: "ok (put st v other)" "view (put st v other) = ?m"
        using set_ok set_view refs Suc.prems(1,2) by (simp_all add: b)
      have truthy: "\<forall>k w. ?m k = Some w \<longrightarrow> lo_truthy w"
        using Suc.prems(3) by (auto simp: b lo_truthy_def)
      have loop: "agrees (all_some ?g (pairs h v other)) (all_true ?f (pairs h v other) (put st v other)) ?m"
      proof (rule all_true_agrees)
        fix x :: "lval \<times> lval" and s assume s: "ok s" "view s = ?m"
        obtain c d where x: "x = (c, d)" by (cases x)
        show "agrees (?g x) (?f x s) ?m"
        proof (cases "strict_eq c d")
          case True
          then show ?thesis using s by (simp add: x agrees_def cret_def)
        next
          case False
          then show ?thesis using Suc.IH [OF s truthy, of c d] unfolding x prod.case by (simp only: if_False)
        qed
      qed (use put in simp_all)
      have falsy: "\<not> lo_truthy (get st v)" using get new by (simp add: spec_get_def lo_truthy_def)
      have children: "compare_children h get put del (baseIsEqual h get put del None 0 n) v other st =
          (case all_true ?f (pairs h v other) (put st v other) of
             Some (Inr b, s) \<Rightarrow> Some (Inr (b \<and> ctors_match h v other), snd (del s v))
           | r \<Rightarrow> r)"
        using shape falsy by (simp add: compare_children_def)
      have aeq: "aeq h (Suc n) v other m =
          map_option (\<lambda>b. b \<and> ctors_match h v other) (all_some ?g (pairs h v other))"
        using None new by simp
      have run: "baseIsEqual h get put del None 0 (Suc n) v other st =
          compare_children h get put del (baseIsEqual h get put del None 0 n) v other st"
        unfolding step None by simp
      show ?thesis
      proof (cases "all_some ?g (pairs h v other)")
        case none: None
        then have "all_true ?f (pairs h v other) (put st v other) = None" using loop by (simp add: agrees_def)
        then show ?thesis unfolding aeq run children none agrees_def by simp
      next
        case (Some r)
        with loop obtain s where s: "all_true ?f (pairs h v other) (put st v other) = Some (Inr r, s)"
          "ok s" "view s = ?m" by (auto simp: agrees_def)
        have "view (snd (del s v)) = m" using delete_view [OF s(2)] s(3) new by auto
        then show ?thesis unfolding aeq run children Some s(1) agrees_def using delete_ok [OF s(2)] by simp
      qed
    qed
  qed
qed

end

lemma isEqual_aeq:
  assumes "number_names_ok rt" and "plain_members h"
  shows "isEqual rt h n v other = map_option Inr (aeq h n v other Map.empty)"
proof -
  have "js_map.agrees (stack_ok rt) (stack_view rt) (aeq h n v other Map.empty)
      (baseIsEqual h (stackGet rt) (stackSet rt) (stackDelete rt) None 0 n v other stackClear) Map.empty"
    by (rule stack.compare_agrees [OF assms(2)])
      (use stackClear_laws [of rt] assms(1) in \<open>simp_all add: HASH_UNDEFINED_def\<close>)
  then show ?thesis by (auto simp: stack.agrees_def isEqual_def split: option.splits)
qed

section \<open>Alike\<close>

coinductive alike :: "jsheap \<Rightarrow> lval \<Rightarrow> lval \<Rightarrow> bool" for h where
  same: "alike h v v"
| by_tag: "getTag h v = getTag h w \<Longrightarrow> \<not> container (getTag h v) \<Longrightarrow> equalByTag h v w (getTag h v) \<Longrightarrow> alike h v w"
| contents: "getTag h v = getTag h w \<Longrightarrow> container (getTag h v) \<Longrightarrow> shapes_match h v w \<Longrightarrow> ctors_match h v w \<Longrightarrow>
    (\<forall>p \<in> set (pairs h v w). alike h (fst p) (snd p)) \<Longrightarrow> alike h v w"

lemma primitive_by_tag:
  "\<not> isObject v \<Longrightarrow> \<not> isObject w \<Longrightarrow> getTag h v = getTag h w \<Longrightarrow> equalByTag h v w (getTag h v) \<Longrightarrow> v = w"
  by (cases v; cases w) (auto simp: isObject_def equalByTag_def plus_value_def str_value_def split: if_splits)

lemma decided_True: "decided h v w = Some True \<longleftrightarrow>
    v = w \<or> getTag h v = getTag h w \<and> \<not> container (getTag h v) \<and> equalByTag h v w (getTag h v)"
proof -
  have nullish: "\<not> equalByTag h v w (getTag h v)" if "v \<in> {LUndef, LNull}"
    using that by (auto simp: equalByTag_def)
  have nullish': "\<not> equalByTag h v w (getTag h v)" if "getTag h v = getTag h w" "w \<in> {LUndef, LNull}"
    using that by (auto simp: equalByTag_def)
  have func: "\<not> equalByTag h v w (getTag h v)" if "getTag h v = getTag h w" "isObject w" "\<not> isObjectLike h w"
    using that by (auto simp: equalByTag_def isObject_def isObjectLike_def split: lval.splits)
  have nan: "\<not> isObject (LNum NaN)" "\<not> isObjectLike h (LNum NaN)" by (simp_all add: isObject_def isObjectLike_def)
  show ?thesis
    using nullish nullish' func nan primitive_by_tag [of v w h]
    by (auto simp: decided_def strict_eq_def is_NaN_def)
qed

lemma decided_None: "decided h v w = None \<Longrightarrow>
    getTag h v = getTag h w \<and> container (getTag h v) \<and> shapes_match h v w \<and> v \<noteq> w"
  by (auto simp: decided_def strict_eq_def is_NaN_def container_def split: if_splits)

lemma decided_alike: "decided h v w = Some True \<Longrightarrow> alike h v w"
  unfolding decided_True using alike.same alike.by_tag by blast

lemma alike_undecided:
  assumes "alike h v w" and "decided h v w = None"
  shows "ctors_match h v w \<and> (\<forall>p \<in> set (pairs h v w). alike h (fst p) (snd p))"
  using assms(1)
proof cases
  case same
  then show ?thesis using decided_None [OF assms(2)] by blast
next
  case by_tag
  then show ?thesis using decided_None [OF assms(2)] by blast
qed blast

lemma alike_decided:
  assumes "alike h v w"
  shows "decided h v w \<noteq> Some False"
  using assms
proof cases
  case contents
  then obtain a b where "v = LRef a" "w = LRef b" using container_ref [of h v] container_ref [of h w] by auto
  with contents show ?thesis by (auto simp: decided_def isObject_def isObjectLike_def container_def)
next
  case same
  then have "decided h v w = Some True" unfolding decided_True by simp
  then show ?thesis by simp
next
  case by_tag
  then have "decided h v w = Some True" unfolding decided_True by simp
  then show ?thesis by simp
qed

section \<open>Equal values are alike\<close>

text \<open>The pairs on the stack of a comparison whose results are all true.\<close>

inductive assumed :: "jsheap \<Rightarrow> (lval \<rightharpoonup> lval) \<Rightarrow> bool" for h where
  none: "assumed h Map.empty"
| push: "assumed h m \<Longrightarrow> m v = None \<Longrightarrow> aeq h n v w m = Some True \<Longrightarrow> assumed h (m(v \<mapsto> w))"

lemma assumed_pair:
  "assumed h m \<Longrightarrow> m v = Some w \<Longrightarrow> \<exists>n m'. assumed h m' \<and> m' v = None \<and> aeq h n v w m' = Some True"
proof (induction rule: assumed.induct)
  case (push m u n z)
  then show ?case by (cases "v = u") auto
qed simp

lemma all_some_True: "all_some f xs = Some True \<longleftrightarrow> (\<forall>x \<in> set xs. f x = Some True)"
  by (induction xs) (auto split: option.splits bool.splits)

lemma aeq_alike: "assumed h m \<Longrightarrow> aeq h n v w m = Some True \<Longrightarrow> alike h v w"
proof -
  assume "assumed h m" and "aeq h n v w m = Some True"
  then have "\<exists>n m. assumed h m \<and> aeq h n v w m = Some True" by blast
  then show "alike h v w"
  proof (coinduction arbitrary: v w rule: alike.coinduct)
    case (alike v w)
    then obtain n m where m: "assumed h m" "aeq h n v w m = Some True" by blast
    show ?case
    proof (cases "decided h v w")
      case (Some b)
      then have "decided h v w = Some True" using m(2) by (cases n) simp_all
      then show ?thesis unfolding decided_True by blast
    next
      case None
      obtain n m where m: "assumed h m" "aeq h n v w m = Some True" "m v = None"
      proof (cases "m v")
        case None
        with m that show ?thesis by blast
      next
        case (Some u)
        then have "u = w" using m(2) None by (cases n) simp_all
        then show ?thesis using assumed_pair [OF m(1) Some] that by blast
      qed
      obtain k where n: "n = Suc k" using m(2) by (cases n) simp_all
      let ?f = "\<lambda>(x, y). if strict_eq x y then Some True else aeq h k x y (m(v \<mapsto> w))"
      have "all_some ?f (pairs h v w) = Some True" and ctors: "ctors_match h v w"
        using m(2,3) None unfolding n by auto
      then have kids: "\<forall>p \<in> set (pairs h v w). ?f p = Some True" unfolding all_some_True by blast
      have push: "assumed h (m(v \<mapsto> w))" by (rule assumed.push [OF m(1) m(3) m(2)])
      have "\<forall>p \<in> set (pairs h v w). (\<exists>n m. assumed h m \<and> aeq h n (fst p) (snd p) m = Some True) \<or> alike h (fst p) (snd p)"
      proof
        fix p assume "p \<in> set (pairs h v w)"
        with kids have "?f p = Some True" by blast
        then have "strict_eq (fst p) (snd p) \<or> aeq h k (fst p) (snd p) (m(v \<mapsto> w)) = Some True"
          by (cases p) (auto split: if_splits)
        then show "(\<exists>n m. assumed h m \<and> aeq h n (fst p) (snd p) m = Some True) \<or> alike h (fst p) (snd p)"
          using push alike.same [of h "fst p"] by (auto simp: strict_eq_def)
      qed
      then show ?thesis using decided_None [OF None] ctors by blast
    qed
  qed
qed

section \<open>Comparing returns\<close>

definition children :: "jsheap \<Rightarrow> nat \<Rightarrow> lval set" where
  "children h a = set (elements h (LRef a)) \<union> snd ` set (members h (LRef a))"

definition closed_under :: "jsheap \<Rightarrow> nat set \<Rightarrow> bool" where
  "closed_under h A \<longleftrightarrow> (\<forall>a \<in> A. \<forall>c. LRef c \<in> children h a \<longrightarrow> c \<in> A)"

definition refs_inside :: "nat set \<Rightarrow> lval \<Rightarrow> bool" where
  "refs_inside A v \<longleftrightarrow> (case v of LRef a \<Rightarrow> a \<in> A | _ \<Rightarrow> True)"

lemma pairs_children: "p \<in> set (pairs h (LRef a) w) \<Longrightarrow> fst p \<in> children h a"
proof -
  assume p: "p \<in> set (pairs h (LRef a) w)"
  show ?thesis
  proof (cases "getTag h (LRef a) = ArrayTag")
    case True
    then show ?thesis using p by (auto simp: pairs_def children_def)
  next
    case False
    then obtain k where k: "k \<in> set (keys h (LRef a))" "fst p = read_member h (LRef a) k"
      using p by (auto simp: pairs_def)
    then obtain x where x: "map_of (members h (LRef a)) k = Some x"
      unfolding keys_def by (metis list.set_map map_of_eq_None_iff not_None_eq)
    then have "x \<in> snd ` set (members h (LRef a))" by (force dest: map_of_SomeD)
    then show ?thesis using k x by (simp add: children_def read_member_def member_def)
  qed
qed

lemma refs_inside_children: "closed_under h A \<Longrightarrow> a \<in> A \<Longrightarrow> x \<in> children h a \<Longrightarrow> refs_inside A x"
  by (cases x) (auto simp: closed_under_def refs_inside_def)

lemma all_some_defined: "(\<And>x. x \<in> set xs \<Longrightarrow> f x \<noteq> None) \<Longrightarrow> all_some f xs \<noteq> None"
  by (induction xs) (auto split: option.splits)

lemma all_some_mono:
  "(\<And>x b. x \<in> set xs \<Longrightarrow> f x = Some b \<Longrightarrow> g x = Some b) \<Longrightarrow> all_some f xs = Some r \<Longrightarrow> all_some g xs = Some r"
  by (induction xs) (auto split: option.splits if_splits)

lemma aeq_returns:
  assumes A: "finite A" "closed_under h A"
  shows "refs_inside A v \<Longrightarrow> card {a \<in> A. m (LRef a) = None} < n \<Longrightarrow> aeq h n v w m \<noteq> None"
proof (induction n arbitrary: v w m)
  case (Suc n)
  show ?case
  proof (cases "decided h v w = None \<and> m v = None")
    case True
    then obtain a where v: "v = LRef a" using decided_None [of h v w] container_ref [of h v] by blast
    have a: "a \<in> A" using Suc.prems(1) by (simp add: v refs_inside_def)
    let ?m = "m(v \<mapsto> w)"
    have "{c \<in> A. ?m (LRef c) = None} = {c \<in> A. m (LRef c) = None} - {a}" by (auto simp: v)
    moreover have "a \<in> {c \<in> A. m (LRef c) = None}" using a True by (simp add: v)
    moreover have "finite {c \<in> A. m (LRef c) = None}" using A(1) by simp
    ultimately have "card {c \<in> A. ?m (LRef c) = None} < card {c \<in> A. m (LRef c) = None}"
      by (metis card_Diff1_less)
    then have "card {c \<in> A. ?m (LRef c) = None} < n" using Suc.prems(2) by linarith
    then have "(\<lambda>(x, y). if strict_eq x y then Some True else aeq h n x y ?m) p \<noteq> None"
      if "p \<in> set (pairs h v w)" for p
      using Suc.IH [OF refs_inside_children [OF A(2) a pairs_children [OF that [unfolded v]]], of ?m "snd p"]
      by (cases p) (auto simp del: fun_upd_apply)
    then have "all_some (\<lambda>(x, y). if strict_eq x y then Some True else aeq h n x y ?m) (pairs h v w) \<noteq> None"
      by (rule all_some_defined)
    then show ?thesis using True by auto
  qed (auto split: option.splits)
qed simp

lemma aeq_more: "aeq h n v w m = Some b \<Longrightarrow> n \<le> k \<Longrightarrow> aeq h k v w m = Some b"
proof (induction n arbitrary: k v w m b)
  case (Suc n)
  then obtain j where k: "k = Suc j" "n \<le> j" by (cases k) auto
  show ?case
  proof (cases "decided h v w = None \<and> m v = None")
    case True
    let ?f = "\<lambda>n (x, y). if strict_eq x y then Some True else aeq h n x y (m(v \<mapsto> w))"
    obtain r where r: "all_some (?f n) (pairs h v w) = Some r" "b = (r \<and> ctors_match h v w)"
      using Suc.prems(1) True by auto
    have "?f j p = Some b" if "?f n p = Some b" for p b
      using that Suc.IH [OF _ k(2), of "fst p" "snd p" "m(v \<mapsto> w)" b]
      by (cases p) (auto split: if_splits simp del: fun_upd_apply)
    then have "all_some (?f j) (pairs h v w) = Some r" using all_some_mono [OF _ r(1), of "?f j"] by blast
    then show ?thesis using True r(2) k(1) by auto
  next
    case False
    then show ?thesis using Suc.prems(1) k(1) by (auto split: option.splits)
  qed
qed simp

section \<open>Alike values without cycles are equal\<close>

definition refers :: "jsheap \<Rightarrow> nat \<Rightarrow> nat \<Rightarrow> bool" where
  "refers h a c \<longleftrightarrow> LRef c \<in> children h a"

definition reaches :: "jsheap \<Rightarrow> lval \<Rightarrow> nat \<Rightarrow> bool" where
  "reaches h v c \<longleftrightarrow> (case v of LRef a \<Rightarrow> (refers h)\<^sup>*\<^sup>* a c | _ \<Rightarrow> False)"

definition acyclic_from :: "jsheap \<Rightarrow> lval \<Rightarrow> bool" where
  "acyclic_from h v \<longleftrightarrow> (\<forall>c. reaches h v c \<longrightarrow> \<not> (refers h)\<^sup>+\<^sup>+ c c)"

lemma reaches_child: "x \<in> children h a \<Longrightarrow> reaches h x c \<Longrightarrow> (refers h)\<^sup>+\<^sup>+ a c"
  by (cases x) (auto simp: reaches_def refers_def rtranclp_into_tranclp2)

lemma all_some_False: "all_some f xs = Some False \<Longrightarrow> \<exists>x \<in> set xs. f x = Some False"
  by (induction xs) (auto split: option.splits if_splits)

lemma alike_aeq:
  "alike h v w \<Longrightarrow> acyclic_from h v \<Longrightarrow> \<forall>c. reaches h v c \<longrightarrow> m (LRef c) = None \<Longrightarrow>
     aeq h n v w m \<noteq> Some False"
proof (induction n arbitrary: v w m)
  case (Suc n)
  show ?case
  proof (cases "decided h v w")
    case (Some b)
    then show ?thesis using alike_decided [OF Suc.prems(1)] by simp
  next
    case None
    then obtain a where v: "v = LRef a" using decided_None [of h v w] container_ref [of h v] by blast
    have m: "m v = None" using Suc.prems(3) by (simp add: v reaches_def)
    note kids = alike_undecided [OF Suc.prems(1) None]
    let ?f = "\<lambda>(x, y). if strict_eq x y then Some True else aeq h n x y (m(v \<mapsto> w))"
    have "?f p \<noteq> Some False" if p: "p \<in> set (pairs h v w)" for p
    proof -
      have x: "fst p \<in> children h a" using pairs_children p by (simp add: v)
      have down: "(refers h)\<^sup>+\<^sup>+ a c" "reaches h v c" if "reaches h (fst p) c" for c
        using reaches_child [OF x that] by (simp_all add: v reaches_def tranclp_into_rtranclp)
      have "acyclic_from h (fst p)" using Suc.prems(2) down(2) by (auto simp: acyclic_from_def)
      moreover have "\<forall>c. reaches h (fst p) c \<longrightarrow> (m(v \<mapsto> w)) (LRef c) = None"
      proof (intro allI impI)
        fix c assume c: "reaches h (fst p) c"
        have "\<not> (refers h)\<^sup>+\<^sup>+ a a" using Suc.prems(2) by (auto simp: acyclic_from_def v reaches_def)
        then have "c \<noteq> a" using down(1) [OF c] by blast
        then show "(m(v \<mapsto> w)) (LRef c) = None" using Suc.prems(3) down(2) [OF c] by (simp add: v)
      qed
      ultimately show ?thesis
        using Suc.IH [of "fst p" "snd p" "m(v \<mapsto> w)"] kids p
        by (cases p) (auto simp del: fun_upd_apply)
    qed
    then have "all_some ?f (pairs h v w) \<noteq> Some False" using all_some_False by blast
    then show ?thesis using None m kids by auto
  qed
qed simp

section \<open>Properties\<close>

text \<open>C15: Comparing returns, whatever cycles there are: a nesting depth above the number of objects the first
  value reaches is enough, and more changes nothing.\<close>
theorem isEqual_returns:
  assumes "number_names_ok rt" and "plain_members h"
    and "finite A" and "closed_under h A" and "refs_inside A v"
  shows "\<exists>b. \<forall>n > card A. isEqual rt h n v w = Some (Inr b)"
proof -
  have "aeq h (Suc (card A)) v w Map.empty \<noteq> None"
    by (rule aeq_returns [OF assms(3-5)]) simp
  then obtain b where "aeq h (Suc (card A)) v w Map.empty = Some b" by blast
  then have "aeq h n v w Map.empty = Some b" if "card A < n" for n
    using aeq_more that by (metis Suc_leI)
  then show ?thesis using isEqual_aeq [OF assms(1,2)] by auto
qed

text \<open>C16: Values found equal are alike, cycles included.\<close>
theorem isEqual_alike:
  assumes "number_names_ok rt" and "plain_members h" and "isEqual rt h n v w = Some (Inr True)"
  shows "alike h v w"
  using assms isEqual_aeq [OF assms(1,2), of n v w] aeq_alike [OF assumed.none] by auto

text \<open>C14: On values without cycles the comparison decides whether they are alike.\<close>
theorem isEqual_decides:
  assumes "number_names_ok rt" and "plain_members h"
    and "finite A" and "closed_under h A" and "refs_inside A v" and "acyclic_from h v" and "card A < n"
  shows "isEqual rt h n v w = Some (Inr (alike h v w))"
proof -
  have "aeq h n v w Map.empty \<noteq> None" by (rule aeq_returns [OF assms(3-5)]) (simp add: assms(7))
  then obtain b where b: "aeq h n v w Map.empty = Some b" by blast
  have "b \<longleftrightarrow> alike h v w"
  proof
    assume b
    then show "alike h v w" using aeq_alike [OF assumed.none] b by simp
  next
    assume "alike h v w"
    from alike_aeq [OF this assms(6), of Map.empty n] show b using b by auto
  qed
  then show ?thesis using isEqual_aeq [OF assms(1,2)] b by simp
qed

text \<open>\<open>[1, {a: NaN}]\<close> twice, and three arrays in cycles of one and of two.\<close>

definition demo_heap :: "(nat \<Rightarrow> jsobj) \<Rightarrow> jsheap" where
  "demo_heap objs = \<lparr>hp_objs = objs, hp_proto = (\<lambda>a k. None), hp_selfinst = (\<lambda>a. False),
     hp_value = (\<lambda>a. Inl TypeErr)\<rparr>"

definition twin_heap :: jsheap where
  "twin_heap = demo_heap ((\<lambda>a. OFunc)(
     0 := OArr [LNum (Fin 1), LRef 2], 1 := OArr [LNum (Fin 1), LRef 3],
     2 := OPlain [(''a'', LNum NaN)], 3 := OPlain [(''a'', LNum NaN)]))"

definition cyclic_heap :: jsheap where
  "cyclic_heap = demo_heap ((\<lambda>a. OFunc)(0 := OArr [LRef 0], 1 := OArr [LRef 2], 2 := OArr [LRef 1]))"

lemmas heap_simps = demo_heap_def twin_heap_def cyclic_heap_def elements_def members_def keys_def baseHas_def
  member_def read_member_def isObject_def isObjectLike_def container_def shapes_match_def pairs_def ctors_match_def
  same_ctor_def

lemma plain_heaps: "plain_members twin_heap" "plain_members cyclic_heap"
  by (auto simp: plain_members_def is_wrapped_def heap_simps split: lval.splits if_splits)

lemma twin_objects: "children twin_heap 0 = {LNum (Fin 1), LRef 2}" "children twin_heap 2 = {LNum NaN}"
  by (simp_all add: children_def heap_simps)

theorem isEqual_returns_witness:
  "\<exists>b. \<forall>n > 1. isEqual (demo_engine True True) cyclic_heap n (LRef 0) (LRef 1) = Some (Inr b)"
  using isEqual_returns [OF demo_engine_names [of True True] plain_heaps(2), of "{0}" "LRef 0" "LRef 1"]
  by (simp add: closed_under_def refs_inside_def children_def heap_simps)

lemma aeq_twins: "aeq twin_heap (Suc (Suc (Suc n))) (LRef 0) (LRef 1) Map.empty = Some True"
  by (simp add: decided_def heap_simps strict_eq_def is_NaN_def upt_rec read_at_def Let_def)

theorem isEqual_alike_witness: "alike twin_heap (LRef 0) (LRef 1)"
  using isEqual_alike [OF demo_engine_names [of True True] plain_heaps(1), of 3 "LRef 0" "LRef 1"]
    isEqual_aeq [OF demo_engine_names [of True True] plain_heaps(1), of 3 "LRef 0" "LRef 1"] aeq_twins [of 0]
  by (simp add: numeral_3_eq_3 del: aeq.simps)

theorem isEqual_decides_witness:
  "isEqual (demo_engine True True) twin_heap 3 (LRef 0) (LRef 1) = Some (Inr (alike twin_heap (LRef 0) (LRef 1)))"
proof (rule isEqual_decides [OF demo_engine_names plain_heaps(1), of "{0, 2}"])
  have edges: "refers twin_heap 0 c \<longleftrightarrow> c = 2" "\<not> refers twin_heap 2 c" for c
    by (simp_all add: refers_def twin_objects)
  then have from2: "(refers twin_heap)\<^sup>*\<^sup>* 2 c \<Longrightarrow> c = 2" for c by (metis converse_rtranclpE)
  have from0: "(refers twin_heap)\<^sup>*\<^sup>* 0 c \<Longrightarrow> c = 0 \<or> c = 2" for c
    using edges(1) from2 by (metis converse_rtranclpE)
  have "\<not> (refers twin_heap)\<^sup>+\<^sup>+ 2 2" using edges(2) by (metis tranclpD)
  moreover have "\<not> (refers twin_heap)\<^sup>+\<^sup>+ 0 0"
    using edges(1) from2 by (metis tranclpD zero_neq_numeral)
  ultimately show "acyclic_from twin_heap (LRef 0)"
    using from0 by (auto simp: acyclic_from_def reaches_def)
qed (auto simp: closed_under_def refs_inside_def twin_objects)

text \<open>With cycles the comparison is not symmetric: an array that contains itself is different from one
  of two arrays that contain each other, but these are equal to it.\<close>
theorem isEqual_asymmetric:
  "isEqual (demo_engine True True) cyclic_heap 5 (LRef 0) (LRef 1) = Some (Inr False) \<and>
   isEqual (demo_engine True True) cyclic_heap 5 (LRef 1) (LRef 0) = Some (Inr True)"
proof -
  have "aeq cyclic_heap 5 (LRef 0) (LRef 1) Map.empty = Some False"
    "aeq cyclic_heap 5 (LRef 1) (LRef 0) Map.empty = Some True"
    by (simp_all add: eval_nat_numeral decided_def heap_simps strict_eq_def is_NaN_def read_at_def Let_def upt_rec)
  then show ?thesis using isEqual_aeq [OF demo_engine_names [of True True] plain_heaps(2)] by simp
qed

section \<open>Matching\<close>

lemma match_loop_strict:
  "match_loop rt h n object None (map (\<lambda>(k, v). (k, v, True)) ps) =
     Some (Inr (\<forall>p \<in> set ps. member h object (fst p) \<noteq> None))"
proof (induction ps)
  case (Cons p ps)
  then show ?case by (cases p; cases "member h object (fst p)") (simp_all add: Let_def read_member_def)
qed simp

lemma member_strict: "strict_eq v v \<Longrightarrow>
    strict_eq v (read_member h object k) \<and> member h object k \<noteq> None \<longleftrightarrow> member h object k = Some v"
  by (auto simp: strict_eq_def read_member_def)

text \<open>An object matches a source whose values are primitive when it has, of its own or inherited, every
  member of the source with the same value; the shortcut of \<open>matches\<close> for a single member decides the
  same.\<close>
theorem primitive_match:
  assumes "\<forall>(k, v) \<in> set (members h source). isStrictComparable v" and "object \<noteq> source"
  shows "isMatch rt h n object source = Some (Inr (if object \<in> {LUndef, LNull} then members h source = []
      else \<forall>(k, v) \<in> set (members h source). member h object k = Some v)) \<and>
    baseMatches rt h n source object = isMatch rt h n object source"
proof -
  have data: "getMatchData h source = map (\<lambda>(k, v). (k, v, True)) (members h source)"
    using assms(1) by (auto simp: getMatchData_def)
  have ne: "\<not> strict_eq object source" using assms(2) by (simp add: strict_eq_def)
  have strict: "strict_eq v v" if "(k, v) \<in> set (members h source)" for k v
    using assms(1) that by (auto simp: isStrictComparable_def)
  have base: "baseIsMatch rt h n object (getMatchData h source) None =
      Some (Inr (\<forall>(k, v) \<in> set (members h source). member h object k = Some v))"
    if "object \<notin> {LUndef, LNull}"
  proof -
    have "match_loop rt h n object None (getMatchData h source) =
        Some (Inr (\<forall>(k, v) \<in> set (members h source). member h object k \<noteq> None))"
      unfolding data match_loop_strict by (simp add: case_prod_beta)
    moreover have "(\<exists>(key, v, s) \<in> set (getMatchData h source).
          if None = (None :: customizer option) \<and> s then \<not> strict_eq v (read_member h object key)
          else member h object key = None) \<longleftrightarrow>
        (\<exists>(k, v) \<in> set (members h source). \<not> strict_eq v (read_member h object k))"
      by (simp add: data case_prod_beta)
    moreover have "(\<forall>(k, v) \<in> set (members h source). member h object k = Some v) \<longleftrightarrow>
        \<not> (\<exists>(k, v) \<in> set (members h source). \<not> strict_eq v (read_member h object k)) \<and>
        (\<forall>(k, v) \<in> set (members h source). member h object k \<noteq> None)"
      using member_strict strict by fast
    ultimately show ?thesis using that unfolding baseIsMatch_def by auto
  qed
  have null: "baseIsMatch rt h n object (getMatchData h source) None = Some (Inr (members h source = []))"
    if "object \<in> {LUndef, LNull}" using that by (auto simp: baseIsMatch_def data)
  have "baseMatches rt h n source object = isMatch rt h n object source"
  proof (cases "\<exists>k v. members h source = [(k, v)]")
    case True
    then obtain k v where m: "members h source = [(k, v)]" by blast
    have v: "strict_eq v v" using strict [of k v] m by simp
    have "strict_eq (read_member h object k) v \<and> (v \<noteq> LUndef \<or> member h object k \<noteq> None) \<longleftrightarrow>
        member h object k = Some v"
      using v by (auto simp: strict_eq_def read_member_def split: option.splits)
    then show ?thesis using base null ne
      by (cases "object \<in> {LUndef, LNull}") (auto simp: baseMatches_def isMatch_def data m)
  next
    case False
    then show ?thesis
      by (cases "members h source" rule: list.exhaust [case_names Nil Cons])
        (auto simp: baseMatches_def isMatch_def data ne split: list.splits)
  qed
  then show ?thesis using base null ne by (auto simp: isMatch_def)
qed

theorem primitive_match_witness:
  "isMatch (demo_engine True True) (demo_heap ((\<lambda>a. OFunc)(0 := OPlain [(''a'', LNull), (''b'', LUndef)],
     1 := OPlain [(''a'', LNull)]))) 5 (LRef 0) (LRef 1) = Some (Inr True)"
  using primitive_match [of "demo_heap ((\<lambda>a. OFunc)(0 := OPlain [(''a'', LNull), (''b'', LUndef)],
     1 := OPlain [(''a'', LNull)]))" "LRef 1" "LRef 0" "demo_engine True True" 5]
  by (simp add: heap_simps isStrictComparable_def is_NaN_def)

end
