(* ===== verification/LodashObjects.thy ===== *)
theory LodashObjects
  imports LodashCacheLaws LodashSlices
begin

text \<open>
  The objects \<open>lodash-4.2.1.js\<close> reads and writes: a store of cells with their own members and their
  prototype, property reads along the chain of prototypes, writes, \<open>delete\<close>, \<open>in\<close> and
  \<open>hasOwnProperty\<close> as ECMAScript 2015 defines them in sloppy mode, and \<open>assignValue\<close>. The member
  \<open>__proto__\<close> is the accessor of \<open>Object.prototype\<close>, which stays; there are no other accessors. Members are
  enumerable; those of \<open>cl_fixed\<close> can be neither written nor deleted.
\<close>

section \<open>The store\<close>

datatype oclass = PlainClass | ArrayClass nat | FunctionClass  \<comment> \<open>an array has its length\<close>

record cell =
  cl_class :: oclass
  cl_own :: "lval props"        \<comment> \<open>own members, an element of an array under its index\<close>
  cl_proto :: "nat option"
  cl_fixed :: "string list"

text \<open>\<open>st_text\<close> is what \<open>String(o)\<close> gives for an object.\<close>

record ostore =
  st_cells :: "cell list"
  st_text :: "nat \<Rightarrow> string"

text \<open>The first cells are the prototypes of the language.\<close>

abbreviation (input) objectProto :: nat where "objectProto \<equiv> 0"
abbreviation (input) arrayProto :: nat where "arrayProto \<equiv> 1"
abbreviation (input) functionProto :: nat where "functionProto \<equiv> 2"
abbreviation (input) stringProto :: nat where "stringProto \<equiv> 3"
abbreviation (input) numberProto :: nat where "numberProto \<equiv> 4"
abbreviation (input) booleanProto :: nat where "booleanProto \<equiv> 5"

definition no_cell :: cell where
  "no_cell = \<lparr>cl_class = PlainClass, cl_own = [], cl_proto = None, cl_fixed = []\<rparr>"

definition cell_at :: "ostore \<Rightarrow> nat \<Rightarrow> cell" where
  "cell_at st a = (if a < length (st_cells st) then st_cells st ! a else no_cell)"

definition put_cell :: "nat \<Rightarrow> cell \<Rightarrow> ostore \<Rightarrow> ostore" where
  "put_cell a c st = st\<lparr>st_cells := (st_cells st)[a := c]\<rparr>"

definition allocate :: "cell \<Rightarrow> ostore \<Rightarrow> lval \<times> ostore" where
  "allocate c st = (LRef (length (st_cells st)), st\<lparr>st_cells := st_cells st @ [c]\<rparr>)"

definition empty_object :: cell where
  "empty_object = \<lparr>cl_class = PlainClass, cl_own = [], cl_proto = Some objectProto, cl_fixed = []\<rparr>"

definition empty_array :: "nat \<Rightarrow> cell" where
  "empty_array n =
     \<lparr>cl_class = ArrayClass n, cl_own = [], cl_proto = Some arrayProto, cl_fixed = []\<rparr>"

definition nil :: "lval \<Rightarrow> bool" where  \<comment> \<open>\<open>v == null\<close>\<close>
  "nil v \<longleftrightarrow> v = LUndef \<or> v = LNull"

fun js_text :: "ostore \<Rightarrow> lval \<Rightarrow> string" where  \<comment> \<open>\<open>v + ''\<close>\<close>
  "js_text st LUndef = ''undefined''"
| "js_text st LNull = ''null''"
| "js_text st (LBool b) = (if b then ''true'' else ''false'')"
| "js_text st (LNum n) = num_to_string n"
| "js_text st (LStr s) = s"
| "js_text st (LRef a) = st_text st a"

section \<open>Reads\<close>

text \<open>An object and its prototypes, nearest first. The language keeps the chain free of cycles.\<close>

function proto_chain :: "ostore \<Rightarrow> nat list \<Rightarrow> nat \<Rightarrow> nat list" where
  "proto_chain st seen a =
     (if a \<in> set seen \<or> a \<ge> length (st_cells st) then []
      else a # (case cl_proto (cell_at st a) of None \<Rightarrow> [] | Some p \<Rightarrow> proto_chain st (a # seen) p))"
  by pat_completeness auto
termination
proof (relation "measure (\<lambda>(st, seen, a). card ({..<length (st_cells st)} - set seen))")
  fix st :: ostore and seen :: "nat list" and a p :: nat
  assume out: "\<not> (a \<in> set seen \<or> a \<ge> length (st_cells st))"
  have "{..<length (st_cells st)} - set (a # seen) =
      ({..<length (st_cells st)} - set seen) - {a}"
    by (simp only: list.set, rule Diff_insert)
  moreover have "a \<in> {..<length (st_cells st)} - set seen" using out by simp
  ultimately have "card ({..<length (st_cells st)} - set (a # seen)) <
      card ({..<length (st_cells st)} - set seen)"
    by (metis card_Diff1_less finite_Diff finite_lessThan)
  then show "((st, a # seen, p), st, seen, a) \<in>
      measure (\<lambda>(st, seen, a). card ({..<length (st_cells st)} - set seen))"
    by simp
qed simp

declare proto_chain.simps [simp del]

definition protos_of :: "ostore \<Rightarrow> nat \<Rightarrow> nat list" where
  "protos_of st a = proto_chain st [] a"

definition own_member :: "cell \<Rightarrow> string \<Rightarrow> lval option" where
  "own_member c key = (case cl_class c of
     ArrayClass n \<Rightarrow> if key = ''length'' then Some (LNum (num_int (int n))) else map_of (cl_own c) key
   | _ \<Rightarrow> map_of (cl_own c) key)"

definition owns :: "ostore \<Rightarrow> nat \<Rightarrow> string \<Rightarrow> bool" where
  "owns st a key \<longleftrightarrow> own_member (cell_at st a) key \<noteq> None \<or> (a = objectProto \<and> key = ''__proto__'')"

text \<open>The object on the chain a member is found on.\<close>

definition holder :: "ostore \<Rightarrow> nat \<Rightarrow> string \<Rightarrow> nat option" where
  "holder st a key = find (\<lambda>p. owns st p key) (protos_of st a)"

text \<open>Where the reading of a member starts: at an object, or at the prototype of a primitive value.\<close>

fun start_of :: "lval \<Rightarrow> nat option" where
  "start_of (LRef a) = Some a"
| "start_of (LStr s) = Some stringProto"
| "start_of (LNum n) = Some numberProto"
| "start_of (LBool b) = Some booleanProto"
| "start_of v = None"

definition getPrototypeOf :: "ostore \<Rightarrow> lval \<Rightarrow> lval" where
  "getPrototypeOf st v = (case v of
     LRef a \<Rightarrow> (case cl_proto (cell_at st a) of Some p \<Rightarrow> LRef p | None \<Rightarrow> LNull)
   | _ \<Rightarrow> (case start_of v of Some p \<Rightarrow> LRef p | None \<Rightarrow> LNull))"

fun string_member :: "lval \<Rightarrow> string \<Rightarrow> lval option" where
  "string_member (LStr s) key =
     (if key = ''length'' then Some (LNum (num_int (int (length s))))
      else case key_index key of
        Some i \<Rightarrow> if i < length s then Some (LStr [s ! i]) else None
      | None \<Rightarrow> None)"
| "string_member v key = None"

text \<open>\<open>v[key]\<close> of a value other than \<open>undefined\<close> and \<open>null\<close>.\<close>

definition read_prop :: "ostore \<Rightarrow> lval \<Rightarrow> string \<Rightarrow> lval" where
  "read_prop st v key = (case string_member v key of
     Some x \<Rightarrow> x
   | None \<Rightarrow> (case start_of v of
        None \<Rightarrow> LUndef
      | Some a \<Rightarrow> (case holder st a key of
           None \<Rightarrow> LUndef
         | Some p \<Rightarrow> (case own_member (cell_at st p) key of
              Some x \<Rightarrow> x
            | None \<Rightarrow> getPrototypeOf st v))))"

text \<open>\<open>key in Object(v)\<close> and \<open>hasOwnProperty.call(v, key)\<close>.\<close>

definition key_in :: "ostore \<Rightarrow> lval \<Rightarrow> string \<Rightarrow> bool" where
  "key_in st v key \<longleftrightarrow> string_member v key \<noteq> None \<or>
     (case start_of v of None \<Rightarrow> False | Some a \<Rightarrow> holder st a key \<noteq> None)"

definition hasOwnProperty :: "ostore \<Rightarrow> lval \<Rightarrow> string \<Rightarrow> bool" where
  "hasOwnProperty st v key \<longleftrightarrow> string_member v key \<noteq> None \<or>
     (case v of LRef a \<Rightarrow> owns st a key | _ \<Rightarrow> False)"

definition isArray :: "ostore \<Rightarrow> lval \<Rightarrow> bool" where
  "isArray st v \<longleftrightarrow> (case v of LRef a \<Rightarrow> (case cl_class (cell_at st a) of ArrayClass n \<Rightarrow> True | _ \<Rightarrow> False)
     | _ \<Rightarrow> False)"

section \<open>Writes\<close>

text \<open>
  The number a new length is converted to; of the strings that denote a number only the canonical
  numerals are taken.
\<close>

definition length_number :: "ostore \<Rightarrow> lval \<Rightarrow> jsnum" where
  "length_number st v = (case v of
     LUndef \<Rightarrow> NaN
   | LNull \<Rightarrow> num_int 0
   | LBool b \<Rightarrow> num_int (if b then 1 else 0)
   | LNum n \<Rightarrow> n
   | _ \<Rightarrow> if js_text st v = [] then num_int 0
       else case key_index (js_text st v) of Some i \<Rightarrow> num_int (int i) | None \<Rightarrow> NaN)"

definition new_length :: "ostore \<Rightarrow> lval \<Rightarrow> nat option" where
  "new_length st v = (case length_number st v of
     Fin q \<Rightarrow> if 0 \<le> q \<and> q = of_int \<lfloor>q\<rfloor> \<and> q < 4294967296 then Some (nat \<lfloor>q\<rfloor>) else None
   | _ \<Rightarrow> None)"

definition array_key :: "string \<Rightarrow> nat option" where
  "array_key key = (case key_index key of
     Some i \<Rightarrow> if i < MAX_ARRAY_LENGTH then Some i else None | None \<Rightarrow> None)"

definition cut_elements :: "nat \<Rightarrow> lval props \<Rightarrow> lval props" where
  "cut_elements n ps = filter (\<lambda>(k, v). case array_key k of Some i \<Rightarrow> i < n | None \<Rightarrow> True) ps"

definition write_own :: "nat \<Rightarrow> string \<Rightarrow> lval \<Rightarrow> (ostore, jserr, unit) stm" where
  "write_own a key v st =
     (let c = cell_at st a in
      case cl_class c of
        ArrayClass n \<Rightarrow>
          if key = ''length'' then
            (case new_length st v of
               None \<Rightarrow> (Inl RangeErr, st)
             | Some m \<Rightarrow> (Inr (), put_cell a
                 (c\<lparr>cl_class := ArrayClass m, cl_own := cut_elements m (cl_own c)\<rparr>) st))
          else (Inr (), put_cell a
            (c\<lparr>cl_class := ArrayClass (case array_key key of Some i \<Rightarrow> max n (Suc i) | None \<Rightarrow> n),
               cl_own := pset key v (cl_own c)\<rparr>) st)
      | _ \<Rightarrow> (Inr (), put_cell a (c\<lparr>cl_own := pset key v (cl_own c)\<rparr>) st))"

text \<open>\<open>o.__proto__ = v\<close> of the accessor: a cycle is an error, a primitive value is ignored.\<close>

definition set_proto :: "nat \<Rightarrow> lval \<Rightarrow> (ostore, jserr, unit) stm" where
  "set_proto a v st = (case v of
     LRef p \<Rightarrow> if a \<in> set (protos_of st p) then (Inl TypeErr, st)
       else (Inr (), put_cell a ((cell_at st a)\<lparr>cl_proto := Some p\<rparr>) st)
   | LNull \<Rightarrow> (Inr (), put_cell a ((cell_at st a)\<lparr>cl_proto := None\<rparr>) st)
   | _ \<Rightarrow> (Inr (), st))"

text \<open>\<open>o[key] = v\<close>\<close>

definition write_prop :: "nat \<Rightarrow> string \<Rightarrow> lval \<Rightarrow> (ostore, jserr, unit) stm" where
  "write_prop a key v st = (case holder st a key of
     None \<Rightarrow> write_own a key v st
   | Some p \<Rightarrow>
       if own_member (cell_at st p) key = None then set_proto a v st
       else if key \<in> set (cl_fixed (cell_at st p)) then (Inr (), st)
       else write_own a key v st)"

text \<open>\<open>delete v[key]\<close> and what it returns.\<close>

definition delete_prop :: "lval \<Rightarrow> string \<Rightarrow> ostore \<Rightarrow> bool \<times> ostore" where
  "delete_prop v key st = (case v of
     LRef a \<Rightarrow>
       (let c = cell_at st a in
        if (case cl_class c of ArrayClass n \<Rightarrow> key = ''length'' | _ \<Rightarrow> False) \<or>
           (key \<in> set (cl_fixed c) \<and> own_member c key \<noteq> None) then (False, st)
        else (True, put_cell a (c\<lparr>cl_own := AList.delete key (cl_own c)\<rparr>) st))
   | _ \<Rightarrow> (string_member v key = None, st))"

definition assignValue :: "nat \<Rightarrow> string \<Rightarrow> lval \<Rightarrow> (ostore, jserr, unit) stm" where
  "assignValue a key value st =
     (let objValue = read_prop st (LRef a) key in
      if (\<not> lo_eq objValue value \<or>
          (lo_eq objValue (read_prop st (LRef objectProto) key) \<and> \<not> owns st a key)) \<or>
         (value = LUndef \<and> holder st a key = None)
      then write_prop a key value st else sret () st)"

section \<open>Laws of the store\<close>

lemma put_cell_length [simp]: "length (st_cells (put_cell a c st)) = length (st_cells st)"
  by (simp add: put_cell_def)

lemma put_cell_text [simp]: "st_text (put_cell a c st) = st_text st"
  by (simp add: put_cell_def)

lemma js_text_cong: "st_text st = st_text st' \<Longrightarrow> js_text st v = js_text st' v"
  by (cases v) simp_all

lemma cell_at_put_cell:
  "cell_at (put_cell a c st) b = (if b = a \<and> a < length (st_cells st) then c else cell_at st b)"
  by (simp add: cell_at_def put_cell_def)

lemma allocate_simps [simp]:
  "fst (allocate c st) = LRef (length (st_cells st))"
  "st_text (snd (allocate c st)) = st_text st"
  "length (st_cells (snd (allocate c st))) = Suc (length (st_cells st))"
  by (simp_all add: allocate_def)

lemma cell_at_allocate:
  "cell_at (snd (allocate c st)) b =
     (if b = length (st_cells st) then c else cell_at st b)"
  by (auto simp: cell_at_def allocate_def nth_append)

text \<open>The chain depends on the prototypes only.\<close>

definition same_protos :: "ostore \<Rightarrow> ostore \<Rightarrow> bool" where
  "same_protos st st' \<longleftrightarrow> length (st_cells st') = length (st_cells st) \<and>
     (\<forall>a. cl_proto (cell_at st' a) = cl_proto (cell_at st a))"

lemma proto_chain_same: "same_protos st st' \<Longrightarrow> proto_chain st' seen a = proto_chain st seen a"
proof (induction st seen a rule: proto_chain.induct)
  case (1 st seen a)
  then show ?case
    by (subst (1 2) proto_chain.simps) (auto simp: same_protos_def split: option.splits)
qed

lemma chain_same: "same_protos st st' \<Longrightarrow> protos_of st' a = protos_of st a"
  by (simp add: protos_of_def proto_chain_same)

lemma same_protos_put_cell:
  "cl_proto c = cl_proto (cell_at st a) \<Longrightarrow> same_protos st (put_cell a c st)"
  by (simp add: same_protos_def cell_at_put_cell)

lemma proto_chain_range: "p \<in> set (proto_chain st seen a) \<Longrightarrow> p < length (st_cells st)"
proof (induction st seen a rule: proto_chain.induct)
  case (1 st seen a)
  show ?case
  proof (cases "a \<in> set seen \<or> a \<ge> length (st_cells st)")
    case True
    with "1.prems" show ?thesis by (subst (asm) proto_chain.simps) simp
  next
    case False
    with "1.prems" have "p = a \<or> (\<exists>q. cl_proto (cell_at st a) = Some q \<and>
        p \<in> set (proto_chain st (a # seen) q))"
      by (subst (asm) proto_chain.simps) (auto split: option.splits)
    with False "1.IH" show ?thesis by auto
  qed
qed

lemma chain_range: "p \<in> set (protos_of st a) \<Longrightarrow> p < length (st_cells st)"
  unfolding protos_of_def by (rule proto_chain_range)

lemma chain_head: "a < length (st_cells st) \<Longrightarrow> \<exists>ps. protos_of st a = a # ps"
  unfolding protos_of_def by (subst proto_chain.simps) simp

lemma chain_self: "a < length (st_cells st) \<Longrightarrow> a \<in> set (protos_of st a)"
  by (metis chain_head list.set_intros(1))

text \<open>No reference of the store dangles.\<close>

definition refs_ok :: "nat \<Rightarrow> lval \<Rightarrow> bool" where
  "refs_ok n v \<longleftrightarrow> (case v of LRef a \<Rightarrow> a < n | _ \<Rightarrow> True)"

definition cell_ok :: "nat \<Rightarrow> cell \<Rightarrow> bool" where
  "cell_ok n c \<longleftrightarrow> (case cl_proto c of None \<Rightarrow> True | Some p \<Rightarrow> p < n) \<and>
     (\<forall>v \<in> snd ` set (cl_own c). refs_ok n v)"

definition store_ok :: "ostore \<Rightarrow> bool" where
  "store_ok st \<longleftrightarrow> 6 \<le> length (st_cells st) \<and>
     (\<forall>c \<in> set (st_cells st). cell_ok (length (st_cells st)) c)"

lemma store_ok_proto:
  "store_ok st \<Longrightarrow> cl_proto (cell_at st a) = Some p \<Longrightarrow> p < length (st_cells st)"
proof -
  assume ok: "store_ok st" and p: "cl_proto (cell_at st a) = Some p"
  then have "cell_at st a \<in> set (st_cells st)"
    by (auto simp: cell_at_def no_cell_def split: if_splits)
  with ok p show ?thesis by (auto simp: store_ok_def cell_ok_def split: option.splits)
qed

lemma proto_chain_allocate:
  "store_ok st \<Longrightarrow> a < length (st_cells st) \<Longrightarrow>
     proto_chain (snd (allocate c st)) seen a = proto_chain st seen a"
proof (induction st seen a rule: proto_chain.induct)
  case (1 st seen a)
  have "proto_chain (snd (allocate c st)) (a # seen) p = proto_chain st (a # seen) p"
    if "\<not> (a \<in> set seen \<or> a \<ge> length (st_cells st))" "cl_proto (cell_at st a) = Some p" for p
    using 1 that store_ok_proto by blast
  with "1.prems" show ?case
    by (subst (1 2) proto_chain.simps) (auto simp: cell_at_allocate split: option.splits)
qed

lemma chain_allocate:
  "store_ok st \<Longrightarrow> a < length (st_cells st) \<Longrightarrow> protos_of (snd (allocate c st)) a = protos_of st a"
  by (simp add: protos_of_def proto_chain_allocate)

section \<open>What a write changes\<close>

lemma own_member_pset:
  "\<not> ((\<exists>n. cl_class c = ArrayClass n) \<and> key = ''length'') \<Longrightarrow>
   own_member (c\<lparr>cl_own := pset key v (cl_own c)\<rparr>) k = (if k = key then Some v else own_member c k)"
  by (auto simp: own_member_def split: oclass.splits)

text \<open>A write of an own member, the length of arrays apart.\<close>

definition plain_key :: "ostore \<Rightarrow> nat \<Rightarrow> string \<Rightarrow> bool" where
  "plain_key st a key \<longleftrightarrow>
     (case cl_class (cell_at st a) of ArrayClass n \<Rightarrow> key \<noteq> ''length'' | _ \<Rightarrow> True)"

lemma length_member: "\<not> plain_key st a key \<Longrightarrow> own_member (cell_at st a) key \<noteq> None"
  by (auto simp: plain_key_def own_member_def split: oclass.splits)

lemma write_own_plain:
  assumes "plain_key st a key"
  obtains st' where "write_own a key v st = (Inr (), st')" and "same_protos st st'"
    and "st_text st' = st_text st"
    and "\<And>b. cl_fixed (cell_at st' b) = cl_fixed (cell_at st b)"
    and "\<And>b k. b \<noteq> a \<or> plain_key st a k \<Longrightarrow> own_member (cell_at st' b) k =
        (if b = a \<and> k = key \<and> a < length (st_cells st) then Some v else own_member (cell_at st b) k)"
    and "\<And>b. plain_key st' b = plain_key st b"
proof
  let ?st' = "snd (write_own a key v st)"
  show "write_own a key v st = (Inr (), ?st')" "same_protos st ?st'" "st_text ?st' = st_text st"
    "\<And>b. cl_fixed (cell_at ?st' b) = cl_fixed (cell_at st b)"
    "\<And>b. plain_key ?st' b = plain_key st b"
    using assms
    by (auto simp: write_own_def plain_key_def Let_def same_protos_put_cell cell_at_put_cell fun_eq_iff
        split: oclass.splits)
  show "own_member (cell_at ?st' b) k =
      (if b = a \<and> k = key \<and> a < length (st_cells st) then Some v else own_member (cell_at st b) k)"
    if "b \<noteq> a \<or> plain_key st a k" for b k
    using assms that
    by (auto simp: write_own_def plain_key_def Let_def cell_at_put_cell own_member_def
        split: oclass.splits)
qed

text \<open>An object no other object inherits from, the prototypes of the language apart.\<close>

definition leaf :: "ostore \<Rightarrow> nat \<Rightarrow> bool" where
  "leaf st a \<longleftrightarrow> 6 \<le> a \<and> a < length (st_cells st) \<and> (\<forall>b. b \<noteq> a \<longrightarrow> a \<notin> set (protos_of st b))"

definition writable :: "ostore \<Rightarrow> nat \<Rightarrow> string \<Rightarrow> bool" where
  "writable st a key \<longleftrightarrow> plain_key st a key \<and> key \<noteq> ''__proto__'' \<and>
     (case holder st a key of None \<Rightarrow> True | Some p \<Rightarrow> key \<notin> set (cl_fixed (cell_at st p)))"

lemma holder_own: "holder st a key = Some p \<Longrightarrow> key \<noteq> ''__proto__'' \<Longrightarrow> own_member (cell_at st p) key \<noteq> None"
  unfolding holder_def owns_def by (auto simp: find_Some_iff)

lemma write_prop_writable:
  "writable st a key \<Longrightarrow> write_prop a key v st = write_own a key v st"
  using holder_own by (fastforce simp: write_prop_def writable_def split: option.splits)

section \<open>Stores that differ in a few members\<close>

text \<open>\<open>changes R st st'\<close>: the later store has the objects of the earlier one and their members; those in
  \<open>R\<close> may have another value or be new.\<close>

definition changes :: "(nat \<times> string) set \<Rightarrow> ostore \<Rightarrow> ostore \<Rightarrow> bool" where
  "changes R st st' \<longleftrightarrow> length (st_cells st) \<le> length (st_cells st') \<and> st_text st' = st_text st \<and>
     (\<forall>b < length (st_cells st).
        cl_proto (cell_at st' b) = cl_proto (cell_at st b) \<and>
        cl_fixed (cell_at st' b) = cl_fixed (cell_at st b) \<and>
        (\<forall>k. plain_key st' b k = plain_key st b k) \<and>
        (\<forall>k. own_member (cell_at st b) k \<noteq> None \<longrightarrow> own_member (cell_at st' b) k \<noteq> None) \<and>
        (\<forall>k. (b, k) \<notin> R \<longrightarrow> own_member (cell_at st' b) k = own_member (cell_at st b) k))"

lemma changes_refl: "changes R st st"
  by (simp add: changes_def)

lemma changes_mono: "changes R st st' \<Longrightarrow> R \<subseteq> S \<Longrightarrow> changes S st st'"
  unfolding changes_def by blast

lemma changes_trans:
  assumes "changes R st st1" and "changes S st1 st2"
    and "\<And>b k. (b, k) \<in> S \<Longrightarrow> b < length (st_cells st) \<Longrightarrow> (b, k) \<in> R"
  shows "changes R st st2"
  unfolding changes_def
proof (intro conjI allI impI)
  fix b k assume "b < length (st_cells st)" "(b, k) \<notin> R"
  moreover have "(b, k) \<notin> S" using assms(3) calculation by blast
  ultimately show "own_member (cell_at st2 b) k = own_member (cell_at st b) k"
    using assms(1, 2) by (simp add: changes_def)
qed (use assms(1, 2) in \<open>auto simp: changes_def\<close>)

lemma changes_allocate: "changes {} st (snd (allocate c st))"
  by (simp add: changes_def cell_at_allocate plain_key_def)

lemma changes_text: "changes R st st' \<Longrightarrow> js_text st' v = js_text st v"
  by (rule js_text_cong) (simp add: changes_def)

lemma proto_chain_changes:
  "store_ok st \<Longrightarrow> changes R st st' \<Longrightarrow> a < length (st_cells st) \<Longrightarrow>
     proto_chain st' seen a = proto_chain st seen a"
proof (induction st seen a rule: proto_chain.induct)
  case (1 st seen a)
  have "proto_chain st' (a # seen) p = proto_chain st (a # seen) p"
    if "\<not> (a \<in> set seen \<or> a \<ge> length (st_cells st))" "cl_proto (cell_at st a) = Some p" for p
    using 1 that store_ok_proto by blast
  with "1.prems" show ?case
    by (subst (1 2) proto_chain.simps) (auto simp: changes_def split: option.splits)
qed

lemma chain_changes:
  "store_ok st \<Longrightarrow> changes R st st' \<Longrightarrow> a < length (st_cells st) \<Longrightarrow> protos_of st' a = protos_of st a"
  by (simp add: protos_of_def proto_chain_changes)

lemma find_same: "(\<And>x. x \<in> set xs \<Longrightarrow> P x = Q x) \<Longrightarrow> find P xs = find Q xs"
  by (induction xs) auto

text \<open>A member is read the same if it is the same on every object of the chain.\<close>

lemma holder_changes:
  assumes "store_ok st" and "changes R st st'" and "a < length (st_cells st)"
    and "\<And>p. p \<in> set (protos_of st a) \<Longrightarrow> (p, key) \<notin> R"
  shows "holder st' a key = holder st a key"
  unfolding holder_def chain_changes [OF assms(1-3)]
  by (rule find_same) (use assms chain_range in \<open>auto simp: owns_def changes_def\<close>)

lemma holder_in_chain: "holder st a key = Some p \<Longrightarrow> p \<in> set (protos_of st a)"
  unfolding holder_def by (auto simp: find_Some_iff)

lemma read_changes:
  assumes "store_ok st" and "changes R st st'" and "a < length (st_cells st)"
    and "\<And>p. p \<in> set (protos_of st a) \<Longrightarrow> (p, key) \<notin> R"
  shows "read_prop st' (LRef a) key = read_prop st (LRef a) key"
proof -
  have "own_member (cell_at st' p) key = own_member (cell_at st p) key" if "holder st a key = Some p" for p
    using that assms holder_in_chain [OF that] chain_range unfolding changes_def by blast
  moreover have "getPrototypeOf st' (LRef a) = getPrototypeOf st (LRef a)"
    using assms(2, 3) by (simp add: getPrototypeOf_def changes_def)
  ultimately show ?thesis
    by (simp add: read_prop_def holder_changes [OF assms] split: option.splits)
qed

lemma read_own:
  assumes "own_member (cell_at st a) key = Some v" and "a < length (st_cells st)"
  shows "read_prop st (LRef a) key = v"
proof -
  have "holder st a key = Some a"
    using chain_head [OF assms(2)] assms(1) by (auto simp: holder_def owns_def)
  with assms(1) show ?thesis by (simp add: read_prop_def)
qed

lemma read_none: "holder st a key = None \<Longrightarrow> read_prop st (LRef a) key = LUndef"
  by (simp add: read_prop_def)

text \<open>The chain of a new object.\<close>

lemma proto_chain_seen:
  "x \<notin> set (proto_chain st seen a) \<Longrightarrow> proto_chain st (seen @ [x]) a = proto_chain st seen a"
proof (induction st seen a rule: proto_chain.induct)
  case (1 st seen a)
  show ?case
  proof (cases "a \<in> set seen \<or> a \<ge> length (st_cells st)")
    case True
    then show ?thesis by (subst (1 2) proto_chain.simps) auto
  next
    case False
    with "1.prems" have "x \<noteq> a" and rest: "\<And>p. cl_proto (cell_at st a) = Some p \<Longrightarrow>
        x \<notin> set (proto_chain st (a # seen) p)"
      by (subst (asm) (1) proto_chain.simps, auto)+
    with False "1.IH" show ?thesis
      by (subst (1 2) proto_chain.simps) (auto split: option.splits)
  qed
qed

lemma chain_new:
  assumes "a < length (st_cells st)" and "cl_proto (cell_at st a) = Some p" and "a \<notin> set (protos_of st p)"
  shows "protos_of st a = a # protos_of st p"
  using assms proto_chain_seen [of a st "[]" p]
  by (simp add: protos_of_def proto_chain.simps [of st "[]" a])

lemma leaf_chain: "leaf st a \<Longrightarrow> b \<noteq> a \<Longrightarrow> a \<notin> set (protos_of st b)"
  by (simp add: leaf_def)

lemma leaf_new:
  assumes "store_ok st"
  shows "leaf (snd (allocate c st)) (length (st_cells st))"
proof -
  have "length (st_cells st) \<notin> set (protos_of (snd (allocate c st)) b)" if "b \<noteq> length (st_cells st)" for b
  proof (cases "b < length (st_cells st)")
    case True
    then show ?thesis using chain_allocate [OF assms] chain_range by fastforce
  next
    case False
    with that show ?thesis by (simp add: protos_of_def proto_chain.simps)
  qed
  with assms show ?thesis by (simp add: leaf_def store_ok_def)
qed

text \<open>A change of members keeps the leaves.\<close>

lemma leaf_same: "same_protos st st' \<Longrightarrow> leaf st a \<Longrightarrow> leaf st' a"
  using chain_same [of st st'] by (auto simp: leaf_def same_protos_def)

lemma cell_ok_mono: "cell_ok n c \<Longrightarrow> n \<le> m \<Longrightarrow> cell_ok m c"
  by (fastforce simp: cell_ok_def refs_ok_def split: lval.splits option.splits)

lemma store_ok_allocate:
  assumes "store_ok st" and "c = empty_object \<or> c = empty_array n"
  shows "store_ok (snd (allocate c st))"
proof -
  have "cell_ok (Suc (length (st_cells st))) c"
    using assms(2) by (auto simp: cell_ok_def empty_object_def empty_array_def)
       (use assms(1) in \<open>auto simp: store_ok_def\<close>)
  with assms(1) show ?thesis
    by (auto simp: store_ok_def allocate_def intro: cell_ok_mono)
qed

lemma set_pset: "(k, v) \<in> set (pset key x ps) \<Longrightarrow> (k, v) \<in> set ps \<or> v = x"
  by (induction ps) (auto split: if_splits)

lemma store_ok_write_own:
  assumes "store_ok st" and "refs_ok (length (st_cells st)) v" and "plain_key st a key"
  shows "store_ok (snd (write_own a key v st))"
proof -
  have "\<exists>c. snd (write_own a key v st) = put_cell a c st \<and> cl_proto c = cl_proto (cell_at st a) \<and>
      cl_own c = pset key v (cl_own (cell_at st a))"
    using assms(3) by (auto simp: write_own_def plain_key_def Let_def split: oclass.splits)
  then obtain c where c: "snd (write_own a key v st) = put_cell a c st"
    "cl_proto c = cl_proto (cell_at st a)" "cl_own c = pset key v (cl_own (cell_at st a))"
    by blast
  show ?thesis
  proof (cases "a < length (st_cells st)")
    case False
    then show ?thesis using assms(1) c(1) by (simp add: put_cell_def list_update_beyond)
  next
    case True
    then have old: "cell_at st a \<in> set (st_cells st)" by (simp add: cell_at_def)
    have "refs_ok (length (st_cells st)) w" if "w \<in> snd ` set (cl_own c)" for w
      using that old assms(1, 2) set_pset [of _ w key v] unfolding c(3) store_ok_def cell_ok_def by fastforce
    with old assms(1) c(2) have "cell_ok (length (st_cells st)) c"
      by (simp add: store_ok_def cell_ok_def)
    moreover have "set ((st_cells st)[a := c]) \<subseteq> insert c (set (st_cells st))"
      by (rule set_update_subset_insert)
    ultimately show ?thesis
      using assms(1) unfolding c(1) store_ok_def put_cell_def by auto
  qed
qed

end
