(* ===== verification/LodashPaths.thy ===== *)
theory LodashPaths
  imports LodashObjects
begin

text \<open>
  Property paths in \<open>lodash-4.2.1.js\<close>: how a path is read (\<open>isKey\<close>, \<open>stringToPath\<close>), and \<open>get\<close>,
  \<open>set\<close>, \<open>setWith\<close>, \<open>has\<close>, \<open>hasIn\<close>, \<open>unset\<close>, \<open>invoke\<close>, \<open>property\<close>, \<open>at\<close>, \<open>zipObject\<close> and
  \<open>pick\<close> on the objects of the store. Characters are of 8 bits.
\<close>

section \<open>Parsing\<close>

text \<open>\<open>reIsPlainProp\<close> is \<open>/^\w*$/\<close>.\<close>

definition word_char :: "char \<Rightarrow> bool" where
  "word_char c \<longleftrightarrow> is_digit c \<or> c = CHR ''_'' \<or>
     (let n = (of_char c :: nat) in (65 \<le> n \<and> n \<le> 90) \<or> (97 \<le> n \<and> n \<le> 122))"

definition reIsPlainProp :: "string \<Rightarrow> bool" where
  "reIsPlainProp s \<longleftrightarrow> (\<forall>c \<in> set s. word_char c)"

text \<open>
  \<open>((?!\2)[^\\]|\\.)*?\2\]\<close>: the text of a quoted name up to the quote that closes it, which \<open>]\<close> must
  follow, and what is left. Every character can be read in one way only, so nothing is tried twice.
\<close>

definition backslash :: char where
  "backslash = CHR 0x5C"

definition double_quote :: char where
  "double_quote = CHR 0x22"

definition single_quote :: char where
  "single_quote = CHR 0x27"

definition line_end :: "char \<Rightarrow> bool" where
  "line_end c \<longleftrightarrow> c = CHR 0x0A \<or> c = CHR 0x0D"

fun quoted :: "char \<Rightarrow> string \<Rightarrow> (string \<times> string) option" where
  "quoted q [] = None"
| "quoted q (c # cs) =
     (if c = q then (case cs of d # ds \<Rightarrow> if d = CHR '']'' then Some ([], ds) else None | [] \<Rightarrow> None)
      else if c = backslash then
        (case cs of
           d # ds \<Rightarrow> if line_end d then None
             else map_option (\<lambda>(s, r). (c # d # s, r)) (quoted q ds)
         | [] \<Rightarrow> None)
      else map_option (\<lambda>(s, r). (c # s, r)) (quoted q cs))"

text \<open>\<open>-?\d+(?:\.\d+)?\]\<close>\<close>

definition digits_from :: "string \<Rightarrow> (string \<times> string) option" where
  "digits_from s = (if takeWhile is_digit s = [] then None
     else Some (takeWhile is_digit s, dropWhile is_digit s))"

definition bracketed_number :: "string \<Rightarrow> (string \<times> string) option" where
  "bracketed_number s =
     (let (sign, s1) = (case s of c # cs \<Rightarrow> if c = CHR ''-'' then ([c], cs) else ([], s) | [] \<Rightarrow> ([], s))
      in case digits_from s1 of
        None \<Rightarrow> None
      | Some (ds, c # s2) \<Rightarrow>
          if c = CHR '']'' then Some (sign @ ds, s2)
          else if c = CHR ''.'' then
            (case digits_from s2 of
               Some (fs, d # s3) \<Rightarrow> if d = CHR '']'' then Some (sign @ ds @ c # fs, s3) else None
             | _ \<Rightarrow> None)
          else None
      | Some (ds, []) \<Rightarrow> None)"

definition bracketed_string :: "string \<Rightarrow> (string \<times> string) option" where
  "bracketed_string s = (case s of
     q # cs \<Rightarrow> if q = double_quote \<or> q = single_quote then quoted q cs else None
   | [] \<Rightarrow> None)"

text \<open>\<open>reIsDeepProp\<close>: a dot, or a pair of brackets around a quoted name or text without brackets.\<close>

definition bracket_free :: "char \<Rightarrow> bool" where
  "bracket_free c \<longleftrightarrow> c \<noteq> CHR ''['' \<and> c \<noteq> CHR '']''"

fun reIsDeepProp :: "string \<Rightarrow> bool" where
  "reIsDeepProp [] = False"
| "reIsDeepProp (c # cs) \<longleftrightarrow> c = CHR ''.'' \<or>
     (c = CHR ''['' \<and>
       ((case dropWhile bracket_free cs of d # ds \<Rightarrow> d = CHR '']'' | [] \<Rightarrow> False) \<or>
        bracketed_string cs \<noteq> None)) \<or>
     reIsDeepProp cs"

text \<open>\<open>string.replace(/\\(\\)?/g, '$1')\<close>\<close>

fun unescape_path :: "string \<Rightarrow> string" where
  "unescape_path [] = []"
| "unescape_path (c # cs) =
     (if c = backslash
      then (case cs of d # ds \<Rightarrow> if d = backslash then backslash # unescape_path ds else unescape_path cs
         | [] \<Rightarrow> [])
      else c # unescape_path cs)"

text \<open>
  The matches of \<open>rePropName\<close> in turn: a run of characters other than dots and brackets, a number or
  a quoted name in brackets; characters that start no match are skipped.
\<close>

definition name_char :: "char \<Rightarrow> bool" where
  "name_char c \<longleftrightarrow> c \<noteq> CHR ''.'' \<and> c \<noteq> CHR ''['' \<and> c \<noteq> CHR '']''"

lemma quoted_shorter: "quoted q s = Some (t, r) \<Longrightarrow> length r < length s"
  by (induction q s arbitrary: t rule: quoted.induct)
    (auto split: if_splits list.splits option.splits simp: less_Suc_eq)

lemma bracketed_string_shorter: "bracketed_string s = Some (t, r) \<Longrightarrow> length r < length s"
  by (auto simp: bracketed_string_def less_Suc_eq split: list.splits if_splits dest: quoted_shorter)

lemma digits_from_shorter: "digits_from s = Some (t, r) \<Longrightarrow> length r < length s"
  by (cases s) (auto simp: digits_from_def less_Suc_eq_le length_dropWhile_le split: if_splits)

lemma bracketed_number_shorter: "bracketed_number s = Some (t, r) \<Longrightarrow> length r < length s"
  by (auto simp: bracketed_number_def Let_def split: list.splits if_splits option.splits prod.splits
      dest!: digits_from_shorter)

function stringToPath :: "string \<Rightarrow> string list" where
  "stringToPath [] = []"
| "stringToPath (c # cs) =
     (if name_char c then (c # takeWhile name_char cs) # stringToPath (dropWhile name_char cs)
      else if c = CHR ''['' then
        (case bracketed_number cs of
           Some (number, rest) \<Rightarrow> number # stringToPath rest
         | None \<Rightarrow> (case bracketed_string cs of
              Some (name, rest) \<Rightarrow> unescape_path name # stringToPath rest
            | None \<Rightarrow> stringToPath cs))
      else stringToPath cs)"
  by pat_completeness auto
termination
  by (relation "measure length")
    (auto simp: less_Suc_eq_le length_dropWhile_le
      dest: bracketed_number_shorter bracketed_string_shorter)

section \<open>Keys and paths\<close>

text \<open>A path is a value or the elements of an array, as they are when the call is made.\<close>

datatype path = PVal lval | PArr "lval list"

text \<open>\<open>toString\<close> and the text of a path used as a key.\<close>

definition lo_toString :: "ostore \<Rightarrow> lval \<Rightarrow> string" where
  "lo_toString st v = (case v of LStr s \<Rightarrow> s | _ \<Rightarrow> if nil v then [] else js_text st v)"

fun path_text :: "ostore \<Rightarrow> path \<Rightarrow> string" where
  "path_text st (PVal v) = js_text st v"
| "path_text st (PArr vs) = join_with (CHR '','') (map (lo_toString st) vs)"

definition isKey :: "ostore \<Rightarrow> path \<Rightarrow> lval \<Rightarrow> bool" where
  "isKey st value object = (case value of
     PVal (LNum n) \<Rightarrow> True
   | PArr vs \<Rightarrow> False
   | PVal v \<Rightarrow> reIsPlainProp (js_text st v) \<or> \<not> reIsDeepProp (js_text st v) \<or>
       (\<not> nil object \<and> key_in st object (js_text st v)))"

fun baseToPath :: "ostore \<Rightarrow> path \<Rightarrow> lval list" where
  "baseToPath st (PArr vs) = vs"
| "baseToPath st (PVal v) = map LStr (stringToPath (lo_toString st v))"

fun toPath :: "ostore \<Rightarrow> path \<Rightarrow> string list" where
  "toPath st (PArr vs) = map (js_text st) vs"
| "toPath st (PVal v) = stringToPath (lo_toString st v)"

text \<open>The keys a path stands for: \<open>isKey(path, object) ? [path + ''] : baseToPath(path)\<close>.\<close>

definition path_keys :: "ostore \<Rightarrow> path \<Rightarrow> lval \<Rightarrow> lval list" where
  "path_keys st path object =
     (if isKey st path object then [LStr (path_text st path)] else baseToPath st path)"

text \<open>\<open>isIndex\<close> of any value.\<close>

definition isIndex_value :: "ostore \<Rightarrow> lval \<Rightarrow> int option \<Rightarrow> bool" where
  "isIndex_value st v len = (case v of
     LNum n \<Rightarrow> isIndex n len
   | _ \<Rightarrow> (case key_index (js_text st v) of Some i \<Rightarrow> isIndex (num_int (int i)) len | None \<Rightarrow> False))"

definition last_key :: "lval list \<Rightarrow> lval" where
  "last_key path = (if path = [] then LUndef else last path)"

section \<open>Reading\<close>

fun get_keys :: "ostore \<Rightarrow> lval \<Rightarrow> lval list \<Rightarrow> lval" where
  "get_keys st object [] = object"
| "get_keys st object (key # keys) =
     (if nil object then LUndef else get_keys st (read_prop st object (js_text st key)) keys)"

definition baseGet :: "ostore \<Rightarrow> lval \<Rightarrow> path \<Rightarrow> lval" where
  "baseGet st object path =
     (let keys = path_keys st path object in if keys = [] then LUndef else get_keys st object keys)"

definition lo_get :: "ostore \<Rightarrow> lval \<Rightarrow> path \<Rightarrow> lval \<Rightarrow> lval" where
  "lo_get st object path defaultValue =
     (let result = (if nil object then LUndef else baseGet st object path)
      in if result = LUndef then defaultValue else result)"

definition parent :: "ostore \<Rightarrow> lval \<Rightarrow> lval list \<Rightarrow> lval" where
  "parent st object path =
     (if length path = 1 then object else lo_get st object (PArr (baseSlice path 0 (-1))) LUndef)"

definition baseProperty :: "path \<Rightarrow> ostore \<Rightarrow> lval \<Rightarrow> lval" where
  "baseProperty key st object = (if nil object then LUndef else read_prop st object (path_text st key))"

definition basePropertyDeep :: "path \<Rightarrow> ostore \<Rightarrow> lval \<Rightarrow> lval" where
  "basePropertyDeep path st object = baseGet st object path"

text \<open>The function is made when \<open>property\<close> is called, in the store there is then.\<close>

definition property :: "ostore \<Rightarrow> path \<Rightarrow> ostore \<Rightarrow> lval \<Rightarrow> lval" where
  "property st path = (if isKey st path LUndef then baseProperty path else basePropertyDeep path)"

definition propertyOf :: "lval \<Rightarrow> ostore \<Rightarrow> path \<Rightarrow> lval" where
  "propertyOf object st path = (if nil object then LUndef else baseGet st object path)"

definition baseAt :: "ostore \<Rightarrow> lval \<Rightarrow> path list \<Rightarrow> lval list" where
  "baseAt st object paths =
     map (\<lambda>index. if nil object then LUndef else lo_get st object (paths ! index) LUndef) [0..<length paths]"

section \<open>Asking\<close>

definition baseHas_key :: "ostore \<Rightarrow> lval \<Rightarrow> string \<Rightarrow> bool" where
  "baseHas_key st object key \<longleftrightarrow> hasOwnProperty st object key \<or>
     ((case object of LRef a \<Rightarrow> cl_class (cell_at st a) \<noteq> FunctionClass | _ \<Rightarrow> False) \<and>
      key_in st object key \<and> getPrototypeOf st object = LNull)"

definition baseHasIn :: "ostore \<Rightarrow> lval \<Rightarrow> string \<Rightarrow> bool" where
  "baseHasIn st object key \<longleftrightarrow> key_in st object key"

definition lo_isLength :: "jsnum \<Rightarrow> bool" where
  "lo_isLength n \<longleftrightarrow> (case n of
     Fin q \<Rightarrow> q > -1 \<and> q = of_int (trunc q) \<and> q \<le> 9007199254740991 | _ \<Rightarrow> False)"

text \<open>
  \<open>hasPath\<close>: the path as a key, then the last key on the parent, then an index below the length. The
  object and the path the last test is made on are those the second one left.
\<close>

definition index_below :: "ostore \<Rightarrow> lval \<Rightarrow> lval \<Rightarrow> bool" where
  "index_below st object key \<longleftrightarrow>
     (case (if lo_truthy object then read_prop st object ''length'' else LUndef) of
        LNum n \<Rightarrow> lo_truthy (LNum n) \<and> lo_isLength n \<and>
          isIndex_value st key (case n of Fin q \<Rightarrow> Some (trunc q) | _ \<Rightarrow> Some 0) \<and>
          (isArray st object \<or> (case object of LStr s \<Rightarrow> True | _ \<Rightarrow> False))
      | _ \<Rightarrow> False)"

definition hasPath :: "ostore \<Rightarrow> lval \<Rightarrow> path \<Rightarrow> (lval \<Rightarrow> string \<Rightarrow> bool) \<Rightarrow> bool" where
  "hasPath st object path hasFunc =
     (if nil object then False
      else if hasFunc object (path_text st path) then True
      else case (if isKey st path LUndef then None else Some (baseToPath st path)) of
        None \<Rightarrow> (case path of PVal v \<Rightarrow> index_below st object v | PArr vs \<Rightarrow> False)
      | Some keys \<Rightarrow>
          (let object1 = parent st object keys in
           if nil object1 then False
           else hasFunc object1 (js_text st (last_key keys)) \<or> index_below st object1 (last_key keys)))"

definition has :: "ostore \<Rightarrow> lval \<Rightarrow> path \<Rightarrow> bool" where
  "has st object path = hasPath st object path (baseHas_key st)"

definition hasIn :: "ostore \<Rightarrow> lval \<Rightarrow> path \<Rightarrow> bool" where
  "hasIn st object path = hasPath st object path (baseHasIn st)"

section \<open>Writing\<close>

text \<open>The customizer gets the value, the key and the object; it may allocate, write and throw.\<close>

type_synonym set_customizer = "lval \<Rightarrow> lval \<Rightarrow> lval \<Rightarrow> (ostore, jserr, lval) stm"

definition new_container :: "ostore \<Rightarrow> lval \<Rightarrow> lval \<times> ostore" where
  "new_container st next_key =
     allocate (if isIndex_value st next_key None then empty_array 0 else empty_object) st"

text \<open>The value of a member that is not the last one.\<close>

definition inner_value ::
  "set_customizer option \<Rightarrow> lval \<Rightarrow> lval \<Rightarrow> lval \<Rightarrow> (ostore, jserr, lval) stm" where
  "inner_value customizer nested key next_key st =
     (let objValue = read_prop st nested (js_text st key) in
      sbind (case customizer of Some f \<Rightarrow> f objValue key nested | None \<Rightarrow> sret LUndef)
        (\<lambda>newValue st1.
           if newValue = LUndef then
             (if nil objValue then (let (r, st2) = new_container st1 next_key in (Inr r, st2))
              else (Inr objValue, st1))
           else (Inr newValue, st1)) st)"

fun set_keys ::
  "set_customizer option \<Rightarrow> lval \<Rightarrow> lval \<Rightarrow> lval list \<Rightarrow> (ostore, jserr, unit) stm" where
  "set_keys customizer value nested [] st = (Inr (), st)"
| "set_keys customizer value nested (key # keys) st =
     (if nil nested then (Inr (), st)
      else sbind
        (case nested of
           LRef a \<Rightarrow> sbind (case keys of [] \<Rightarrow> sret value
               | next_key # ks \<Rightarrow> inner_value customizer nested key next_key)
             (\<lambda>newValue st1. assignValue a (js_text st1 key) newValue st1)
         | _ \<Rightarrow> sret ())
        (\<lambda>u st1. set_keys customizer value (read_prop st1 nested (js_text st1 key)) keys st1) st)"

definition baseSet ::
  "lval \<Rightarrow> path \<Rightarrow> lval \<Rightarrow> set_customizer option \<Rightarrow> (ostore, jserr, lval) stm" where
  "baseSet object path value customizer st =
     sbind (set_keys customizer value object (path_keys st path object)) (\<lambda>u. sret object) st"

definition lo_set :: "lval \<Rightarrow> path \<Rightarrow> lval \<Rightarrow> (ostore, jserr, lval) stm" where
  "lo_set object path value = (if nil object then sret object else baseSet object path value None)"

text \<open>A customizer that is not a function is \<open>None\<close>.\<close>

definition setWith ::
  "lval \<Rightarrow> path \<Rightarrow> lval \<Rightarrow> set_customizer option \<Rightarrow> (ostore, jserr, lval) stm" where
  "setWith object path value customizer =
     (if nil object then sret object else baseSet object path value customizer)"

definition baseUnset :: "lval \<Rightarrow> path \<Rightarrow> ostore \<Rightarrow> bool \<times> ostore" where
  "baseUnset object path st =
     (let keys = path_keys st path object; object1 = parent st object keys; key = last_key keys
      in if \<not> nil object1 \<and> has st object1 (PVal key) then delete_prop object1 (js_text st key) st
         else (True, st))"

definition unset :: "lval \<Rightarrow> path \<Rightarrow> ostore \<Rightarrow> bool \<times> ostore" where
  "unset object path st = (if nil object then (True, st) else baseUnset object path st)"

section \<open>Calling and building\<close>

text \<open>\<open>call f this args\<close> is the call of a function of the store.\<close>

definition baseInvoke ::
  "(nat \<Rightarrow> lval \<Rightarrow> lval list \<Rightarrow> (ostore, jserr, lval) stm) \<Rightarrow> lval \<Rightarrow> path \<Rightarrow> lval list \<Rightarrow>
     (ostore, jserr, lval) stm" where
  "baseInvoke call object path args st =
     (let key_path = isKey st path object; keys = baseToPath st path;
          object1 = (if key_path then object else parent st object keys);
          name = (if key_path then path_text st path else js_text st (last_key keys));
          func = (if nil object1 then object1 else read_prop st object1 name)
      in if nil func then (Inr LUndef, st)
         else (case func of
             LRef f \<Rightarrow> if cl_class (cell_at st f) = FunctionClass then call f object1 args st
               else (Inl TypeErr, st)
           | _ \<Rightarrow> (Inl TypeErr, st)))"

definition baseZipObject ::
  "(lval \<Rightarrow> lval \<Rightarrow> lval \<Rightarrow> (ostore, jserr, unit) stm) \<Rightarrow> lval list \<Rightarrow> lval list \<Rightarrow>
     (ostore, jserr, lval) stm" where
  "baseZipObject assignFunc props values st =
     (let (result, st1) = allocate empty_object st
      in sbind (sfor (\<lambda>index. assignFunc result (props ! index)
             (if index < length values then values ! index else LUndef)) [0..<length props])
           (\<lambda>u. sret result) st1)"

definition zipObject :: "lval list \<Rightarrow> lval list \<Rightarrow> (ostore, jserr, lval) stm" where
  "zipObject props values = baseZipObject
     (\<lambda>object key value st. case object of
        LRef a \<Rightarrow> assignValue a (js_text st key) value st | _ \<Rightarrow> (Inr (), st)) props values"

text \<open>The properties are paths here: values, as the elements of the array they come from.\<close>

definition zipObjectDeep :: "lval list \<Rightarrow> lval list \<Rightarrow> (ostore, jserr, lval) stm" where
  "zipObjectDeep props values = baseZipObject
     (\<lambda>object key value. sbind (baseSet object (PVal key) value None) (\<lambda>u. sret ())) props values"

definition basePick :: "lval \<Rightarrow> lval list \<Rightarrow> (ostore, jserr, lval) stm" where
  "basePick object props st =
     (let (result, st1) = allocate empty_object st
      in sbind (sfor (\<lambda>key st2. if key_in st2 object (js_text st2 key)
             then write_prop (length (st_cells st)) (js_text st2 key)
               (read_prop st2 object (js_text st2 key)) st2
             else (Inr (), st2)) props)
           (\<lambda>u. sret result) st1)"

end
