(* ===== verification/LodashClone.thy ===== *)
theory LodashClone
  imports LodashPaths
begin

text \<open>
  Cloning in \<open>lodash-4.2.1.js\<close>: \<open>clone\<close>, \<open>cloneWith\<close>, \<open>cloneDeep\<close>, \<open>cloneDeepWith\<close> and the functions
  they are made of, on the objects of the store: arrays, plain objects, instances of classes and
  functions. Dates, regular expressions, maps, sets, symbols, buffers and boxed values are not in the
  store. The members of an object are listed in the order they were made. A nesting depth stands for
  the engine's call stack.
\<close>

section \<open>Keys\<close>

definition function_value :: "ostore \<Rightarrow> lval \<Rightarrow> bool" where
  "function_value st v \<longleftrightarrow> (case v of LRef a \<Rightarrow> cl_class (cell_at st a) = FunctionClass | _ \<Rightarrow> False)"

text \<open>Some members of a function are made by the language and not enumerable.\<close>

definition enumerable_keys :: "cell \<Rightarrow> string list" where
  "enumerable_keys c = (if cl_class c = FunctionClass
     then filter (\<lambda>k. k \<notin> set [''prototype'', ''length'', ''name'']) (pkeys (cl_own c))
     else pkeys (cl_own c))"

fun firsts :: "'a list \<Rightarrow> 'a list" where
  "firsts [] = []"
| "firsts (x # xs) = x # filter (\<lambda>y. y \<noteq> x) (firsts xs)"

text \<open>\<open>for (key in object)\<close> meets every name once, own names first.\<close>

definition for_in :: "ostore \<Rightarrow> nat \<Rightarrow> string list" where
  "for_in st a = firsts (concat (map (\<lambda>p. enumerable_keys (cell_at st p)) (protos_of st a)))"

definition isPrototype :: "ostore \<Rightarrow> lval \<Rightarrow> bool" where
  "isPrototype st value =
     (let Ctor = (if lo_truthy value then read_prop st value ''constructor'' else value);
          p = (if function_value st Ctor then read_prop st Ctor ''prototype'' else LBool False)
      in value = (if lo_truthy p then p else LRef objectProto))"

definition is_array_like :: "ostore \<Rightarrow> lval \<Rightarrow> bool" where
  "is_array_like st value \<longleftrightarrow> \<not> nil value \<and> \<not> function_value st value \<and>
     (case read_prop st value ''length'' of LNum n \<Rightarrow> lo_isLength n | _ \<Rightarrow> False)"

text \<open>\<open>indexKeys\<close> of an array; other objects of the store have none.\<close>

definition indexKeys :: "ostore \<Rightarrow> nat \<Rightarrow> string list option" where
  "indexKeys st a = (case cl_class (cell_at st a) of
     ArrayClass n \<Rightarrow> Some (map nat_digits [0..<n]) | _ \<Rightarrow> None)"

definition keys_of :: "ostore \<Rightarrow> nat \<Rightarrow> string list" where
  "keys_of st a =
     (let isProto = isPrototype st (LRef a)
      in if \<not> (isProto \<or> is_array_like st (LRef a)) then enumerable_keys (cell_at st a)
         else let indexes = indexKeys st a;
                  result = (case indexes of Some ks \<Rightarrow> ks | None \<Rightarrow> []);
                  len = int (length result)
              in result @ filter (\<lambda>key. baseHas_key st (LRef a) key \<and>
                   \<not> (indexes \<noteq> None \<and> (key = ''length'' \<or> isIndex_value st (LStr key) (Some len))) \<and>
                   \<not> (isProto \<and> key = ''constructor'')) (for_in st a))"

section \<open>Starting a clone\<close>

text \<open>
  \<open>ce_call\<close> calls a function with a receiver and arguments; \<open>ce_array\<close> is the function \<open>Array\<close>,
  which makes an array of the given length. \<open>ce_concat\<close> is \<open>value + ''\<close>, \<open>None\<close> when that throws.
\<close>

record clone_env =
  ce_array :: nat
  ce_call :: "nat \<Rightarrow> lval \<Rightarrow> lval list \<Rightarrow> (ostore, jserr, lval) stm"
  ce_concat :: "ostore \<Rightarrow> lval \<Rightarrow> string option"

definition isHostObject :: "clone_env \<Rightarrow> ostore \<Rightarrow> lval \<Rightarrow> bool" where
  "isHostObject env st value \<longleftrightarrow> \<not> nil value \<and> \<not> function_value st (read_prop st value ''toString'') \<and>
     (case ce_concat env st value of Some s \<Rightarrow> s \<noteq> [] | None \<Rightarrow> False)"

text \<open>\<open>v[key] = x\<close>\<close>

definition write_to :: "lval \<Rightarrow> string \<Rightarrow> lval \<Rightarrow> (ostore, jserr, unit) stm" where
  "write_to v key x st = (case v of
     LRef a \<Rightarrow> write_prop a key x st
   | _ \<Rightarrow> if nil v then (Inl TypeErr, st) else (Inr (), st))"

text \<open>\<open>assignValue\<close> of any value: reading a member of \<open>undefined\<close> throws, primitives are not written.\<close>

definition assign_to :: "lval \<Rightarrow> string \<Rightarrow> lval \<Rightarrow> (ostore, jserr, unit) stm" where
  "assign_to v key x st = (case v of
     LRef a \<Rightarrow> assignValue a key x st
   | _ \<Rightarrow> if nil v then (Inl TypeErr, st) else (Inr (), st))"

definition new_array :: "clone_env \<Rightarrow> lval \<Rightarrow> nat \<Rightarrow> (ostore, jserr, lval) stm" where
  "new_array env array n st = (case read_prop st array ''constructor'' of
     LRef f \<Rightarrow>
       if f = ce_array env then (let (r, st1) = allocate (empty_array n) st in (Inr r, st1))
       else if cl_class (cell_at st f) = FunctionClass
       then ce_call env f array [LNum (num_int (int n))] st
       else (Inl TypeErr, st)
   | _ \<Rightarrow> (Inl TypeErr, st))"

definition array_length :: "ostore \<Rightarrow> nat \<Rightarrow> nat" where
  "array_length st a = (case cl_class (cell_at st a) of ArrayClass n \<Rightarrow> n | _ \<Rightarrow> 0)"

definition initCloneArray :: "clone_env \<Rightarrow> nat \<Rightarrow> (ostore, jserr, lval) stm" where
  "initCloneArray env a st =
     (let len = array_length st a
      in sbind (new_array env (LRef a) len)
        (\<lambda>result st1.
           if len \<noteq> 0 \<and> (case read_prop st1 (LRef a) ''0'' of LStr s \<Rightarrow> True | _ \<Rightarrow> False) \<and>
              owns st1 a ''index''
           then sbind (write_to result ''index'' (read_prop st1 (LRef a) ''index''))
             (\<lambda>u st2. sbind (write_to result ''input'' (read_prop st2 (LRef a) ''input''))
               (\<lambda>u. sret result) st2) st1
           else (Inr result, st1)) st)"

definition baseCreate :: "lval \<Rightarrow> ostore \<Rightarrow> lval \<times> ostore" where
  "baseCreate prototype = allocate (case prototype of
     LRef p \<Rightarrow> empty_object\<lparr>cl_proto := Some p\<rparr> | _ \<Rightarrow> empty_object)"

definition initCloneObject :: "lval \<Rightarrow> ostore \<Rightarrow> lval \<times> ostore" where
  "initCloneObject object st =
     (if isPrototype st object then allocate empty_object st
      else let Ctor = read_prop st object ''constructor''
           in baseCreate (if function_value st Ctor then read_prop st Ctor ''prototype'' else LUndef) st)"

section \<open>Shallow copies\<close>

definition or_new :: "lval \<Rightarrow> cell \<Rightarrow> ostore \<Rightarrow> lval \<times> ostore" where  \<comment> \<open>\<open>v || (v = [])\<close>\<close>
  "or_new v c st = (if lo_truthy v then (v, st) else allocate c st)"

definition copyArray :: "lval \<Rightarrow> nat \<Rightarrow> lval \<Rightarrow> (ostore, jserr, lval) stm" where
  "copyArray source len array0 st0 =
     (let (array, st1) = or_new array0 (empty_array len) st0
      in sbind (sfor (\<lambda>index st. write_to array (nat_digits index) (read_prop st source (nat_digits index)) st)
             [0..<len])
           (\<lambda>u. sret array) st1)"

definition copyObjectWith ::
  "lval \<Rightarrow> string list \<Rightarrow> lval \<Rightarrow> (lval \<Rightarrow> lval \<Rightarrow> string \<Rightarrow> lval \<Rightarrow> lval \<Rightarrow> (ostore, jserr, lval) stm) option \<Rightarrow>
     (ostore, jserr, lval) stm" where
  "copyObjectWith source props object0 customizer st0 =
     (let (object, st1) = or_new object0 empty_object st0
      in sbind (sfor (\<lambda>key st.
             sbind (case customizer of
                 Some f \<Rightarrow> f (read_prop st object key) (read_prop st source key) key object source
               | None \<Rightarrow> sret (read_prop st source key))
               (\<lambda>newValue. assign_to object key newValue) st) props)
           (\<lambda>u. sret object) st1)"

definition copyObject :: "lval \<Rightarrow> string list \<Rightarrow> lval \<Rightarrow> (ostore, jserr, lval) stm" where
  "copyObject source props object = copyObjectWith source props object None"

definition baseAssign :: "lval \<Rightarrow> nat \<Rightarrow> (ostore, jserr, lval) stm" where
  "baseAssign object source st = copyObject (LRef source) (keys_of st source) object st"

section \<open>Cloning\<close>

text \<open>
  The customizer gets the value and, below the top, the key and the object it is from; the stack it is
  also given is left out. It may allocate, write and throw.
\<close>

type_synonym clone_customizer = "lval \<Rightarrow> (lval \<times> lval) option \<Rightarrow> (ostore, jserr, lval) stm"

text \<open>The state is the stack and the store; \<open>None\<close> is a call stack that is exhausted.\<close>

type_synonym 'm clone_state = "'m \<times> ostore"
type_synonym 'm cloning = "'m clone_state \<Rightarrow> ((jserr + lval) \<times> 'm clone_state) option"

text \<open>The keys the loop passes: indexes of an array, names of an object.\<close>

definition clone_keys :: "ostore \<Rightarrow> nat \<Rightarrow> lval list" where
  "clone_keys st a = (case cl_class (cell_at st a) of
     ArrayClass n \<Rightarrow> map (\<lambda>i. LNum (num_int (int i))) [0..<n]
   | _ \<Rightarrow> map LStr (keys_of st a))"

fun clone_members ::
  "(lval \<Rightarrow> (lval \<times> lval) option \<Rightarrow> 'm cloning) \<Rightarrow> lval \<Rightarrow> lval \<Rightarrow> lval list \<Rightarrow> 'm cloning" where
  "clone_members rec result value [] s = Some (Inr result, s)"
| "clone_members rec result value (key # keys) (m, st) =
     (case rec (read_prop st value (js_text st key)) (Some (key, value)) (m, st) of
        None \<Rightarrow> None
      | Some (Inl e, s) \<Rightarrow> Some (Inl e, s)
      | Some (Inr x, (m1, st1)) \<Rightarrow>
          (case assign_to result (js_text st1 key) x st1 of
             (Inl e, st2) \<Rightarrow> Some (Inl e, (m1, st2))
           | (Inr u, st2) \<Rightarrow> clone_members rec result value keys (m1, st2)))"

text \<open>From the check for circular references on.\<close>

definition clone_graph ::
  "('m \<Rightarrow> lval \<Rightarrow> lval) \<Rightarrow> ('m \<Rightarrow> lval \<Rightarrow> lval \<Rightarrow> 'm) \<Rightarrow> (lval \<Rightarrow> (lval \<times> lval) option \<Rightarrow> 'm cloning) \<Rightarrow>
     nat \<Rightarrow> lval \<Rightarrow> 'm cloning" where
  "clone_graph get put rec a result = (\<lambda>(m, st).
     let stacked = get m (LRef a)
     in if lo_truthy stacked then Some (Inr stacked, (m, st))
        else clone_members rec result (LRef a) (clone_keys st a) (put m (LRef a) result, st))"

definition with_stack :: "'m \<Rightarrow> (jserr + lval) \<times> ostore \<Rightarrow> ((jserr + lval) \<times> 'm clone_state) option" where
  "with_stack m r = Some (fst r, (m, snd r))"

definition clone_object ::
  "clone_env \<Rightarrow> ('m \<Rightarrow> lval \<Rightarrow> lval) \<Rightarrow> ('m \<Rightarrow> lval \<Rightarrow> lval \<Rightarrow> 'm) \<Rightarrow> bool \<Rightarrow>
     (lval \<Rightarrow> (lval \<times> lval) option \<Rightarrow> 'm cloning) \<Rightarrow> nat \<Rightarrow> (lval \<times> lval) option \<Rightarrow> 'm cloning" where
  "clone_object env get put isDeep rec a origin = (\<lambda>(m, st).
     if isArray st (LRef a) then
       (case initCloneArray env a st of
          (Inl e, st1) \<Rightarrow> Some (Inl e, (m, st1))
        | (Inr result, st1) \<Rightarrow>
            if \<not> isDeep then with_stack m (copyArray (LRef a) (array_length st1 a) result st1)
            else clone_graph get put rec a result (m, st1))
     else
       let isFunc = function_value st (LRef a)
       in if \<not> isFunc \<or> origin = None then
            (if isHostObject env st (LRef a) then
               (if origin \<noteq> None then Some (Inr (LRef a), (m, st))
                else let (r, st1) = allocate empty_object st in Some (Inr r, (m, st1)))
             else
               let (object, st1) = (if isFunc then allocate empty_object st else (LRef a, st));
                   (result, st2) = initCloneObject object st1
               in if \<not> isDeep then with_stack m (baseAssign result a st2)
                  else clone_graph get put rec a result (m, st2))
          else Some (Inr (LRef a), (m, st)))"

fun baseClone ::
  "clone_env \<Rightarrow> ('m \<Rightarrow> lval \<Rightarrow> lval) \<Rightarrow> ('m \<Rightarrow> lval \<Rightarrow> lval \<Rightarrow> 'm) \<Rightarrow> bool \<Rightarrow> clone_customizer option \<Rightarrow>
     nat \<Rightarrow> lval \<Rightarrow> (lval \<times> lval) option \<Rightarrow> 'm cloning" where
  "baseClone env get put isDeep customizer 0 value origin s = None"
| "baseClone env get put isDeep customizer (Suc n) value origin (m, st) =
     (case (case customizer of Some f \<Rightarrow> f value origin st | None \<Rightarrow> (Inr LUndef, st)) of
        (Inl e, st1) \<Rightarrow> Some (Inl e, (m, st1))
      | (Inr result, st1) \<Rightarrow>
          if result \<noteq> LUndef then Some (Inr result, (m, st1))
          else case value of
            LRef a \<Rightarrow> clone_object env get put isDeep (baseClone env get put isDeep customizer n) a origin (m, st1)
          | _ \<Rightarrow> Some (Inr value, (m, st1)))"

definition run_clone ::
  "engine \<Rightarrow> clone_env \<Rightarrow> bool \<Rightarrow> clone_customizer option \<Rightarrow> nat \<Rightarrow> lval \<Rightarrow> ostore \<Rightarrow>
     ((jserr + lval) \<times> ostore) option" where
  "run_clone rt env isDeep customizer n value st =
     map_option (\<lambda>(r, (m, st1)). (r, st1))
       (baseClone env (stackGet rt) (stackSet rt) isDeep customizer n value None (stackClear, st))"

definition clone :: "engine \<Rightarrow> clone_env \<Rightarrow> nat \<Rightarrow> lval \<Rightarrow> ostore \<Rightarrow> ((jserr + lval) \<times> ostore) option" where
  "clone rt env = run_clone rt env False None"

definition cloneDeep :: "engine \<Rightarrow> clone_env \<Rightarrow> nat \<Rightarrow> lval \<Rightarrow> ostore \<Rightarrow> ((jserr + lval) \<times> ostore) option" where
  "cloneDeep rt env = run_clone rt env True None"

definition cloneWith ::
  "engine \<Rightarrow> clone_env \<Rightarrow> nat \<Rightarrow> lval \<Rightarrow> clone_customizer option \<Rightarrow> ostore \<Rightarrow> ((jserr + lval) \<times> ostore) option" where
  "cloneWith rt env n value customizer = run_clone rt env False customizer n value"

definition cloneDeepWith ::
  "engine \<Rightarrow> clone_env \<Rightarrow> nat \<Rightarrow> lval \<Rightarrow> clone_customizer option \<Rightarrow> ostore \<Rightarrow> ((jserr + lval) \<times> ostore) option" where
  "cloneDeepWith rt env n value customizer = run_clone rt env True customizer n value"

end
