(* ===== verification/LodashMerge.thy ===== *)
theory LodashMerge
  imports LodashClone
begin

text \<open>
  Assigning and merging in \<open>lodash-4.2.1.js\<close>: \<open>assign\<close>, \<open>assignIn\<close>, \<open>assignWith\<close>, \<open>assignInWith\<close>,
  \<open>defaults\<close>, \<open>merge\<close>, \<open>mergeWith\<close> and \<open>defaultsDeep\<close>, on the objects of the store. Neither
  \<open>arguments\<close> objects nor typed arrays are in the store, nor the objects primitive values are boxed in.
  A nesting depth stands for the engine's call stack.
\<close>

section \<open>Members that are enumerated\<close>

text \<open>
  \<open>me_hidden\<close> lists the members of the prototypes of the language, which are not enumerable, \<open>me_source\<close>
  is \<open>funcToString\<close>, \<open>me_object\<close> the function \<open>Object\<close>.
\<close>

record merge_env =
  me_clone :: clone_env
  me_hidden :: "nat \<Rightarrow> string list"
  me_source :: "nat \<Rightarrow> string"
  me_object :: nat

definition object_value :: "lval \<Rightarrow> bool" where
  "object_value v \<longleftrightarrow> (case v of LRef a \<Rightarrow> True | _ \<Rightarrow> False)"

text \<open>A name is enumerated where the chain has it first.\<close>

fun enumerate_chain :: "merge_env \<Rightarrow> ostore \<Rightarrow> string list \<Rightarrow> nat list \<Rightarrow> string list" where
  "enumerate_chain env st seen [] = []"
| "enumerate_chain env st seen (p # ps) =
     filter (\<lambda>k. k \<notin> set seen \<and> k \<notin> set (me_hidden env p)) (enumerable_keys (cell_at st p)) @
     enumerate_chain env st (seen @ pkeys (cl_own (cell_at st p))) ps"

definition value_indexes :: "ostore \<Rightarrow> lval \<Rightarrow> string list option" where
  "value_indexes st v = (case v of
     LRef a \<Rightarrow> indexKeys st a | LStr s \<Rightarrow> Some (map nat_digits [0..<length s]) | _ \<Rightarrow> None)"

definition baseKeysIn :: "merge_env \<Rightarrow> ostore \<Rightarrow> lval \<Rightarrow> string list" where
  "baseKeysIn env st object =
     (case object of LStr s \<Rightarrow> map nat_digits [0..<length s] | _ \<Rightarrow> []) @
     (case start_of object of None \<Rightarrow> [] | Some a \<Rightarrow> enumerate_chain env st [] (protos_of st a))"

definition keysIn :: "merge_env \<Rightarrow> ostore \<Rightarrow> lval \<Rightarrow> string list" where
  "keysIn env st object =
     (let isProto = isPrototype st object;
          indexes = value_indexes st object;
          result = (case indexes of Some ks \<Rightarrow> ks | None \<Rightarrow> []);
          len = int (length result)
      in result @ filter (\<lambda>key.
           \<not> (indexes \<noteq> None \<and> (key = ''length'' \<or> isIndex_value st (LStr key) (Some len))) \<and>
           \<not> (key = ''constructor'' \<and> (isProto \<or> \<not> hasOwnProperty st object key)))
         (baseKeysIn env st object))"

text \<open>\<open>keys\<close> of any value.\<close>

definition own_keys :: "ostore \<Rightarrow> lval \<Rightarrow> string list" where
  "own_keys st v = (case v of
     LRef a \<Rightarrow> keys_of st a | LStr s \<Rightarrow> map nat_digits [0..<length s] | _ \<Rightarrow> [])"

section \<open>Sources and customizers\<close>

definition isIterateeCall :: "ostore \<Rightarrow> lval \<Rightarrow> lval \<Rightarrow> lval \<Rightarrow> bool" where
  "isIterateeCall st value index object =
     (if \<not> object_value object then False
      else if (case index of
          LNum n \<Rightarrow> is_array_like st object \<and>
            isIndex_value st index (case read_prop st object ''length'' of LNum (Fin q) \<Rightarrow> Some (trunc q) | _ \<Rightarrow> Some 0)
        | LStr s \<Rightarrow> key_in st object s
        | _ \<Rightarrow> False)
      then lo_eq (read_prop st object (js_text st index)) value
      else False)"

text \<open>
  A customizer is a function value of the sandbox or one of the two internal functions. What it is given
  of the stack is used by \<open>mergeDefaults\<close> only.
\<close>

datatype merge_customizer = NoCustomizer | FunctionCustomizer nat | AssignInDefaults | MergeDefaults

text \<open>The customizer and the sources of a call; the internal customizers are pushed after \<open>undefined\<close>.\<close>

definition call_sources :: "ostore \<Rightarrow> lval list \<Rightarrow> merge_customizer \<times> lval list" where
  "call_sources st sources =
     (let len = length sources;
          last_source = (if len > 1 then sources ! (len - 1) else LUndef);
          (cust, len1) = (case last_source of
              LRef f \<Rightarrow> if function_value st (LRef f) then (FunctionCustomizer f, len - 1) else (NoCustomizer, len)
            | _ \<Rightarrow> (NoCustomizer, len));
          guard = (if len > 2 then sources ! 2 else LUndef)
      in if lo_truthy guard \<and> isIterateeCall st (sources ! 0) (sources ! 1) guard
         then (if len1 < 3 then NoCustomizer else cust, take 1 sources)
         else (cust, take len1 sources))"

definition pushed_sources :: "ostore \<Rightarrow> lval list \<Rightarrow> lval list" where
  "pushed_sources st sources =
     (if length sources > 2 \<and> lo_truthy (sources ! 2) \<and> isIterateeCall st (sources ! 0) (sources ! 1) (sources ! 2)
      then take 1 sources else sources @ [LUndef])"

type_synonym assigner = "nat \<Rightarrow> lval \<Rightarrow> bool \<Rightarrow> ostore \<Rightarrow> ((jserr + unit) \<times> ostore) option"

text \<open>The loop over the sources; the flag says whether the index of the source is truthy.\<close>

fun assign_sources :: "assigner \<Rightarrow> nat \<Rightarrow> nat \<Rightarrow> lval list \<Rightarrow> ostore \<Rightarrow> ((jserr + unit) \<times> ostore) option" where
  "assign_sources assigner a index [] st = Some (Inr (), st)"
| "assign_sources assigner a index (source # sources) st =
     (case (if lo_truthy source then assigner a source (index \<noteq> 0) st else Some (Inr (), st)) of
        Some (Inr u, st1) \<Rightarrow> assign_sources assigner a (index + 1) sources st1
      | r \<Rightarrow> r)"

text \<open>\<open>Object(object)\<close>; \<open>None\<close> stands for \<open>undefined\<close> and \<open>null\<close>.\<close>

definition createAssigner ::
  "assigner \<Rightarrow> nat option \<Rightarrow> lval list \<Rightarrow> ostore \<Rightarrow> ((jserr + lval) \<times> ostore) option" where
  "createAssigner assigner object sources st =
     (let (v, st1) = (case object of Some a \<Rightarrow> (LRef a, st) | None \<Rightarrow> allocate empty_object st)
      in case v of
           LRef a \<Rightarrow> map_option (\<lambda>(r, st2). (case r of Inl e \<Rightarrow> Inl e | Inr u \<Rightarrow> Inr (LRef a), st2))
             (assign_sources assigner a 0 sources st1)
         | _ \<Rightarrow> Some (Inl TypeErr, st1))"

section \<open>Assigning\<close>

definition assignInDefaults :: "ostore \<Rightarrow> lval \<Rightarrow> lval \<Rightarrow> string \<Rightarrow> lval \<Rightarrow> lval" where
  "assignInDefaults st objValue srcValue key object =
     (if objValue = LUndef \<or> lo_eq objValue (read_prop st (LRef objectProto) key) \<and> \<not> hasOwnProperty st object key
      then srcValue else objValue)"

definition assign_customizer ::
  "merge_env \<Rightarrow> merge_customizer \<Rightarrow> (lval \<Rightarrow> lval \<Rightarrow> string \<Rightarrow> lval \<Rightarrow> lval \<Rightarrow> (ostore, jserr, lval) stm) option" where
  "assign_customizer env cust = (case cust of
     FunctionCustomizer f \<Rightarrow> Some (\<lambda>objValue srcValue key object source.
       ce_call (me_clone env) f LUndef [objValue, srcValue, LStr key, object, source])
   | AssignInDefaults \<Rightarrow> Some (\<lambda>objValue srcValue key object source st.
       (Inr (assignInDefaults st objValue srcValue key object), st))
   | _ \<Rightarrow> None)"

definition copying :: "(jserr + lval) \<times> ostore \<Rightarrow> ((jserr + unit) \<times> ostore) option" where
  "copying r = Some (case fst r of Inl e \<Rightarrow> Inl e | Inr v \<Rightarrow> Inr (), snd r)"

definition assign_own :: "merge_env \<Rightarrow> merge_customizer \<Rightarrow> assigner" where
  "assign_own env cust a source later st =
     copying (copyObjectWith source (own_keys st source) (LRef a) (assign_customizer env cust) st)"

definition assign_all :: "merge_env \<Rightarrow> merge_customizer \<Rightarrow> assigner" where
  "assign_all env cust a source later st =
     copying (copyObjectWith source (keysIn env st source) (LRef a) (assign_customizer env cust) st)"

definition assign :: "merge_env \<Rightarrow> nat option \<Rightarrow> lval list \<Rightarrow> ostore \<Rightarrow> ((jserr + lval) \<times> ostore) option" where
  "assign env object sources st =
     createAssigner (assign_own env NoCustomizer) object (snd (call_sources st sources)) st"

definition assignIn :: "merge_env \<Rightarrow> nat option \<Rightarrow> lval list \<Rightarrow> ostore \<Rightarrow> ((jserr + lval) \<times> ostore) option" where
  "assignIn env object sources st =
     createAssigner (assign_all env NoCustomizer) object (snd (call_sources st sources)) st"

definition assignWith :: "merge_env \<Rightarrow> nat option \<Rightarrow> lval list \<Rightarrow> ostore \<Rightarrow> ((jserr + lval) \<times> ostore) option" where
  "assignWith env object sources st =
     (let (cust, used) = call_sources st sources in createAssigner (assign_own env cust) object used st)"

definition assignInWith :: "merge_env \<Rightarrow> nat option \<Rightarrow> lval list \<Rightarrow> ostore \<Rightarrow> ((jserr + lval) \<times> ostore) option" where
  "assignInWith env object sources st =
     (let (cust, used) = call_sources st sources in createAssigner (assign_all env cust) object used st)"

definition defaults :: "merge_env \<Rightarrow> nat option \<Rightarrow> lval list \<Rightarrow> ostore \<Rightarrow> ((jserr + lval) \<times> ostore) option" where
  "defaults env object sources st =
     createAssigner (assign_all env AssignInDefaults) object (pushed_sources st sources) st"

section \<open>Merging\<close>

text \<open>The keys the loop passes: the indexes of an array as numbers, the names of an object.\<close>

definition merge_keys :: "merge_env \<Rightarrow> ostore \<Rightarrow> lval \<Rightarrow> lval list" where
  "merge_keys env st source = (case source of
     LRef b \<Rightarrow> (case cl_class (cell_at st b) of
         ArrayClass n \<Rightarrow> map (\<lambda>i. LNum (num_int (int i))) [0..<n]
       | _ \<Rightarrow> map LStr (keysIn env st source))
   | _ \<Rightarrow> map LStr (keysIn env st source))"

definition assignMergeValue :: "nat \<Rightarrow> lval \<Rightarrow> lval \<Rightarrow> (ostore, jserr, unit) stm" where
  "assignMergeValue a key value st =
     (let name = js_text st key
      in if value \<noteq> LUndef \<and> \<not> lo_eq (read_prop st (LRef a) name) value \<or>
            (case key of LNum n \<Rightarrow> True | _ \<Rightarrow> False) \<and> value = LUndef \<and> \<not> key_in st (LRef a) name
         then write_prop a name value st else (Inr (), st))"

text \<open>\<open>Ctor instanceof Ctor\<close> and the test for the function \<open>Object\<close>, by its text.\<close>

definition isPlainObject :: "merge_env \<Rightarrow> ostore \<Rightarrow> lval \<Rightarrow> bool" where
  "isPlainObject env st value = (case value of
     LRef a \<Rightarrow>
       if cl_class (cell_at st a) \<noteq> PlainClass \<or> isHostObject (me_clone env) st value then False
       else (case (if function_value st (read_prop st value ''constructor'') then getPrototypeOf st value
                   else LRef objectProto) of
           LRef p \<Rightarrow> (case read_prop st (LRef p) ''constructor'' of
               LRef f \<Rightarrow> function_value st (LRef f) \<and>
                 (case read_prop st (LRef f) ''prototype'' of
                    LRef q \<Rightarrow> q \<in> set (tl (protos_of st f)) | _ \<Rightarrow> False) \<and>
                 me_source env f = me_source env (me_object env)
             | _ \<Rightarrow> False)
         | _ \<Rightarrow> True)
   | _ \<Rightarrow> False)"

text \<open>\<open>baseClone(value)\<close>, which is shallow and nests no further.\<close>

definition shallow :: "merge_env \<Rightarrow> lval \<Rightarrow> (ostore, jserr, lval) stm" where
  "shallow env value st =
     (case baseClone (me_clone env) (\<lambda>m v. LUndef) (\<lambda>m k v. m) False None 1 value None ((), st) of
        Some (r, (u, st1)) \<Rightarrow> (r, st1) | None \<Rightarrow> (Inl TypeErr, st))"

text \<open>\<open>copyArray(value)\<close> of an array or an object with a length.\<close>

definition copy_list :: "lval \<Rightarrow> (ostore, jserr, lval) stm" where
  "copy_list value st =
     (let len = (case read_prop st value ''length'' of LNum (Fin q) \<Rightarrow> nat (trunc q) | _ \<Rightarrow> 0)
      in if len > MAX_ARRAY_LENGTH then (Inl RangeErr, st) else copyArray value len LUndef st)"

text \<open>What a source value is merged into, and whether it is merged at all.\<close>

definition merge_target :: "merge_env \<Rightarrow> bool \<Rightarrow> lval \<Rightarrow> lval \<Rightarrow> (ostore, jserr, bool \<times> lval) stm" where
  "merge_target env later objValue srcValue st =
     (if isArray st srcValue then
        (if isArray st objValue then
           (if later then sbind (copy_list objValue) (\<lambda>v. sret (True, v)) st else (Inr (True, objValue), st))
         else if object_value objValue \<and> is_array_like st objValue then
           sbind (copy_list objValue) (\<lambda>v. sret (True, v)) st
         else sbind (shallow env srcValue) (\<lambda>v. sret (False, v)) st)
      else if isPlainObject env st srcValue then
        (if \<not> object_value objValue \<or> later \<and> function_value st objValue then
           sbind (shallow env srcValue) (\<lambda>v. sret (False, v)) st
         else if later then sbind (shallow env objValue) (\<lambda>v. sret (True, v)) st
         else (Inr (True, objValue), st))
      else (Inr (False, srcValue), st))"

type_synonym 'm merging = "'m clone_state \<Rightarrow> ((jserr + unit) \<times> 'm clone_state) option"

definition lift_store :: "(ostore, jserr, unit) stm \<Rightarrow> 'm merging" where
  "lift_store f = (\<lambda>(m, st). case f st of (r, st1) \<Rightarrow> Some (r, (m, st1)))"

text \<open>
  The customizer, by the merge it may start itself; the stack is \<open>put\<close> to by \<open>mergeDefaults\<close>.
\<close>

definition customize ::
  "merge_env \<Rightarrow> ('m \<Rightarrow> lval \<Rightarrow> lval \<Rightarrow> 'm) \<Rightarrow> (nat \<Rightarrow> lval \<Rightarrow> bool \<Rightarrow> merge_customizer \<Rightarrow> 'm merging) \<Rightarrow> merge_customizer \<Rightarrow>
     lval \<Rightarrow> lval \<Rightarrow> string \<Rightarrow> nat \<Rightarrow> lval \<Rightarrow> 'm cloning" where
  "customize env put mergeFunc cust objValue srcValue key a source = (\<lambda>(m, st). case cust of
     FunctionCustomizer f \<Rightarrow>
       with_stack m (ce_call (me_clone env) f LUndef [objValue, srcValue, LStr key, LRef a, source] st)
   | MergeDefaults \<Rightarrow>
       (case objValue of
          LRef b \<Rightarrow> if object_value srcValue
            then map_option (\<lambda>(r, s). (case r of Inl e \<Rightarrow> Inl e | Inr u \<Rightarrow> Inr objValue, s))
              (mergeFunc b srcValue False MergeDefaults (put m srcValue objValue, st))
            else Some (Inr objValue, (m, st))
        | _ \<Rightarrow> Some (Inr objValue, (m, st)))
   | _ \<Rightarrow> Some (Inr LUndef, (m, st)))"

definition baseMergeDeep ::
  "merge_env \<Rightarrow> ('m \<Rightarrow> lval \<Rightarrow> lval) \<Rightarrow> ('m \<Rightarrow> lval \<Rightarrow> lval \<Rightarrow> 'm) \<Rightarrow>
     (nat \<Rightarrow> lval \<Rightarrow> bool \<Rightarrow> merge_customizer \<Rightarrow> 'm merging) \<Rightarrow> nat \<Rightarrow> lval \<Rightarrow> lval \<Rightarrow> bool \<Rightarrow> merge_customizer \<Rightarrow> 'm merging" where
  "baseMergeDeep env get put mergeFunc a source key later cust = (\<lambda>(m, st).
     let name = js_text st key;
         objValue = read_prop st (LRef a) name;
         srcValue = read_prop st source name;
         stacked = get m srcValue
     in if lo_truthy stacked then lift_store (assignMergeValue a key stacked) (m, st)
        else case customize env put mergeFunc cust objValue srcValue name a source (m, st) of
            None \<Rightarrow> None
          | Some (Inl e, s) \<Rightarrow> Some (Inl e, s)
          | Some (Inr custom, (m1, st1)) \<Rightarrow>
              (case (if custom = LUndef then merge_target env later objValue srcValue st1
                     else (Inr (False, custom), st1)) of
                 (Inl e, st2) \<Rightarrow> Some (Inl e, (m1, st2))
               | (Inr (isCommon, newValue), st2) \<Rightarrow>
                   (case (case (isCommon, newValue) of
                        (True, LRef b) \<Rightarrow> mergeFunc b srcValue later cust (put m1 srcValue newValue, st2)
                      | _ \<Rightarrow> Some (Inr (), (put m1 srcValue newValue, st2))) of
                      Some (Inr u, s) \<Rightarrow> lift_store (assignMergeValue a key newValue) s
                    | r \<Rightarrow> r)))"

definition merge_member ::
  "merge_env \<Rightarrow> ('m \<Rightarrow> lval \<Rightarrow> lval) \<Rightarrow> ('m \<Rightarrow> lval \<Rightarrow> lval \<Rightarrow> 'm) \<Rightarrow>
     (nat \<Rightarrow> lval \<Rightarrow> bool \<Rightarrow> merge_customizer \<Rightarrow> 'm merging) \<Rightarrow> nat \<Rightarrow> lval \<Rightarrow> bool \<Rightarrow> merge_customizer \<Rightarrow> lval \<Rightarrow> 'm merging" where
  "merge_member env get put mergeFunc a source later cust key = (\<lambda>(m, st).
     let name = js_text st key;
         srcValue = read_prop st source name
     in if object_value srcValue then baseMergeDeep env get put mergeFunc a source key later cust (m, st)
        else case customize env put mergeFunc cust (read_prop st (LRef a) name) srcValue name a source (m, st) of
            None \<Rightarrow> None
          | Some (Inl e, s) \<Rightarrow> Some (Inl e, s)
          | Some (Inr custom, s) \<Rightarrow>
              lift_store (assignMergeValue a key (if custom = LUndef then srcValue else custom)) s)"

fun each_key :: "(lval \<Rightarrow> 'm merging) \<Rightarrow> lval list \<Rightarrow> 'm merging" where
  "each_key f [] s = Some (Inr (), s)"
| "each_key f (key # keys) s = (case f key s of Some (Inr u, s1) \<Rightarrow> each_key f keys s1 | r \<Rightarrow> r)"

fun baseMerge ::
  "merge_env \<Rightarrow> ('m \<Rightarrow> lval \<Rightarrow> lval) \<Rightarrow> ('m \<Rightarrow> lval \<Rightarrow> lval \<Rightarrow> 'm) \<Rightarrow> nat \<Rightarrow>
     nat \<Rightarrow> lval \<Rightarrow> bool \<Rightarrow> merge_customizer \<Rightarrow> 'm merging" where
  "baseMerge env get put 0 a source later cust s = None"
| "baseMerge env get put (Suc n) a source later cust s =
     (if LRef a = source then Some (Inr (), s)
      else each_key (merge_member env get put (baseMerge env get put n) a source later cust)
             (merge_keys env (snd s) source) s)"

text \<open>Each source gets a stack of its own.\<close>

definition merge_source :: "engine \<Rightarrow> merge_env \<Rightarrow> nat \<Rightarrow> merge_customizer \<Rightarrow> assigner" where
  "merge_source rt env n cust a source later st =
     map_option (\<lambda>(r, (m, st1)). (r, st1))
       (baseMerge env (stackGet rt) (stackSet rt) n a source later cust (stackClear, st))"

definition merge ::
  "engine \<Rightarrow> merge_env \<Rightarrow> nat \<Rightarrow> nat option \<Rightarrow> lval list \<Rightarrow> ostore \<Rightarrow> ((jserr + lval) \<times> ostore) option" where
  "merge rt env n object sources st =
     createAssigner (merge_source rt env n NoCustomizer) object (snd (call_sources st sources)) st"

definition mergeWith ::
  "engine \<Rightarrow> merge_env \<Rightarrow> nat \<Rightarrow> nat option \<Rightarrow> lval list \<Rightarrow> ostore \<Rightarrow> ((jserr + lval) \<times> ostore) option" where
  "mergeWith rt env n object sources st =
     (let (cust, used) = call_sources st sources in createAssigner (merge_source rt env n cust) object used st)"

definition defaultsDeep ::
  "engine \<Rightarrow> merge_env \<Rightarrow> nat \<Rightarrow> nat option \<Rightarrow> lval list \<Rightarrow> ostore \<Rightarrow> ((jserr + lval) \<times> ostore) option" where
  "defaultsDeep rt env n object sources st =
     createAssigner (merge_source rt env n MergeDefaults) object (pushed_sources st sources) st"

end
