(* ===== verification/LodashPathLaws.thy ===== *)
theory LodashPathLaws
  imports LodashPaths
begin

text \<open>
  What the path functions promise: a path written from its keys is parsed into them, \<open>get\<close> finds what
  \<open>set\<close> stored, \<open>set\<close> changes one member of one object, \<open>unset\<close> removes the member it names.
\<close>

section \<open>Paths written as strings\<close>

definition quote_char :: "char \<Rightarrow> string" where
  "quote_char c = (if c = double_quote \<or> c = backslash then [backslash, c] else [c])"

definition quote_name :: "string \<Rightarrow> string" where
  "quote_name k =
     CHR ''['' # double_quote # concat (map quote_char k) @ [double_quote, CHR '']'']"

definition name_ok :: "string \<Rightarrow> bool" where
  "name_ok k \<longleftrightarrow> k \<noteq> [] \<and> (\<forall>c \<in> set k. name_char c)"

text \<open>A key that can be is written after a dot, another one is quoted in brackets.\<close>

definition path_part :: "string \<Rightarrow> string" where
  "path_part k = (if name_ok k then CHR ''.'' # k else quote_name k)"

fun path_string :: "string list \<Rightarrow> string" where
  "path_string [] = []"
| "path_string (k # ks) = (if name_ok k then k else quote_name k) @ concat (map path_part ks)"

lemma special_chars [simp]:
  "\<not> name_char (CHR ''['')" "\<not> name_char (CHR '']'')" "\<not> name_char (CHR ''.'')"
  "backslash \<noteq> double_quote" "\<not> line_end double_quote" "\<not> line_end backslash"
  "\<not> is_digit double_quote" "CHR ''-'' \<noteq> double_quote" "double_quote \<noteq> CHR ''-''"
  by (simp_all add: name_char_def backslash_def double_quote_def line_end_def is_digit_def)

lemma quoted_text:
  "quoted double_quote (concat (map quote_char k) @ double_quote # CHR '']'' # s) =
     Some (concat (map quote_char k), s)"
  by (induction k) (auto simp: quote_char_def simp del: not_None_eq dest: sym [of double_quote])

lemma unescape_quoted: "unescape_path (concat (map quote_char k)) = k"
  by (induction k) (auto simp: quote_char_def)

lemma bracketed_string_quoted:
  "bracketed_string (double_quote # concat (map quote_char k) @ double_quote # CHR '']'' # s) =
     Some (concat (map quote_char k), s)"
  by (simp add: bracketed_string_def quoted_text)

lemma bracketed_number_quote: "bracketed_number (double_quote # s) = None"
  by (simp add: bracketed_number_def digits_from_def)

lemma parse_quoted: "stringToPath (quote_name k @ s) = k # stringToPath s"
  by (simp add: quote_name_def bracketed_number_quote bracketed_string_quoted unescape_quoted)

lemma parse_name:
  assumes "name_ok k" and "s = [] \<or> \<not> name_char (hd s)"
  shows "stringToPath (k @ s) = k # stringToPath s"
proof -
  obtain c cs where k: "k = c # cs" "name_char c" "\<forall>d \<in> set cs. name_char d"
    using assms(1) by (cases k) (auto simp: name_ok_def)
  have "takeWhile name_char (cs @ s) = cs \<and> dropWhile name_char (cs @ s) = s"
    using assms(2) k(3) by (cases s) (auto simp: takeWhile_append2 dropWhile_append2)
  with k show ?thesis by simp
qed

lemma path_parts_hd: "concat (map path_part ks) = [] \<or> \<not> name_char (hd (concat (map path_part ks)))"
  by (cases ks) (auto simp: path_part_def quote_name_def)

lemma parse_part:
  "stringToPath (path_part k @ concat (map path_part ks)) = k # stringToPath (concat (map path_part ks))"
  using path_parts_hd [of ks] by (simp add: path_part_def parse_quoted parse_name)

lemma parse_parts: "stringToPath (concat (map path_part ks)) = ks"
  by (induction ks) (simp_all add: parse_part)

lemma parse_path_string: "stringToPath (path_string ks) = ks"
  using path_parts_hd [of "tl ks"] by (cases ks) (auto simp: parse_quoted parse_name parse_parts)

text \<open>C22: every list of keys, whatever characters they have, can be written as a path string that
  \<open>stringToPath\<close> parses into these keys.\<close>
theorem path_string_parses: "stringToPath (path_string ks) = ks"
  by (rule parse_path_string)

section \<open>Strings and arrays of keys\<close>

lemma deep_append: "reIsDeepProp s \<Longrightarrow> reIsDeepProp (r @ s)"
  by (induction r) auto

lemma deep_part: "reIsDeepProp (path_part k @ s)"
proof (cases "name_ok k")
  case False
  then show ?thesis by (simp add: path_part_def quote_name_def bracketed_string_quoted)
qed (simp add: path_part_def)

lemma deep_name: "\<forall>c \<in> set k. name_char c \<Longrightarrow> \<not> reIsDeepProp k"
  by (induction k) (auto simp: name_char_def)

lemma word_char_special [simp]: "\<not> word_char (CHR ''.'')" "\<not> word_char (CHR ''['')"
  by (simp_all add: word_char_def is_digit_def Let_def)

lemma not_plain_part: "\<not> reIsPlainProp (r @ path_part k @ s)"
  by (auto simp: reIsPlainProp_def path_part_def quote_name_def)

lemma isKey_path_string:
  assumes "ks \<noteq> []" and "nil object \<or> \<not> key_in st object (path_string ks)"
  shows "isKey st (PVal (LStr (path_string ks))) object \<longleftrightarrow> (\<exists>k. ks = [k] \<and> name_ok k)"
proof -
  obtain k ks' where ks: "ks = k # ks'" using assms(1) by (cases ks) auto
  show ?thesis
  proof (cases "ks' = [] \<and> name_ok k")
    case True
    then have "\<not> reIsDeepProp k" by (simp add: name_ok_def deep_name)
    with True ks show ?thesis by (simp add: isKey_def)
  next
    case False
    have "reIsDeepProp (path_string ks) \<and> \<not> reIsPlainProp (path_string ks)"
    proof (cases ks')
      case Nil
      with False ks have "path_string ks = path_part k" by (simp add: path_part_def)
      then show ?thesis using deep_part [of k "[]"] not_plain_part [of "[]" k "[]"] by simp
    next
      case (Cons j js)
      then have "path_string ks = (if name_ok k then k else quote_name k) @ path_part j @ concat (map path_part js)"
        by (simp add: ks)
      then show ?thesis by (simp only: deep_append deep_part not_plain_part simp_thms)
    qed
    with assms(2) False ks show ?thesis by (auto simp: isKey_def)
  qed
qed

lemma path_keys_string:
  assumes "ks \<noteq> []" and "nil object \<or> \<not> key_in st object (path_string ks)"
  shows "path_keys st (PVal (LStr (path_string ks))) object = map LStr ks"
  using isKey_path_string [OF assms]
  by (auto simp: path_keys_def lo_toString_def parse_path_string)

section \<open>Reading back what was set\<close>

text \<open>A key that objects and arrays made on the way have no member for.\<close>

definition ordinary :: "ostore \<Rightarrow> string \<Rightarrow> bool" where
  "ordinary st k \<longleftrightarrow> k \<noteq> ''__proto__'' \<and> k \<noteq> ''length'' \<and>
     holder st objectProto k = None \<and> holder st arrayProto k = None"

text \<open>
  The members \<open>set\<close> passes: up to the last one or the first that is missing. It is \<open>None\<close> when a
  primitive value is in the way.
\<close>

fun route :: "ostore \<Rightarrow> lval \<Rightarrow> lval list \<Rightarrow> (nat \<times> string) list option" where
  "route st v [] = Some []"
| "route st v (key # keys) = (case v of
     LRef a \<Rightarrow>
       (let k = js_text st key; next = read_prop st v k in
        if keys = [] \<or> nil next then Some [(a, k)]
        else map_option (\<lambda>r. (a, k) # r) (route st next keys))
   | _ \<Rightarrow> None)"

lemma ordinary_changes:
  assumes "store_ok st" and "changes R st st'" and "ordinary st k"
    and "\<And>p. (p, k) \<in> R \<Longrightarrow> leaf st p"
  shows "ordinary st' k"
proof -
  have *: "holder st' b k = holder st b k" if "b < 6" for b
  proof (rule holder_changes [OF assms(1, 2)])
    show "b < length (st_cells st)" using that assms(1) by (simp add: store_ok_def)
    show "(p, k) \<notin> R" if "p \<in> set (protos_of st b)" for p
      using that assms(4) leaf_chain [of st p b] \<open>b < 6\<close> by (force simp: leaf_def)
  qed
  from assms(3) * [of objectProto] * [of arrayProto] show ?thesis by (simp add: ordinary_def)
qed

lemma chain_container:
  assumes "store_ok st" and "c = empty_object \<or> c = empty_array m"
  obtains p where "p = objectProto \<or> p = arrayProto"
    and "protos_of (snd (allocate c st)) (length (st_cells st)) = length (st_cells st) # protos_of st p"
proof -
  let ?st = "snd (allocate c st)" and ?n = "length (st_cells st)"
  obtain p where p: "cl_proto c = Some p" "p = objectProto \<or> p = arrayProto"
    using assms(2) by (auto simp: empty_object_def empty_array_def)
  have n: "6 \<le> ?n" using assms(1) by (simp add: store_ok_def)
  have "protos_of ?st ?n = ?n # protos_of ?st p"
  proof (rule chain_new)
    show "cl_proto (cell_at ?st ?n) = Some p" by (simp add: cell_at_allocate p(1))
    show "?n \<notin> set (protos_of ?st p)"
      by (rule leaf_chain [OF leaf_new [OF assms(1)]]) (use p(2) n in auto)
  qed simp
  moreover have "protos_of ?st p = protos_of st p"
    by (rule chain_allocate [OF assms(1)]) (use p(2) n in auto)
  ultimately show ?thesis using p(2) that by simp
qed

lemma leaf_allocate:
  assumes "store_ok st" and "c = empty_object \<or> c = empty_array m" and "leaf st a"
  shows "leaf (snd (allocate c st)) a"
proof -
  let ?st = "snd (allocate c st)" and ?n = "length (st_cells st)"
  have "a \<notin> set (protos_of ?st b)" if "b \<noteq> a" for b
  proof -
    consider "b < ?n" | "b = ?n" | "b > ?n" by linarith
    then show ?thesis
    proof cases
      case 1
      with that assms(3) show ?thesis by (simp add: leaf_def chain_allocate [OF assms(1)])
    next
      case 2
      obtain p where p: "p = objectProto \<or> p = arrayProto" "protos_of ?st ?n = ?n # protos_of st p"
        using chain_container [OF assms(1, 2)] by blast
      moreover have "a \<notin> set (protos_of st p)"
        by (rule leaf_chain [OF assms(3)]) (use p(1) assms(3) in \<open>auto simp: leaf_def\<close>)
      ultimately show ?thesis using 2 assms(3) by (auto simp: leaf_def)
    next
      case 3
      then show ?thesis by (simp add: protos_of_def proto_chain.simps)
    qed
  qed
  with assms(3) show ?thesis by (simp add: leaf_def)
qed

lemma holder_new:
  assumes "store_ok st" and "ordinary st k" and "c = empty_object \<or> c = empty_array m"
  shows "holder (snd (allocate c st)) (length (st_cells st)) k = None"
proof -
  let ?st = "snd (allocate c st)" and ?n = "length (st_cells st)"
  have n: "6 \<le> ?n" using assms(1) by (simp add: store_ok_def)
  obtain p where p: "p = objectProto \<or> p = arrayProto" "protos_of ?st ?n = ?n # protos_of st p"
    using chain_container [OF assms(1, 3)] by blast
  have "ordinary ?st k"
    by (rule ordinary_changes [OF assms(1) changes_allocate assms(2)]) simp
  then have "holder ?st p k = None" using p(1) by (auto simp: ordinary_def)
  moreover have "protos_of ?st p = protos_of st p"
    by (rule chain_allocate [OF assms(1)]) (use p(1) n in auto)
  moreover have "\<not> owns ?st ?n k"
    using assms(2, 3) n by (auto simp: owns_def cell_at_allocate empty_object_def empty_array_def
        own_member_def ordinary_def)
  ultimately show ?thesis by (simp add: holder_def p(2))
qed

lemma assignValue_writes:
  assumes "writable st a key" and "a < length (st_cells st)" and "store_ok st"
  obtains st' where "assignValue a key v st = (Inr (), st')"
    and "changes {(a, key), (a, ''length'')} st st'" and "read_prop st' (LRef a) key = v"
    and "same_protos st st'"
    and "refs_ok (length (st_cells st)) v \<Longrightarrow> store_ok st'"
    and "st' = st \<or> own_member (cell_at st' a) key = Some v"
proof (cases "assignValue a key v st = (Inr (), st) \<and> read_prop st (LRef a) key = v")
  case True
  with that [of st] assms(3) show ?thesis by (simp add: changes_refl same_protos_def)
next
  case False
  then have "assignValue a key v st = write_own a key v st"
    using write_prop_writable [OF assms(1)] by (auto simp: assignValue_def Let_def split: if_splits)
  moreover have plain: "plain_key st a key" using assms(1) by (simp add: writable_def)
  then obtain st' where w: "write_own a key v st = (Inr (), st')" "same_protos st st'"
    "st_text st' = st_text st" "\<And>b. cl_fixed (cell_at st' b) = cl_fixed (cell_at st b)"
    "\<And>b k. b \<noteq> a \<or> plain_key st a k \<Longrightarrow> own_member (cell_at st' b) k =
       (if b = a \<and> k = key \<and> a < length (st_cells st) then Some v else own_member (cell_at st b) k)"
    "\<And>b. plain_key st' b = plain_key st b"
    by (rule write_own_plain [where v = v]) blast
  moreover have "own_member (cell_at st' b) k \<noteq> None" if "own_member (cell_at st b) k \<noteq> None" for b k
    using that w(5) [of b k] w(6) length_member [of st' b k] by (cases "b \<noteq> a \<or> plain_key st a k") auto
  then have "changes {(a, key), (a, ''length'')} st st'"
    using w assms(2) by (auto simp: changes_def same_protos_def plain_key_def split: oclass.splits)
  moreover have own: "own_member (cell_at st' a) key = Some v" using w(5) [of a key] plain assms(2) by simp
  moreover have "read_prop st' (LRef a) key = v"
    using read_own [OF own] assms(2) w(2) by (simp add: same_protos_def)
  moreover have "store_ok st'" if "refs_ok (length (st_cells st)) v"
    using store_ok_write_own [OF assms(3) that plain] w(1) by simp
  ultimately show ?thesis by (intro that [of st']) auto
qed

lemma writable_kept:
  assumes "store_ok st" and "changes {} st st'" and a: "a < length (st_cells st)" and "writable st a k"
  shows "writable st' a k"
proof -
  have "plain_key st' a k = plain_key st a k" using assms(2) a by (simp add: changes_def)
  moreover have "holder st' a k = holder st a k" by (rule holder_changes [OF assms(1, 2) a]) simp
  moreover have "cl_fixed (cell_at st' p) = cl_fixed (cell_at st p)" if "holder st a k = Some p" for p
    using assms(2) chain_range [OF holder_in_chain [OF that]] by (simp add: changes_def)
  ultimately show ?thesis using assms(4) by (auto simp: writable_def split: option.splits)
qed

text \<open>From a member that is missing, or is the last one, the rest of the path is made anew.\<close>

lemma set_creates:
  assumes "store_ok st" and "leaf st a" and "writable st a (js_text st k)"
    and "ks = [] \<or> nil (read_prop st (LRef a) (js_text st k))"
    and "\<forall>j \<in> set ks. ordinary st (js_text st j)"
  shows "\<exists>st'. set_keys None v (LRef a) (k # ks) st = (Inr (), st') \<and>
    changes {(a, js_text st k), (a, ''length'')} st st' \<and> get_keys st' (LRef a) (k # ks) = v"
  using assms
proof (induction ks arbitrary: a k st)
  case Nil
  have a: "a < length (st_cells st)" using Nil.prems(2) by (simp add: leaf_def)
  obtain st' where "assignValue a (js_text st k) v st = (Inr (), st')"
    "changes {(a, js_text st k), (a, ''length'')} st st'" "read_prop st' (LRef a) (js_text st k) = v"
    by (rule assignValue_writes [OF Nil.prems(3) a Nil.prems(1), where v = v])
  then show ?case by (intro exI [of _ st']) (simp add: nil_def changes_text)
next
  case (Cons j ks)
  let ?k = "js_text st k" and ?j = "js_text st j" and ?n = "length (st_cells st)"
  define c where "c = (if isIndex_value st j None then empty_array 0 else empty_object)"
  define st1 where "st1 = snd (allocate c st)"
  have c: "c = empty_object \<or> c = empty_array 0" by (simp add: c_def)
  have a: "a < ?n" using Cons.prems(2) by (simp add: leaf_def)
  have ch1: "changes {} st st1" unfolding st1_def by (rule changes_allocate)
  have ok1: "store_ok st1" unfolding st1_def by (rule store_ok_allocate [OF Cons.prems(1) c])
  have cells1: "length (st_cells st1) = Suc ?n" by (simp add: st1_def)
  have text1: "js_text st1 x = js_text st x" for x by (rule changes_text [OF ch1])
  have w1: "writable st1 a ?k" by (rule writable_kept [OF Cons.prems(1) ch1 a Cons.prems(3)])
  obtain st2 where st2: "assignValue a ?k (LRef ?n) st1 = (Inr (), st2)"
    "changes {(a, ?k), (a, ''length'')} st1 st2" "read_prop st2 (LRef a) ?k = LRef ?n"
    "same_protos st1 st2" "refs_ok (length (st_cells st1)) (LRef ?n) \<Longrightarrow> store_ok st2"
    by (rule assignValue_writes [OF w1 _ ok1, where v = "LRef ?n"]) (use a in \<open>auto simp: cells1\<close>)
  have ok2: "store_ok st2" by (rule st2(5)) (simp add: refs_ok_def cells1)
  have ch2: "changes {(a, ?k), (a, ''length'')} st st2"
    by (rule changes_trans [OF changes_mono [OF ch1] st2(2)]) auto
  have cells2: "length (st_cells st2) = Suc ?n" using st2(4) by (simp add: same_protos_def cells1)
  have text2: "js_text st2 x = js_text st x" for x by (rule changes_text [OF ch2])
  have leaf2: "leaf st2 ?n"
    by (rule leaf_same [OF st2(4)]) (simp add: st1_def leaf_new [OF Cons.prems(1)])
  have ord2: "ordinary st2 (js_text st2 i)" if "i \<in> set (j # ks)" for i
    unfolding text2
    by (rule ordinary_changes [OF Cons.prems(1) ch2]) (use that Cons.prems(2, 5) in auto)
  have ordj: "ordinary st ?j" using Cons.prems(5) by simp
  have "holder st2 ?n ?j = holder st1 ?n ?j"
  proof (rule holder_changes [OF ok1 st2(2)])
    have "leaf st1 a" unfolding st1_def by (rule leaf_allocate [OF Cons.prems(1) c Cons.prems(2)])
    then show "(p, ?j) \<notin> {(a, ?k), (a, ''length'')}" if "p \<in> set (protos_of st1 ?n)" for p
      using that leaf_chain [of st1 a ?n] a by auto
  qed (simp add: cells1)
  also have "... = None" unfolding st1_def by (rule holder_new [OF Cons.prems(1) ordj c])
  finally have none: "holder st2 ?n ?j = None" .
  have class2: "plain_key st2 ?n ?j" using ordj by (auto simp: plain_key_def ordinary_def split: oclass.splits)
  obtain st' where st': "set_keys None v (LRef ?n) (j # ks) st2 = (Inr (), st')"
    "changes {(?n, js_text st2 j), (?n, ''length'')} st2 st'" "get_keys st' (LRef ?n) (j # ks) = v"
    using Cons.IH [OF ok2 leaf2, of j] none class2 ordj ord2
    by (auto simp: writable_def text2 ordinary_def read_none nil_def)
  have "changes {(a, ?k), (a, ''length'')} st st'"
    by (rule changes_trans [OF ch2 st'(2)]) auto
  moreover have "read_prop st' (LRef a) ?k = LRef ?n"
    unfolding st2(3) [symmetric]
    by (rule read_changes [OF ok2 st'(2)]) (use a cells2 leaf_chain [OF leaf2, of a] in auto)
  moreover have "js_text st' k = ?k" by (rule changes_text) (rule calculation)
  moreover have "nil (read_prop st (LRef a) ?k)" using Cons.prems(4) by simp
  then have "inner_value None (LRef a) k j st = (Inr (LRef ?n), st1)"
    by (simp add: inner_value_def new_container_def Let_def c_def st1_def split: prod.split)
       (auto simp: allocate_def)
  ultimately have reads: "get_keys st' (LRef a) (k # j # ks) = v"
    and "changes {(a, ?k), (a, ''length'')} st st'"
    and inner: "inner_value None (LRef a) k j st = (Inr (LRef ?n), st1)"
    using st'(3) by (simp_all add: nil_def del: get_keys.simps add: get_keys.simps(2) [of st' "LRef a" k])
  moreover have "set_keys None v (LRef a) (k # j # ks) st = set_keys None v (LRef ?n) (j # ks) st2"
    using inner st2(1, 3)
    by (simp add: nil_def text1 text2 del: set_keys.simps add: set_keys.simps(2) [of None v "LRef a" k])
  ultimately show ?case using st'(1) by (intro exI [of _ st']) simp
qed

lemma assignValue_same:
  assumes "ordinary st key" and "read_prop st (LRef a) key = x" and "\<not> nil x"
  shows "assignValue a key x st = (Inr (), st)"
  using assms by (auto simp: assignValue_def Let_def ordinary_def read_none nil_def)

text \<open>
  The members passed may lead anywhere, but the last of them is written: it must be on an object
  nothing inherits from, must not be fixed, and must not have been passed before.
\<close>

definition settable :: "ostore \<Rightarrow> lval \<Rightarrow> lval list \<Rightarrow> (nat \<times> string) list \<Rightarrow> bool" where
  "settable st object keys r \<longleftrightarrow> store_ok st \<and> (\<forall>k \<in> set keys. ordinary st (js_text st k)) \<and>
     route st object keys = Some r \<and> r \<noteq> [] \<and> last r \<notin> set (butlast r) \<and>
     leaf st (fst (last r)) \<and> writable st (fst (last r)) (snd (last r))"

lemma route_nonempty: "route st v ks = Some r \<Longrightarrow> ks \<noteq> [] \<Longrightarrow> r \<noteq> []"
  by (cases ks) (auto simp: Let_def split: lval.splits if_splits)

lemma settable_step:
  assumes "settable st v (k # ks) r" and "ks \<noteq> []" and "\<not> nil (read_prop st v (js_text st k))"
  obtains a r' where "v = LRef a" and "r = (a, js_text st k) # r'"
    and "settable st (read_prop st v (js_text st k)) ks r'"
proof -
  from assms obtain a r' where r: "v = LRef a" "r = (a, js_text st k) # r'"
    "route st (read_prop st v (js_text st k)) ks = Some r'"
    by (auto simp: settable_def Let_def split: lval.splits)
  moreover have "r' \<noteq> []" using route_nonempty [OF r(3) assms(2)] .
  ultimately show ?thesis using assms(1) that by (auto simp: settable_def split: if_splits)
qed

lemma set_keys_settable:
  assumes "settable st (LRef a) ks r"
  shows "\<exists>st'. set_keys None v (LRef a) ks st = (Inr (), st') \<and>
    changes {last r, (fst (last r), ''length'')} st st' \<and> get_keys st' (LRef a) ks = v"
  using assms
proof (induction ks arbitrary: a r)
  case Nil
  then show ?case by (auto simp: settable_def)
next
  case (Cons k ks)
  let ?k = "js_text st k"
  let ?next = "read_prop st (LRef a) ?k"
  show ?case
  proof (cases "ks = [] \<or> nil ?next")
    case True
    with Cons.prems have "r = [(a, ?k)]" by (auto simp: settable_def Let_def)
    with Cons.prems True set_creates [of st a k ks v] show ?thesis by (auto simp: settable_def)
  next
    case False
    then obtain r' where r': "r = (a, ?k) # r'" "settable st ?next ks r'"
      using settable_step [OF Cons.prems] by auto
    obtain b where b: "?next = LRef b"
      using r'(2) False by (cases ks) (auto simp: settable_def nil_def split: lval.splits)
    obtain st' where st': "set_keys None v (LRef b) ks st = (Inr (), st')"
      "changes {last r', (fst (last r'), ''length'')} st st'" "get_keys st' (LRef b) ks = v"
      using Cons.IH r'(2) b by metis
    have ne: "r' \<noteq> []" using r'(2) by (simp add: settable_def)
    have ok: "store_ok st" "ordinary st ?k" using Cons.prems by (simp_all add: settable_def)
    have a: "a < length (st_cells st)"
    proof (rule ccontr)
      assume "\<not> a < length (st_cells st)"
      then have "?next = LUndef" by (simp add: read_prop_def holder_def protos_of_def proto_chain.simps)
      with b show False by simp
    qed
    obtain c k' where c: "last r' = (c, k')" by (cases "last r'")
    have last: "leaf st c" "(c, k') \<notin> set (butlast r)"
      using Cons.prems c ne r'(1) by (simp_all add: settable_def)
    have "read_prop st' (LRef a) ?k = ?next"
    proof (rule read_changes [OF ok(1) st'(2) a])
      fix p assume p: "p \<in> set (protos_of st a)"
      show "(p, ?k) \<notin> {last r', (fst (last r'), ''length'')}"
        using leaf_chain [OF last(1), of a] p last(2) c ne r'(1) ok(2) by (auto simp: ordinary_def)
    qed
    moreover have "js_text st' k = ?k" by (rule changes_text [OF st'(2)])
    moreover obtain j js where ks: "ks = j # js" using False by (cases ks) auto
    moreover have "inner_value None (LRef a) k j st = (Inr ?next, st)"
      using False by (simp add: inner_value_def Let_def)
    moreover have "assignValue a ?k ?next st = (Inr (), st)"
      by (rule assignValue_same [OF ok(2) refl]) (use False in simp)
    ultimately have "set_keys None v (LRef a) (k # ks) st = set_keys None v ?next ks st"
      by (simp add: nil_def del: set_keys.simps add: set_keys.simps(2) [of None v "LRef a" k])
    then show ?thesis
      using st' b ne r'(1) \<open>read_prop st' (LRef a) ?k = ?next\<close> \<open>js_text st' k = ?k\<close>
      by (intro exI [of _ st']) (simp add: nil_def del: set_keys.simps)
  qed
qed

text \<open>Parsing a path yields no name that is the path itself, unless it is one name.\<close>

lemma quoted_length: "quoted q s = Some (t, r) \<Longrightarrow> length t + 2 + length r = length s"
  by (induction q s arbitrary: t rule: quoted.induct)
    (auto split: if_splits list.splits option.splits)

lemma unescape_length: "length (unescape_path s) \<le> length s"
  by (induction s rule: unescape_path.induct) (auto split: list.splits)

lemma digits_from_length: "digits_from s = Some (t, r) \<Longrightarrow> length t + length r = length s"
  by (auto simp: digits_from_def split: if_splits simp flip: length_append)

lemma bracketed_number_length: "bracketed_number s = Some (t, r) \<Longrightarrow> length t < length s"
  by (auto simp: bracketed_number_def Let_def split: list.splits if_splits option.splits prod.splits
      dest!: digits_from_length)

lemma bracketed_string_length: "bracketed_string s = Some (t, r) \<Longrightarrow> length (unescape_path t) < length s"
  using unescape_length [of t]
  by (auto simp: bracketed_string_def split: list.splits if_splits dest!: quoted_length)

lemma path_names_shorter:
  "k \<in> set (stringToPath s) \<Longrightarrow> length k < length s \<or> (k = s \<and> (\<forall>c \<in> set s. name_char c))"
proof (induction s rule: stringToPath.induct)
  case (2 c cs)
  consider (name) "name_char c" | (bracket) "\<not> name_char c" "c = CHR ''[''" |
    (other) "\<not> name_char c" "c \<noteq> CHR ''[''" by blast
  then show ?case
  proof cases
    case name
    have drop: "length (dropWhile name_char cs) \<le> length cs" by (rule length_dropWhile_le)
    have "length (takeWhile name_char cs) < length cs \<or> takeWhile name_char cs = cs"
      by (metis length_takeWhile_le le_neq_implies_less takeWhile_eq_take take_all_iff nat_le_linear)
    moreover have "takeWhile name_char cs = cs \<Longrightarrow> \<forall>d \<in> set cs. name_char d"
      by (metis set_takeWhileD)
    ultimately show ?thesis using name "2.prems" "2.IH"(1) drop by fastforce
  next
    case bracket
    show ?thesis
    proof (cases "bracketed_number cs")
      case None
      show ?thesis
      proof (cases "bracketed_string cs")
        case None2: None
        with None bracket "2.prems" "2.IH"(2) show ?thesis by fastforce
      next
        case (Some p)
        then obtain t r where "bracketed_string cs = Some (t, r)" by (cases p) auto
        with None bracket "2.prems" "2.IH"(3) bracketed_string_length [of cs t r]
          bracketed_string_shorter [of cs t r] show ?thesis by fastforce
      qed
    next
      case (Some p)
      then obtain t r where "bracketed_number cs = Some (t, r)" by (cases p) auto
      with bracket "2.prems" "2.IH"(4) bracketed_number_length [of cs t r]
        bracketed_number_shorter [of cs t r] show ?thesis by fastforce
    qed
  next
    case other
    with "2.prems" "2.IH"(5) show ?thesis by fastforce
  qed
qed simp

lemma deep_path_names: "reIsDeepProp s \<Longrightarrow> k \<in> set (stringToPath s) \<Longrightarrow> k \<noteq> s"
  using path_names_shorter deep_name by blast

text \<open>Setting a path does not change how the path is read.\<close>

lemma route_last_key: "route st v ks = Some r \<Longrightarrow> r \<noteq> [] \<Longrightarrow> snd (last r) \<in> js_text st ` set ks"
proof (induction ks arbitrary: v r)
  case (Cons k ks)
  show ?case
  proof (cases "ks = [] \<or> nil (read_prop st v (js_text st k))")
    case True
    with Cons.prems show ?thesis by (auto simp: Let_def split: lval.splits)
  next
    case False
    then obtain a r' where r': "v = LRef a" "r = (a, js_text st k) # r'"
      "route st (read_prop st v (js_text st k)) ks = Some r'"
      using Cons.prems by (auto simp: Let_def split: lval.splits)
    then have "r' \<noteq> []" using route_nonempty False by blast
    with Cons.IH r' show ?thesis by auto
  qed
qed simp

lemma lo_toString_cong: "st_text st = st_text st' \<Longrightarrow> lo_toString st = lo_toString st'"
  by (rule ext) (simp add: lo_toString_def split: lval.splits)

lemma path_text_cong:
  assumes "st_text st = st_text st'"
  shows "path_text st path = path_text st' path"
  using lo_toString_cong [OF assms] js_text_cong [OF assms] by (cases path) (simp_all only: path_text.simps)

lemma baseToPath_cong: "st_text st = st_text st' \<Longrightarrow> baseToPath st path = baseToPath st' path"
  using lo_toString_cong [of st st'] by (cases path) (simp_all only: baseToPath.simps)

lemma path_keys_settable:
  assumes "settable st (LRef a) (path_keys st path (LRef a)) r" and "a < length (st_cells st)"
    and "changes {last r, (fst (last r), ''length'')} st st'"
  shows "path_keys st' path (LRef a) = path_keys st path (LRef a)"
proof -
  have st_text: "st_text st' = st_text st" using assms(3) by (simp add: changes_def)
  have str: "js_text st' v = js_text st v" for v by (rule js_text_cong [OF st_text])
  have ok: "store_ok st" using assms(1) by (simp add: settable_def)
  have "isKey st' path (LRef a) = isKey st path (LRef a)"
  proof (cases path)
    case (PVal v)
    let ?s = "js_text st v"
    show ?thesis
    proof (cases "\<exists>n. v = LNum n \<or> reIsPlainProp ?s \<or> \<not> reIsDeepProp ?s")
      case True
      then show ?thesis by (auto simp: PVal isKey_def str st_text split: lval.splits)
    next
      case False
      have "holder st' a ?s = None \<longleftrightarrow> holder st a ?s = None"
      proof (cases "holder st a ?s")
        case None
        with False have "path_keys st path (LRef a) = map LStr (stringToPath (lo_toString st v))"
          by (auto simp: PVal path_keys_def isKey_def key_in_def split: lval.splits)
        moreover have "lo_toString st v = ?s" using False
          by (auto simp: lo_toString_def nil_def reIsPlainProp_def word_char_def is_digit_def Let_def split: lval.splits)
        ultimately have "snd (last r) \<in> set (stringToPath ?s)"
          using assms(1) route_last_key [of st "LRef a" "map LStr (stringToPath ?s)" r]
          by (auto simp: settable_def image_image)
        then have "snd (last r) \<noteq> ?s" using deep_path_names False by blast
        moreover have "?s \<noteq> ''length''" using False by auto
        ultimately have "(p, ?s) \<notin> {last r, (fst (last r), ''length'')}" for p by (cases "last r") auto
        then show ?thesis using holder_changes [OF ok assms(3, 2)] by metis
      next
        case (Some p)
        have "owns st' p ?s" if "owns st p ?s" "p \<in> set (protos_of st a)" for p
          using that assms(3) chain_range [of p st a] unfolding owns_def changes_def by blast
        then have "holder st' a ?s \<noteq> None"
          using Some holder_in_chain [OF Some]
          by (auto simp: holder_def find_None_iff find_Some_iff chain_changes [OF ok assms(3, 2)])
        with Some show ?thesis by simp
      qed
      then show ?thesis by (auto simp: PVal isKey_def str st_text key_in_def split: lval.splits)
    qed
  qed (simp add: isKey_def)
  moreover note baseToPath_cong [OF st_text] path_text_cong [OF st_text]
  ultimately show ?thesis by (simp add: path_keys_def)
qed

lemma baseSet_settable:
  assumes "settable st (LRef a) (path_keys st path (LRef a)) r"
  shows "\<exists>st'. lo_set (LRef a) path v st = (Inr (LRef a), st') \<and>
    changes {last r, (fst (last r), ''length'')} st st' \<and>
    get_keys st' (LRef a) (path_keys st path (LRef a)) = v"
proof -
  obtain st' where "set_keys None v (LRef a) (path_keys st path (LRef a)) st = (Inr (), st')"
    "changes {last r, (fst (last r), ''length'')} st st'"
    "get_keys st' (LRef a) (path_keys st path (LRef a)) = v"
    using set_keys_settable [OF assms] by blast
  then show ?thesis by (simp add: lo_set_def baseSet_def nil_def)
qed

text \<open>C20: \<open>get\<close> returns what \<open>set\<close> stored: for every path \<open>set\<close> can follow, given as a
  string, a key or an array, \<open>set\<close> returns the object without throwing, and reading the path afterwards
  gives the value, whatever was made on the way.\<close>
theorem set_then_get:
  assumes "settable st (LRef a) (path_keys st path (LRef a)) r" and "a < length (st_cells st)"
  shows "\<exists>st'. lo_set (LRef a) path v st = (Inr (LRef a), st') \<and>
    lo_get st' (LRef a) path d = (if v = LUndef then d else v)"
proof -
  obtain st' where st': "lo_set (LRef a) path v st = (Inr (LRef a), st')"
    "changes {last r, (fst (last r), ''length'')} st st'"
    "get_keys st' (LRef a) (path_keys st path (LRef a)) = v"
    using baseSet_settable [OF assms(1)] by blast
  have "path_keys st' path (LRef a) = path_keys st path (LRef a)"
    by (rule path_keys_settable [OF assms st'(2)])
  moreover have "path_keys st path (LRef a) \<noteq> []" using assms(1) by (auto simp: settable_def)
  ultimately show ?thesis using st' by (simp add: lo_get_def baseGet_def nil_def Let_def)
qed

lemma set_keeps_member:
  assumes "settable st (LRef a) (path_keys st path (LRef a)) r"
    and "b < length (st_cells st)" and "(b, k) \<noteq> last r" and "k \<noteq> ''length''"
  shows "read_prop (snd (lo_set (LRef a) path v st)) (LRef b) k = read_prop st (LRef b) k"
proof -
  obtain st' where st': "lo_set (LRef a) path v st = (Inr (LRef a), st')"
    "changes {last r, (fst (last r), ''length'')} st st'"
    using baseSet_settable [OF assms(1)] by blast
  have "read_prop st' (LRef b) k = read_prop st (LRef b) k"
  proof (rule read_changes [OF _ st'(2) assms(2)])
    show "store_ok st" using assms(1) by (simp add: settable_def)
    show "(p, k) \<notin> {last r, (fst (last r), ''length'')}" if "p \<in> set (protos_of st b)" for p
      using that assms leaf_chain [of st "fst (last r)" b] by (cases "last r") (auto simp: settable_def)
  qed
  with st'(1) show ?thesis by simp
qed

text \<open>C21: On a path that is \<open>settable\<close>, \<open>set\<close> changes one member, the last of the route: every other member
  but \<open>length\<close> of every object there was reads as before. Such a path has no key \<open>__proto__\<close> or \<open>length\<close>
  and none that \<open>Object.prototype\<close> or \<open>Array.prototype\<close> has, no primitive value in the way, it does not pass
  the member that is written before, and that member is not fixed and on an object nothing inherits from.\<close>
theorem set_changes_one_member:
  assumes "settable st (LRef a) (path_keys st path (LRef a)) r"
    and "b < length (st_cells st)" and "(b, k) \<noteq> last r" and "k \<noteq> ''length''"
  shows "read_prop (snd (lo_set (LRef a) path v st)) (LRef b) k = read_prop st (LRef b) k"
  by (rule set_keeps_member [OF assms])

section \<open>Setting through the prototype\<close>

lemma find_only: "x \<in> set xs \<Longrightarrow> (\<And>y. y \<in> set xs \<Longrightarrow> y \<noteq> x \<Longrightarrow> \<not> P y) \<Longrightarrow> P x \<Longrightarrow> find P xs = Some x"
  by (induction xs) auto

lemma read_accessor:
  assumes "holder st a ''__proto__'' = Some objectProto"
    and "own_member (cell_at st objectProto) ''__proto__'' = None"
    and "cl_proto (cell_at st a) = p"
  shows "read_prop st (LRef a) ''__proto__'' = (case p of Some q \<Rightarrow> LRef q | None \<Rightarrow> LNull)"
  using assms by (simp add: read_prop_def getPrototypeOf_def)

text \<open>C23: \<open>set\<close> follows \<open>__proto__\<close>: for every plain object, setting \<open>__proto__.k\<close> gives the member
  \<open>k\<close> to every object that inherits from \<open>Object.prototype\<close> and has none.\<close>
theorem set_reaches_prototypes:
  assumes ok: "store_ok st" and key: "\<not> key_in st (LRef a) (path_string [''__proto__'', k])"
    and a: "holder st a ''__proto__'' = Some objectProto" "cl_proto (cell_at st a) = Some objectProto"
    and proto: "own_member (cell_at st objectProto) ''__proto__'' = None"
      "cl_proto (cell_at st objectProto) = None"
    and k: "writable st objectProto k" "holder st objectProto k = None"
    and b: "objectProto \<in> set (protos_of st b)" "holder st b k = None"
  shows "read_prop (snd (lo_set (LRef a) (PVal (LStr (path_string [''__proto__'', k]))) v st)) (LRef b) k = v"
proof -
  have zero: "objectProto < length (st_cells st)" using b(1) chain_range by blast
  obtain st' where st': "assignValue objectProto k v st = (Inr (), st')"
    "changes {(objectProto, k), (objectProto, ''length'')} st st'"
    "read_prop st' (LRef objectProto) k = v" "same_protos st st'"
    "st' = st \<or> own_member (cell_at st' objectProto) k = Some v"
    by (rule assignValue_writes [OF k(1) zero ok, where v = v]) blast
  have proto_read: "read_prop st (LRef a) ''__proto__'' = LRef objectProto"
    using read_accessor [OF a(1) proto(1) a(2)] by simp
  have "owns st objectProto ''__proto__''" by (simp add: owns_def)
  then have "holder st objectProto ''__proto__'' = Some objectProto"
    using chain_head [OF zero] by (auto simp: holder_def)
  then have "read_prop st (LRef objectProto) ''__proto__'' = LNull"
    using read_accessor [OF _ proto(1) proto(2)] by simp
  then have "assignValue a ''__proto__'' (LRef objectProto) st = (Inr (), st)"
    by (simp add: assignValue_def proto_read)
  then have "lo_set (LRef a) (PVal (LStr (path_string [''__proto__'', k]))) v st = (Inr (LRef a), st')"
    using path_keys_string [of "[''__proto__'', k]" "LRef a" st] key st'(1)
    by (simp add: lo_set_def baseSet_def nil_def inner_value_def proto_read del: path_string.simps)
  moreover have "read_prop st' (LRef b) k = v"
  proof (cases "st' = st")
    case True
    with st'(3) k(2) b(2) show ?thesis by (simp add: read_none)
  next
    case False
    with st'(5) have own: "own_member (cell_at st' objectProto) k = Some v" by blast
    have "k \<noteq> ''length'' \<or> plain_key st objectProto ''length''" using k(1) by (auto simp: writable_def)
    have "\<not> owns st' p k" if "p \<in> set (protos_of st b)" "p \<noteq> objectProto" for p
    proof -
      have "\<not> owns st p k" using b(2) that(1) by (auto simp: holder_def find_None_iff)
      with st'(2) that chain_range [OF that(1)] show ?thesis
        by (auto simp: owns_def changes_def)
    qed
    moreover have "owns st' objectProto k" using own by (simp add: owns_def)
    ultimately have "holder st' b k = Some objectProto"
      unfolding holder_def chain_same [OF st'(4)] by (rule find_only [OF b(1)])
    with own show ?thesis by (simp add: read_prop_def)
  qed
  ultimately show ?thesis by simp
qed

section \<open>Removing\<close>

lemma own_has: "\<not> has st (LRef a) (PVal key) \<Longrightarrow> own_member (cell_at st a) (js_text st key) = None"
  by (auto simp: has_def hasPath_def nil_def baseHas_key_def hasOwnProperty_def owns_def
      split: if_splits)

lemma delete_own:
  assumes "fst (delete_prop (LRef a) key st)"
  shows "own_member (cell_at (snd (delete_prop (LRef a) key st)) b) k =
    (if b = a \<and> k = key then None else own_member (cell_at st b) k)"
proof -
  let ?c = "cell_at st a"
  have "\<not> (\<exists>n. cl_class ?c = ArrayClass n \<and> key = ''length'')"
    "snd (delete_prop (LRef a) key st) = put_cell a (?c\<lparr>cl_own := AList.delete key (cl_own ?c)\<rparr>) st"
    using assms by (auto simp: delete_prop_def Let_def split: if_splits oclass.splits)
  moreover have "own_member (?c\<lparr>cl_own := AList.delete key (cl_own ?c)\<rparr>) k =
      (if k = key then None else own_member ?c k)"
    using calculation(1) by (auto simp: own_member_def delete_conv' split: oclass.splits)
  moreover have "own_member ?c k = None" if "\<not> a < length (st_cells st)"
    using that by (simp add: cell_at_def no_cell_def own_member_def)
  ultimately show ?thesis by (cases "b = a"; cases "k = key") (simp_all add: cell_at_put_cell)
qed

text \<open>when \<open>unset\<close> returns \<open>true\<close>, the object the path leads to has no own member of the last key,
  and every other member of every object is as before.\<close>
theorem unset_removes:
  assumes "\<not> nil object" and "parent st object (path_keys st path object) = LRef p"
    and "fst (unset object path st)"
  shows "own_member (cell_at (snd (unset object path st)) b) k =
    (if b = p \<and> k = js_text st (last_key (path_keys st path object)) then None
     else own_member (cell_at st b) k)"
proof (cases "has st (LRef p) (PVal (last_key (path_keys st path object)))")
  case True
  with assms have "unset object path st =
      delete_prop (LRef p) (js_text st (last_key (path_keys st path object))) st"
    by (simp add: unset_def baseUnset_def Let_def nil_def)
  with assms(3) delete_own show ?thesis by simp
next
  case False
  with assms have "unset object path st = (True, st)"
    by (simp add: unset_def baseUnset_def Let_def)
  with own_has [OF False] show ?thesis by simp
qed

section \<open>Functions made of a path\<close>

text \<open>the function \<open>property(path)\<close> returns is \<open>get\<close> without a default, whether the path was
  taken for a key or for a deep path when the function was made.\<close>
theorem property_is_get:
  assumes "st_text st = st_text st0"
  shows "property st0 path st object = lo_get st object path LUndef"
proof -
  have str: "js_text st v = js_text st0 v" for v by (rule js_text_cong [OF assms])
  have "isKey st path object" if "isKey st0 path LUndef"
    using that by (auto simp: isKey_def str nil_def assms split: path.splits lval.splits)
  moreover have "path_text st path = path_text st0 path"
    by (rule path_text_cong [OF assms])
  ultimately show ?thesis
    by (cases "baseToPath st path")
      (simp_all add: property_def baseProperty_def basePropertyDeep_def lo_get_def baseGet_def path_keys_def)
qed

section \<open>The properties on a store\<close>

lemma leaf_below:
  "leaf st a \<longleftrightarrow> 6 \<le> a \<and> a < length (st_cells st) \<and>
     (\<forall>b \<in> set [0..<length (st_cells st)]. b = a \<or> a \<notin> set (protos_of st b))"
proof -
  have "protos_of st b = []" if "\<not> b < length (st_cells st)" for b
    using that by (simp add: protos_of_def proto_chain.simps)
  then show ?thesis unfolding leaf_def by fastforce
qed

definition proto_cell :: "oclass \<Rightarrow> nat option \<Rightarrow> cell" where
  "proto_cell c p = \<lparr>cl_class = c, cl_own = [], cl_proto = p, cl_fixed = []\<rparr>"

text \<open>An object with an empty array in its member \<open>a\<close>.\<close>

definition demo_store :: ostore where
  "demo_store =
     \<lparr>st_cells = [proto_cell PlainClass None, proto_cell (ArrayClass 0) (Some 0),
        proto_cell FunctionClass (Some 0), proto_cell PlainClass (Some 0), proto_cell PlainClass (Some 0),
        proto_cell PlainClass (Some 0), empty_object\<lparr>cl_own := [(''a'', LRef 7)]\<rparr>, empty_array 0],
      st_text = (\<lambda>a. ''[object Object]'')\<rparr>"

lemma demo_cells:
  "length (st_cells demo_store) = 8" "cell_at demo_store 0 = proto_cell PlainClass None"
  "cell_at demo_store 1 = proto_cell (ArrayClass 0) (Some 0)"
  "cell_at demo_store (Suc 0) = proto_cell (ArrayClass 0) (Some 0)"
  "cell_at demo_store 2 = proto_cell FunctionClass (Some 0)"
  "cell_at demo_store 3 = proto_cell PlainClass (Some 0)"
  "cell_at demo_store 4 = proto_cell PlainClass (Some 0)"
  "cell_at demo_store 5 = proto_cell PlainClass (Some 0)"
  "cell_at demo_store 6 = empty_object\<lparr>cl_own := [(''a'', LRef 7)]\<rparr>"
  "cell_at demo_store 7 = empty_array 0"
  by (simp_all add: demo_store_def cell_at_def)

lemmas demo_parts = demo_cells proto_cell_def empty_object_def empty_array_def

lemma demo_chains:
  "protos_of demo_store 0 = [0]" "protos_of demo_store (Suc 0) = [1, 0]" "protos_of demo_store 2 = [2, 0]"
  "protos_of demo_store 3 = [3, 0]" "protos_of demo_store 4 = [4, 0]" "protos_of demo_store 5 = [5, 0]"
  "protos_of demo_store 6 = [6, 0]" "protos_of demo_store 7 = [7, 1, 0]"
  by (simp_all add: protos_of_def proto_chain.simps demo_parts)

lemma demo_addresses: "set [0..<8] = {0, 1, 2, 3, 4, 5, 6, 7}"
  by code_simp

lemma demo_leaf: "leaf demo_store 6" "leaf demo_store 7"
  by (simp_all add: leaf_below demo_cells demo_chains demo_addresses del: set_upt)

lemma demo_ok: "store_ok demo_store"
  by (simp add: store_ok_def cell_ok_def demo_store_def proto_cell_def empty_object_def empty_array_def
      refs_ok_def)

lemmas demo_reads = holder_def owns_def own_member_def demo_chains demo_parts

lemma demo_keys:
  "path_keys demo_store (PVal (LStr ''a[0].b'')) (LRef 6) = [LStr ''a'', LStr ''0'', LStr ''b'']"
  by (simp add: path_keys_def isKey_def reIsPlainProp_def word_char_def is_digit_def Let_def nil_def
      key_in_def demo_reads lo_toString_def name_char_def bracketed_number_def digits_from_def)

lemma demo_settable:
  "settable demo_store (LRef 6) (path_keys demo_store (PVal (LStr ''a[0].b'')) (LRef 6)) [(6, ''a''), (7, ''0'')]"
  by (simp add: demo_keys settable_def demo_ok demo_leaf ordinary_def demo_reads Let_def read_prop_def nil_def
      writable_def plain_key_def)

theorem set_then_get_witness:
  "\<exists>st'. lo_set (LRef 6) (PVal (LStr ''a[0].b'')) (LBool True) demo_store = (Inr (LRef 6), st') \<and>
     lo_get st' (LRef 6) (PVal (LStr ''a[0].b'')) LNull = LBool True"
  using set_then_get [OF demo_settable, where v = "LBool True" and d = LNull] by (simp add: demo_cells)

theorem set_changes_one_member_witness:
  "read_prop (snd (lo_set (LRef 6) (PVal (LStr ''a[0].b'')) (LBool True) demo_store)) (LRef 6) ''a'' = LRef 7"
  using set_changes_one_member [OF demo_settable, where b = 6 and k = "''a''" and v = "LBool True"]
  by (simp add: demo_reads read_prop_def)

theorem set_reaches_prototypes_witness:
  "read_prop (snd (lo_set (LRef 6) (PVal (LStr (path_string [''__proto__'', ''x''])))
     (LBool True) demo_store)) (LRef 7) ''x'' = LBool True"
  by (rule set_reaches_prototypes [OF demo_ok])
    (simp_all add: demo_reads key_in_def writable_def plain_key_def name_ok_def name_char_def
      path_part_def)

theorem unset_removes_witness:
  "own_member (cell_at (snd (unset (LRef 6) (PVal (LStr ''a'')) demo_store)) 6) ''a'' = None"
proof -
  have keys: "path_keys demo_store (PVal (LStr ''a'')) (LRef 6) = [LStr ''a'']"
    by (simp add: path_keys_def isKey_def reIsPlainProp_def word_char_def is_digit_def Let_def)
  have "fst (unset (LRef 6) (PVal (LStr ''a'')) demo_store)"
    by (simp add: unset_def baseUnset_def keys parent_def last_key_def delete_prop_def Let_def demo_parts)
  then show ?thesis
    by (subst unset_removes [of "LRef 6" demo_store "PVal (LStr ''a'')" 6])
      (simp_all add: nil_def keys parent_def last_key_def)
qed

theorem property_is_get_witness:
  "property demo_store (PVal (LStr ''a'')) (snd (allocate (empty_array 0) demo_store)) (LRef 6) =
     lo_get (snd (allocate (empty_array 0) demo_store)) (LRef 6) (PVal (LStr ''a'')) LUndef"
  by (rule property_is_get) simp

end
