(* ===== verification/LodashCloneLaws.thy ===== *)
theory LodashCloneLaws
  imports LodashClone LodashPathLaws
begin

text \<open>
  What deep cloning promises on graphs of arrays and objects, cycles and shared objects included: it
  returns, the clone is isomorphic to the original and made of new objects only, and no object there
  was is changed.
\<close>

section \<open>Stores with new objects\<close>

definition keeps_cells :: "ostore \<Rightarrow> ostore \<Rightarrow> bool" where
  "keeps_cells st st' \<longleftrightarrow> length (st_cells st) \<le> length (st_cells st') \<and> st_text st' = st_text st \<and>
     (\<forall>a < length (st_cells st). cell_at st' a = cell_at st a)"

lemma keeps_refl: "keeps_cells st st"
  by (simp add: keeps_cells_def)

lemma keeps_trans: "keeps_cells st st1 \<Longrightarrow> keeps_cells st1 st2 \<Longrightarrow> keeps_cells st st2"
  by (auto simp: keeps_cells_def)

lemma extends_allocate: "keeps_cells st (snd (allocate c st))"
  by (simp add: keeps_cells_def cell_at_allocate)

lemma extends_put: "length (st_cells st) \<le> a \<Longrightarrow> keeps_cells st st' \<Longrightarrow> keeps_cells st (put_cell a c st')"
  by (simp add: keeps_cells_def cell_at_put_cell)

lemma extends_changes: "keeps_cells st st' \<Longrightarrow> changes {} st st'"
  by (simp add: keeps_cells_def changes_def plain_key_def)

lemma extends_read:
  "store_ok st \<Longrightarrow> keeps_cells st st' \<Longrightarrow> a < length (st_cells st) \<Longrightarrow>
     read_prop st' (LRef a) k = read_prop st (LRef a) k"
  by (rule read_changes [OF _ extends_changes]) simp_all

lemma extends_holder:
  "store_ok st \<Longrightarrow> keeps_cells st st' \<Longrightarrow> a < length (st_cells st) \<Longrightarrow> holder st' a k = holder st a k"
  by (rule holder_changes [OF _ extends_changes]) simp_all

lemma extends_function: "keeps_cells st st' \<Longrightarrow> a < length (st_cells st) \<Longrightarrow>
    function_value st' (LRef a) = function_value st (LRef a)"
  by (simp add: keeps_cells_def function_value_def)

text \<open>A store without dangling references yields none.\<close>

lemma own_member_in_range:
  assumes "store_ok st" and "own_member (cell_at st a) k = Some (LRef b)"
  shows "b < length (st_cells st)"
proof -
  have "(k, LRef b) \<in> set (cl_own (cell_at st a))"
    using assms(2) by (auto simp: own_member_def map_of_SomeD split: oclass.splits if_splits)
  moreover have "cell_at st a \<in> set (st_cells st)"
    using calculation by (auto simp: cell_at_def no_cell_def split: if_splits)
  ultimately have "refs_ok (length (st_cells st)) (LRef b)"
    using assms(1) by (force simp: store_ok_def cell_ok_def)
  then show ?thesis by (simp add: refs_ok_def)
qed

lemma read_in_range:
  assumes "store_ok st" and "read_prop st (LRef a) k = LRef b"
  shows "b < length (st_cells st)"
  using assms own_member_in_range [OF assms(1)] store_ok_proto [OF assms(1)]
  by (fastforce simp: read_prop_def getPrototypeOf_def split: option.splits)

lemma truthy_ref [simp]: "lo_truthy (LRef a)"
  by (simp add: lo_truthy_def)

lemma isPrototype_extends:
  assumes "store_ok st" and "keeps_cells st st'" and "a < length (st_cells st)"
  shows "isPrototype st' (LRef a) = isPrototype st (LRef a)"
proof -
  let ?C = "read_prop st (LRef a) ''constructor''"
  have C: "read_prop st' (LRef a) ''constructor'' = ?C"
    by (rule extends_read [OF assms(1-3)])
  show ?thesis
  proof (cases ?C)
    case (LRef f)
    then have f: "f < length (st_cells st)" by (rule read_in_range [OF assms(1)])
    then show ?thesis
      using C LRef extends_read [OF assms(1, 2) f] extends_function [OF assms(2) f]
      by (simp add: isPrototype_def Let_def)
  qed (simp_all add: isPrototype_def C function_value_def Let_def)
qed

section \<open>The members of an object\<close>

lemma firsts_distinct: "distinct xs \<Longrightarrow> firsts xs = xs"
  by (induction xs) (auto simp: filter_id_conv)

lemma firsts_set [simp]: "set (firsts xs) = set xs"
  by (induction xs) auto

lemma firsts_append: "firsts (xs @ ys) = firsts xs @ filter (\<lambda>y. y \<notin> set xs) (firsts ys)"
  by (induction xs) (auto intro: filter_cong)

lemma baseHas_key_own:
  assumes "a \<noteq> objectProto" and "a < length (st_cells st)"
  shows "baseHas_key st (LRef a) k \<longleftrightarrow> own_member (cell_at st a) k \<noteq> None"
proof -
  have "protos_of st a = [a]" if "getPrototypeOf st (LRef a) = LNull"
    using that assms(2) by (simp add: protos_of_def proto_chain.simps getPrototypeOf_def split: option.splits)
  then show ?thesis
    using assms(1)
    by (auto simp: baseHas_key_def hasOwnProperty_def owns_def key_in_def holder_def split: if_splits)
qed

lemma keys_of_plain:
  assumes "cl_class (cell_at st a) = PlainClass" and "\<not> isPrototype st (LRef a)" and "a \<noteq> objectProto"
    and "a < length (st_cells st)" and "distinct (pkeys (cl_own (cell_at st a)))"
  shows "keys_of st a = pkeys (cl_own (cell_at st a))"
proof -
  let ?own = "pkeys (cl_own (cell_at st a))"
  obtain ps where ps: "protos_of st a = a # ps" using chain_head [OF assms(4)] by blast
  have own: "baseHas_key st (LRef a) k \<longleftrightarrow> k \<in> set ?own" for k
    using assms(1) by (simp add: baseHas_key_own [OF assms(3, 4)] own_member_def map_of_eq_None_iff)
  have "for_in st a = ?own @ filter (\<lambda>y. y \<notin> set ?own)
      (firsts (concat (map (\<lambda>p. enumerable_keys (cell_at st p)) ps)))"
    using assms(1, 5) by (simp add: for_in_def ps enumerable_keys_def firsts_append firsts_distinct)
  then have "filter (baseHas_key st (LRef a)) (for_in st a) = ?own"
    by (auto simp: own filter_id_conv filter_empty_conv)
  with assms(1, 2) show ?thesis
    by (simp add: keys_of_def enumerable_keys_def indexKeys_def Let_def)
qed

lemma index_text [simp]: "num_to_string (num_int (int i)) = nat_digits i"
  by (simp add: num_int_def Let_def)

definition member_names :: "ostore \<Rightarrow> nat \<Rightarrow> string list" where
  "member_names st a = (case cl_class (cell_at st a) of
     ArrayClass n \<Rightarrow> map nat_digits [0..<n] | _ \<Rightarrow> pkeys (cl_own (cell_at st a)))"

text \<open>What a clone must have: the elements of an array, the own members of an object.\<close>

definition content :: "ostore \<Rightarrow> nat \<Rightarrow> lval props" where
  "content st a = map (\<lambda>k. (k, read_prop st (LRef a) k)) (member_names st a)"

lemma content_plain:
  assumes "cl_class (cell_at st a) = PlainClass" and "a < length (st_cells st)"
    and "distinct (pkeys (cl_own (cell_at st a)))"
  shows "content st a = cl_own (cell_at st a)"
proof -
  have "read_prop st (LRef a) k = v" if "(k, v) \<in> set (cl_own (cell_at st a))" for k v
    by (rule read_own [OF _ assms(2)]) (use that assms(1, 3) in \<open>simp add: own_member_def\<close>)
  then have "map (\<lambda>(k, v). (k, read_prop st (LRef a) k)) (cl_own (cell_at st a)) = cl_own (cell_at st a)"
    by (intro map_idI) auto
  with assms(1) show ?thesis by (simp add: content_def member_names_def case_prod_unfold comp_def)
qed

text \<open>A key assigned to a new object with prototype \<open>p\<close> becomes an own member.\<close>

definition free_key :: "ostore \<Rightarrow> nat \<Rightarrow> string \<Rightarrow> bool" where
  "free_key st p k \<longleftrightarrow> k \<noteq> ''__proto__'' \<and>
     (case holder st p k of None \<Rightarrow> True
      | Some q \<Rightarrow> q = objectProto \<and> k \<notin> set (cl_fixed (cell_at st objectProto)))"

definition accepts :: "cell \<Rightarrow> string \<Rightarrow> bool" where
  "accepts c k \<longleftrightarrow> (case cl_class c of
     ArrayClass n \<Rightarrow> k \<noteq> ''length'' \<and> (\<exists>i < n. array_key k = Some i) | _ \<Rightarrow> True)"

lemma pset_new: "k \<notin> set (pkeys ps) \<Longrightarrow> pset k v ps = ps @ [(k, v)]"
  by (induction ps) auto

lemma same_class: "cl_class c = l \<Longrightarrow> c\<lparr>cl_class := l, cl_own := ps\<rparr> = c\<lparr>cl_own := ps\<rparr>"
  by (cases c) simp

lemma assign_new:
  assumes "store_ok st0" and "keeps_cells st0 st"
    and r: "length (st_cells st0) \<le> r" "r < length (st_cells st)"
    and p: "cl_proto (cell_at st r) = Some p" "p < length (st_cells st0)"
    and k: "free_key st0 p k" "k \<notin> set (pkeys (cl_own (cell_at st r)))" "accepts (cell_at st r) k"
  shows "assignValue r k x st =
    (Inr (), put_cell r ((cell_at st r)\<lparr>cl_own := cl_own (cell_at st r) @ [(k, x)]\<rparr>) st)"
proof -
  have zero: "objectProto < length (st_cells st0)" using assms(1) by (auto simp: store_ok_def)
  have "protos_of st p = protos_of st0 p"
    by (rule chain_changes [OF assms(1) extends_changes [OF assms(2)] p(2)])
  moreover have "r \<notin> set (protos_of st0 p)" using chain_range [of r st0 p] r(1) by auto
  ultimately have chain: "protos_of st r = r # protos_of st p"
    by (intro chain_new [OF r(2) p(1)]) simp
  have mem: "own_member (cell_at st r) k = None"
    using k(2, 3) by (auto simp: own_member_def accepts_def map_of_eq_None_iff split: oclass.splits)
  moreover have "r \<noteq> objectProto" using less_le_trans [OF zero r(1)] by simp
  ultimately have hold: "holder st r k = holder st0 p k"
    using extends_holder [OF assms(1, 2) p(2), of k]
    by (simp add: holder_def chain owns_def)
  have cell0: "cell_at st objectProto = cell_at st0 objectProto"
    using assms(2) zero by (simp add: keeps_cells_def)
  have own: "write_own r k x st =
      (Inr (), put_cell r ((cell_at st r)\<lparr>cl_own := cl_own (cell_at st r) @ [(k, x)]\<rparr>) st)"
  proof (cases "cl_class (cell_at st r)")
    case (ArrayClass n)
    with k(3) obtain i where "k \<noteq> ''length''" "i < n" "array_key k = Some i" by (auto simp: accepts_def)
    moreover from \<open>i < n\<close> have "max n (Suc i) = n" by simp
    ultimately show ?thesis
      using ArrayClass by (simp add: write_own_def pset_new [OF k(2)] same_class Let_def)
  qed (simp_all add: write_own_def pset_new [OF k(2)] Let_def)
  show ?thesis
  proof (cases "holder st0 p k")
    case None
    then show ?thesis
      by (auto simp: assignValue_def write_prop_def hold own read_none Let_def)
  next
    case (Some q)
    with k(1) have q: "q = objectProto" "k \<notin> set (cl_fixed (cell_at st0 objectProto))" "k \<noteq> ''__proto__''"
      by (simp_all add: free_key_def)
    have o: "own_member (cell_at st objectProto) k \<noteq> None"
      using holder_own [OF Some q(3)] by (simp add: q(1) cell0)
    have "read_prop st (LRef r) k = read_prop st (LRef objectProto) k"
    proof -
      have "objectProto < length (st_cells st)" using less_le_trans [OF zero r(1)] r(2) by linarith
      then obtain ps where "protos_of st objectProto = objectProto # ps" using chain_head by blast
      then have "holder st objectProto k = Some objectProto" using o by (simp add: holder_def owns_def)
      with Some o show ?thesis by (auto simp: read_prop_def hold q(1))
    qed
    moreover have "\<not> owns st r k" using mem \<open>r \<noteq> objectProto\<close> by (simp add: owns_def)
    ultimately show ?thesis
      using q(2) o by (auto simp: assignValue_def write_prop_def hold Some q(1) own cell0)
  qed
qed

section \<open>Graphs of arrays and objects\<close>

definition clone_proto :: "ostore \<Rightarrow> nat \<Rightarrow> nat" where
  "clone_proto st a =
     (case cl_class (cell_at st a) of
        ArrayClass n \<Rightarrow> arrayProto
      | _ \<Rightarrow> (let C = read_prop st (LRef a) ''constructor'' in
          if function_value st C then (case read_prop st C ''prototype'' of LRef p \<Rightarrow> p | _ \<Rightarrow> objectProto)
          else objectProto))"

text \<open>
  The arrays and objects that are data: an array has the constructor \<open>Array\<close>, an object is not a
  prototype, and no key is a member some prototype other than \<open>Object.prototype\<close> has, or cannot be written.
\<close>

definition cloneable :: "clone_env \<Rightarrow> ostore \<Rightarrow> nat \<Rightarrow> bool" where
  "cloneable env st a \<longleftrightarrow> a \<noteq> objectProto \<and> a < length (st_cells st) \<and>
     clone_proto st a < length (st_cells st) \<and> (\<forall>k \<in> set (member_names st a). free_key st (clone_proto st a) k) \<and>
     (case cl_class (cell_at st a) of
        ArrayClass n \<Rightarrow> read_prop st (LRef a) ''constructor'' = LRef (ce_array env) \<and> n \<le> MAX_ARRAY_LENGTH \<and>
          \<not> owns st a ''index''
      | PlainClass \<Rightarrow> \<not> isPrototype st (LRef a) \<and> function_value st (read_prop st (LRef a) ''toString'') \<and>
          distinct (pkeys (cl_own (cell_at st a)))
      | FunctionClass \<Rightarrow> False)"

text \<open>A set of objects that refer to each other and to functions.\<close>

definition in_graph :: "ostore \<Rightarrow> nat set \<Rightarrow> lval \<Rightarrow> bool" where
  "in_graph st A v \<longleftrightarrow> (case v of LRef a \<Rightarrow> a \<in> A \<or> function_value st v | _ \<Rightarrow> True)"

definition data_graph :: "clone_env \<Rightarrow> ostore \<Rightarrow> nat set \<Rightarrow> bool" where
  "data_graph env st A \<longleftrightarrow> finite A \<and>
     (\<forall>a \<in> A. cloneable env st a \<and> (\<forall>v \<in> snd ` set (content st a). in_graph st A v))"

text \<open>\<open>f\<close> takes the objects cloned to their clones; other objects, the functions, are shared.\<close>

definition map_val :: "(nat \<rightharpoonup> nat) \<Rightarrow> lval \<Rightarrow> lval" where
  "map_val f v = (case v of LRef a \<Rightarrow> (case f a of Some b \<Rightarrow> LRef b | None \<Rightarrow> LRef a) | _ \<Rightarrow> v)"

definition kept :: "ostore \<Rightarrow> (nat \<rightharpoonup> nat) \<Rightarrow> lval \<Rightarrow> bool" where
  "kept st f v \<longleftrightarrow> (case v of LRef a \<Rightarrow> f a \<noteq> None \<or> function_value st v | _ \<Rightarrow> True)"

definition map_content :: "(nat \<rightharpoonup> nat) \<Rightarrow> lval props \<Rightarrow> lval props" where
  "map_content f ps = map (\<lambda>(k, v). (k, map_val f v)) ps"

definition copied :: "ostore \<Rightarrow> (nat \<rightharpoonup> nat) \<Rightarrow> ostore \<Rightarrow> nat \<Rightarrow> nat \<Rightarrow> bool" where
  "copied st0 f st a b \<longleftrightarrow>
     cell_at st b = \<lparr>cl_class = cl_class (cell_at st0 a), cl_own = map_content f (content st0 a),
       cl_proto = Some (clone_proto st0 a), cl_fixed = []\<rparr> \<and>
     (\<forall>v \<in> snd ` set (content st0 a). kept st0 f v)"

text \<open>The store after cloning: all that was there is as it was, the clones are new.\<close>

definition clone_map :: "ostore \<Rightarrow> (nat \<rightharpoonup> nat) \<Rightarrow> ostore \<Rightarrow> bool" where
  "clone_map st0 f st \<longleftrightarrow> inj_on f (dom f) \<and>
     (\<forall>a b. f a = Some b \<longrightarrow> length (st_cells st0) \<le> b \<and> b < length (st_cells st) \<and> copied st0 f st a b)"

lemma kept_mono: "kept st f v \<Longrightarrow> f \<subseteq>\<^sub>m g \<Longrightarrow> kept st g v"
  by (auto simp: kept_def map_le_def domIff split: lval.splits) (metis domIff not_Some_eq)

lemma map_val_mono:
  assumes "kept st f v" and "f \<subseteq>\<^sub>m g" and "\<And>a. g a \<noteq> None \<Longrightarrow> \<not> function_value st (LRef a)"
  shows "map_val g v = map_val f v"
proof (cases v)
  case (LRef a)
  show ?thesis
  proof (cases "f a")
    case None
    with assms(1) LRef have "function_value st (LRef a)" by (simp add: kept_def)
    with assms(3) have "g a = None" by blast
    with None LRef show ?thesis by (simp add: map_val_def)
  next
    case (Some b)
    then have "g a = Some b" using assms(2) by (metis domI map_le_def)
    with Some LRef show ?thesis by (simp add: map_val_def)
  qed
qed (simp_all add: map_val_def)

lemma map_content_mono:
  assumes "\<forall>v \<in> snd ` set ps. kept st f v" and "f \<subseteq>\<^sub>m g"
    and "\<And>a. g a \<noteq> None \<Longrightarrow> \<not> function_value st (LRef a)"
  shows "map_content g ps = map_content f ps"
  using map_val_mono [OF _ assms(2, 3)] assms(1) by (force simp: map_content_def)

lemma cloneable_not_function: "cloneable env st a \<Longrightarrow> \<not> function_value st (LRef a)"
  by (auto simp: cloneable_def function_value_def split: oclass.splits)

section \<open>Starting a clone\<close>

definition fresh_cell :: "ostore \<Rightarrow> nat \<Rightarrow> cell" where
  "fresh_cell st0 a =
     \<lparr>cl_class = cl_class (cell_at st0 a), cl_own = [], cl_proto = Some (clone_proto st0 a), cl_fixed = []\<rparr>"

lemma allocate_pair: "allocate c st = (LRef (length (st_cells st)), snd (allocate c st))"
  by (simp add: allocate_def)

lemma init_array:
  assumes "store_ok st0" and "keeps_cells st0 st" and "cloneable env st0 a"
    and "cl_class (cell_at st0 a) = ArrayClass n"
  shows "initCloneArray env a st = (Inr (LRef (length (st_cells st))), snd (allocate (fresh_cell st0 a) st))"
proof -
  have a: "a < length (st_cells st0)" using assms(3) by (simp add: cloneable_def)
  have cell: "cell_at st a = cell_at st0 a" using assms(2) a by (simp add: keeps_cells_def)
  have "read_prop st (LRef a) ''constructor'' = LRef (ce_array env)"
    using extends_read [OF assms(1, 2) a] assms(3, 4) by (simp add: cloneable_def)
  then have new: "new_array env (LRef a) n st =
      (Inr (LRef (length (st_cells st))), snd (allocate (empty_array n) st))"
    by (simp add: new_array_def) (simp add: allocate_def)
  have "a < length (st_cells st)" using assms(2) a by (simp add: keeps_cells_def)
  then have "cell_at (snd (allocate (empty_array n) st)) a = cell_at st0 a"
    by (simp add: cell_at_allocate cell)
  then have "\<not> owns (snd (allocate (empty_array n) st)) a ''index''"
    using assms(3, 4) by (simp add: cloneable_def owns_def)
  moreover have "fresh_cell st0 a = empty_array n"
    using assms(4) by (simp add: fresh_cell_def empty_array_def clone_proto_def)
  ultimately show ?thesis
    by (simp add: initCloneArray_def array_length_def cell assms(4) new Let_def)
qed

lemma init_plain:
  assumes "store_ok st0" and "keeps_cells st0 st" and "cloneable env st0 a"
    and "cl_class (cell_at st0 a) = PlainClass"
  shows "initCloneObject (LRef a) st = (LRef (length (st_cells st)), snd (allocate (fresh_cell st0 a) st))"
    and "\<not> isHostObject env st (LRef a)"
proof -
  have a: "a < length (st_cells st0)" using assms(3) by (simp add: cloneable_def)
  note read = extends_read [OF assms(1, 2) a]
  have "\<not> isPrototype st (LRef a)"
    using isPrototype_extends [OF assms(1, 2) a] assms(3, 4) by (simp add: cloneable_def)
  moreover have "baseCreate (if function_value st (read_prop st (LRef a) ''constructor'')
      then read_prop st (read_prop st (LRef a) ''constructor'') ''prototype'' else LUndef) st =
      allocate (fresh_cell st0 a) st"
  proof (cases "read_prop st0 (LRef a) ''constructor''")
    case (LRef f)
    then have f: "f < length (st_cells st0)" by (rule read_in_range [OF assms(1)])
    show ?thesis
      using assms(4) extends_read [OF assms(1, 2) f] extends_function [OF assms(2) f]
      by (auto simp: baseCreate_def read LRef fresh_cell_def empty_object_def clone_proto_def Let_def
          split: lval.splits)
  qed (use assms(4) in \<open>simp_all add: baseCreate_def read fresh_cell_def empty_object_def clone_proto_def
      function_value_def Let_def\<close>)
  ultimately show "initCloneObject (LRef a) st = (LRef (length (st_cells st)), snd (allocate (fresh_cell st0 a) st))"
    by (simp add: initCloneObject_def Let_def flip: allocate_pair)
  have t: "function_value st0 (read_prop st0 (LRef a) ''toString'')"
    using assms(3, 4) by (simp add: cloneable_def)
  then obtain g where g: "read_prop st0 (LRef a) ''toString'' = LRef g"
    by (auto simp: function_value_def split: lval.splits)
  then have "g < length (st_cells st0)" by (rule read_in_range [OF assms(1)])
  with t g extends_function [OF assms(2)] show "\<not> isHostObject env st (LRef a)"
    by (simp add: isHostObject_def read)
qed

lemma clone_keys_names:
  assumes "store_ok st0" and "keeps_cells st0 st" and "cloneable env st0 a"
  shows "map (js_text st) (clone_keys st a) = member_names st0 a"
proof -
  have a: "a < length (st_cells st0)" "a < length (st_cells st)" "a \<noteq> objectProto"
    using assms(2, 3) by (auto simp: cloneable_def keeps_cells_def)
  have cell: "cell_at st a = cell_at st0 a" using assms(2) a by (simp add: keeps_cells_def)
  show ?thesis
  proof (cases "cl_class (cell_at st0 a)")
    case PlainClass
    then have "keys_of st a = pkeys (cl_own (cell_at st0 a))"
      using keys_of_plain [of st a] isPrototype_extends [OF assms(1, 2) a(1)] a assms(3)
      by (simp add: cell cloneable_def)
    with PlainClass show ?thesis by (simp add: clone_keys_def cell member_names_def comp_def)
  qed (use assms(3) in \<open>auto simp: clone_keys_def cell member_names_def comp_def cloneable_def\<close>)
qed

lemma member_names_distinct: "cloneable env st a \<Longrightarrow> distinct (member_names st a)"
  by (auto simp: cloneable_def member_names_def distinct_map inj_on_def nat_digits_inj split: oclass.splits)

lemma member_names_accepted:
  assumes "cloneable env st a" and "k \<in> set (member_names st a)"
    and "cl_class c = cl_class (cell_at st a)"
  shows "accepts c k"
proof (cases "cl_class (cell_at st a)")
  case (ArrayClass n)
  with assms obtain i where i: "k = nat_digits i" "i < n" "n \<le> MAX_ARRAY_LENGTH"
    by (auto simp: member_names_def cloneable_def)
  moreover have "nat_digits i \<noteq> ''length''"
    by (metis key_index_length key_index_nat_digits option.distinct(1))
  ultimately show ?thesis
    using ArrayClass assms(3) by (auto simp: accepts_def array_key_def key_index_nat_digits)
qed (use assms(3) in \<open>simp_all add: accepts_def\<close>)

section \<open>The loop over the members\<close>

definition content_part :: "ostore \<Rightarrow> nat \<Rightarrow> string list \<Rightarrow> lval props" where
  "content_part st a ks = map (\<lambda>k. (k, read_prop st (LRef a) k)) ks"

context js_map
begin

definition amap :: "'m \<Rightarrow> nat \<rightharpoonup> nat" where
  "amap m a = (case view m (LRef a) of Some (LRef b) \<Rightarrow> Some b | _ \<Rightarrow> None)"

text \<open>The stack maps objects of the graph to different new objects.\<close>

definition stack_inv :: "ostore \<Rightarrow> nat set \<Rightarrow> 'm \<Rightarrow> ostore \<Rightarrow> bool" where
  "stack_inv st0 A m st \<longleftrightarrow> ok m \<and> keeps_cells st0 st \<and>
     (\<forall>a v. view m (LRef a) = Some v \<longrightarrow> (\<exists>b. v = LRef b)) \<and>
     (\<forall>a b. amap m a = Some b \<longrightarrow> a \<in> A \<and> length (st_cells st0) \<le> b \<and> b < length (st_cells st)) \<and>
     inj_on (amap m) (dom (amap m))"

text \<open>What a step adds: clones that are complete, in cells that are new.\<close>

definition grown :: "ostore \<Rightarrow> 'm \<Rightarrow> ostore \<Rightarrow> 'm \<Rightarrow> ostore \<Rightarrow> bool" where
  "grown st0 m st m' st' \<longleftrightarrow> amap m \<subseteq>\<^sub>m amap m' \<and>
     (\<forall>a b. amap m' a = Some b \<and> amap m a = None \<longrightarrow>
        length (st_cells st) \<le> b \<and> copied st0 (amap m') st' a b)"

definition clone_post :: "ostore \<Rightarrow> nat set \<Rightarrow> lval \<Rightarrow> 'm \<Rightarrow> ostore \<Rightarrow> lval \<Rightarrow> 'm \<Rightarrow> ostore \<Rightarrow> bool" where
  "clone_post st0 A v m st x m' st' \<longleftrightarrow> stack_inv st0 A m' st' \<and> keeps_cells st st' \<and> grown st0 m st m' st' \<and>
     x = map_val (amap m') v \<and> kept st0 (amap m') v"

lemma grown_refl: "grown st0 m st m st'"
  by (auto simp: grown_def)

lemma copied_mono:
  assumes "copied st0 f st a b" and "f \<subseteq>\<^sub>m g" and "\<And>c. g c \<noteq> None \<Longrightarrow> \<not> function_value st0 (LRef c)"
    and "cell_at st' b = cell_at st b"
  shows "copied st0 g st' a b"
  using assms map_content_mono [of "content st0 a" st0 f g] kept_mono [of st0 f _ g]
  unfolding copied_def by auto

lemma grown_trans:
  assumes "grown st0 m st m1 st1" and "grown st0 m1 st2 m2 st3"
    and "length (st_cells st) \<le> length (st_cells st2)"
    and "\<And>c. amap m2 c \<noteq> None \<Longrightarrow> \<not> function_value st0 (LRef c)"
    and "\<And>a b. amap m1 a = Some b \<Longrightarrow> amap m a = None \<Longrightarrow> cell_at st3 b = cell_at st1 b"
  shows "grown st0 m st m2 st3"
  unfolding grown_def
proof (intro conjI allI impI)
  have sub: "amap m \<subseteq>\<^sub>m amap m1" "amap m1 \<subseteq>\<^sub>m amap m2" using assms(1, 2) by (simp_all add: grown_def)
  then show "amap m \<subseteq>\<^sub>m amap m2" by (rule map_le_trans)
  fix a b assume ab: "amap m2 a = Some b \<and> amap m a = None"
  have "length (st_cells st) \<le> b \<and> copied st0 (amap m2) st3 a b"
  proof (cases "amap m1 a")
    case None
    with ab assms(2, 3) show ?thesis unfolding grown_def by (meson le_trans)
  next
    case (Some c)
    with sub(2) ab have "c = b" by (metis domI map_le_def option.inject)
    with Some ab assms(1) have "length (st_cells st) \<le> b" "copied st0 (amap m1) st1 a b"
      unfolding grown_def by blast+
    with Some ab \<open>c = b\<close> show ?thesis using copied_mono [OF _ sub(2) assms(4)] assms(5) by blast
  qed
  then show "length (st_cells st) \<le> b" "copied st0 (amap m2) st3 a b" by blast+
qed

lemma amap_in_graph:
  assumes "data_graph env st0 A" and "stack_inv st0 A m st" and "amap m c \<noteq> None"
  shows "\<not> function_value st0 (LRef c)"
proof -
  from assms(2, 3) have "c \<in> A" by (auto simp: stack_inv_def)
  with assms(1) have "cloneable env st0 c" by (simp add: data_graph_def)
  then show ?thesis by (rule cloneable_not_function)
qed

lemma unvisited_mono:
  assumes "finite A" and "amap m \<subseteq>\<^sub>m amap m'"
  shows "card (A - dom (amap m')) \<le> card (A - dom (amap m))"
  by (rule card_mono) (use assms in \<open>auto dest!: map_le_implies_dom_le\<close>)

lemma stack_inv_put:
  "stack_inv st0 A m st \<Longrightarrow> length (st_cells st0) \<le> r \<Longrightarrow> stack_inv st0 A m (put_cell r c st)"
  by (simp add: stack_inv_def extends_put)

lemma members_loop:
  assumes ok: "store_ok st0" and data: "data_graph env st0 A" and a: "a \<in> A"
    and rec: "\<And>v p m st. stack_inv st0 A m st \<Longrightarrow> in_graph st0 A v \<Longrightarrow> card (A - dom (amap m)) < N \<Longrightarrow>
      \<exists>x m' st'. rec v (Some p) (m, st) = Some (Inr x, (m', st')) \<and> clone_post st0 A v m st x m' st'"
    and "stack_inv st0 A m st" and "amap m a = Some r" and "card (A - dom (amap m)) < N"
    and "member_names st0 a = ds @ map (js_text st0) ks"
    and "cell_at st r = (fresh_cell st0 a)\<lparr>cl_own := map_content (amap m) (content_part st0 a ds)\<rparr>"
    and "\<forall>v \<in> snd ` set (content_part st0 a ds). kept st0 (amap m) v"
  shows "\<exists>m' st'. clone_members rec (LRef r) (LRef a) ks (m, st) = Some (Inr (LRef r), (m', st')) \<and>
    stack_inv st0 A m' st' \<and> length (st_cells st) \<le> length (st_cells st') \<and>
    (\<forall>b < length (st_cells st). b \<noteq> r \<longrightarrow> cell_at st' b = cell_at st b) \<and>
    grown st0 m st m' st' \<and> copied st0 (amap m') st' a r"
  using assms(5-10)
proof (induction ks arbitrary: ds m st)
  case Nil
  then have "content_part st0 a ds = content st0 a" by (simp add: content_def content_part_def)
  with Nil have "copied st0 (amap m) st a r" by (simp add: copied_def fresh_cell_def)
  with Nil.prems(1) grown_refl [of st0 m st st] show ?case by auto
next
  case (Cons key ks)
  let ?k = "js_text st0 key"
  have clonable: "cloneable env st0 a" using data a by (simp add: data_graph_def)
  have a0: "a < length (st_cells st0)" using clonable by (simp add: cloneable_def)
  have ext: "keeps_cells st0 st" using Cons.prems(1) by (simp add: stack_inv_def)
  have r: "length (st_cells st0) \<le> r" "r < length (st_cells st)"
    using Cons.prems(1, 2) by (auto simp: stack_inv_def)
  have names: "member_names st0 a = ds @ ?k # map (js_text st0) ks" using Cons.prems(4) by simp
  let ?v = "read_prop st0 (LRef a) ?k"
  have str: "js_text st key = ?k" by (rule changes_text [OF extends_changes [OF ext]])
  have read: "read_prop st (LRef a) ?k = ?v" by (rule extends_read [OF ok ext a0])
  have "(?k, ?v) \<in> set (content st0 a)" by (simp add: content_def names)
  then have inside: "in_graph st0 A ?v" using data a by (force simp: data_graph_def)
  obtain x m1 st1 where x: "rec ?v (Some (key, LRef a)) (m, st) = Some (Inr x, (m1, st1))"
    "clone_post st0 A ?v m st x m1 st1"
    using rec [OF Cons.prems(1) inside Cons.prems(3)] by blast
  then have inv1: "stack_inv st0 A m1 st1" and ext1: "keeps_cells st st1" and grown1: "grown st0 m st m1 st1"
    and xv: "x = map_val (amap m1) ?v" "kept st0 (amap m1) ?v"
    by (simp_all add: clone_post_def)
  have sub1: "amap m \<subseteq>\<^sub>m amap m1" using grown1 by (simp add: grown_def)
  have cell1: "cell_at st1 r = (fresh_cell st0 a)\<lparr>cl_own := map_content (amap m1) (content_part st0 a ds)\<rparr>"
    using ext1 r(2) Cons.prems(5) map_content_mono [OF Cons.prems(6) sub1 amap_in_graph [OF data inv1]]
    by (simp add: keeps_cells_def)
  have r1: "r < length (st_cells st1)" using r(2) ext1 by (simp add: keeps_cells_def)
  have keys1: "pkeys (cl_own (cell_at st1 r)) = ds"
    by (simp add: cell1 map_content_def content_part_def comp_def case_prod_beta)
  define st2 where "st2 = put_cell r ((cell_at st1 r)\<lparr>cl_own := cl_own (cell_at st1 r) @ [(?k, x)]\<rparr>) st1"
  have ext01: "keeps_cells st0 st1" using inv1 by (simp add: stack_inv_def)
  have assign: "assignValue r ?k x st1 = (Inr (), st2)"
    unfolding st2_def
  proof (rule assign_new [OF ok ext01 r(1) r1])
    show "cl_proto (cell_at st1 r) = Some (clone_proto st0 a)" by (simp add: cell1 fresh_cell_def)
    show "clone_proto st0 a < length (st_cells st0)" "free_key st0 (clone_proto st0 a) ?k"
      using clonable names by (simp_all add: cloneable_def)
    show "?k \<notin> set (pkeys (cl_own (cell_at st1 r)))"
      using member_names_distinct [OF clonable] by (simp add: keys1 names)
    show "accepts (cell_at st1 r) ?k"
      by (rule member_names_accepted [OF clonable]) (simp_all add: names cell1 fresh_cell_def)
  qed
  have inv2: "stack_inv st0 A m1 st2" unfolding st2_def by (rule stack_inv_put [OF inv1 r(1)])
  have cell2: "cell_at st2 r = (fresh_cell st0 a)\<lparr>cl_own := map_content (amap m1) (content_part st0 a (ds @ [?k]))\<rparr>"
    by (simp add: st2_def cell_at_put_cell r1 cell1 xv(1) map_content_def content_part_def)
  have len2: "length (st_cells st2) = length (st_cells st1)" by (simp add: st2_def)
  have kept2: "\<forall>v \<in> snd ` set (content_part st0 a (ds @ [?k])). kept st0 (amap m1) v"
    using Cons.prems(6) kept_mono [OF _ sub1] xv(2) by (auto simp: content_part_def)
  have less: "card (A - dom (amap m1)) < N"
    using unvisited_mono [OF _ sub1, of A] data Cons.prems(3) by (simp add: data_graph_def)
  have ar: "amap m1 a = Some r" using sub1 Cons.prems(2) by (metis domI map_le_def)
  obtain m' st' where st': "clone_members rec (LRef r) (LRef a) ks (m1, st2) = Some (Inr (LRef r), (m', st'))"
    "stack_inv st0 A m' st'" "length (st_cells st2) \<le> length (st_cells st')"
    "\<forall>b < length (st_cells st2). b \<noteq> r \<longrightarrow> cell_at st' b = cell_at st2 b"
    "grown st0 m1 st2 m' st'" "copied st0 (amap m') st' a r"
    using Cons.IH [OF inv2 ar less _ cell2 kept2] names by auto
  have "js_text st1 key = ?k" by (rule changes_text [OF extends_changes [OF ext01]])
  then have "clone_members rec (LRef r) (LRef a) (key # ks) (m, st) = Some (Inr (LRef r), (m', st'))"
    using x(1) assign st'(1) by (simp add: str read assign_to_def)
  moreover have other: "cell_at st2 b = cell_at st1 b" if "b \<noteq> r" for b
    using that by (simp add: st2_def cell_at_put_cell)
  moreover have "cell_at st' b = cell_at st b" if "b < length (st_cells st)" "b \<noteq> r" for b
    using that st'(4) other ext1 len2 by (simp add: keeps_cells_def)
  moreover have "grown st0 m st m' st'"
  proof (rule grown_trans [OF grown1 st'(5)])
    show "length (st_cells st) \<le> length (st_cells st2)" using ext1 len2 by (simp add: keeps_cells_def)
    show "\<not> function_value st0 (LRef c)" if "amap m' c \<noteq> None" for c
      by (rule amap_in_graph [OF data st'(2) that])
    show "cell_at st' b = cell_at st1 b" if "amap m1 c = Some b" "amap m c = None" for c b
    proof -
      have "length (st_cells st) \<le> b" "b < length (st_cells st1)"
        using that grown1 inv1 by (auto simp: grown_def stack_inv_def)
      then show ?thesis using r(2) st'(4) other len2 by simp
    qed
  qed
  ultimately show ?case
    using st'(2, 3, 6) ext1 len2 by (auto simp: keeps_cells_def)
qed

lemma amap_put:
  assumes "ok m" and "storable (LRef r)"
  shows "amap (put m (LRef a) (LRef r)) = (amap m)(a \<mapsto> r)"
  by (auto simp: amap_def set_view [OF assms] fun_eq_iff)

lemma amap_get:
  assumes "stack_inv st0 A m st"
  shows "get m (LRef a) = (case amap m a of Some b \<Rightarrow> LRef b | None \<Rightarrow> LUndef)"
proof (cases "view m (LRef a)")
  case None
  with assms show ?thesis by (simp add: stack_inv_def get_view spec_get_def amap_def)
next
  case (Some v)
  moreover obtain b where "v = LRef b" using Some assms by (auto simp: stack_inv_def)
  ultimately show ?thesis using assms by (simp add: stack_inv_def get_view spec_get_def amap_def)
qed

text \<open>An object is cloned once a cell for it is there.\<close>

lemma clone_graph_object:
  assumes ok: "store_ok st0" and data: "data_graph env st0 A" and a: "a \<in> A"
    and rec: "\<And>v p m st. stack_inv st0 A m st \<Longrightarrow> in_graph st0 A v \<Longrightarrow> card (A - dom (amap m)) < N \<Longrightarrow>
      \<exists>x m' st'. rec v (Some p) (m, st) = Some (Inr x, (m', st')) \<and> clone_post st0 A v m st x m' st'"
    and inv: "stack_inv st0 A m st" and fuel: "card (A - dom (amap m)) < Suc N"
    and storable: "\<And>b. storable (LRef b)"
  shows "\<exists>x m' st'. clone_graph get put rec a (LRef (length (st_cells st)))
      (m, snd (allocate (fresh_cell st0 a) st)) = Some (Inr x, (m', st')) \<and>
    clone_post st0 A (LRef a) m st x m' st'"
proof -
  let ?r = "length (st_cells st)" and ?st1 = "snd (allocate (fresh_cell st0 a) st)"
  have ext1: "keeps_cells st ?st1" by (rule extends_allocate)
  have inv1: "stack_inv st0 A m ?st1"
    using inv keeps_trans [OF _ ext1] by (auto simp: stack_inv_def less_Suc_eq)
  show ?thesis
  proof (cases "amap m a")
    case (Some b)
    then have "clone_graph get put rec a (LRef ?r) (m, ?st1) = Some (Inr (LRef b), (m, ?st1))"
      by (simp add: clone_graph_def amap_get [OF inv])
    with Some inv1 ext1 grown_refl show ?thesis
      by (auto simp: clone_post_def map_val_def kept_def)
  next
    case None
    let ?m = "put m (LRef a) (LRef ?r)"
    have okm: "ok m" using inv by (simp add: stack_inv_def)
    have am: "amap ?m = (amap m)(a \<mapsto> ?r)" by (rule amap_put [OF okm storable])
    have old: "b < ?r" if "amap m c = Some b" for c b using that inv by (simp add: stack_inv_def)
    then have new: "amap m c \<noteq> Some ?r" for c by blast
    have r0: "length (st_cells st0) \<le> ?r" using inv by (simp add: stack_inv_def keeps_cells_def)
    have "inj_on (amap ?m) (dom (amap ?m))"
    proof (rule inj_onI)
      fix c d assume "c \<in> dom (amap ?m)" "d \<in> dom (amap ?m)" "amap ?m c = amap ?m d"
      moreover have "inj_on (amap m) (dom (amap m))" using inv by (simp add: stack_inv_def)
      ultimately show "c = d"
        using new [of c] new [of d] unfolding am by (auto split: if_splits dest: inj_onD)
    qed
    moreover have "\<exists>b. v = LRef b" if "view ?m (LRef c) = Some v" for c v
      using that inv by (auto simp: stack_inv_def set_view [OF okm storable] split: if_splits)
    moreover have "c \<in> A \<and> length (st_cells st0) \<le> b \<and> b < length (st_cells ?st1)" if "amap ?m c = Some b" for c b
      using that a r0 inv1 unfolding am by (auto simp: stack_inv_def split: if_splits)
    ultimately have inv2: "stack_inv st0 A ?m ?st1"
      using inv1 set_ok [OF okm storable] by (simp add: stack_inv_def)
    have "dom (amap ?m) = insert a (dom (amap m))" by (auto simp: am)
    moreover have "finite A" using data by (simp add: data_graph_def)
    ultimately have "card (A - dom (amap ?m)) < card (A - dom (amap m))"
      using a None by (intro psubset_card_mono) auto
    then have fuel2: "card (A - dom (amap ?m)) < N" using fuel by linarith
    have clonable: "cloneable env st0 a" using data a by (simp add: data_graph_def)
    have ext01: "keeps_cells st0 ?st1" using inv1 by (simp add: stack_inv_def)
    have str: "js_text ?st1 = js_text st0"
      by (rule ext) (rule changes_text [OF extends_changes [OF ext01]])
    have names: "member_names st0 a = [] @ map (js_text st0) (clone_keys ?st1 a)"
      using clone_keys_names [OF ok ext01 clonable] by (simp add: str)
    have cell: "cell_at ?st1 ?r = (fresh_cell st0 a)\<lparr>cl_own := map_content (amap ?m) (content_part st0 a [])\<rparr>"
      by (simp add: cell_at_allocate content_part_def map_content_def fresh_cell_def)
    have "\<exists>m' st'. clone_members rec (LRef ?r) (LRef a) (clone_keys ?st1 a) (?m, ?st1) =
        Some (Inr (LRef ?r), (m', st')) \<and>
      stack_inv st0 A m' st' \<and> length (st_cells ?st1) \<le> length (st_cells st') \<and>
      (\<forall>b < length (st_cells ?st1). b \<noteq> ?r \<longrightarrow> cell_at st' b = cell_at ?st1 b) \<and>
      grown st0 ?m ?st1 m' st' \<and> copied st0 (amap m') st' a ?r"
    proof (rule members_loop [where ds = "[]" and N = N, OF ok data a])
      show "\<exists>x m' st'. rec v (Some p) (m, st) = Some (Inr x, (m', st')) \<and> clone_post st0 A v m st x m' st'"
        if "stack_inv st0 A m st" "in_graph st0 A v" "card (A - dom (amap m)) < N" for v p m st
        by (rule rec [OF that])
    qed (use inv2 fuel2 names cell in \<open>simp_all add: am content_part_def\<close>)
    then obtain m' st' where loop: "clone_members rec (LRef ?r) (LRef a) (clone_keys ?st1 a) (?m, ?st1) =
        Some (Inr (LRef ?r), (m', st'))"
      "stack_inv st0 A m' st'" "length (st_cells ?st1) \<le> length (st_cells st')"
      "\<forall>b < length (st_cells ?st1). b \<noteq> ?r \<longrightarrow> cell_at st' b = cell_at ?st1 b"
      "grown st0 ?m ?st1 m' st'" "copied st0 (amap m') st' a ?r"
      by blast
    have sub: "amap m \<subseteq>\<^sub>m amap m'" "amap m' a = Some ?r"
      using loop(5) None unfolding grown_def am by (auto simp: map_le_def dom_def split: if_splits)
    have "clone_graph get put rec a (LRef ?r) (m, ?st1) = Some (Inr (LRef ?r), (m', st'))"
      using loop(1) by (simp add: clone_graph_def amap_get [OF inv] None lo_truthy_def)
    moreover have "keeps_cells st st'"
      using loop(2-4) ext1 inv by (auto simp: keeps_cells_def stack_inv_def less_Suc_eq)
    moreover have "grown st0 m st m' st'"
      unfolding grown_def
    proof (intro conjI allI impI)
      fix c b assume c: "amap m' c = Some b \<and> amap m c = None"
      show "length (st_cells st) \<le> b" "copied st0 (amap m') st' c b"
        using c loop(5, 6) sub(2) unfolding grown_def am by (cases "c = a"; force)+
    qed (rule sub(1))
    ultimately show ?thesis
      using loop(2) sub(2) by (auto simp: clone_post_def map_val_def kept_def)
  qed
qed

lemma baseClone_data:
  assumes ok: "store_ok st0" and data: "data_graph env st0 A" and storable: "\<And>b. storable (LRef b)"
  shows "stack_inv st0 A m st \<Longrightarrow> in_graph st0 A v \<Longrightarrow> card (A - dom (amap m)) < n \<Longrightarrow>
    origin \<noteq> None \<or> \<not> function_value st0 v \<Longrightarrow>
    \<exists>x m' st'. baseClone env get put True None n v origin (m, st) = Some (Inr x, (m', st')) \<and>
      clone_post st0 A v m st x m' st'"
proof (induction n arbitrary: v origin m st)
  case 0
  then show ?case by simp
next
  case (Suc n)
  have ext: "keeps_cells st0 st" using Suc.prems(1) by (simp add: stack_inv_def)
  show ?case
  proof (cases "\<exists>a. v = LRef a \<and> a \<in> A")
    case False
    have "baseClone env get put True None (Suc n) v origin (m, st) = Some (Inr v, (m, st))"
    proof (cases v)
      case (LRef f)
      with False Suc.prems(2) have fn: "function_value st0 v" by (simp add: in_graph_def)
      then have f: "f < length (st_cells st0)"
        by (auto simp: LRef function_value_def cell_at_def no_cell_def split: if_splits)
      then have "function_value st (LRef f)" using extends_function [OF ext] fn LRef by simp
      then have "\<not> isArray st (LRef f)" by (auto simp: isArray_def function_value_def split: oclass.splits)
      with fn Suc.prems(4) \<open>function_value st (LRef f)\<close> show ?thesis
        by (auto simp: LRef clone_object_def)
    qed simp_all
    moreover have "clone_post st0 A v m st v m st"
    proof -
      have "map_val (amap m) v = v"
        using False Suc.prems(1) by (auto simp: map_val_def stack_inv_def split: lval.splits option.splits)
      moreover have "kept st0 (amap m) v"
        using False Suc.prems(2) by (auto simp: kept_def in_graph_def split: lval.splits)
      ultimately show ?thesis
        using Suc.prems(1) grown_refl keeps_refl by (simp add: clone_post_def)
    qed
    ultimately show ?thesis by blast
  next
    case True
    then obtain a where a: "v = LRef a" "a \<in> A" by blast
    have clonable: "cloneable env st0 a" using data a(2) by (simp add: data_graph_def)
    then have a0: "a < length (st_cells st0)" by (simp add: cloneable_def)
    have cell: "cell_at st a = cell_at st0 a" using ext a0 by (simp add: keeps_cells_def)
    let ?rec = "baseClone env get put True None n"
    have start: "clone_object env get put True ?rec a origin (m, st) =
        clone_graph get put ?rec a (LRef (length (st_cells st))) (m, snd (allocate (fresh_cell st0 a) st))"
    proof (cases "cl_class (cell_at st0 a)")
      case PlainClass
      then show ?thesis
        using init_plain [OF ok ext clonable]
        by (simp add: clone_object_def isArray_def function_value_def cell Let_def)
    next
      case (ArrayClass k)
      then show ?thesis
        using init_array [OF ok ext clonable ArrayClass] by (simp add: clone_object_def isArray_def cell)
    next
      case FunctionClass
      with clonable show ?thesis by (simp add: cloneable_def)
    qed
    have "\<exists>x m' st'. clone_graph get put ?rec a (LRef (length (st_cells st)))
        (m, snd (allocate (fresh_cell st0 a) st)) = Some (Inr x, (m', st')) \<and> clone_post st0 A (LRef a) m st x m' st'"
      by (rule clone_graph_object [OF ok data a(2) _ Suc.prems(1) Suc.prems(3) storable])
        (rule Suc.IH; simp)
    then show ?thesis by (simp add: a(1) start)
  qed
qed

end

section \<open>Deep clones\<close>

lemma ref_storable: "LRef b \<noteq> HASH_UNDEFINED"
  by (simp add: HASH_UNDEFINED_def)

text \<open>What a deep clone of data leaves: the objects there were, and a map onto their clones.\<close>

lemma cloneDeep_data:
  assumes "number_names_ok rt" and "store_ok st" and "data_graph env st A" and "in_graph st A v"
    and "\<not> function_value st v" and "card A < n"
  obtains f st' where "cloneDeep rt env n v st = Some (Inr (map_val f v), st')" and "clone_map st f st'"
    and "kept st f v" and "keeps_cells st st'" and "dom f \<subseteq> A"
proof -
  have none: "stack.amap rt stackClear = Map.empty"
    by (simp add: stack.amap_def stackClear_laws fun_eq_iff)
  have inv: "stack.stack_inv rt st A stackClear st"
    using stack.empty_ok [OF assms(1)]
    by (simp add: stack.stack_inv_def none stackClear_laws keeps_refl)
  have "card (A - dom (stack.amap rt stackClear)) < n" using assms(6) none by simp
  then obtain x m' st' where run:
    "baseClone env (stackGet rt) (stackSet rt) True None n v None (stackClear, st) = Some (Inr x, (m', st'))"
    "stack.clone_post rt st A v stackClear st x m' st'"
    using stack.baseClone_data [OF assms(2, 3) ref_storable inv assms(4), of n None] assms(5) by blast
  let ?f = "stack.amap rt m'"
  have post: "stack.stack_inv rt st A m' st'" "keeps_cells st st'" "stack.grown rt st stackClear st m' st'"
    "x = map_val ?f v" "kept st ?f v"
    using run(2) by (simp_all add: stack.clone_post_def)
  have "clone_map st ?f st'"
    using post(1, 3) by (simp add: clone_map_def stack.stack_inv_def stack.grown_def none)
  moreover have "cloneDeep rt env n v st = Some (Inr (map_val ?f v), st')"
    using run(1) post(4) by (simp add: cloneDeep_def run_clone_def)
  moreover have "dom ?f \<subseteq> A" using post(1) by (auto simp: stack.stack_inv_def)
  ultimately show ?thesis using post that by blast
qed


text \<open>A path of keys of the data.\<close>

fun data_path :: "ostore \<Rightarrow> lval \<Rightarrow> lval list \<Rightarrow> bool" where
  "data_path st v [] = True"
| "data_path st v (k # ks) = (case v of
     LRef a \<Rightarrow> cl_class (cell_at st a) \<noteq> FunctionClass \<and> js_text st k \<in> set (member_names st a) \<and>
       data_path st (read_prop st v (js_text st k)) ks
   | _ \<Rightarrow> False)"

lemma map_of_content:
  "k \<in> set (member_names st a) \<Longrightarrow> map_of (map_content f (content st a)) k = Some (map_val f (read_prop st (LRef a) k))"
  by (simp add: map_content_def content_def comp_def map_of_map_keys map_of_map_restrict)

lemma copied_read:
  assumes "copied st0 f st a b" and "b < length (st_cells st)" and "k \<in> set (member_names st0 a)"
    and "accepts (cell_at st0 a) k"
  shows "read_prop st (LRef b) k = map_val f (read_prop st0 (LRef a) k)"
proof (rule read_own [OF _ assms(2)])
  show "own_member (cell_at st b) k = Some (map_val f (read_prop st0 (LRef a) k))"
    using assms(1, 4) map_of_content [OF assms(3), of f]
    by (auto simp: copied_def own_member_def accepts_def split: oclass.splits)
qed

lemma cloned_keys:
  assumes data: "data_graph env st A" and map: "clone_map st f st'" and ext: "keeps_cells st st'"
    and dom: "dom f \<subseteq> A"
  shows "kept st f v \<Longrightarrow> data_path st v ks \<Longrightarrow>
    get_keys st' (map_val f v) ks = map_val f (get_keys st v ks)"
proof (induction ks arbitrary: v)
  case (Cons k ks)
  let ?k = "js_text st k"
  obtain a where a: "v = LRef a" "cl_class (cell_at st a) \<noteq> FunctionClass" "?k \<in> set (member_names st a)"
    "data_path st (read_prop st v ?k) ks"
    using Cons.prems(2) by (auto split: lval.splits)
  then obtain b where b: "f a = Some b" using Cons.prems(1) by (auto simp: kept_def function_value_def)
  then have "cloneable env st a" using data dom by (auto simp: data_graph_def)
  then have accepts: "accepts (cell_at st a) ?k" by (rule member_names_accepted [OF _ a(3)]) simp
  have c: "copied st f st' a b" "b < length (st_cells st')" using map b by (simp_all add: clone_map_def)
  have str: "js_text st' k = ?k" by (rule changes_text [OF extends_changes [OF ext]])
  have "kept st f (read_prop st v ?k)"
    using c(1) a(1, 3) by (auto simp: copied_def content_def)
  with Cons.IH a(4) have "get_keys st' (map_val f (read_prop st v ?k)) ks = map_val f (get_keys st (read_prop st v ?k) ks)"
    by blast
  with copied_read [OF c a(3) accepts] show ?case
    using a(1) b str by (simp add: map_val_def [of f "LRef a"] nil_def)
qed simp

text \<open>\<open>get\<close> finds the same primitive values in the clone as in the original, along every path of
  keys of the data.\<close>
theorem clone_reads_same:
  assumes "number_names_ok rt" and "store_ok st" and "data_graph env st A" and "in_graph st A v"
    and "\<not> function_value st v" and "card A < n"
    and "cloneDeep rt env n v st = Some (Inr x, st')"
    and "data_path st v ks" and "\<forall>a. get_keys st v ks \<noteq> LRef a"
  shows "lo_get st' x (PArr ks) d = lo_get st v (PArr ks) d"
proof -
  obtain f st1 where f: "cloneDeep rt env n v st = Some (Inr (map_val f v), st1)" "clone_map st f st1"
    "kept st f v" "keeps_cells st st1" "dom f \<subseteq> A"
    by (rule cloneDeep_data [OF assms(1-6)])
  with assms(7) have st1: "x = map_val f v" "st1 = st'" by simp_all
  have "get_keys st' x ks = map_val f (get_keys st v ks)"
    using cloned_keys [OF assms(3) f(2, 4, 5) f(3) assms(8)] st1 by simp
  also have "... = get_keys st v ks" using assms(9) by (simp add: map_val_def split: lval.splits)
  finally have same: "get_keys st' x ks = get_keys st v ks" .
  have "nil x = nil v" by (auto simp: st1 map_val_def nil_def split: lval.splits option.splits)
  with same show ?thesis by (simp add: lo_get_def baseGet_def path_keys_def isKey_def Let_def)
qed



section \<open>A member with the name of the prototype\<close>

text \<open>An own member \<open>__proto__\<close>, which parsed JSON may have, is not copied: assigning it to the new object
  replaces the prototype of the clone.\<close>
theorem proto_member_not_copied:
  assumes "own_member (cell_at st objectProto) ''__proto__'' = None"
    and "holder st r ''__proto__'' = Some objectProto" and "cl_proto (cell_at st r) = Some p" and "c \<noteq> p"
    and "r \<notin> set (protos_of st c)"
  shows "assignValue r ''__proto__'' (LRef c) st =
    (Inr (), put_cell r ((cell_at st r)\<lparr>cl_proto := Some c\<rparr>) st)"
proof -
  have "read_prop st (LRef r) ''__proto__'' = LRef p"
    using read_accessor [OF assms(2, 1, 3)] by simp
  with assms show ?thesis by (simp add: assignValue_def write_prop_def set_proto_def Let_def)
qed

section \<open>The properties on a store\<close>

text \<open>
  An object with a number, and an object and an array that refer to each other; \<open>Array\<close>, \<open>Object\<close> and
  \<open>toString\<close> are the functions 6, 7 and 8.
\<close>

definition graph_store :: ostore where
  "graph_store =
     \<lparr>st_cells = [
        (proto_cell PlainClass None)\<lparr>cl_own := [(''constructor'', LRef 7), (''toString'', LRef 8)]\<rparr>,
        (proto_cell (ArrayClass 0) (Some 0))\<lparr>cl_own := [(''constructor'', LRef 6)]\<rparr>,
        proto_cell FunctionClass (Some 0), proto_cell PlainClass (Some 0), proto_cell PlainClass (Some 0),
        proto_cell PlainClass (Some 0),
        (proto_cell FunctionClass (Some 2))\<lparr>cl_own := [(''prototype'', LRef 1)]\<rparr>,
        (proto_cell FunctionClass (Some 2))\<lparr>cl_own := [(''prototype'', LRef 0)]\<rparr>,
        proto_cell FunctionClass (Some 2),
        empty_object\<lparr>cl_own := [(''x'', LNum (Fin 1))]\<rparr>,
        empty_object\<lparr>cl_own := [(''self'', LRef 10), (''list'', LRef 11)]\<rparr>,
        (empty_array 2)\<lparr>cl_own := [(''0'', LRef 10), (''1'', LStr ''end'')]\<rparr>],
      st_text = (\<lambda>a. ''[object Object]'')\<rparr>"

lemma graph_cells:
  "length (st_cells graph_store) = 12"
  "cell_at graph_store 0 =
     (proto_cell PlainClass None)\<lparr>cl_own := [(''constructor'', LRef 7), (''toString'', LRef 8)]\<rparr>"
  "cell_at graph_store (Suc 0) = (proto_cell (ArrayClass 0) (Some 0))\<lparr>cl_own := [(''constructor'', LRef 6)]\<rparr>"
  "cell_at graph_store 2 = proto_cell FunctionClass (Some 0)"
  "cell_at graph_store 6 = (proto_cell FunctionClass (Some 2))\<lparr>cl_own := [(''prototype'', LRef 1)]\<rparr>"
  "cell_at graph_store 7 = (proto_cell FunctionClass (Some 2))\<lparr>cl_own := [(''prototype'', LRef 0)]\<rparr>"
  "cell_at graph_store 8 = proto_cell FunctionClass (Some 2)"
  "cell_at graph_store 9 = empty_object\<lparr>cl_own := [(''x'', LNum (Fin 1))]\<rparr>"
  "cell_at graph_store 10 = empty_object\<lparr>cl_own := [(''self'', LRef 10), (''list'', LRef 11)]\<rparr>"
  "cell_at graph_store 11 = (empty_array 2)\<lparr>cl_own := [(''0'', LRef 10), (''1'', LStr ''end'')]\<rparr>"
  by (simp_all add: graph_store_def cell_at_def)

lemma graph_chains:
  "protos_of graph_store 0 = [0]" "protos_of graph_store (Suc 0) = [1, 0]" "protos_of graph_store 2 = [2, 0]"
  "protos_of graph_store 7 = [7, 2, 0]" "protos_of graph_store 9 = [9, 0]"
  "protos_of graph_store 10 = [10, 0]" "protos_of graph_store 11 = [11, 1, 0]"
  by (simp_all add: protos_of_def proto_chain.simps graph_cells proto_cell_def empty_object_def empty_array_def)

lemma graph_ok: "store_ok graph_store"
  by (simp add: store_ok_def cell_ok_def graph_store_def proto_cell_def empty_object_def empty_array_def refs_ok_def)

lemmas graph_reads = read_prop_def holder_def owns_def own_member_def graph_chains graph_cells proto_cell_def
  empty_object_def empty_array_def

definition graph_env :: clone_env where
  "graph_env = \<lparr>ce_array = 6, ce_call = (\<lambda>f this args. sthrow TypeErr), ce_concat = (\<lambda>st v. None)\<rparr>"

lemma small_digits: "nat_digits 0 = ''0''" "nat_digits (Suc 0) = ''1''" "nat_digits 1 = ''1''"
  by (simp_all add: nat_digits.simps digit_def)

lemma graph_cloneable: "cloneable graph_env graph_store 9" "cloneable graph_env graph_store 10"
  "cloneable graph_env graph_store 11"
  by (simp_all add: cloneable_def clone_proto_def member_names_def free_key_def graph_reads function_value_def
      isPrototype_def graph_env_def MAX_ARRAY_LENGTH_def numeral_2_eq_2 small_digits Let_def)

lemma graph_data: "data_graph graph_env graph_store {10, 11}" "data_graph graph_env graph_store {9}"
  by (simp_all add: data_graph_def graph_cloneable content_def member_names_def graph_reads in_graph_def
      numeral_2_eq_2 small_digits)

lemma graph_inside: "in_graph graph_store {10, 11} (LRef 10)" "in_graph graph_store {9} (LRef 9)"
  "\<not> function_value graph_store (LRef 10)" "\<not> function_value graph_store (LRef 9)"
  by (simp_all add: in_graph_def function_value_def graph_reads)


lemma graph_path: "get_keys graph_store (LRef 10) [LStr ''self'', LStr ''list'', LStr ''1''] = LStr ''end''"
  by (simp add: graph_reads nil_def small_digits)

theorem clone_reads_same_witness:
  "\<exists>x st'. cloneDeep (demo_engine True True) graph_env 3 (LRef 10) graph_store = Some (Inr x, st') \<and>
     lo_get st' x (PArr [LStr ''self'', LStr ''list'', LStr ''1'']) LNull = LStr ''end''"
proof -
  have fuel: "card {10, 11 :: nat} < 3" by simp
  obtain f st' where run: "cloneDeep (demo_engine True True) graph_env 3 (LRef 10) graph_store =
      Some (Inr (map_val f (LRef 10)), st')"
    by (rule cloneDeep_data [OF demo_engine_names graph_ok graph_data(1) graph_inside(1, 3) fuel])
  have "lo_get st' (map_val f (LRef 10)) (PArr [LStr ''self'', LStr ''list'', LStr ''1'']) LNull =
      lo_get graph_store (LRef 10) (PArr [LStr ''self'', LStr ''list'', LStr ''1'']) LNull"
    by (rule clone_reads_same [OF demo_engine_names graph_ok graph_data(1) graph_inside(1, 3) _ run])
      (simp_all only: graph_path, simp_all add: member_names_def graph_reads small_digits numeral_2_eq_2)
  with run graph_path show ?thesis
    by (simp add: lo_get_def baseGet_def path_keys_def isKey_def nil_def del: get_keys.simps)
qed












end
