(* ===== verification/LodashMergeLaws.thy ===== *)
theory LodashMergeLaws
  imports LodashMerge LodashCloneLaws
begin

text \<open>
  What assigning and merging promise: the members an object has after \<open>assign\<close>, \<open>defaults\<close> and \<open>merge\<close>
  of flat objects; and that \<open>merge\<close> writes to \<open>Object.prototype\<close> when the source has an own member
  \<open>__proto__\<close>, as parsed JSON may.
\<close>

section \<open>Objects that got members\<close>

text \<open>The members named in \<open>D\<close> read as \<open>g\<close> says, all others as before.\<close>

definition updated :: "ostore \<Rightarrow> nat \<Rightarrow> string set \<Rightarrow> (string \<Rightarrow> lval) \<Rightarrow> ostore \<Rightarrow> bool" where
  "updated st a D g st' \<longleftrightarrow> store_ok st' \<and> changes ({a} \<times> D) st st' \<and> same_protos st st' \<and>
     cl_class (cell_at st' a) = cl_class (cell_at st a) \<and> (\<forall>b. b \<noteq> a \<longrightarrow> cell_at st' b = cell_at st b) \<and>
     (\<forall>k \<in> D. read_prop st' (LRef a) k = g k)"

definition plain_target :: "ostore \<Rightarrow> nat \<Rightarrow> bool" where
  "plain_target st a \<longleftrightarrow> store_ok st \<and> leaf st a \<and> (\<forall>n. cl_class (cell_at st a) \<noteq> ArrayClass n)"

lemma not_array_key: "(\<forall>n. cl_class (cell_at st a) \<noteq> ArrayClass n) \<longleftrightarrow> plain_key st a ''length''"
  by (auto simp: plain_key_def split: oclass.splits)

lemma updated_start: "store_ok st \<Longrightarrow> updated st a {} g st"
  by (simp add: updated_def changes_refl same_protos_def)

lemma updated_reads:
  assumes "plain_target st a" and "updated st a D g st'"
  shows "read_prop st' (LRef a) k = (if k \<in> D then g k else read_prop st (LRef a) k)"
  using assms read_changes [of st "{a} \<times> D" st' a k] by (auto simp: updated_def plain_target_def leaf_def)

lemma updated_others:
  assumes "plain_target st a" and "updated st a D g st'" and "b \<noteq> a" and "b < length (st_cells st)"
  shows "read_prop st' (LRef b) k = read_prop st (LRef b) k"
  using assms leaf_chain [of st a b] read_changes [of st "{a} \<times> D" st' b k]
  by (auto simp: updated_def plain_target_def)

lemma updated_holder:
  assumes "plain_target st a" and "updated st a D g st'" and "k \<notin> D"
  shows "holder st' a k = holder st a k"
  using assms holder_changes [of st "{a} \<times> D" st' a k] by (auto simp: updated_def plain_target_def leaf_def)

lemma updated_same:
  "plain_target st a \<Longrightarrow> updated st a D g st' \<Longrightarrow> k \<notin> D \<Longrightarrow> read_prop st (LRef a) k = g k \<Longrightarrow>
   updated st a (insert k D) g st'"
  using updated_reads [of st a D g st' k] by (auto simp: updated_def intro: changes_mono)

lemma write_plain:
  assumes "\<And>n. cl_class (cell_at st a) \<noteq> ArrayClass n" and "a < length (st_cells st)" and "store_ok st"
    and "writable st a k" and "refs_ok (length (st_cells st)) v"
  obtains st' where "write_prop a k v st = (Inr (), st')" and "changes {(a, k)} st st'" and "same_protos st st'"
    and "store_ok st'" and "cl_class (cell_at st' a) = cl_class (cell_at st a)"
    and "own_member (cell_at st' a) k = Some v" and "\<And>b. b \<noteq> a \<Longrightarrow> cell_at st' b = cell_at st b"
proof
  let ?st' = "put_cell a ((cell_at st a)\<lparr>cl_own := pset k v (cl_own (cell_at st a))\<rparr>) st"
  show w: "write_prop a k v st = (Inr (), ?st')"
    using write_prop_writable [OF assms(4)] assms(1) by (auto simp: write_own_def Let_def split: oclass.splits)
  show "same_protos st ?st'" by (rule same_protos_put_cell) simp
  show "changes {(a, k)} st ?st'"
    using assms(1, 2) by (auto simp: changes_def cell_at_put_cell plain_key_def own_member_def split: oclass.splits)
  show "store_ok ?st'"
    using store_ok_write_own [OF assms(3, 5), of a k] assms(4) w write_prop_writable [OF assms(4), of v]
    by (simp add: writable_def)
  show "cl_class (cell_at ?st' a) = cl_class (cell_at st a)" "own_member (cell_at ?st' a) k = Some v"
    using assms(1, 2) by (auto simp: cell_at_put_cell own_member_def split: oclass.splits)
  show "cell_at ?st' b = cell_at st b" if "b \<noteq> a" for b
    using that by (simp add: cell_at_put_cell)
qed

lemma updated_writable:
  assumes t: "plain_target st a" and u: "updated st a D g st'" and k: "k \<notin> D" and w: "writable st a k"
  shows "writable st' a k"
  using w updated_holder [OF t u k] u chain_range [OF holder_in_chain] t
  by (fastforce simp: writable_def updated_def changes_def plain_key_def plain_target_def leaf_def split: option.splits)

lemma updated_target:
  assumes t: "plain_target st a" and u: "updated st a D g st'"
  shows "plain_target st' a"
  using t u leaf_same [of st st' a] by (simp add: plain_target_def updated_def)

lemma updated_write:
  assumes t: "plain_target st a" and u: "updated st a D g st'" and k: "k \<notin> D"
    and w: "writable st a k" and v: "refs_ok (length (st_cells st)) (g k)"
  obtains st'' where "write_prop a k (g k) st' = (Inr (), st'')" and "updated st a (insert k D) g st''"
proof -
  have same: "length (st_cells st') = length (st_cells st)"
    using u by (simp add: updated_def same_protos_def)
  have w': "writable st' a k" by (rule updated_writable [OF t u k w])
  obtain st'' where st'': "write_prop a k (g k) st' = (Inr (), st'')" "changes {(a, k)} st' st''"
    "same_protos st' st''" "store_ok st''" "cl_class (cell_at st'' a) = cl_class (cell_at st' a)"
    "own_member (cell_at st'' a) k = Some (g k)" "\<And>b. b \<noteq> a \<Longrightarrow> cell_at st'' b = cell_at st' b"
    by (rule write_plain [OF _ _ _ w', where v = "g k"]) (use t u v same in \<open>auto simp: plain_target_def updated_def leaf_def\<close>)
  have a: "a < length (st_cells st')" using t same by (simp add: plain_target_def leaf_def)
  have "read_prop st'' (LRef a) j = g j" if "j \<in> insert k D" for j
  proof (cases "j = k")
    case True
    with read_own [OF st''(6)] a st''(3) show ?thesis by (simp add: same_protos_def)
  next
    case False
    with that u read_changes [OF _ st''(2) a, of j] show ?thesis by (auto simp: updated_def)
  qed
  moreover have "changes ({a} \<times> insert k D) st st''"
    by (rule changes_trans [OF changes_mono st''(2)]) (use u in \<open>auto simp: updated_def\<close>)
  moreover have "same_protos st st''" using u st''(3) by (simp add: updated_def same_protos_def)
  ultimately have "updated st a (insert k D) g st''" using u st''(4, 5, 7) by (simp add: updated_def)
  with st''(1) show ?thesis by (rule that)
qed

text \<open>A step that writes one member, or leaves it when it reads like that already, and the loops over them.\<close>

lemma updated_step:
  assumes t: "plain_target st a" and u: "updated st a D g st'" and k: "k \<notin> D"
    and w: "writable st a k" "refs_ok (length (st_cells st)) (g k)"
    and step: "r = write_prop a k (g k) st' \<or> r = (Inr (), st') \<and> read_prop st (LRef a) k = g k"
  shows "\<exists>st1. r = (Inr (), st1) \<and> updated st a (insert k D) g st1"
  using step
proof
  assume s: "r = write_prop a k (g k) st'"
  obtain st1 where "write_prop a k (g k) st' = (Inr (), st1)" "updated st a (insert k D) g st1"
    by (rule updated_write [OF t u k w])
  with s show ?thesis by simp
next
  assume "r = (Inr (), st') \<and> read_prop st (LRef a) k = g k"
  then show ?thesis using updated_same [OF t u k] by auto
qed

lemma updated_loop:
  assumes t: "plain_target st a" and ks: "distinct ks" and w: "\<forall>k \<in> set ks. writable st a k"
    and v: "\<forall>k \<in> set ks. refs_ok (length (st_cells st)) (g k)"
    and step: "\<And>k D st'. k \<in> set ks \<Longrightarrow> k \<notin> D \<Longrightarrow> updated st a D g st' \<Longrightarrow>
      step k st' = write_prop a k (g k) st' \<or> step k st' = (Inr (), st') \<and> read_prop st (LRef a) k = g k"
  shows "\<exists>st'. sfor step ks st = (Inr (), st') \<and> updated st a (set ks) g st'"
proof -
  have "\<exists>st''. sfor step js st' = (Inr (), st'') \<and> updated st a (D \<union> set js) g st''"
    if "updated st a D g st'" "distinct js" "set js \<subseteq> set ks" "D \<inter> set js = {}" for js D st'
    using that
  proof (induction js arbitrary: D st')
    case (Cons k js)
    have k: "k \<in> set ks" "k \<notin> D" using Cons.prems by auto
    obtain st1 where st1: "step k st' = (Inr (), st1)" "updated st a (insert k D) g st1"
      using updated_step [OF t Cons.prems(1) k(2) _ _ step [OF k Cons.prems(1)]] w v k(1) by auto
    have "D \<union> set (k # js) = insert k D \<union> set js" by auto
    with Cons.IH [OF st1(2)] Cons.prems st1(1) show ?case by auto
  qed simp
  from this [of "{}" st ks] show ?thesis using updated_start t ks by (auto simp: plain_target_def)
qed

section \<open>Assigning\<close>

text \<open>What a call with one object as the source does.\<close>

lemma one_source:
  "snd (call_sources st [LRef b]) = [LRef b]" "pushed_sources st [LRef b] = [LRef b, LUndef]"
  by (simp_all add: call_sources_def pushed_sources_def lo_truthy_def Let_def)

lemma createAssigner_one:
  assumes "assigner a (LRef b) False st = Some (Inr (), st')"
  shows "createAssigner assigner (Some a) [LRef b] st = Some (Inr (LRef a), st')"
    and "createAssigner assigner (Some a) [LRef b, LUndef] st = Some (Inr (LRef a), st')"
  using assms by (simp_all add: createAssigner_def lo_truthy_def)

text \<open>Copying the members of an object, with a customizer that has no effects.\<close>

lemma copy_members:
  assumes t: "plain_target st a" and b: "b \<noteq> a" "b < length (st_cells st)"
    and ks: "distinct ks" "\<forall>k \<in> set ks. writable st a k"
    and cust: "\<And>k D st'. k \<in> set ks \<Longrightarrow> k \<notin> D \<Longrightarrow> updated st a D g st' \<Longrightarrow>
      (case customizer of
         Some f \<Rightarrow> f (read_prop st' (LRef a) k) (read_prop st' (LRef b) k) k (LRef a) (LRef b) st'
       | None \<Rightarrow> (Inr (read_prop st' (LRef b) k), st')) = (Inr (g k), st')"
    and g: "\<forall>k \<in> set ks. g k = read_prop st (LRef a) k \<or> g k = read_prop st (LRef b) k"
  shows "\<exists>st'. copyObjectWith (LRef b) ks (LRef a) customizer st = (Inr (LRef a), st') \<and> updated st a (set ks) g st'"
proof -
  let ?step = "\<lambda>key st. sbind (case customizer of
      Some f \<Rightarrow> f (read_prop st (LRef a) key) (read_prop st (LRef b) key) key (LRef a) (LRef b)
    | None \<Rightarrow> sret (read_prop st (LRef b) key)) (\<lambda>newValue. assign_to (LRef a) key newValue) st"
  have ok: "store_ok st" using t by (simp add: plain_target_def)
  have refs: "\<forall>k \<in> set ks. refs_ok (length (st_cells st)) (g k)"
    using g read_in_range [OF ok] by (auto simp: refs_ok_def split: lval.splits)
  have "\<exists>st'. sfor ?step ks st = (Inr (), st') \<and> updated st a (set ks) g st'"
  proof (rule updated_loop [OF t ks refs])
    fix k D st' assume k: "k \<in> set ks" "k \<notin> D" and u: "updated st a D g st'"
    have "?step k st' = assignValue a k (g k) st'"
      using cust [OF k u] by (simp add: assign_to_def sbind_def split: option.splits)
    moreover have "assignValue a k (g k) st' = write_prop a k (g k) st' \<or>
        assignValue a k (g k) st' = (Inr (), st') \<and> read_prop st' (LRef a) k = g k"
      by (auto simp: assignValue_def Let_def)
    ultimately show "?step k st' = write_prop a k (g k) st' \<or> ?step k st' = (Inr (), st') \<and> read_prop st (LRef a) k = g k"
      using updated_reads [OF t u, of k] k(2) by auto
  qed
  then show ?thesis by (auto simp: copyObjectWith_def or_new_def)
qed

text \<open>After \<open>assign\<close> the members of the source read on the object, all others read as before.\<close>

theorem assign_overrides:
  assumes "plain_target st a" and "b \<noteq> a" and "b < length (st_cells st)"
    and "distinct (keys_of st b)" and "\<forall>k \<in> set (keys_of st b). writable st a k"
  shows "\<exists>st'. assign env (Some a) [LRef b] st = Some (Inr (LRef a), st') \<and>
    (\<forall>k. read_prop st' (LRef a) k =
       (if k \<in> set (keys_of st b) then read_prop st (LRef b) k else read_prop st (LRef a) k))"
proof -
  have "\<exists>st'. copyObjectWith (LRef b) (keys_of st b) (LRef a) None st = (Inr (LRef a), st') \<and>
      updated st a (set (keys_of st b)) (read_prop st (LRef b)) st'"
    by (rule copy_members [OF assms]) (use updated_others [OF assms(1) _ assms(2,3)] in auto)
  then obtain st' where st': "copyObjectWith (LRef b) (keys_of st b) (LRef a) None st = (Inr (LRef a), st')"
    "updated st a (set (keys_of st b)) (read_prop st (LRef b)) st'" by blast
  then have "assign_own env NoCustomizer a (LRef b) False st = Some (Inr (), st')"
    by (simp add: assign_own_def own_keys_def assign_customizer_def copying_def)
  then show ?thesis
    using createAssigner_one(1) updated_reads [OF assms(1) st'(2)] by (fastforce simp: assign_def one_source)
qed

text \<open>C28: 
  \<open>defaults\<close> fills the members that are missing, or only inherited from \<open>Object.prototype\<close>, from the
  enumerable members of the source, own and inherited.
\<close>

theorem defaults_fills:
  assumes "plain_target st a" and "b \<noteq> a" and "b < length (st_cells st)"
    and "distinct (keysIn env st (LRef b))" and "\<forall>k \<in> set (keysIn env st (LRef b)). writable st a k"
  shows "\<exists>st'. defaults env (Some a) [LRef b] st = Some (Inr (LRef a), st') \<and>
    (\<forall>k. read_prop st' (LRef a) k =
       (if k \<in> set (keysIn env st (LRef b)) \<and> (read_prop st (LRef a) k = LUndef \<or>
             read_prop st (LRef a) k = read_prop st (LRef objectProto) k \<and> \<not> owns st a k)
        then read_prop st (LRef b) k else read_prop st (LRef a) k))"
proof -
  let ?g = "\<lambda>k. assignInDefaults st (read_prop st (LRef a) k) (read_prop st (LRef b) k) k (LRef a)"
  let ?ks = "keysIn env st (LRef b)"
  have a: "6 \<le> a" "a < length (st_cells st)" using assms(1) by (auto simp: plain_target_def leaf_def)
  have "\<exists>st'. copyObjectWith (LRef b) ?ks (LRef a) (assign_customizer env AssignInDefaults) st = (Inr (LRef a), st') \<and>
      updated st a (set ?ks) ?g st'"
  proof (rule copy_members [OF assms])
    fix k D st' assume k: "k \<in> set ?ks" "k \<notin> D" and u: "updated st a D ?g st'"
    have "owns st' a k = owns st a k" using u k(2) a(2) by (simp add: owns_def updated_def changes_def)
    moreover have "read_prop st' (LRef objectProto) k = read_prop st (LRef objectProto) k"
      by (rule updated_others [OF assms(1) u]) (use a in auto)
    moreover have "read_prop st' (LRef a) k = read_prop st (LRef a) k"
      using updated_reads [OF assms(1) u] k(2) by simp
    ultimately show "(case assign_customizer env AssignInDefaults of
         Some f \<Rightarrow> f (read_prop st' (LRef a) k) (read_prop st' (LRef b) k) k (LRef a) (LRef b) st'
       | None \<Rightarrow> (Inr (read_prop st' (LRef b) k), st')) = (Inr (?g k), st')"
      using updated_others [OF assms(1) u assms(2,3)]
      by (simp add: assign_customizer_def assignInDefaults_def hasOwnProperty_def)
  qed (auto simp: assignInDefaults_def)
  then obtain st' where st': "copyObjectWith (LRef b) ?ks (LRef a) (assign_customizer env AssignInDefaults) st = (Inr (LRef a), st')"
    "updated st a (set ?ks) ?g st'" by blast
  then have "assign_all env AssignInDefaults a (LRef b) False st = Some (Inr (), st')"
    by (simp add: assign_all_def copying_def)
  moreover have "read_prop st' (LRef a) k =
       (if k \<in> set ?ks \<and> (read_prop st (LRef a) k = LUndef \<or>
             read_prop st (LRef a) k = read_prop st (LRef objectProto) k \<and> \<not> owns st a k)
        then read_prop st (LRef b) k else read_prop st (LRef a) k)" for k
    using updated_reads [OF assms(1) st'(2), of k] by (auto simp: assignInDefaults_def hasOwnProperty_def)
  ultimately show ?thesis using createAssigner_one(2) by (auto simp: defaults_def one_source)
qed

section \<open>Merging flat objects\<close>

lemma merged_loop:
  assumes t: "plain_target st a" and ks: "distinct ks" and w: "\<forall>k \<in> set ks. writable st a k"
    and v: "\<forall>k \<in> set ks. refs_ok (length (st_cells st)) (g k)"
    and step: "\<And>k D st'. k \<in> set ks \<Longrightarrow> k \<notin> D \<Longrightarrow> updated st a D g st' \<Longrightarrow>
      \<exists>r. f (LStr k) (m, st') = Some (fst r, (m, snd r)) \<and>
        (r = write_prop a k (g k) st' \<or> r = (Inr (), st') \<and> read_prop st (LRef a) k = g k)"
  shows "\<exists>st'. each_key f (map LStr ks) (m, st) = Some (Inr (), (m, st')) \<and> updated st a (set ks) g st'"
proof -
  have "\<exists>st''. each_key f (map LStr js) (m, st') = Some (Inr (), (m, st'')) \<and> updated st a (D \<union> set js) g st''"
    if "updated st a D g st'" "distinct js" "set js \<subseteq> set ks" "D \<inter> set js = {}" for js D st'
    using that
  proof (induction js arbitrary: D st')
    case (Cons k js)
    have k: "k \<in> set ks" "k \<notin> D" using Cons.prems by auto
    obtain r where r: "f (LStr k) (m, st') = Some (fst r, (m, snd r))"
      "r = write_prop a k (g k) st' \<or> r = (Inr (), st') \<and> read_prop st (LRef a) k = g k"
      using step [OF k Cons.prems(1)] by blast
    obtain st1 where st1: "r = (Inr (), st1)" "updated st a (insert k D) g st1"
      using updated_step [OF t Cons.prems(1) k(2) _ _ r(2)] w v k(1) by auto
    have "D \<union> set (k # js) = insert k D \<union> set js" by auto
    with Cons.IH [OF st1(2)] Cons.prems st1(1) r(1) show ?case by auto
  qed simp
  from this [of "{}" st ks] show ?thesis using updated_start t ks by (auto simp: plain_target_def)
qed

text \<open>Merging the members of a source whose values are no objects, with any stack.\<close>

lemma flat_loop:
  assumes t: "plain_target st a" and b: "b \<noteq> a" "b < length (st_cells st)"
    and ks: "distinct ks" "\<forall>k \<in> set ks. writable st a k" "\<forall>k \<in> set ks. \<not> object_value (read_prop st (LRef b) k)"
    and g: "\<And>k. g k = (if read_prop st (LRef b) k \<noteq> LUndef then read_prop st (LRef b) k else read_prop st (LRef a) k)"
  shows "\<exists>st'. each_key (merge_member env get put mergeFunc a (LRef b) False NoCustomizer) (map LStr ks) (m, st) =
      Some (Inr (), (m, st')) \<and> updated st a (set ks) g st'"
proof (rule merged_loop [OF t ks(1,2)])
  have ok: "store_ok st" using t by (simp add: plain_target_def)
  show "\<forall>k \<in> set ks. refs_ok (length (st_cells st)) (g k)"
    using read_in_range [OF ok] by (auto simp: g refs_ok_def split: lval.splits)
  fix k D st' assume k: "k \<in> set ks" "k \<notin> D" and u: "updated st a D g st'"
  let ?f = "merge_member env get put mergeFunc a (LRef b) False NoCustomizer"
  let ?r = "assignMergeValue a (LStr k) (read_prop st (LRef b) k) st'"
  have reads: "read_prop st' (LRef b) k = read_prop st (LRef b) k" "read_prop st' (LRef a) k = read_prop st (LRef a) k"
    using updated_others [OF t u b] updated_reads [OF t u, of k] k(2) by simp_all
  then have "?f (LStr k) (m, st') = Some (fst ?r, (m, snd ?r))"
    using ks(3) k(1) by (simp add: merge_member_def customize_def lift_store_def case_prod_unfold Let_def)
  moreover have "?r = write_prop a k (g k) st' \<or> ?r = (Inr (), st') \<and> read_prop st (LRef a) k = g k"
    using reads by (auto simp: assignMergeValue_def g Let_def)
  ultimately show "\<exists>r. ?f (LStr k) (m, st') = Some (fst r, (m, snd r)) \<and>
      (r = write_prop a k (g k) st' \<or> r = (Inr (), st') \<and> read_prop st (LRef a) k = g k)" by blast
qed

lemma object_keys:
  "\<forall>n. cl_class (cell_at st b) \<noteq> ArrayClass n \<Longrightarrow> merge_keys env st (LRef b) = map LStr (keysIn env st (LRef b))"
  by (auto simp: merge_keys_def split: oclass.splits)

text \<open>After \<open>merge\<close> of a flat object its members that are not \<open>undefined\<close> read on the object.\<close>

theorem merge_flat:
  assumes "plain_target st a" and "b \<noteq> a" and "b < length (st_cells st)"
    and "\<forall>n. cl_class (cell_at st b) \<noteq> ArrayClass n"
    and "distinct (keysIn env st (LRef b))" and "\<forall>k \<in> set (keysIn env st (LRef b)). writable st a k"
    and "\<forall>k \<in> set (keysIn env st (LRef b)). \<not> object_value (read_prop st (LRef b) k)"
  shows "\<exists>st'. merge rt env (Suc n) (Some a) [LRef b] st = Some (Inr (LRef a), st') \<and>
    (\<forall>k. read_prop st' (LRef a) k =
       (if k \<in> set (keysIn env st (LRef b)) \<and> read_prop st (LRef b) k \<noteq> LUndef
        then read_prop st (LRef b) k else read_prop st (LRef a) k))"
proof -
  let ?g = "\<lambda>k. if read_prop st (LRef b) k \<noteq> LUndef then read_prop st (LRef b) k else read_prop st (LRef a) k"
  let ?f = "merge_member env (stackGet rt) (stackSet rt) (baseMerge env (stackGet rt) (stackSet rt) n) a (LRef b) False NoCustomizer"
  have "\<exists>st'. each_key ?f (map LStr (keysIn env st (LRef b))) (stackClear, st) = Some (Inr (), (stackClear, st')) \<and>
      updated st a (set (keysIn env st (LRef b))) ?g st'"
    by (rule flat_loop [OF assms(1-3) assms(5-7)]) simp
  then obtain st' where st': "each_key ?f (map LStr (keysIn env st (LRef b))) (stackClear, st) = Some (Inr (), (stackClear, st'))"
    "updated st a (set (keysIn env st (LRef b))) ?g st'" by blast
  then have "merge_source rt env (Suc n) NoCustomizer a (LRef b) False st = Some (Inr (), st')"
    using assms(2) object_keys [OF assms(4)] by (simp add: merge_source_def)
  then show ?thesis
    using createAssigner_one(1) updated_reads [OF assms(1) st'(2)] by (fastforce simp: merge_def one_source)
qed

section \<open>Merging a member named \<open>__proto__\<close>\<close>

lemma stack_empty: "stackGet rt stackClear v = LUndef"
  by (simp add: stackGet_def stackClear_def assocGet_map_of spec_get_def)

text \<open>A member written to \<open>Object.prototype\<close> is read on every object that inherits from it and has none.\<close>

lemma inherited_read:
  assumes "changes {(objectProto, k)} st st'" and "same_protos st st'"
    and "own_member (cell_at st' objectProto) k = Some v"
    and "objectProto \<in> set (protos_of st x)" and "holder st x k = None"
  shows "read_prop st' (LRef x) k = v"
proof -
  have "\<not> owns st' p k" if "p \<in> set (protos_of st x)" "p \<noteq> objectProto" for p
  proof -
    have "\<not> owns st p k" using assms(5) that(1) by (auto simp: holder_def find_None_iff)
    with assms(1) that chain_range [OF that(1)] show ?thesis by (auto simp: owns_def changes_def)
  qed
  moreover have "owns st' objectProto k" using assms(3) by (simp add: owns_def)
  ultimately have "holder st' x k = Some objectProto"
    unfolding holder_def chain_same [OF assms(2)] by (rule find_only [OF assms(4)])
  with assms(3) show ?thesis by (simp add: read_prop_def)
qed

text \<open>
  \<open>merge\<close> of an object with an own member \<open>__proto__\<close>, as \<open>JSON.parse\<close> makes it, writes the members
  below it to \<open>Object.prototype\<close>: every object that inherits from it gets them.
\<close>

theorem merge_reaches_prototypes:
  assumes ok: "store_ok st" and a: "holder st a ''__proto__'' = Some objectProto" "cl_proto (cell_at st a) = Some objectProto"
    and proto: "own_member (cell_at st objectProto) ''__proto__'' = None"
      "\<forall>n. cl_class (cell_at st objectProto) \<noteq> ArrayClass n"
    and b: "a \<noteq> b" "b < length (st_cells st)" "cl_class (cell_at st b) = PlainClass"
      "keysIn env st (LRef b) = [''__proto__'']" "own_member (cell_at st b) ''__proto__'' = Some (LRef c)"
    and c: "c \<noteq> objectProto" "cl_class (cell_at st c) = PlainClass" "isPlainObject env st (LRef c)"
      "keysIn env st (LRef c) = [k]" "read_prop st (LRef c) k = v" "\<not> object_value v" "v \<noteq> LUndef"
    and k: "writable st objectProto k" "holder st objectProto k = None"
    and x: "objectProto \<in> set (protos_of st x)" "holder st x k = None"
  shows "\<exists>st'. merge rt env (Suc (Suc n)) (Some a) [LRef b] st = Some (Inr (LRef a), st') \<and>
    read_prop st' (LRef x) k = v"
proof -
  have zero: "objectProto < length (st_cells st)" using x(1) chain_range by blast
  have refs: "refs_ok (length (st_cells st)) v" using c(6) by (simp add: refs_ok_def object_value_def split: lval.splits)
  obtain st' where st': "write_prop objectProto k v st = (Inr (), st')" "changes {(objectProto, k)} st st'"
    "same_protos st st'" "own_member (cell_at st' objectProto) k = Some v"
    by (rule write_plain [OF _ zero ok k(1) refs]) (use proto(2) in auto)
  have keys: "merge_keys env st (LRef b) = [LStr ''__proto__'']" "merge_keys env st (LRef c) = [LStr k]"
    using b(3,4) c(2,4) by (simp_all add: merge_keys_def)
  have reads: "read_prop st (LRef b) ''__proto__'' = LRef c" "read_prop st (LRef a) ''__proto__'' = LRef objectProto"
    "read_prop st (LRef objectProto) k = LUndef"
    using read_own [OF b(5,2)] read_accessor [OF a(1) proto(1) a(2)] read_none [OF k(2)] by simp_all
  have kp: "k \<noteq> ''__proto__''" using k(1) by (simp add: writable_def)
  have same: "read_prop st' (LRef a) ''__proto__'' = LRef objectProto"
  proof -
    have range: "a < length (st_cells st)"
      using a(1) holder_in_chain [of st a "''__proto__''"] by (force simp: protos_of_def proto_chain.simps [of st "[]" a] split: if_splits)
    show ?thesis using read_changes [OF ok st'(2) range, of "''__proto__''"] kp reads(2) by simp
  qed
  have inner: "baseMerge env get put (Suc n) objectProto (LRef c) False NoCustomizer (m, st) = Some (Inr (), (m, st'))"
    for get :: "'s \<Rightarrow> lval \<Rightarrow> lval" and put m
    using c keys(2) reads(3) st'(1)
    by (simp add: merge_member_def customize_def lift_store_def assignMergeValue_def Let_def)
  have target: "merge_target env False (LRef objectProto) (LRef c) st = (Inr (True, LRef objectProto), st)"
    using c(2,3) by (simp add: merge_target_def isArray_def object_value_def)
  have "merge_source rt env (Suc (Suc n)) NoCustomizer a (LRef b) False st = Some (Inr (), st')"
    using b(1) keys(1) reads(1,2) same
    by (simp add: merge_source_def merge_member_def baseMergeDeep_def object_value_def stack_empty lo_truthy_def
        customize_def target inner lift_store_def assignMergeValue_def Let_def del: baseMerge.simps)
       (subst baseMerge.simps, simp add: merge_source_def merge_member_def baseMergeDeep_def object_value_def stack_empty lo_truthy_def
        customize_def target inner lift_store_def assignMergeValue_def Let_def del: baseMerge.simps)
  then show ?thesis
    using createAssigner_one(1) inherited_read [OF st'(2-4) x] by (simp add: merge_def one_source)
qed

section \<open>What a merged object shares with the source\<close>

text \<open>A shallow clone is a new object whose members are those of the original, references included.\<close>

lemma shallow_plain:
  assumes ok: "store_ok st" and c: "cloneable (me_clone env) st c" "cl_class (cell_at st c) = PlainClass"
    "clone_proto st c = objectProto"
  obtains st' where "shallow env (LRef c) st = (Inr (LRef (length (st_cells st))), st')"
    and "changes {} st st'" and "store_ok st'" and "length (st_cells st) < length (st_cells st')"
    and "\<And>a. leaf st a \<Longrightarrow> leaf st' a"
    and "\<And>j. j \<in> set (pkeys (cl_own (cell_at st c))) \<Longrightarrow>
      read_prop st' (LRef (length (st_cells st))) j = read_prop st (LRef c) j"
proof -
  let ?n = "length (st_cells st)" and ?st = "snd (allocate empty_object st)" and ?own = "pkeys (cl_own (cell_at st c))"
  have range: "c < ?n" and c0: "c \<noteq> objectProto" using c(1) by (auto simp: cloneable_def)
  have fresh: "fresh_cell st c = empty_object" using c(2,3) by (simp add: fresh_cell_def empty_object_def)
  note init = init_plain [OF ok keeps_refl c(1,2), unfolded fresh]
  have ext: "keeps_cells st ?st" by (rule extends_allocate)
  have keys: "keys_of ?st c = ?own"
    using keys_of_plain [of ?st c] isPrototype_extends [OF ok ext range] c range c0
    by (simp add: cell_at_allocate cloneable_def)
  have ok': "store_ok ?st" by (rule store_ok_allocate [OF ok]) simp
  have zero: "objectProto < ?n" using ok unfolding store_ok_def by linarith
  then have n0: "?n \<noteq> objectProto" by simp
  have chain: "protos_of ?st ?n = ?n # protos_of st objectProto"
  proof -
    have "protos_of ?st ?n = ?n # protos_of ?st objectProto"
      by (rule chain_new) (use leaf_chain [OF leaf_new [OF ok]] n0 in \<open>simp_all add: cell_at_allocate empty_object_def\<close>)
    moreover have "protos_of ?st objectProto = protos_of st objectProto"
      by (rule chain_allocate [OF ok zero])
    ultimately show ?thesis by simp
  qed
  have w: "writable ?st ?n j" if "j \<in> set ?own" for j
  proof -
    have free: "free_key st objectProto j"
      using c that by (auto simp: cloneable_def member_names_def)
    have "\<not> owns ?st ?n j" using n0 by (simp add: owns_def cell_at_allocate own_member_def empty_object_def)
    moreover have "holder ?st objectProto j = holder st objectProto j"
      by (rule extends_holder [OF ok ext zero])
    moreover have "protos_of ?st objectProto = protos_of st objectProto"
      by (rule chain_allocate [OF ok zero])
    ultimately have "holder ?st ?n j = holder st objectProto j" by (simp add: holder_def chain)
    with free n0 show ?thesis
      by (auto simp: writable_def free_key_def plain_key_def cell_at_allocate empty_object_def split: option.splits)
  qed
  have t: "plain_target ?st ?n"
    using ok' leaf_new [OF ok] by (simp add: plain_target_def cell_at_allocate empty_object_def)
  have distinct: "distinct ?own" using c by (simp add: cloneable_def)
  have "\<exists>st'. copyObjectWith (LRef c) ?own (LRef ?n) None ?st = (Inr (LRef ?n), st') \<and>
      updated ?st ?n (set ?own) (read_prop ?st (LRef c)) st'"
    by (rule copy_members [OF t _ _ distinct]) (use w range updated_others [OF t] in auto)
  then obtain st' where st': "copyObjectWith (LRef c) ?own (LRef ?n) None ?st = (Inr (LRef ?n), st')"
    "updated ?st ?n (set ?own) (read_prop ?st (LRef c)) st'" by blast
  have "shallow env (LRef c) st = (Inr (LRef ?n), st')"
    using c(2) init st'(1) keys
    by (simp add: shallow_def clone_object_def isArray_def function_value_def with_stack_def baseAssign_def
        copyObject_def Let_def)
  moreover have "changes {} st st'"
    unfolding changes_def
    using changes_allocate [of st empty_object] st'(2) by (auto simp: updated_def changes_def)
  moreover have "store_ok st'" "?n < length (st_cells st')" using st'(2) by (auto simp: updated_def same_protos_def)
  moreover have "leaf st' a" if "leaf st a" for a
    using leaf_same [of ?st st' a] leaf_allocate [OF ok _ that] st'(2) by (auto simp: updated_def)
  moreover have "read_prop st' (LRef ?n) j = read_prop st (LRef c) j" if "j \<in> set ?own" for j
    using updated_reads [OF t st'(2), of j] that extends_read [OF ok ext range] by simp
  ultimately show ?thesis by (rule that)
qed

lemma each_key_append:
  "each_key f (xs @ ys) s = (case each_key f xs s of Some (Inr u, s1) \<Rightarrow> each_key f ys s1 | r \<Rightarrow> r)"
  by (induction f xs s rule: each_key.induct) (auto split: option.splits sum.splits prod.splits)

text \<open>Writing members of an object that is no function leaves the other objects as plain as they are.\<close>

lemma updated_functions:
  assumes "updated st a D g st'"
  shows "function_value st' v = function_value st v"
proof (cases v)
  case (LRef b)
  with assms show ?thesis by (cases "b = a") (simp_all add: function_value_def updated_def)
qed (simp_all add: function_value_def)

lemma read_function:
  assumes t: "plain_target st a" "cl_class (cell_at st a) = PlainClass"
    and b: "b \<noteq> a" "b < length (st_cells st)" and f: "function_value st (read_prop st (LRef b) k)"
    and u: "updated st a D g st'"
  shows "read_prop st' (read_prop st (LRef b) k) j = read_prop st (read_prop st (LRef b) k) j"
proof -
  from f obtain f' where f': "read_prop st (LRef b) k = LRef f'" "cl_class (cell_at st f') = FunctionClass"
    by (auto simp: function_value_def split: lval.splits)
  with t have "f' \<noteq> a" by auto
  moreover have "f' < length (st_cells st)"
    using read_in_range [OF _ f'(1)] t(1) by (simp add: plain_target_def)
  ultimately show ?thesis using updated_others [OF t(1) u] f'(1) by simp
qed

lemma proto_not_leaf:
  assumes ok: "store_ok st" and a: "leaf st a" and c: "c \<noteq> a" "c < length (st_cells st)" and p: "cl_proto (cell_at st c) = Some p"
  shows "p \<noteq> a" and "p < length (st_cells st)"
proof -
  show range: "p < length (st_cells st)" by (rule store_ok_proto [OF ok p])
  show "p \<noteq> a"
  proof
    assume pa: "p = a"
    then have "a \<in> set (protos_of st c)"
      using p c range by (simp add: protos_of_def proto_chain.simps [of st "[]" c] proto_chain.simps [of st "[c]" a])
    with leaf_chain [OF a c(1)] show False by simp
  qed
qed

lemma updated_plain:
  assumes t: "plain_target st a" "cl_class (cell_at st a) = PlainClass" and u: "updated st a D g st'"
    and c: "c \<noteq> a" "cloneable env st c" "cl_class (cell_at st c) = PlainClass" "clone_proto st c = objectProto"
  shows "cloneable env st' c" and "clone_proto st' c = objectProto"
proof -
  have a6: "a \<noteq> objectProto" using t by (auto simp: plain_target_def leaf_def)
  have ok: "store_ok st" using t by (simp add: plain_target_def)
  have range: "c < length (st_cells st)" using c(2) by (simp add: cloneable_def)
  have cells: "cell_at st' b = cell_at st b" if "b \<noteq> a" for b using u that by (simp add: updated_def)
  have len: "length (st_cells st') = length (st_cells st)" using u by (simp add: updated_def same_protos_def)
  note same = updated_others [OF t(1) u c(1) range] cells [OF c(1)] updated_functions [OF u]
    read_function [OF t c(1) range _ u]
  show "clone_proto st' c = objectProto" using c(3,4) same by (auto simp: clone_proto_def Let_def)
  moreover have "free_key st' objectProto k = free_key st objectProto k" for k
  proof -
    have zero: "objectProto < length (st_cells st)" using ok by (auto simp: store_ok_def)
    have "changes ({a} \<times> D) st st'" using u by (simp add: updated_def)
    then have "holder st' objectProto k = holder st objectProto k"
      by (rule holder_changes [OF ok _ zero]) (use leaf_chain [of st a objectProto] t a6 in \<open>auto simp: plain_target_def\<close>)
    with cells a6 show ?thesis by (simp add: free_key_def split: option.splits)
  qed
  ultimately show "cloneable env st' c"
    using c same len by (auto simp: cloneable_def member_names_def isPrototype_def Let_def)
qed

lemma updated_isPlain:
  assumes t: "plain_target st a" "cl_class (cell_at st a) = PlainClass" and u: "updated st a D g st'"
    and c: "c \<noteq> a" "cloneable (me_clone env) st c" "cl_class (cell_at st c) = PlainClass"
    and plain: "isPlainObject env st (LRef c)"
  shows "isPlainObject env st' (LRef c)"
proof -
  have ok: "store_ok st" and leaf: "leaf st a" using t by (simp_all add: plain_target_def)
  have a6: "objectProto \<noteq> a" using leaf by (auto simp: leaf_def)
  have zero: "objectProto < length (st_cells st)" using ok by (auto simp: store_ok_def)
  have range: "c < length (st_cells st)" using c(2) by (simp add: cloneable_def)
  have cells: "cell_at st' c = cell_at st c" using u c(1) by (simp add: updated_def)
  have host: "\<not> isHostObject (me_clone env) st' (LRef c)"
    using c(2,3) updated_others [OF t(1) u c(1) range] updated_functions [OF u] by (simp add: isHostObject_def cloneable_def)
  have same_proto: "getPrototypeOf st' (LRef c) = getPrototypeOf st (LRef c)" by (simp add: getPrototypeOf_def cells)
  have chains: "protos_of st' f = protos_of st f" for f using chain_same u by (simp add: updated_def)
  have ctor: "case read_prop st' (LRef p) ''constructor'' of
      LRef f \<Rightarrow> function_value st' (LRef f) \<and>
        (case read_prop st' (LRef f) ''prototype'' of LRef q \<Rightarrow> q \<in> set (tl (protos_of st' f)) | _ \<Rightarrow> False) \<and>
        me_source env f = me_source env (me_object env)
    | _ \<Rightarrow> False"
    if "p \<noteq> a" "p < length (st_cells st)" "case read_prop st (LRef p) ''constructor'' of
      LRef f \<Rightarrow> function_value st (LRef f) \<and>
        (case read_prop st (LRef f) ''prototype'' of LRef q \<Rightarrow> q \<in> set (tl (protos_of st f)) | _ \<Rightarrow> False) \<and>
        me_source env f = me_source env (me_object env)
    | _ \<Rightarrow> False" for p
    using that(3) read_function [OF t that(1,2) _ u, of "''constructor''"]
    by (auto simp: updated_others [OF t(1) u that(1,2)] updated_functions [OF u] chains split: lval.splits)
  show ?thesis
    using plain c(3) host ctor [OF a6 zero] ctor proto_not_leaf [OF ok leaf c(1) range]
    by (auto simp: isPlainObject_def cells same_proto updated_functions [OF u] updated_others [OF t(1) u c(1) range]
        getPrototypeOf_def split: if_splits option.splits)
qed

text \<open>The step that merges the nested object.\<close>

lemma nested_member:
  assumes t: "plain_target st a" and b: "b < length (st_cells st)" "b \<noteq> a" "read_prop st (LRef b) k = LRef c"
    and c: "cloneable (me_clone env) st c" "cl_class (cell_at st c) = PlainClass" "clone_proto st c = objectProto"
      "isPlainObject env st (LRef c)"
    and k: "writable st a k" "\<not> object_value (read_prop st (LRef a) k)"
    and m: "\<not> lo_truthy (get m (LRef c))"
  obtains x m' st1 where "merge_member env get put mergeFunc a (LRef b) False NoCustomizer (LStr k) (m, st) =
      Some (Inr (), (m', st1))"
    and "plain_target st1 a" and "read_prop st1 (LRef a) k = LRef x" and "x \<noteq> c" and "x \<noteq> a" and "x < length (st_cells st1)"
    and "\<And>j. j \<in> set (pkeys (cl_own (cell_at st c))) \<Longrightarrow> read_prop st1 (LRef x) j = read_prop st (LRef c) j"
    and "\<And>k'. read_prop st1 (LRef b) k' = read_prop st (LRef b) k'" and "b < length (st_cells st1)"
    and "\<And>k'. k' \<noteq> k \<Longrightarrow> writable st a k' \<Longrightarrow> writable st1 a k'"
proof -
  let ?n = "length (st_cells st)"
  have ok: "store_ok st" and leaf: "leaf st a" and a: "a < ?n" using t by (auto simp: plain_target_def leaf_def)
  obtain st1 where s: "shallow env (LRef c) st = (Inr (LRef ?n), st1)" "changes {} st st1" "store_ok st1"
    "?n < length (st_cells st1)" "\<And>a. leaf st a \<Longrightarrow> leaf st1 a"
    "\<And>j. j \<in> set (pkeys (cl_own (cell_at st c))) \<Longrightarrow> read_prop st1 (LRef ?n) j = read_prop st (LRef c) j"
    by (rule shallow_plain [OF ok c(1-3)]) (use leaf in auto)
  have target: "plain_target st1 a"
    using s(3) s(5) [OF leaf] t s(2) a not_array_key [of st a] not_array_key [of st1 a]
    by (simp add: plain_target_def changes_def)
  have same: "read_prop st1 (LRef e) k' = read_prop st (LRef e) k'" if "e < ?n" for e k'
    by (rule read_changes [OF ok s(2) that]) simp
  have written: "assignMergeValue a (LStr k) (LRef ?n) st1 = write_prop a k (LRef ?n) st1"
    using k(2) same [OF a] by (auto simp: assignMergeValue_def object_value_def Let_def)
  have kept: "writable st1 a k'" if "writable st a k'" for k' by (rule writable_kept [OF ok s(2) a that])
  have refs: "refs_ok (length (st_cells st1)) (LRef ?n)" using s(4) by (simp add: refs_ok_def)
  obtain st2 where st2: "write_prop a k (LRef ?n) st1 = (Inr (), st2)" "updated st1 a {k} (\<lambda>x. LRef ?n) st2"
    by (rule updated_write [OF target updated_start [OF s(3)] _ kept [OF k(1)],
        where g = "\<lambda>x. LRef ?n"]) (use refs in simp_all)
  show ?thesis
  proof (rule that [of "put m (LRef c) (LRef ?n)" st2 ?n])
    show "merge_member env get put mergeFunc a (LRef b) False NoCustomizer (LStr k) (m, st) =
        Some (Inr (), (put m (LRef c) (LRef ?n), st2))"
      using b k(2) c(2,4) m st2(1)
      by (simp add: merge_member_def baseMergeDeep_def object_value_def customize_def merge_target_def isArray_def
          s(1) sbind_def written lift_store_def Let_def)
    show "plain_target st2 a" by (rule updated_target [OF target st2(2)])
    show "read_prop st2 (LRef a) k = LRef ?n" using updated_reads [OF target st2(2), of k] by simp
    show "?n \<noteq> c" "?n \<noteq> a" using c(1) a by (simp_all add: cloneable_def)
    show "?n < length (st_cells st2)" "b < length (st_cells st2)"
      using s(4) st2(2) b(1) by (simp_all add: updated_def same_protos_def)
    show "read_prop st2 (LRef ?n) j = read_prop st (LRef c) j" if "j \<in> set (pkeys (cl_own (cell_at st c)))" for j
      using updated_others [OF target st2(2) _ s(4)] s(6) [OF that] a by simp
    show "read_prop st2 (LRef b) k' = read_prop st (LRef b) k'" for k'
      using updated_others [OF target st2(2) b(2)] same [OF b(1)] b(1) s(4) by simp
    show "writable st2 a k'" if "k' \<noteq> k" "writable st a k'" for k'
      by (rule updated_writable [OF target st2(2) _ kept [OF that(2)]]) (use that in simp)
  qed
qed

text \<open>C38: 
  A nested object of the first source that is new to the target is cloned, but not deeply: what it
  refers to is shared by the target and the source. The other enumerable members of the source have
  values that are no objects, the nested object is a plain one the deep clone accepts, directly below
  \<open>Object.prototype\<close>, and the target is a plain object nothing inherits from whose members may be written.
\<close>

theorem merge_shares_nested:
  assumes t: "plain_target st a" "cl_class (cell_at st a) = PlainClass"
    and b: "b \<noteq> a" "b < length (st_cells st)" "\<forall>n. cl_class (cell_at st b) \<noteq> ArrayClass n"
      "distinct (keysIn env st (LRef b))" "\<forall>k' \<in> set (keysIn env st (LRef b)). writable st a k'"
      "\<forall>k' \<in> set (keysIn env st (LRef b)) - {k}. \<not> object_value (read_prop st (LRef b) k')"
    and k: "k \<in> set (keysIn env st (LRef b))" "read_prop st (LRef b) k = LRef c" "\<not> object_value (read_prop st (LRef a) k)"
    and c: "c \<noteq> a" "cloneable (me_clone env) st c" "cl_class (cell_at st c) = PlainClass" "clone_proto st c = objectProto"
      "isPlainObject env st (LRef c)"
    and j: "j \<in> set (pkeys (cl_own (cell_at st c)))" "read_prop st (LRef c) j = LRef d"
  shows "\<exists>x st'. merge rt env (Suc n) (Some a) [LRef b] st = Some (Inr (LRef a), st') \<and>
    get_keys st' (LRef a) [LStr k] = LRef x \<and> x \<noteq> c \<and> get_keys st' (LRef a) [LStr k, LStr j] = LRef d"
proof -
  obtain ks1 ks2 where ks: "keysIn env st (LRef b) = ks1 @ k # ks2" using k(1) by (auto simp: in_set_conv_decomp)
  let ?f = "merge_member env (stackGet rt) (stackSet rt) (baseMerge env (stackGet rt) (stackSet rt) n) a (LRef b) False NoCustomizer"
  let ?g = "\<lambda>st k. if read_prop st (LRef b) k \<noteq> LUndef then read_prop st (LRef b) k else read_prop st (LRef a) k"
  have "\<exists>st1. each_key ?f (map LStr ks1) (stackClear, st) = Some (Inr (), (stackClear, st1)) \<and> updated st a (set ks1) (?g st) st1"
    by (rule flat_loop [OF t(1) b(1,2)]) (use b(4-6) ks in auto)
  then obtain st1 where st1: "each_key ?f (map LStr ks1) (stackClear, st) = Some (Inr (), (stackClear, st1))"
    "updated st a (set ks1) (?g st) st1" by blast
  have len: "length (st_cells st1) = length (st_cells st)" using st1(2) by (simp add: updated_def same_protos_def)
  have others: "read_prop st1 (LRef e) k' = read_prop st (LRef e) k'" if "e \<noteq> a" "e < length (st_cells st)" for e k'
    by (rule updated_others [OF t(1) st1(2) that])
  have c1: "cell_at st1 c = cell_at st c" using st1(2) c(1) by (simp add: updated_def)
  have w1: "writable st1 a k'" if "k' \<in> set (k # ks2)" for k'
    by (rule updated_writable [OF t(1) st1(2)]) (use that b(4,5) ks in auto)
  have new: "\<not> object_value (read_prop st1 (LRef a) k)"
    using updated_reads [OF t(1) st1(2), of k] k(3) b(4) ks by simp
  obtain x m' st2 where st2: "?f (LStr k) (stackClear, st1) = Some (Inr (), (m', st2))"
    "plain_target st2 a" "read_prop st2 (LRef a) k = LRef x" "x \<noteq> c" "x \<noteq> a" "x < length (st_cells st2)"
    "\<And>j. j \<in> set (pkeys (cl_own (cell_at st1 c))) \<Longrightarrow> read_prop st2 (LRef x) j = read_prop st1 (LRef c) j"
    "\<And>k'. read_prop st2 (LRef b) k' = read_prop st1 (LRef b) k'" "b < length (st_cells st2)"
    "\<And>k'. k' \<noteq> k \<Longrightarrow> writable st1 a k' \<Longrightarrow> writable st2 a k'"
    by (rule nested_member [OF updated_target [OF t(1) st1(2)], of b k c env "stackGet rt" stackClear "stackSet rt"
          "baseMerge env (stackGet rt) (stackSet rt) n"])
      (use b(1,2) len others k(2) c1 c(3) updated_plain [OF t st1(2) c(1-4)] updated_isPlain [OF t st1(2) c(1-3,5)]
        w1 new stack_empty in \<open>auto simp: lo_truthy_def\<close>)
  have w2: "writable st2 a k'" if "k' \<in> set ks2" for k'
    by (rule st2(10) [OF _ w1]) (use that b(4) ks in auto)
  have "\<exists>st3. each_key ?f (map LStr ks2) (m', st2) = Some (Inr (), (m', st3)) \<and> updated st2 a (set ks2) (?g st2) st3"
    by (rule flat_loop [OF st2(2) b(1) st2(9)]) (use b(4-6) ks st2(8) w2 others [OF b(1,2)] in auto)
  then obtain st3 where st3: "each_key ?f (map LStr ks2) (m', st2) = Some (Inr (), (m', st3))"
    "updated st2 a (set ks2) (?g st2) st3" by blast
  have "merge_source rt env (Suc n) NoCustomizer a (LRef b) False st = Some (Inr (), st3)"
    using b(1) object_keys [OF b(3)] st1(1) st2(1) st3(1) by (simp add: merge_source_def ks each_key_append)
  moreover have "read_prop st3 (LRef a) k = LRef x"
    using updated_reads [OF st2(2) st3(2), of k] st2(3) b(4) ks by simp
  moreover have "read_prop st3 (LRef x) j = LRef d"
    using updated_others [OF st2(2) st3(2) st2(5,6)] st2(7) [of j] j c1 others [OF c(1)] c(2)
    by (simp add: cloneable_def)
  ultimately show ?thesis using createAssigner_one(1) st2(4) by (force simp: merge_def one_source nil_def)
qed

section \<open>The properties on a store\<close>

text \<open>
  A target 8, parsed JSON 9 with an own member \<open>__proto__\<close>, and a source 11 with objects in objects;
  \<open>Object\<close> and \<open>toString\<close> are the functions 6 and 7.
\<close>

definition merge_store :: ostore where
  "merge_store =
     \<lparr>st_cells = [
        (proto_cell PlainClass None)\<lparr>cl_own := [(''constructor'', LRef 6), (''toString'', LRef 7)]\<rparr>,
        proto_cell PlainClass (Some 0), proto_cell FunctionClass (Some 0), proto_cell PlainClass (Some 0),
        proto_cell PlainClass (Some 0), proto_cell PlainClass (Some 0),
        (proto_cell FunctionClass (Some 2))\<lparr>cl_own := [(''prototype'', LRef 0)]\<rparr>,
        proto_cell FunctionClass (Some 2),
        empty_object\<lparr>cl_own := [(''x'', LNum (Fin 1))]\<rparr>,
        empty_object\<lparr>cl_own := [(''__proto__'', LRef 10)]\<rparr>,
        empty_object\<lparr>cl_own := [(''isAdmin'', LBool True)]\<rparr>,
        empty_object\<lparr>cl_own := [(''n'', LNum (Fin 2)), (''a'', LRef 12)]\<rparr>,
        empty_object\<lparr>cl_own := [(''b'', LRef 13)]\<rparr>,
        empty_object],
      st_text = (\<lambda>a. ''[object Object]'')\<rparr>"

definition merge_demo :: merge_env where
  "merge_demo = \<lparr>me_clone = graph_env, me_hidden = (\<lambda>p. if p = 0 then [''constructor'', ''toString''] else []),
     me_source = (\<lambda>f. if f = 6 then ''Object'' else ''toString''), me_object = 6\<rparr>"

lemma merge_cells:
  "length (st_cells merge_store) = 14"
  "cell_at merge_store 0 =
     (proto_cell PlainClass None)\<lparr>cl_own := [(''constructor'', LRef 6), (''toString'', LRef 7)]\<rparr>"
  "cell_at merge_store (Suc 0) = proto_cell PlainClass (Some 0)" "cell_at merge_store 2 = proto_cell FunctionClass (Some 0)"
  "cell_at merge_store 3 = proto_cell PlainClass (Some 0)" "cell_at merge_store 4 = proto_cell PlainClass (Some 0)"
  "cell_at merge_store 5 = proto_cell PlainClass (Some 0)"
  "cell_at merge_store 6 = (proto_cell FunctionClass (Some 2))\<lparr>cl_own := [(''prototype'', LRef 0)]\<rparr>"
  "cell_at merge_store 7 = proto_cell FunctionClass (Some 2)"
  "cell_at merge_store 8 = empty_object\<lparr>cl_own := [(''x'', LNum (Fin 1))]\<rparr>"
  "cell_at merge_store 9 = empty_object\<lparr>cl_own := [(''__proto__'', LRef 10)]\<rparr>"
  "cell_at merge_store 10 = empty_object\<lparr>cl_own := [(''isAdmin'', LBool True)]\<rparr>"
  "cell_at merge_store 11 = empty_object\<lparr>cl_own := [(''n'', LNum (Fin 2)), (''a'', LRef 12)]\<rparr>"
  "cell_at merge_store 12 = empty_object\<lparr>cl_own := [(''b'', LRef 13)]\<rparr>"
  "cell_at merge_store 13 = empty_object"
  by (simp_all add: merge_store_def cell_at_def)

lemma merge_chains:
  "protos_of merge_store 0 = [0]" "protos_of merge_store (Suc 0) = [1, 0]" "protos_of merge_store 2 = [2, 0]"
  "protos_of merge_store 3 = [3, 0]" "protos_of merge_store 4 = [4, 0]" "protos_of merge_store 5 = [5, 0]"
  "protos_of merge_store 6 = [6, 2, 0]" "protos_of merge_store 7 = [7, 2, 0]" "protos_of merge_store 8 = [8, 0]"
  "protos_of merge_store 9 = [9, 0]" "protos_of merge_store 10 = [10, 0]" "protos_of merge_store 11 = [11, 0]"
  "protos_of merge_store 12 = [12, 0]" "protos_of merge_store 13 = [13, 0]"
  by (simp_all add: protos_of_def proto_chain.simps merge_cells proto_cell_def empty_object_def)

lemma merge_ok: "store_ok merge_store"
  by (simp add: store_ok_def cell_ok_def merge_store_def proto_cell_def empty_object_def refs_ok_def)

lemma merge_addresses: "set [0..<14] = {0, Suc 0, 2, 3, 4, 5, 6, 7, 8, 9, 10, 11, 12, 13}"
  by code_simp

lemma merge_target_ok: "plain_target merge_store 8"
  unfolding plain_target_def leaf_below merge_cells(1) merge_addresses
  by (simp add: merge_ok merge_chains merge_cells empty_object_def)

lemmas merge_reads = read_prop_def holder_def owns_def own_member_def merge_chains merge_cells proto_cell_def
  empty_object_def

lemma merge_names:
  "keysIn merge_demo merge_store (LRef 9) = [''__proto__'']"
  "keysIn merge_demo merge_store (LRef 10) = [''isAdmin'']"
  "keysIn merge_demo merge_store (LRef 11) = [''n'', ''a'']"
  by (simp_all add: keysIn_def baseKeysIn_def value_indexes_def indexKeys_def enumerable_keys_def merge_demo_def
      isPrototype_def function_value_def hasOwnProperty_def merge_reads Let_def)

lemma merge_demo_plain: "isPlainObject merge_demo merge_store (LRef 10)" "isPlainObject merge_demo merge_store (LRef 12)"
  by (simp_all add: isPlainObject_def isHostObject_def nil_def function_value_def getPrototypeOf_def merge_demo_def merge_reads)

lemma merge_cloneable: "cloneable graph_env merge_store 12" "clone_proto merge_store 12 = 0"
  by (simp_all add: cloneable_def clone_proto_def member_names_def free_key_def isPrototype_def function_value_def
      merge_reads Let_def)

theorem defaults_fills_witness:
  "\<exists>st'. defaults merge_demo (Some 8) [LRef 10] merge_store = Some (Inr (LRef 8), st') \<and>
     read_prop st' (LRef 8) ''isAdmin'' = LBool True \<and> read_prop st' (LRef 8) ''x'' = LNum (Fin 1)"
proof -
  have "\<exists>st'. defaults merge_demo (Some 8) [LRef 10] merge_store = Some (Inr (LRef 8), st') \<and>
    (\<forall>k. read_prop st' (LRef 8) k =
       (if k \<in> set (keysIn merge_demo merge_store (LRef 10)) \<and> (read_prop merge_store (LRef 8) k = LUndef \<or>
             read_prop merge_store (LRef 8) k = read_prop merge_store (LRef objectProto) k \<and> \<not> owns merge_store 8 k)
        then read_prop merge_store (LRef 10) k else read_prop merge_store (LRef 8) k))"
    by (rule defaults_fills [OF merge_target_ok])
      (simp_all add: merge_names writable_def plain_key_def merge_reads)
  then obtain st' where st': "defaults merge_demo (Some 8) [LRef 10] merge_store = Some (Inr (LRef 8), st')"
    and reads: "\<And>k. read_prop st' (LRef 8) k =
       (if k \<in> set (keysIn merge_demo merge_store (LRef 10)) \<and> (read_prop merge_store (LRef 8) k = LUndef \<or>
             read_prop merge_store (LRef 8) k = read_prop merge_store (LRef objectProto) k \<and> \<not> owns merge_store 8 k)
        then read_prop merge_store (LRef 10) k else read_prop merge_store (LRef 8) k)"
    by blast
  have "read_prop st' (LRef 8) ''isAdmin'' = LBool True" "read_prop st' (LRef 8) ''x'' = LNum (Fin 1)"
    using reads [of "''isAdmin''"] reads [of "''x''"] by (simp_all add: merge_names merge_reads)
  with st' show ?thesis by blast
qed

theorem merge_reaches_prototypes_witness:
  "\<exists>st'. merge (demo_engine True True) merge_demo 2 (Some 8) [LRef 9] merge_store = Some (Inr (LRef 8), st') \<and>
     read_prop st' (LRef 13) ''isAdmin'' = LBool True"
  unfolding numeral_2_eq_2
  by (rule merge_reaches_prototypes [OF merge_ok, where c = 10 and k = "''isAdmin''"])
    (simp_all add: merge_names merge_demo_plain object_value_def writable_def plain_key_def merge_reads)

lemma merge_demo_clone: "me_clone merge_demo = graph_env"
  by (simp add: merge_demo_def)

theorem merge_shares_nested_witness:
  "\<exists>x st'. merge (demo_engine True True) merge_demo 1 (Some 8) [LRef 11] merge_store = Some (Inr (LRef 8), st') \<and>
     get_keys st' (LRef 8) [LStr ''a''] = LRef x \<and> x \<noteq> 12 \<and> get_keys st' (LRef 8) [LStr ''a'', LStr ''b''] = LRef 13"
  unfolding One_nat_def
  by (rule merge_shares_nested [OF merge_target_ok])
    (auto simp: merge_names merge_demo_plain merge_cloneable merge_demo_clone object_value_def writable_def plain_key_def merge_reads)

end
