(* ===== verification/LodashOrder.thy ===== *)
theory LodashOrder
  imports LodashSets LodashSlices
begin

text \<open>
  Sorting and grouping in \<open>lodash-4.2.1.js\<close>: \<open>sortBy\<close> and \<open>orderBy\<close> over the sort of the engine,
  which need not be stable, and \<open>groupBy\<close>, \<open>countBy\<close>, \<open>keyBy\<close> and \<open>partition\<close>. A collection is the
  list of its values; iteratees are functions without effects, \<open>None\<close> is one that was not given.
\<close>

section \<open>Sorting\<close>

text \<open>\<open>{ criteria, index, value }\<close>\<close>

record value_entry = sort_entry +
  se_value :: lval

type_synonym native_sort = "(value_entry \<Rightarrow> value_entry \<Rightarrow> int) \<Rightarrow> value_entry list \<Rightarrow> value_entry list"

definition baseSortBy :: "native_sort \<Rightarrow> value_entry list \<Rightarrow> (value_entry \<Rightarrow> value_entry \<Rightarrow> int) \<Rightarrow> lval list" where
  "baseSortBy array_sort array comparer = map se_value (array_sort comparer array)"

definition iteratee_or_identity :: "(lval \<Rightarrow> lval) option \<Rightarrow> lval \<Rightarrow> lval" where
  "iteratee_or_identity iteratee = (case iteratee of Some f \<Rightarrow> f | None \<Rightarrow> (\<lambda>x. x))"

definition sort_entries :: "lval list \<Rightarrow> (lval \<Rightarrow> lval) list \<Rightarrow> value_entry list" where
  "sort_entries collection iteratees =
     map (\<lambda>i. \<lparr>se_criteria = map (\<lambda>f. f (collection ! i)) iteratees, se_index = i,
       se_value = collection ! i\<rparr>) [0..<length collection]"

definition baseOrderBy ::
  "coercion \<Rightarrow> native_sort \<Rightarrow> lval list \<Rightarrow> (lval \<Rightarrow> lval) option list \<Rightarrow> string list \<Rightarrow> lval list" where
  "baseOrderBy co array_sort collection iteratees orders =
     (let its = map iteratee_or_identity (if iteratees \<noteq> [] then iteratees else [None])
      in baseSortBy array_sort (sort_entries collection its)
           (\<lambda>object other. compareMultiple co (sort_entry.truncate object) (sort_entry.truncate other) orders))"

text \<open>The orders and the iteratees are arrays, or one value that stands for an array of it.\<close>

datatype 'a one_or_many = Missing | One 'a | Many "'a list"

fun as_list :: "'a one_or_many \<Rightarrow> 'a list" where
  "as_list Missing = []"
| "as_list (One x) = [x]"
| "as_list (Many xs) = xs"

definition orderBy ::
  "coercion \<Rightarrow> native_sort \<Rightarrow> lval list option \<Rightarrow> (lval \<Rightarrow> lval) option one_or_many \<Rightarrow> string one_or_many \<Rightarrow> bool \<Rightarrow>
     lval list" where
  "orderBy co array_sort collection iteratees orders guard = (case collection of
     None \<Rightarrow> []
   | Some xs \<Rightarrow> baseOrderBy co array_sort xs (as_list iteratees) (as_list (if guard then Missing else orders)))"

text \<open>
  \<open>call1\<close> and \<open>call2\<close> say that \<open>isIterateeCall\<close> found the first, or the second, three arguments to be
  those of an iteratee.
\<close>

definition sortBy ::
  "coercion \<Rightarrow> native_sort \<Rightarrow> lval list option \<Rightarrow> (lval \<Rightarrow> lval) option list \<Rightarrow> bool \<Rightarrow> bool \<Rightarrow> lval list" where
  "sortBy co array_sort collection iteratees call1 call2 = (case collection of
     None \<Rightarrow> []
   | Some xs \<Rightarrow> baseOrderBy co array_sort xs
       (if length iteratees > 1 \<and> call1 then []
        else if length iteratees > 2 \<and> call2 then take 1 iteratees else iteratees) [])"

section \<open>Grouping\<close>

text \<open>
  \<open>result[key] = v\<close> of a new object: \<open>__proto__\<close> makes no own member.
\<close>

definition put_member :: "string \<Rightarrow> 'v \<Rightarrow> 'v props \<Rightarrow> 'v props" where
  "put_member key v ps = (if key = ''__proto__'' then ps else pset key v ps)"

definition createAggregator ::
  "('acc \<Rightarrow> lval \<Rightarrow> 'k \<Rightarrow> 'acc) \<Rightarrow> 'acc \<Rightarrow> lval list \<Rightarrow> (lval \<Rightarrow> 'k) \<Rightarrow> 'acc" where
  "createAggregator setter accumulator collection iteratee =
     (case (arrayAggregator collection (\<lambda>acc v k. sret (setter acc v k)) (\<lambda>v. sret (iteratee v)) accumulator ::
              (unit, unit, 'acc + unit) stm) () of
        (Inr (Inl acc), s) \<Rightarrow> acc
      | r \<Rightarrow> accumulator)"

text \<open>The key of the iteratee is a string: what it returns, converted to a property key.\<close>

definition group_setter :: "lval list props \<Rightarrow> lval \<Rightarrow> string \<Rightarrow> lval list props" where
  "group_setter result v key = (case map_of result key of
     Some vs \<Rightarrow> put_member key (vs @ [v]) result
   | None \<Rightarrow> put_member key [v] result)"

definition groupBy :: "lval list \<Rightarrow> (lval \<Rightarrow> string) \<Rightarrow> lval list props" where
  "groupBy = createAggregator group_setter []"

definition count_setter :: "nat props \<Rightarrow> lval \<Rightarrow> string \<Rightarrow> nat props" where
  "count_setter result v key = (case map_of result key of
     Some n \<Rightarrow> put_member key (n + 1) result
   | None \<Rightarrow> put_member key 1 result)"

definition countBy :: "lval list \<Rightarrow> (lval \<Rightarrow> string) \<Rightarrow> nat props" where
  "countBy = createAggregator count_setter []"

definition keyBy :: "lval list \<Rightarrow> (lval \<Rightarrow> string) \<Rightarrow> lval props" where
  "keyBy = createAggregator (\<lambda>result v key. put_member key v result) []"

definition partition_setter :: "lval list \<times> lval list \<Rightarrow> lval \<Rightarrow> lval \<Rightarrow> lval list \<times> lval list" where
  "partition_setter result v key =
     (if lo_truthy key then (fst result @ [v], snd result) else (fst result, snd result @ [v]))"

definition lo_partition :: "lval list \<Rightarrow> (lval \<Rightarrow> lval) \<Rightarrow> lval list \<times> lval list" where
  "lo_partition = createAggregator partition_setter ([], [])"

section \<open>The comparison of entries\<close>

text \<open>The order of the criteria, first one first.\<close>

fun criteria_cmp :: "coercion \<Rightarrow> string list \<Rightarrow> lval list \<Rightarrow> lval list \<Rightarrow> int" where
  "criteria_cmp co orders (x # xs) (y # ys) =
     (let r = compareAscending co x y
      in if r \<noteq> 0 then (case orders of ord # _ \<Rightarrow> if ord = ''desc'' then - r else r | [] \<Rightarrow> r)
         else criteria_cmp co (tl orders) xs ys)"
| "criteria_cmp co orders xs ys = 0"

lemma compareMultiple_cmp:
  assumes "length (se_criteria a) = length (se_criteria b)"
  shows "compareMultiple co a b orders =
    (let c = criteria_cmp co orders (se_criteria a) (se_criteria b)
     in if c \<noteq> 0 then c else int (se_index a) - int (se_index b))"
proof -
  have "(case find (\<lambda>i. compareAscending co (xs ! i) (ys ! i) \<noteq> 0) [0..<length xs] of
        Some index \<Rightarrow>
          (let result = compareAscending co (xs ! index) (ys ! index)
           in if index \<ge> length orders then result
              else result * (if orders ! index = ''desc'' then -1 else 1))
      | None \<Rightarrow> d) = (let c = criteria_cmp co orders xs ys in if c \<noteq> 0 then c else d)"
    if "length xs = length ys" for xs ys and d :: int
    using that
  proof (induction xs ys arbitrary: orders rule: list_induct2)
    case (Cons x xs y ys)
    show ?case
    proof (cases "compareAscending co x y = 0")
      case True
      have "(case find (\<lambda>i. compareAscending co (xs ! i) (ys ! i) \<noteq> 0) [0..<length xs] of
          Some index \<Rightarrow>
            (let result = compareAscending co (xs ! index) (ys ! index)
             in if Suc index \<ge> length orders then result
                else result * (if orders ! Suc index = ''desc'' then -1 else 1))
        | None \<Rightarrow> d) = (let c = criteria_cmp co (tl orders) xs ys in if c \<noteq> 0 then c else d)"
        using Cons.IH [of "tl orders"] by (cases orders; cases "find (\<lambda>i. compareAscending co (xs ! i) (ys ! i) \<noteq> 0) [0..<length xs]")
          (auto simp: Let_def split: if_splits)
      with True show ?thesis
        by (cases "find (\<lambda>i. compareAscending co (xs ! i) (ys ! i) \<noteq> 0) [0..<length xs]")
          (simp_all add: find_upt_Suc Let_def del: upt_Suc)
    next
      case False
      then show ?thesis by (cases orders) (auto simp: find_upt_Suc Let_def simp del: upt_Suc)
    qed
  qed simp
  with assms show ?thesis by (simp add: compareMultiple_def)
qed

section \<open>The order of sortable criteria\<close>

lemma compareAscending_0:
  "sortable k x \<Longrightarrow> sortable k y \<Longrightarrow> compareAscending co x y = 0 \<longleftrightarrow> x = y"
  using sort_before_linear [of k x y] sort_before_asym [of x y]
  by (auto simp: compareAscending_order)

lemma compareAscending_swap:
  "sortable k x \<Longrightarrow> sortable k y \<Longrightarrow> compareAscending co y x = - compareAscending co x y"
  using sort_before_asym [of x y] by (auto simp: compareAscending_order)

lemma compareAscending_trans:
  assumes "sortable k x" and "sortable k y" and "sortable k z"
    and "compareAscending co x y < 0" and "compareAscending co y z < 0"
  shows "compareAscending co x z < 0"
  using assms sort_before_trans [of x y z] by (auto simp: compareAscending_order split: if_splits)

text \<open>Lists of criteria, each of its kind.\<close>

abbreviation criteria_list :: "sort_kind list \<Rightarrow> lval list \<Rightarrow> bool" where
  "criteria_list \<equiv> list_all2 sortable"

definition first_cmp :: "coercion \<Rightarrow> string list \<Rightarrow> lval \<Rightarrow> lval \<Rightarrow> int" where
  "first_cmp co orders x y =
     (if orders \<noteq> [] \<and> hd orders = ''desc'' then - compareAscending co x y else compareAscending co x y)"

lemma criteria_cmp_Cons:
  "criteria_cmp co orders (x # xs) (y # ys) =
     (if first_cmp co orders x y \<noteq> 0 then first_cmp co orders x y else criteria_cmp co (tl orders) xs ys)"
  by (cases orders) (auto simp: first_cmp_def Let_def)

lemma first_cmp_laws:
  assumes "sortable k x" and "sortable k y"
  shows "first_cmp co orders x y = 0 \<longleftrightarrow> x = y" "first_cmp co orders y x = - first_cmp co orders x y"
  using assms compareAscending_0 [of k x y co] compareAscending_swap [of k x y co]
  by (auto simp: first_cmp_def)

lemma first_cmp_trans:
  assumes "sortable k x" and "sortable k y" and "sortable k z"
    and "first_cmp co orders x y < 0" and "first_cmp co orders y z < 0"
  shows "first_cmp co orders x z < 0"
proof (cases "orders \<noteq> [] \<and> hd orders = ''desc''")
  case True
  have "compareAscending co z x < 0"
    using assms True compareAscending_swap [of k x y co] compareAscending_swap [of k y z co]
    by (intro compareAscending_trans [of k z y x]) (auto simp: first_cmp_def)
  then show ?thesis using True assms compareAscending_swap [of k z x co] by (auto simp: first_cmp_def)
next
  case False
  then show ?thesis using assms compareAscending_trans [of k x y z co] by (auto simp: first_cmp_def)
qed

lemma criteria_cmp_0:
  "criteria_list ks xs \<Longrightarrow> criteria_list ks ys \<Longrightarrow> criteria_cmp co orders xs ys = 0 \<longleftrightarrow> xs = ys"
  by (induction ks arbitrary: xs ys orders)
    (auto simp: list_all2_Cons1 criteria_cmp_Cons first_cmp_laws(1) simp del: criteria_cmp.simps(1) split: if_splits)

lemma criteria_cmp_swap:
  "criteria_list ks xs \<Longrightarrow> criteria_list ks ys \<Longrightarrow>
   criteria_cmp co orders ys xs = - criteria_cmp co orders xs ys"
proof (induction ks arbitrary: xs ys orders)
  case (Cons k ks)
  then obtain x xs' y ys' where l: "xs = x # xs'" "ys = y # ys'" "sortable k x" "sortable k y"
    "criteria_list ks xs'" "criteria_list ks ys'" by (auto simp: list_all2_Cons1)
  show ?case
    using Cons.IH [OF l(5,6), of "tl orders"] first_cmp_laws [OF l(3,4), of co orders]
    by (simp add: l(1,2) criteria_cmp_Cons del: criteria_cmp.simps(1))
qed simp

lemma criteria_cmp_trans:
  "criteria_list ks xs \<Longrightarrow> criteria_list ks ys \<Longrightarrow> criteria_list ks zs \<Longrightarrow>
   criteria_cmp co orders xs ys < 0 \<Longrightarrow> criteria_cmp co orders ys zs < 0 \<Longrightarrow>
   criteria_cmp co orders xs zs < 0"
proof (induction ks arbitrary: xs ys zs orders)
  case (Cons k ks)
  then obtain x xs' y ys' z zs' where l: "xs = x # xs'" "ys = y # ys'" "zs = z # zs'"
    "sortable k x" "sortable k y" "sortable k z"
    "criteria_list ks xs'" "criteria_list ks ys'" "criteria_list ks zs'" by (auto simp: list_all2_Cons1)
  note z = first_cmp_laws(1) [OF l(4,5), of co orders] first_cmp_laws(1) [OF l(5,6), of co orders]
    first_cmp_laws(1) [OF l(4,6), of co orders]
  show ?case
    using Cons.prems(4,5) Cons.IH [OF l(7-9), of "tl orders"] first_cmp_trans [OF l(4-6), of co orders] z
    by (auto simp: l(1-3) criteria_cmp_Cons simp del: criteria_cmp.simps(1) split: if_splits)
qed simp

section \<open>Sorting by a comparison\<close>

text \<open>A comparison that is consistent on a list: antisymmetric and transitive.\<close>

definition consistent_on :: "('a \<Rightarrow> 'a \<Rightarrow> int) \<Rightarrow> 'a set \<Rightarrow> bool" where
  "consistent_on cmp A \<longleftrightarrow>
     (\<forall>a \<in> A. \<forall>b \<in> A. (cmp a b < 0 \<longleftrightarrow> cmp b a > 0)) \<and>
     (\<forall>a \<in> A. \<forall>b \<in> A. \<forall>c \<in> A. cmp a b \<le> 0 \<longrightarrow> cmp b c \<le> 0 \<longrightarrow> cmp a c \<le> 0)"

lemma consistent_swap: "consistent_on cmp A \<Longrightarrow> a \<in> A \<Longrightarrow> b \<in> A \<Longrightarrow> cmp a b < 0 \<longleftrightarrow> cmp b a > 0"
  by (simp add: consistent_on_def)

lemma consistent_trans:
  "consistent_on cmp A \<Longrightarrow> a \<in> A \<Longrightarrow> b \<in> A \<Longrightarrow> c \<in> A \<Longrightarrow> cmp a b \<le> 0 \<Longrightarrow> cmp b c \<le> 0 \<Longrightarrow> cmp a c \<le> 0"
  unfolding consistent_on_def by blast

lemma consistent_on_subset: "consistent_on cmp A \<Longrightarrow> B \<subseteq> A \<Longrightarrow> consistent_on cmp B"
  unfolding consistent_on_def by blast

text \<open>
  What the language promises of \<open>Array.prototype.sort\<close>: with a consistent comparison the result is a
  permutation of the array, in order. Elements that compare as equal may come in any order.
\<close>

definition sort_laws :: "(('a \<Rightarrow> 'a \<Rightarrow> int) \<Rightarrow> 'a list \<Rightarrow> 'a list) \<Rightarrow> bool" where
  "sort_laws array_sort \<longleftrightarrow> (\<forall>cmp xs. consistent_on cmp (set xs) \<longrightarrow>
     mset (array_sort cmp xs) = mset xs \<and> sorted_wrt (\<lambda>a b. cmp a b \<le> 0) (array_sort cmp xs))"

text \<open>Insertion sort, which is stable.\<close>

fun stable_insert :: "('a \<Rightarrow> 'a \<Rightarrow> int) \<Rightarrow> 'a \<Rightarrow> 'a list \<Rightarrow> 'a list" where
  "stable_insert cmp x [] = [x]"
| "stable_insert cmp x (y # ys) = (if cmp x y \<le> 0 then x # y # ys else y # stable_insert cmp x ys)"

definition stable_sort :: "('a \<Rightarrow> 'a \<Rightarrow> int) \<Rightarrow> 'a list \<Rightarrow> 'a list" where
  "stable_sort cmp xs = foldr (stable_insert cmp) xs []"

lemma stable_sort_simps [simp]:
  "stable_sort cmp [] = []" "stable_sort cmp (x # xs) = stable_insert cmp x (stable_sort cmp xs)"
  by (simp_all add: stable_sort_def)

lemma mset_stable_insert [simp]: "mset (stable_insert cmp x ys) = add_mset x (mset ys)"
  by (induction ys) auto

lemma set_stable_insert [simp]: "set (stable_insert cmp x ys) = insert x (set ys)"
  by (induction ys) auto

lemma mset_stable_sort [simp]: "mset (stable_sort cmp xs) = mset xs"
  by (induction xs) auto

lemma set_stable_sort [simp]: "set (stable_sort cmp xs) = set xs"
  by (induction xs) auto

lemma map_stable_insert:
  "\<forall>y \<in> set ys. cmp x y = cmp' (f x) (f y) \<Longrightarrow>
   map f (stable_insert cmp x ys) = stable_insert cmp' (f x) (map f ys)"
  by (induction ys) auto

lemma map_stable_sort:
  "\<forall>x \<in> set xs. \<forall>y \<in> set xs. cmp x y = cmp' (f x) (f y) \<Longrightarrow>
   map f (stable_sort cmp xs) = stable_sort cmp' (map f xs)"
proof (induction xs)
  case (Cons x xs)
  then show ?case using map_stable_insert [of "stable_sort cmp xs" cmp x cmp' f] by simp
qed simp

text \<open>
  A comparison refined by another: where the first ties, the second decides. Insertion keeps the list in
  the refined order when what it inserts comes before every tie.
\<close>

lemma stable_insert_sorted:
  assumes "consistent_on cmp (insert x (set ys))" and "sorted_wrt (\<lambda>a b. cmp a b \<le> 0) ys"
    and "\<forall>y \<in> set ys. cmp' x y \<le> 0 \<longleftrightarrow> cmp x y \<le> 0"
  shows "sorted_wrt (\<lambda>a b. cmp a b \<le> 0) (stable_insert cmp' x ys)"
  using assms
proof (induction ys)
  case (Cons y ys)
  have sub: "consistent_on cmp (insert x (set ys))"
    by (rule consistent_on_subset [OF Cons.prems(1)]) auto
  have dir: "cmp y x \<le> 0" if "\<not> cmp x y \<le> 0"
    using consistent_swap [OF Cons.prems(1), of y x] that by simp
  have tr: "cmp x z \<le> 0" if "cmp x y \<le> 0" "z \<in> set ys" for z
    using consistent_trans [OF Cons.prems(1), of x y z] Cons.prems(2) that by simp
  show ?case
  proof (cases "cmp x y \<le> 0")
    case True
    then show ?thesis using Cons.prems(2,3) tr by simp
  next
    case False
    then show ?thesis using Cons.IH [OF sub] Cons.prems(2,3) dir by simp
  qed
qed simp

lemma sorted_wrt_unique:
  assumes "mset xs = mset ys" and "sorted_wrt P xs" and "sorted_wrt P ys"
    and "\<forall>a \<in> set xs. \<forall>b \<in> set xs. P a b \<longrightarrow> P b a \<longrightarrow> a = b"
  shows "xs = ys"
  using assms
proof (induction xs arbitrary: ys)
  case (Cons x xs)
  then obtain y ys' where ys: "ys = y # ys'" by (cases ys) auto
  have "x = y"
  proof (rule ccontr)
    assume "x \<noteq> y"
    moreover have "set (x # xs) = set ys" using Cons.prems(1) by (rule mset_eq_setD)
    ultimately have "y \<in> set xs" "x \<in> set ys'" using ys by auto
    then show False using Cons.prems(2-4) ys \<open>x \<noteq> y\<close> by auto
  qed
  then show ?case using Cons.IH [of ys'] Cons.prems ys by auto
qed simp

lemma stable_sort_sorted:
  assumes "consistent_on cmp (set xs)"
  shows "sorted_wrt (\<lambda>a b. cmp a b \<le> 0) (stable_sort cmp xs)"
  using assms
proof (induction xs)
  case (Cons x xs)
  have "consistent_on cmp (set xs)" by (rule consistent_on_subset [OF Cons.prems]) auto
  with Cons show ?case by (auto intro!: stable_insert_sorted)
qed simp

lemma stable_sort_laws: "sort_laws stable_sort"
  by (simp add: sort_laws_def stable_sort_sorted)

text \<open>A stable sort keeps the order of what ties with an element.\<close>

lemma stable_sort_ties:
  assumes "consistent_on cmp (set xs)" and "a \<in> set xs"
  shows "filter (\<lambda>y. cmp a y = 0) (stable_sort cmp xs) = filter (\<lambda>y. cmp a y = 0) xs"
proof -
  have ins: "filter (\<lambda>y. cmp a y = 0) (stable_insert cmp x ys) =
      (if cmp a x = 0 then x # filter (\<lambda>y. cmp a y = 0) ys else filter (\<lambda>y. cmp a y = 0) ys)"
    if "insert x (set ys) \<subseteq> set xs" for x ys
    using that
  proof (induction ys)
    case (Cons y ys)
    have "cmp x y \<le> 0" if "cmp a x = 0" "cmp a y = 0"
      using consistent_trans [OF assms(1), of x a y] consistent_swap [OF assms(1), of a x] that
        consistent_swap [OF assms(1), of x a] assms(2) Cons.prems by auto
    with Cons show ?case by auto
  qed simp
  have "filter (\<lambda>y. cmp a y = 0) (stable_sort cmp ys) = filter (\<lambda>y. cmp a y = 0) ys"
    if "set ys \<subseteq> set xs" for ys
    using that by (induction ys) (simp_all add: ins)
  then show ?thesis by simp
qed

section \<open>What orderBy returns\<close>

text \<open>The criteria of two values, compared; no iteratee means the values themselves.\<close>

definition criteria_of :: "(lval \<Rightarrow> lval) option list \<Rightarrow> lval \<Rightarrow> lval list" where
  "criteria_of iteratees v =
     map (\<lambda>f. iteratee_or_identity f v) (if iteratees \<noteq> [] then iteratees else [None])"

definition order_cmp ::
  "coercion \<Rightarrow> (lval \<Rightarrow> lval) option list \<Rightarrow> string list \<Rightarrow> lval \<Rightarrow> lval \<Rightarrow> int" where
  "order_cmp co iteratees orders v other =
     criteria_cmp co orders (criteria_of iteratees v) (criteria_of iteratees other)"

text \<open>
  Values that can be put in order: each criterion is a number other than \<open>NaN\<close> on all of them, or a string
  on all of them, where it is not \<open>null\<close> or \<open>undefined\<close>.
\<close>

definition criteria_sortable :: "sort_kind list \<Rightarrow> (lval \<Rightarrow> lval) option list \<Rightarrow> lval list \<Rightarrow> bool" where
  "criteria_sortable ks iteratees xs \<longleftrightarrow> (\<forall>x \<in> set xs. criteria_list ks (criteria_of iteratees x))"

lemma criteria_consistent:
  assumes "\<forall>a \<in> A. criteria_list ks (crit a)"
  shows "consistent_on (\<lambda>a b. criteria_cmp co orders (crit a) (crit b)) A"
  unfolding consistent_on_def
proof (intro conjI ballI impI)
  fix a b assume ab: "a \<in> A" "b \<in> A"
  show "criteria_cmp co orders (crit a) (crit b) < 0 \<longleftrightarrow> criteria_cmp co orders (crit b) (crit a) > 0"
    using criteria_cmp_swap [of ks "crit a" "crit b" co orders] assms ab by auto
  fix c assume c: "c \<in> A" and le: "criteria_cmp co orders (crit a) (crit b) \<le> 0"
    "criteria_cmp co orders (crit b) (crit c) \<le> 0"
  show "criteria_cmp co orders (crit a) (crit c) \<le> 0"
    using criteria_cmp_trans [of ks "crit a" "crit b" "crit c" co orders] le assms ab c
      criteria_cmp_0 [of ks "crit a" "crit b" co orders] criteria_cmp_0 [of ks "crit b" "crit c" co orders]
    by force
qed

lemma order_cmp_consistent:
  "criteria_sortable ks iteratees xs \<Longrightarrow> consistent_on (order_cmp co iteratees orders) (set xs)"
  unfolding order_cmp_def by (rule criteria_consistent) (simp add: criteria_sortable_def)

text \<open>The entries that are sorted, and their comparison: the criteria first, then the positions.\<close>

definition entry_cmp :: "coercion \<Rightarrow> string list \<Rightarrow> value_entry \<Rightarrow> value_entry \<Rightarrow> int" where
  "entry_cmp co orders a b = compareMultiple co (sort_entry.truncate a) (sort_entry.truncate b) orders"

lemma entry_cmp_eq:
  "length (se_criteria a) = length (se_criteria b) \<Longrightarrow>
   entry_cmp co orders a b =
    (let c = criteria_cmp co orders (se_criteria a) (se_criteria b)
     in if c \<noteq> 0 then c else int (se_index a) - int (se_index b))"
  by (simp add: entry_cmp_def compareMultiple_cmp sort_entry.truncate_def Let_def)

lemma entry_cmp_consistent:
  assumes "\<forall>a \<in> A. criteria_list ks (se_criteria a)"
  shows "consistent_on (entry_cmp co orders) A"
proof -
  have cmp: "entry_cmp co orders a b =
      (let c = criteria_cmp co orders (se_criteria a) (se_criteria b)
       in if c \<noteq> 0 then c else int (se_index a) - int (se_index b))" if "a \<in> A" "b \<in> A" for a b
    using assms that by (intro entry_cmp_eq) (metis list_all2_lengthD)
  note con = criteria_consistent [OF assms, of co orders]
  show ?thesis
    unfolding consistent_on_def
  proof (intro conjI ballI impI)
    fix a b assume ab: "a \<in> A" "b \<in> A"
    show "entry_cmp co orders a b < 0 \<longleftrightarrow> entry_cmp co orders b a > 0"
      using criteria_cmp_swap [of ks "se_criteria a" "se_criteria b" co orders] assms ab
      by (auto simp: cmp Let_def)
    fix c assume c: "c \<in> A" and le: "entry_cmp co orders a b \<le> 0" "entry_cmp co orders b c \<le> 0"
    show "entry_cmp co orders a c \<le> 0"
      using le criteria_cmp_trans [of ks "se_criteria a" "se_criteria b" "se_criteria c" co orders] assms ab c
        criteria_cmp_0 [of ks "se_criteria a" "se_criteria b" co orders]
        criteria_cmp_0 [of ks "se_criteria b" "se_criteria c" co orders]
      by (auto simp: cmp Let_def split: if_splits)
  qed
qed

lemma set_sort_entries:
  "set (sort_entries xs its) =
     (\<lambda>i. \<lparr>se_criteria = map (\<lambda>f. f (xs ! i)) its, se_index = i, se_value = xs ! i\<rparr>) ` {0..<length xs}"
  by (simp add: sort_entries_def)

lemma map_value_entries [simp]: "map se_value (sort_entries xs its) = xs"
  by (simp add: sort_entries_def comp_def map_nth)

text \<open>Entries in the order of their positions: a stable sort by the criteria alone is the full order.\<close>

lemma stable_sort_entries:
  assumes "\<forall>a \<in> set es. criteria_list ks (se_criteria a)" and "sorted_wrt (<) (map se_index es)"
  shows "sorted_wrt (\<lambda>a b. entry_cmp co orders a b \<le> 0)
    (stable_sort (\<lambda>a b. criteria_cmp co orders (se_criteria a) (se_criteria b)) es)"
  using assms
proof (induction es)
  case (Cons e es)
  let ?S = "stable_sort (\<lambda>a b. criteria_cmp co orders (se_criteria a) (se_criteria b)) es"
  have con: "consistent_on (entry_cmp co orders) (insert e (set ?S))"
    using Cons.prems(1) by (intro entry_cmp_consistent [of _ ks]) simp
  have tie: "\<forall>y \<in> set ?S. criteria_cmp co orders (se_criteria e) (se_criteria y) \<le> 0 \<longleftrightarrow>
      entry_cmp co orders e y \<le> 0"
  proof
    fix y assume "y \<in> set ?S"
    then have "length (se_criteria e) = length (se_criteria y)" "se_index e < se_index y"
      using Cons.prems by (auto simp: list_all2_lengthD [of sortable ks, symmetric])
    then show "criteria_cmp co orders (se_criteria e) (se_criteria y) \<le> 0 \<longleftrightarrow> entry_cmp co orders e y \<le> 0"
      by (auto simp: entry_cmp_eq Let_def)
  qed
  show ?case using Cons
      stable_insert_sorted [where cmp = "entry_cmp co orders" and x = e and ys = ?S and
        cmp' = "\<lambda>a b. criteria_cmp co orders (se_criteria a) (se_criteria b)"] con tie
    by simp
qed simp

text \<open>So the sort of the engine returns the entries in that order, stable or not.\<close>

lemma engine_sort_entries:
  assumes "sort_laws array_sort" and "\<forall>a \<in> set es. criteria_list ks (se_criteria a)"
    and "sorted_wrt (<) (map se_index es)"
  shows "array_sort (entry_cmp co orders) es =
    stable_sort (\<lambda>a b. criteria_cmp co orders (se_criteria a) (se_criteria b)) es"
proof (rule sorted_wrt_unique [where P = "\<lambda>a b. entry_cmp co orders a b \<le> 0"])
  have con: "consistent_on (entry_cmp co orders) (set es)"
    by (rule entry_cmp_consistent [OF assms(2)])
  with assms(1) show m: "mset (array_sort (entry_cmp co orders) es) =
      mset (stable_sort (\<lambda>a b. criteria_cmp co orders (se_criteria a) (se_criteria b)) es)"
    and "sorted_wrt (\<lambda>a b. entry_cmp co orders a b \<le> 0) (array_sort (entry_cmp co orders) es)"
    by (simp_all add: sort_laws_def)
  show "sorted_wrt (\<lambda>a b. entry_cmp co orders a b \<le> 0)
      (stable_sort (\<lambda>a b. criteria_cmp co orders (se_criteria a) (se_criteria b)) es)"
    by (rule stable_sort_entries [OF assms(2,3)])
  have inj: "inj_on se_index (set es)"
    using assms(3) by (metis distinct_map strict_sorted_iff)
  have "a = b" if ab: "a \<in> set es" "b \<in> set es" and le: "entry_cmp co orders a b \<le> 0" "entry_cmp co orders b a \<le> 0" for a b
  proof -
    have "criteria_list ks (se_criteria a)" "criteria_list ks (se_criteria b)" using assms(2) ab by auto
    then have "se_index a = se_index b"
      using le criteria_cmp_swap [of ks "se_criteria a" "se_criteria b" co orders]
      by (auto simp: entry_cmp_eq list_all2_lengthD [symmetric] Let_def split: if_splits)
    then show ?thesis using inj ab by (auto dest: inj_onD)
  qed
  then show "\<forall>a \<in> set (array_sort (entry_cmp co orders) es). \<forall>b \<in> set (array_sort (entry_cmp co orders) es).
      entry_cmp co orders a b \<le> 0 \<longrightarrow> entry_cmp co orders b a \<le> 0 \<longrightarrow> a = b"
    using mset_eq_setD [OF m] by simp
qed

lemma criteria_of_entries:
  "map (\<lambda>f. f v) (map iteratee_or_identity (if iteratees \<noteq> [] then iteratees else [None])) = criteria_of iteratees v"
  by (simp add: criteria_of_def)

lemma baseOrderBy_stable_sort:
  assumes "sort_laws array_sort" and "criteria_sortable ks iteratees xs"
  shows "baseOrderBy co array_sort xs iteratees orders = stable_sort (order_cmp co iteratees orders) xs"
proof -
  let ?es = "sort_entries xs (map iteratee_or_identity (if iteratees \<noteq> [] then iteratees else [None]))"
  have crit: "se_criteria e = criteria_of iteratees (se_value e) \<and> se_value e \<in> set xs" if "e \<in> set ?es" for e
    using that unfolding set_sort_entries criteria_of_entries by auto
  have "map se_value (array_sort (entry_cmp co orders) ?es) =
      map se_value (stable_sort (\<lambda>a b. criteria_cmp co orders (se_criteria a) (se_criteria b)) ?es)"
  proof (subst engine_sort_entries [OF assms(1), where ks = ks])
    show "\<forall>a \<in> set ?es. criteria_list ks (se_criteria a)"
      using crit assms(2) by (simp add: criteria_sortable_def)
    show "sorted_wrt (<) (map se_index ?es)" by (simp add: sort_entries_def comp_def)
  qed simp
  also have "\<dots> = stable_sort (order_cmp co iteratees orders) (map se_value ?es)"
    using crit by (intro map_stable_sort) (simp add: order_cmp_def)
  finally show ?thesis by (simp add: baseOrderBy_def baseSortBy_def Let_def entry_cmp_def [abs_def])
qed

text \<open>C31: when each criterion gives numbers other than \<open>NaN\<close>, or strings, or \<open>null\<close> or \<open>undefined\<close>, the
  result is the stable sort by the criteria, however the engine sorts.\<close>

theorem orderBy_stable_sort:
  assumes "sort_laws array_sort" and "criteria_sortable ks (as_list iteratees) xs"
  shows "orderBy co array_sort (Some xs) iteratees orders guard =
    stable_sort (order_cmp co (as_list iteratees) (as_list (if guard then Missing else orders))) xs"
  unfolding orderBy_def using baseOrderBy_stable_sort [OF assms] by simp

text \<open>Two of three values tie on a first criterion of strings; a second one, of numbers, decides, descending.\<close>

theorem orderBy_stable_sort_witness:
  "orderBy \<lparr>co_prim = (\<lambda>r. LNull), co_num = (\<lambda>s. NaN)\<rparr> stable_sort (Some [LNum (Fin 1), LNum (Fin 7), LNull])
     (Many [Some (\<lambda>v. if v = LNull then LStr ''barney'' else LStr ''fred''), None]) (Many [''asc'', ''desc'']) False =
   [LNull, LNum (Fin 7), LNum (Fin 1)]"
  by (subst orderBy_stable_sort [OF stable_sort_laws, where ks = "[Strings, Numbers]"])
    (simp_all add: criteria_sortable_def criteria_of_def iteratee_or_identity_def order_cmp_def
      compareAscending_order [of Strings] compareAscending_order [of Numbers] Let_def)

section \<open>What the aggregators return\<close>

lemma createAggregator_fold:
  "createAggregator setter accumulator xs iteratee =
     foldl (\<lambda>acc v. setter acc v (iteratee v)) accumulator xs"
proof -
  have "pure_loop (\<lambda>index acc. Inl (setter acc (xs ! index) (iteratee (xs ! index)))) is acc =
      (Inl (foldl (\<lambda>acc v. setter acc v (iteratee v)) acc (map (\<lambda>i. xs ! i) is)) :: 'a + unit)" for "is" acc
    by (induction "is" arbitrary: acc) simp_all
  from this [of "[0..<length xs]" accumulator] show ?thesis
    unfolding createAggregator_def arrayAggregator_def for_up_list sbind_sret for_list_pure
    by (simp add: map_nth)
qed

lemma map_of_put_member [simp]:
  "map_of (put_member key v ps) k = (if k = key \<and> k \<noteq> ''__proto__'' then Some v else map_of ps k)"
  by (auto simp: put_member_def)

lemma group_of_key:
  "map_of (groupBy xs iteratee) key =
     (let vs = filter (\<lambda>v. iteratee v = key) xs
      in if vs = [] \<or> key = ''__proto__'' then None else Some vs)"
  by (induction xs arbitrary: key rule: rev_induct)
    (auto simp: groupBy_def createAggregator_fold group_setter_def Let_def split: option.splits if_splits)

text \<open>C32: a group holds the values with its key, in order. Values with the key \<open>__proto__\<close> are in none.\<close>

theorem groupBy_groups:
  "map_of (groupBy xs iteratee) key =
     (let vs = filter (\<lambda>v. iteratee v = key) xs
      in if vs = [] \<or> key = ''__proto__'' then None else Some vs)"
  by (rule group_of_key)

text \<open>The counts are the sizes of the groups.\<close>

theorem countBy_counts:
  "map_of (countBy xs iteratee) key =
     map_option length (map_of (groupBy xs iteratee) key)"
  unfolding group_of_key
  by (induction xs arbitrary: key rule: rev_induct)
    (auto simp: countBy_def createAggregator_fold count_setter_def Let_def split: option.splits if_splits)

text \<open>The two parts hold the values the predicate accepts, and the others.\<close>

theorem partition_splits:
  "lo_partition xs predicate =
     (filter (\<lambda>v. lo_truthy (predicate v)) xs, filter (\<lambda>v. \<not> lo_truthy (predicate v)) xs)"
  by (induction xs rule: rev_induct) (auto simp: lo_partition_def createAggregator_fold partition_setter_def)

text \<open>Of the values with one key the last one stays.\<close>

theorem keyBy_last:
  "map_of (keyBy xs iteratee) key =
     (let vs = filter (\<lambda>v. iteratee v = key) xs
      in if vs = [] \<or> key = ''__proto__'' then None else Some (last vs))"
  by (induction xs arbitrary: key rule: rev_induct)
    (auto simp: keyBy_def createAggregator_fold Let_def split: if_splits)

end
