(* ===== verification/Regexes.thy ===== *)
theory Regexes
  imports Prelude "HOL-Library.Word"
begin

text \<open>
  Strings as 16-bit units, and the regular expressions of the language as far as \<open>lodash-4.2.1.js\<close>
  uses them on strings: classes of units, sequences, alternatives, greedy repetitions, lookahead and
  anchors. A match is found by backtracking, so \<open>ms\<close> lists the lengths of all matches at a position in
  the order they are tried.
\<close>

section \<open>Expressions and matches\<close>

type_synonym unit16 = "16 word"
type_synonym units = "unit16 list"

definition ascii :: "string \<Rightarrow> units" where
  "ascii cs = map of_char cs"

datatype rx = RUnit "unit16 \<Rightarrow> bool" | REmpty | RSeq rx rx | RAlt rx rx | ROpt rx | RStar rx
  | RAhead rx | RStart | REnd

text \<open>
  The position in the string and the rest of the string from there. An iteration that matches nothing
  is not repeated.
\<close>

function (sequential) ms :: "rx \<Rightarrow> nat \<Rightarrow> units \<Rightarrow> nat list" where
  "ms (RUnit p) i s = (case s of [] \<Rightarrow> [] | u # us \<Rightarrow> if p u then [1] else [])"
| "ms REmpty i s = [0]"
| "ms (RSeq a b) i s = concat (map (\<lambda>n. map ((+) n) (ms b (i + n) (drop n s))) (ms a i s))"
| "ms (RAlt a b) i s = ms a i s @ ms b i s"
| "ms (ROpt a) i s = ms a i s @ [0]"
| "ms (RStar a) i s =
     concat (map (\<lambda>n. if 0 < n \<and> s \<noteq> [] then map ((+) n) (ms (RStar a) (i + n) (drop n s)) else [])
       (ms a i s)) @ [0]"
| "ms (RAhead a) i s = (if ms a i s \<noteq> [] then [0] else [])"
| "ms RStart i s = (if i = 0 then [0] else [])"
| "ms REnd i s = (if s = [] then [0] else [])"
  by pat_completeness auto
termination
  by (relation "measures [\<lambda>(r, i, s). length s, \<lambda>(r, i, s). size r]") auto

abbreviation RPlus :: "rx \<Rightarrow> rx" where
  "RPlus a \<equiv> RSeq a (RStar a)"

fun literal :: "units \<Rightarrow> rx" where
  "literal [] = REmpty"
| "literal (u # us) = RSeq (RUnit ((=) u)) (literal us)"

fun any_of :: "rx list \<Rightarrow> rx" where
  "any_of [] = REmpty"
| "any_of [r] = r"
| "any_of (r # rs) = RAlt r (any_of rs)"

section \<open>Searching, all matches, replacing\<close>

definition rx_test :: "rx \<Rightarrow> units \<Rightarrow> bool" where
  "rx_test r s \<longleftrightarrow> list_ex (\<lambda>i. ms r i (drop i s) \<noteq> []) [0..<Suc (length s)]"

text \<open>\<open>string.match(r)\<close> with the flag \<open>g\<close>; the source's \<open>null\<close> is the empty list.\<close>

function match_from :: "rx \<Rightarrow> nat \<Rightarrow> units \<Rightarrow> units list" where
  "match_from r i s = (case s of
     [] \<Rightarrow> if ms r i s \<noteq> [] then [[]] else []
   | u # us \<Rightarrow> (case ms r i s of
       [] \<Rightarrow> match_from r (i + 1) us
     | n # _ \<Rightarrow> if n = 0 then [] # match_from r (i + 1) us
                else take n s # match_from r (i + n) (drop n s)))"
  by pat_completeness auto
termination by (relation "measure (\<lambda>(r, i, s). length s)") auto

definition match_all :: "rx \<Rightarrow> units \<Rightarrow> units list" where
  "match_all r s = match_from r 0 s"

text \<open>\<open>string.replace(r, f)\<close> with the flag \<open>g\<close>.\<close>

function replace_from :: "rx \<Rightarrow> (units \<Rightarrow> units) \<Rightarrow> nat \<Rightarrow> units \<Rightarrow> units" where
  "replace_from r f i s = (case s of
     [] \<Rightarrow> if ms r i s \<noteq> [] then f [] else []
   | u # us \<Rightarrow> (case ms r i s of
       [] \<Rightarrow> u # replace_from r f (i + 1) us
     | n # _ \<Rightarrow> if n = 0 then f [] @ u # replace_from r f (i + 1) us
                else f (take n s) @ replace_from r f (i + n) (drop n s)))"
  by pat_completeness auto
termination by (relation "measure (\<lambda>(r, f, i, s). length s)") auto

definition replace_all :: "rx \<Rightarrow> (units \<Rightarrow> units) \<Rightarrow> units \<Rightarrow> units" where
  "replace_all r f s = replace_from r f 0 s"

text \<open>\<open>string.replace(r, f)\<close> without the flag: the first match only.\<close>

fun replace_first_from :: "rx \<Rightarrow> (units \<Rightarrow> units) \<Rightarrow> nat \<Rightarrow> units \<Rightarrow> units" where
  "replace_first_from r f i [] = (if ms r i [] \<noteq> [] then f [] else [])"
| "replace_first_from r f i (u # us) = (case ms r i (u # us) of
     [] \<Rightarrow> u # replace_first_from r f (i + 1) us
   | n # _ \<Rightarrow> f (take n (u # us)) @ drop n (u # us))"

definition replace_first :: "rx \<Rightarrow> (units \<Rightarrow> units) \<Rightarrow> units \<Rightarrow> units" where
  "replace_first r f s = replace_first_from r f 0 s"

declare match_from.simps [simp del] replace_from.simps [simp del]

lemma match_from_Nil: "match_from r i [] = (if ms r i [] \<noteq> [] then [[]] else [])"
  by (subst match_from.simps) simp

lemma match_from_Cons:
  "match_from r i (u # us) = (case ms r i (u # us) of
     [] \<Rightarrow> match_from r (i + 1) us
   | n # _ \<Rightarrow> if n = 0 then [] # match_from r (i + 1) us
              else take n (u # us) # match_from r (i + n) (drop n (u # us)))"
  by (subst match_from.simps) simp

lemma replace_from_Nil: "replace_from r f i [] = (if ms r i [] \<noteq> [] then f [] else [])"
  by (subst replace_from.simps) simp

lemma replace_from_Cons:
  "replace_from r f i (u # us) = (case ms r i (u # us) of
     [] \<Rightarrow> u # replace_from r f (i + 1) us
   | n # _ \<Rightarrow> if n = 0 then f [] @ u # replace_from r f (i + 1) us
              else f (take n (u # us)) @ replace_from r f (i + n) (drop n (u # us)))"
  by (subst replace_from.simps) simp

section \<open>Laws\<close>

declare ms.simps(6) [simp del]

lemma ms_le: "n \<in> set (ms r i s) \<Longrightarrow> n \<le> length s"
proof (induction r i s arbitrary: n rule: ms.induct)
  case (1 p i s)
  then show ?case by (auto split: list.splits if_splits)
next
  case (3 a b i s)
  then obtain k m where "k \<in> set (ms a i s)" "m \<in> set (ms b (i + k) (drop k s))" "n = k + m" by auto
  with 3 show ?case by fastforce
next
  case (6 a i s)
  then consider "n = 0" | k m where "k \<in> set (ms a i s)" "0 < k" "s \<noteq> []"
      "m \<in> set (ms (RStar a) (i + k) (drop k s))" "n = k + m"
    by (auto simp: ms.simps(6) [of a i s] split: if_splits)
  then show ?case
  proof cases
    case 2
    with 6(2) [OF 2(1), of m] have "m \<le> length (drop k s)" by simp
    with 6(1) [OF 2(1)] 2 show ?thesis by simp
  qed simp
qed (auto split: if_splits)

text \<open>Every repetition and option can match nothing.\<close>

lemma ms_star_nonempty [simp]: "ms (RStar a) i s \<noteq> []"
  by (subst ms.simps) simp

lemma ms_opt_nonempty [simp]: "ms (ROpt a) i s \<noteq> []"
  by simp

lemma ms_seq_nonempty: "ms a i s \<noteq> [] \<Longrightarrow> (\<And>n. ms b (i + n) (drop n s) \<noteq> []) \<Longrightarrow> ms (RSeq a b) i s \<noteq> []"
  by (cases "ms a i s") auto

lemma ms_star_stop: "ms a i s = [] \<Longrightarrow> ms (RStar a) i s = [0]"
  by (simp add: ms.simps(6))

lemma ms_star_units: "ms (RStar (RUnit p)) i s = rev [0..<Suc (length (takeWhile p s))]"
proof (induction s arbitrary: i)
  case (Cons u us)
  have "[0..<Suc (Suc k)] = 0 # map Suc [0..<Suc k]" for k
    by (simp add: map_Suc_upt upt_conv_Cons del: upt_Suc)
  then have "map Suc (rev [0..<Suc k]) @ [0] = rev [0..<Suc (Suc k)]" for k
    by (simp add: rev_map del: upt_Suc)
  moreover have "(+) (Suc 0) = Suc" and "[0..<Suc 0] = [0]" by auto
  ultimately show ?case using Cons [of "i + 1"]
    by (simp add: ms.simps(6) [of _ i "u # us"] del: upt_Suc)
qed (simp add: ms.simps(6))

text \<open>An expression without matches replaces nothing.\<close>

lemma replace_from_no_match:
  "(\<And>j. j \<le> length s \<Longrightarrow> ms r (i + j) (drop j s) = []) \<Longrightarrow> replace_from r f i s = s"
proof (induction s arbitrary: i)
  case Nil
  from this [of 0] show ?case by (simp add: replace_from_Nil)
next
  case (Cons u us)
  have "ms r (Suc i + j) (drop j us) = []" if "j \<le> length us" for j
    using Cons.prems [of "Suc j"] that by simp
  with Cons.IH [of "Suc i"] Cons.prems [of 0] show ?case by (simp add: replace_from_Cons)
qed

lemma replace_all_no_match: "\<not> rx_test r s \<Longrightarrow> replace_all r f s = s"
  unfolding replace_all_def rx_test_def
  by (rule replace_from_no_match) (auto simp: list_ex_iff less_Suc_eq_le)

text \<open>An expression that matches at least one unit everywhere cuts a string into parts.\<close>

lemma match_from_covers:
  assumes match: "\<And>i u us. ms r i (u # us) \<noteq> [] \<and> 0 < hd (ms r i (u # us))" and none: "\<And>i. ms r i [] = []"
  shows "concat (match_from r i s) = s"
proof (induction "length s" arbitrary: i s rule: less_induct)
  case less
  show ?case
  proof (cases s)
    case (Cons u us)
    with match [of i u us] obtain n ns where n: "ms r i s = n # ns" "0 < n" by (cases "ms r i s") auto
    with Cons less [of "drop n s" "i + n"] show ?thesis by (simp add: match_from_Cons)
  qed (simp add: match_from_Nil none)
qed

end
