(* ===== verification/LodashStrings.thy ===== *)
theory LodashStrings
  imports Regexes LodashNumbers
begin

text \<open>
  Strings in \<open>lodash-4.2.1.js\<close>: symbols (what a reader sees as one character may be several 16-bit
  units), escaping, repeating, padding, trimming and truncating. Arguments that are strings were
  converted already; \<open>None\<close> is \<open>undefined\<close>. A result of \<open>None\<close> is the \<open>TypeError\<close> for a read of
  \<open>null\<close>.
\<close>

section \<open>Symbols\<close>

definition unit_in :: "(unit16 \<times> unit16) list \<Rightarrow> unit16 \<Rightarrow> bool" where
  "unit_in ranges u \<longleftrightarrow> list_ex (\<lambda>(a, b). a \<le> u \<and> u \<le> b) ranges"

definition rsAstralRange :: "(unit16 \<times> unit16) list" where
  "rsAstralRange = [(0xd800, 0xdfff)]"

definition rsComboMarksRange :: "(unit16 \<times> unit16) list" where
  "rsComboMarksRange = [(0x300, 0x36f), (0xfe20, 0xfe23)]"

definition rsComboSymbolsRange :: "(unit16 \<times> unit16) list" where
  "rsComboSymbolsRange = [(0x20d0, 0x20f0)]"

definition rsVarRange :: "(unit16 \<times> unit16) list" where
  "rsVarRange = [(0xfe0e, 0xfe0f)]"

definition rsZWJ :: unit16 where
  "rsZWJ = 0x200d"

definition rsAstral :: rx where
  "rsAstral = RUnit (unit_in rsAstralRange)"

definition rsCombo :: rx where
  "rsCombo = RUnit (unit_in (rsComboMarksRange @ rsComboSymbolsRange))"

definition rsFitz :: rx where
  "rsFitz = RSeq (RUnit ((=) 0xd83c)) (RUnit (unit_in [(0xdffb, 0xdfff)]))"

definition rsModifier :: rx where
  "rsModifier = RAlt rsCombo rsFitz"

definition rsNonAstral :: rx where
  "rsNonAstral = RUnit (\<lambda>u. \<not> unit_in rsAstralRange u)"

definition regional_letter :: rx where
  "regional_letter = RSeq (RUnit ((=) 0xd83c)) (RUnit (unit_in [(0xdde6, 0xddff)]))"

definition rsRegional :: rx where
  "rsRegional = RSeq regional_letter regional_letter"

definition rsSurrPair :: rx where
  "rsSurrPair = RSeq (RUnit (unit_in [(0xd800, 0xdbff)])) (RUnit (unit_in [(0xdc00, 0xdfff)]))"

definition reOptMod :: rx where
  "reOptMod = ROpt rsModifier"

definition rsOptVar :: rx where
  "rsOptVar = ROpt (RUnit (unit_in rsVarRange))"

definition rsOptJoin :: rx where
  "rsOptJoin = RStar (RSeq (RUnit ((=) rsZWJ)) (RSeq (any_of [rsNonAstral, rsRegional, rsSurrPair])
     (RSeq rsOptVar reOptMod)))"

definition rsSeq :: rx where
  "rsSeq = RSeq rsOptVar (RSeq reOptMod rsOptJoin)"

definition rsSymbol :: rx where
  "rsSymbol = any_of [RSeq rsNonAstral (ROpt rsCombo), rsCombo, rsRegional, rsSurrPair, rsAstral]"

definition reComplexSymbol :: rx where
  "reComplexSymbol = RAlt (RSeq rsFitz (RAhead rsFitz)) (RSeq rsSymbol rsSeq)"

definition reHasComplexSymbol :: rx where
  "reHasComplexSymbol = RUnit (unit_in ([(rsZWJ, rsZWJ)] @ rsAstralRange @ rsComboMarksRange @
     rsComboSymbolsRange @ rsVarRange))"

definition stringSize :: "units \<Rightarrow> nat" where
  "stringSize string =
     (if \<not> (string \<noteq> [] \<and> rx_test reHasComplexSymbol string) then length string
      else length (match_all reComplexSymbol string))"

text \<open>\<open>match\<close> answers \<open>null\<close> when nothing matches.\<close>

definition stringToArray :: "units \<Rightarrow> units list option" where
  "stringToArray string =
     (let symbols = match_all reComplexSymbol string in if symbols = [] then None else Some symbols)"

section \<open>Escaping\<close>

definition reEscapedHtml :: rx where
  "reEscapedHtml = RSeq (literal (ascii ''&'')) (RSeq (any_of (map (\<lambda>e. literal (ascii e))
     [''amp'', ''lt'', ''gt'', ''quot'', ''#39'', ''#96''])) (literal (ascii '';'')))"

definition reUnescapedHtml :: rx where
  "reUnescapedHtml = RUnit (\<lambda>u. u \<in> set (ascii [CHR ''&'', CHR ''<'', CHR ''>'', CHR 0x22, CHR 0x27, CHR 0x60]))"

definition htmlEscapes :: "(units \<times> units) list" where
  "htmlEscapes = [(ascii ''&'', ascii ''&amp;''), (ascii ''<'', ascii ''&lt;''), (ascii ''>'', ascii ''&gt;''),
     (ascii [CHR 0x22], ascii ''&quot;''), (ascii [CHR 0x27], ascii ''&#39;''), (ascii [CHR 0x60], ascii ''&#96;'')]"

definition htmlUnescapes :: "(units \<times> units) list" where
  "htmlUnescapes = [(ascii ''&amp;'', ascii ''&''), (ascii ''&lt;'', ascii ''<''), (ascii ''&gt;'', ascii ''>''),
     (ascii ''&quot;'', ascii [CHR 0x22]), (ascii ''&#39;'', ascii [CHR 0x27]), (ascii ''&#96;'', ascii [CHR 0x60])]"

text \<open>A table read with a key it does not have answers \<open>undefined\<close>, which is inserted as text.\<close>

definition escapeHtmlChar :: "units \<Rightarrow> units" where
  "escapeHtmlChar chr = (case map_of htmlEscapes chr of Some v \<Rightarrow> v | None \<Rightarrow> ascii ''undefined'')"

definition unescapeHtmlChar :: "units \<Rightarrow> units" where
  "unescapeHtmlChar chr = (case map_of htmlUnescapes chr of Some v \<Rightarrow> v | None \<Rightarrow> ascii ''undefined'')"

definition escape :: "units \<Rightarrow> units" where
  "escape string = (if string \<noteq> [] \<and> rx_test reUnescapedHtml string
     then replace_all reUnescapedHtml escapeHtmlChar string else string)"

definition unescape :: "units \<Rightarrow> units" where
  "unescape string = (if string \<noteq> [] \<and> rx_test reEscapedHtml string
     then replace_all reEscapedHtml unescapeHtmlChar string else string)"

definition reRegExpChar :: rx where
  "reRegExpChar = RUnit (\<lambda>u. u \<in> set (ascii (CHR 0x5c # ''^$.*+?()[]{}|'')))"

definition escapeRegExp :: "units \<Rightarrow> units" where
  "escapeRegExp string = (if string \<noteq> [] \<and> rx_test reRegExpChar string
     then replace_all reRegExpChar (\<lambda>m. ascii [CHR 0x5c] @ m) string else string)"

section \<open>Repeating and padding\<close>

definition MAX_SAFE_INTEGER :: int where
  "MAX_SAFE_INTEGER = 9007199254740991"

text \<open>The loop of \<open>repeat\<close> runs from a count of at least one.\<close>

function repeat_loop :: "units \<Rightarrow> int \<Rightarrow> units \<Rightarrow> units" where
  "repeat_loop string n result =
     (let result1 = (if n mod 2 \<noteq> 0 then result @ string else result);
          n1 = n div 2;
          string1 = string @ string
      in if n1 > 0 then repeat_loop string1 n1 result1 else result1)"
  by pat_completeness auto
termination by (relation "measure (\<lambda>(string, n, result). nat n)") auto

declare repeat_loop.simps [simp del]

definition repeat_int :: "units \<Rightarrow> int \<Rightarrow> units" where
  "repeat_int string n =
     (if string = [] \<or> n < 1 \<or> n > MAX_SAFE_INTEGER then [] else repeat_loop string n [])"

definition lo_repeat :: "units \<Rightarrow> jsnum option \<Rightarrow> units" where
  "lo_repeat string n = repeat_int string (toInteger n)"

text \<open>The number of repetitions; without characters the quotient is infinite.\<close>

definition padding_count :: "int \<Rightarrow> nat \<Rightarrow> jsnum" where
  "padding_count padLength chars_size =
     (if chars_size = 0 then PosInf else num_int \<lceil>of_int padLength / of_nat chars_size :: rat\<rceil>)"

definition createPadding :: "units \<Rightarrow> jsnum option \<Rightarrow> units option \<Rightarrow> units option" where
  "createPadding string len chars =
     (let n = toInteger len;
          strLength = int (stringSize string)
      in if n = 0 \<or> strLength \<ge> n then Some []
         else let padLength = n - strLength;
                  chars1 = (case chars of None \<Rightarrow> ascii '' '' | Some c \<Rightarrow> c);
                  result = lo_repeat chars1 (Some (padding_count padLength (stringSize chars1)))
              in if rx_test reHasComplexSymbol chars1
                 then map_option (\<lambda>symbols. concat (take (nat padLength) symbols)) (stringToArray result)
                 else Some (take (nat padLength) result))"

definition pad :: "units \<Rightarrow> jsnum option \<Rightarrow> units option \<Rightarrow> units option" where
  "pad string len chars =
     (let n = toInteger len;
          strLength = int (stringSize string)
      in if n = 0 \<or> strLength \<ge> n then Some string
         else let mid = of_int (n - strLength) / (2 :: rat)
              in case (createPadding [] (Some (num_int \<lfloor>mid\<rfloor>)) chars, createPadding [] (Some (num_int \<lceil>mid\<rceil>)) chars) of
                   (Some left, Some right) \<Rightarrow> Some (left @ string @ right)
                 | _ \<Rightarrow> None)"

definition padEnd :: "units \<Rightarrow> jsnum option \<Rightarrow> units option \<Rightarrow> units option" where
  "padEnd string len chars = map_option (\<lambda>p. string @ p) (createPadding string len chars)"

definition padStart :: "units \<Rightarrow> jsnum option \<Rightarrow> units option \<Rightarrow> units option" where
  "padStart string len chars = map_option (\<lambda>p. p @ string) (createPadding string len chars)"

section \<open>Prefixes and suffixes\<close>

text \<open>\<open>string.indexOf(target, position)\<close> and \<open>string.lastIndexOf(target, position)\<close>\<close>

definition occurs_at :: "units \<Rightarrow> units \<Rightarrow> nat \<Rightarrow> bool" where
  "occurs_at target string k \<longleftrightarrow> k + length target \<le> length string \<and> take (length target) (drop k string) = target"

definition js_indexOf :: "units \<Rightarrow> units \<Rightarrow> int \<Rightarrow> int" where
  "js_indexOf string target position =
     (case find (occurs_at target string) [nat (max 0 (min position (int (length string))))..<Suc (length string)] of
        Some k \<Rightarrow> int k | None \<Rightarrow> -1)"

definition js_lastIndexOf :: "units \<Rightarrow> units \<Rightarrow> int \<Rightarrow> int" where
  "js_lastIndexOf string target position =
     (case find (occurs_at target string) (rev [0..<Suc (nat (max 0 (min position (int (length string)))))]) of
        Some k \<Rightarrow> int k | None \<Rightarrow> -1)"

definition clamp_position :: "jsnum option \<Rightarrow> nat \<Rightarrow> int" where
  "clamp_position position len = toInteger (Some
     (baseClamp (num_int (toInteger position)) (Some (num_int 0)) (Some (num_int (int len)))))"

definition lo_startsWith :: "units \<Rightarrow> units \<Rightarrow> jsnum option \<Rightarrow> bool" where
  "lo_startsWith string target position =
     (let p = clamp_position position (length string)
      in js_lastIndexOf string target p = p)"

definition lo_endsWith :: "units \<Rightarrow> units \<Rightarrow> jsnum option \<Rightarrow> bool" where
  "lo_endsWith string target position =
     (let p = (case position of None \<Rightarrow> int (length string) | Some _ \<Rightarrow> clamp_position position (length string));
          p1 = p - int (length target)
      in p1 \<ge> 0 \<and> js_indexOf string target p1 = p1)"

section \<open>Trimming\<close>

text \<open>Which units are white space is a table of the language: \<open>sp\<close>.\<close>

definition reTrimStart :: "(unit16 \<Rightarrow> bool) \<Rightarrow> rx" where
  "reTrimStart sp = RSeq RStart (RPlus (RUnit sp))"

definition reTrimEnd :: "(unit16 \<Rightarrow> bool) \<Rightarrow> rx" where
  "reTrimEnd sp = RSeq (RPlus (RUnit sp)) REnd"

definition reTrim :: "(unit16 \<Rightarrow> bool) \<Rightarrow> rx" where
  "reTrim sp = RAlt (RSeq RStart (RPlus (RUnit sp))) (RSeq (RPlus (RUnit sp)) REnd)"

definition charsStartIndex :: "units list \<Rightarrow> units list \<Rightarrow> nat" where
  "charsStartIndex strSymbols chrSymbols =
     (case find (\<lambda>i. strSymbols ! i \<notin> set chrSymbols) [0..<length strSymbols] of
        Some i \<Rightarrow> i | None \<Rightarrow> length strSymbols)"

definition charsEndIndex :: "units list \<Rightarrow> units list \<Rightarrow> int" where
  "charsEndIndex strSymbols chrSymbols =
     (case find (\<lambda>i. strSymbols ! i \<notin> set chrSymbols) (rev [0..<length strSymbols]) of
        Some i \<Rightarrow> int i | None \<Rightarrow> -1)"

text \<open>\<open>guard\<close>: the call comes from an iteration method.\<close>

definition lo_trim :: "(unit16 \<Rightarrow> bool) \<Rightarrow> units \<Rightarrow> units option \<Rightarrow> bool \<Rightarrow> units option" where
  "lo_trim sp string chars guard =
     (if string = [] then Some string
      else case (if guard then None else chars) of
        None \<Rightarrow> Some (replace_all (reTrim sp) (\<lambda>m. []) string)
      | Some cs \<Rightarrow> if cs = [] then Some string
          else (case (stringToArray string, stringToArray cs) of
             (Some strSymbols, Some chrSymbols) \<Rightarrow>
               Some (concat (drop (charsStartIndex strSymbols chrSymbols)
                 (take (nat (charsEndIndex strSymbols chrSymbols + 1)) strSymbols)))
           | _ \<Rightarrow> None))"

definition trimEnd :: "(unit16 \<Rightarrow> bool) \<Rightarrow> units \<Rightarrow> units option \<Rightarrow> bool \<Rightarrow> units option" where
  "trimEnd sp string chars guard =
     (if string = [] then Some string
      else case (if guard then None else chars) of
        None \<Rightarrow> Some (replace_first (reTrimEnd sp) (\<lambda>m. []) string)
      | Some cs \<Rightarrow> if cs = [] then Some string
          else (case (stringToArray string, stringToArray cs) of
             (Some strSymbols, Some chrSymbols) \<Rightarrow>
               Some (concat (take (nat (charsEndIndex strSymbols chrSymbols + 1)) strSymbols))
           | _ \<Rightarrow> None))"

definition trimStart :: "(unit16 \<Rightarrow> bool) \<Rightarrow> units \<Rightarrow> units option \<Rightarrow> bool \<Rightarrow> units option" where
  "trimStart sp string chars guard =
     (if string = [] then Some string
      else case (if guard then None else chars) of
        None \<Rightarrow> Some (replace_first (reTrimStart sp) (\<lambda>m. []) string)
      | Some cs \<Rightarrow> if cs = [] then Some string
          else (case (stringToArray string, stringToArray cs) of
             (Some strSymbols, Some chrSymbols) \<Rightarrow>
               Some (concat (drop (charsStartIndex strSymbols chrSymbols) strSymbols))
           | _ \<Rightarrow> None))"

section \<open>Truncating\<close>

text \<open>
  The regular expression of a separator is the sandbox's, of any syntax: \<open>re_search\<close> is the position of
  the first match or \<open>-1\<close>, \<open>re_exec\<close> gives the start and the end of the first match from an index on.
\<close>

record regexp =
  re_search :: "units \<Rightarrow> int"
  re_exec :: "units \<Rightarrow> nat \<Rightarrow> (nat \<times> nat) option"

datatype separator = NoSeparator | TextSeparator units | RegExpSeparator regexp

record truncate_options =
  tr_length :: "jsnum option option"
  tr_omission :: "units option"
  tr_separator :: separator

definition DEFAULT_TRUNC_LENGTH :: int where
  "DEFAULT_TRUNC_LENGTH = 30"

definition DEFAULT_TRUNC_OMISSION :: units where
  "DEFAULT_TRUNC_OMISSION = ascii ''...''"

text \<open>The loop over the matches: each search starts at the end of the match before.\<close>

partial_function (option) last_match ::
  "regexp \<Rightarrow> units \<Rightarrow> nat \<Rightarrow> nat option \<Rightarrow> nat option option" where
  "last_match r substring lastIndex newEnd = (case re_exec r substring lastIndex of
     None \<Rightarrow> Some newEnd
   | Some (index, matchEnd) \<Rightarrow> last_match r substring matchEnd (Some index))"

text \<open>The cut at the separator, of the string shortened to \<open>e\<close> units. \<open>None\<close>: the loop does not end.\<close>

definition cut_at_separator :: "separator \<Rightarrow> units \<Rightarrow> units \<Rightarrow> nat \<Rightarrow> units option" where
  "cut_at_separator sep string result e = (case sep of
     NoSeparator \<Rightarrow> Some result
   | RegExpSeparator r \<Rightarrow>
       if re_search r (drop e string) \<noteq> 0
       then (case last_match r result 0 None of
               None \<Rightarrow> None
             | Some newEnd \<Rightarrow> Some (take (case newEnd of None \<Rightarrow> e | Some k \<Rightarrow> k) result))
       else Some result
   | TextSeparator t \<Rightarrow>
       if js_indexOf string t (int e) \<noteq> int e
       then (let index = js_lastIndexOf result t (int (length result))
             in Some (if index > -1 then take (nat index) result else result))
       else Some result)"

definition truncate :: "units \<Rightarrow> truncate_options option \<Rightarrow> units option" where
  "truncate string options =
     (let len = (case options of None \<Rightarrow> DEFAULT_TRUNC_LENGTH
                 | Some ops \<Rightarrow> (case tr_length ops of None \<Rightarrow> DEFAULT_TRUNC_LENGTH | Some n \<Rightarrow> toInteger n));
          omission = (case options of None \<Rightarrow> DEFAULT_TRUNC_OMISSION
                 | Some ops \<Rightarrow> (case tr_omission ops of None \<Rightarrow> DEFAULT_TRUNC_OMISSION | Some t \<Rightarrow> t));
          sep = (case options of None \<Rightarrow> NoSeparator | Some ops \<Rightarrow> tr_separator ops);
          strSymbols = (if rx_test reHasComplexSymbol string then stringToArray string else None);
          strLength = int (case strSymbols of Some symbols \<Rightarrow> length symbols | None \<Rightarrow> length string)
      in if len \<ge> strLength then Some string
         else let e = len - int (stringSize omission)
              in if e < 1 then Some omission
                 else let result = (case strSymbols of
                             Some symbols \<Rightarrow> concat (take (nat e) symbols)
                           | None \<Rightarrow> take (nat e) string);
                          e1 = (case strSymbols of
                             Some _ \<Rightarrow> e + (int (length result) - e) | None \<Rightarrow> e)
                      in map_option (\<lambda>r. r @ omission) (cut_at_separator sep string result (nat e1)))"

section \<open>The case of the first symbol\<close>

text \<open>\<open>toUpperCase\<close> and \<open>toLowerCase\<close> are tables of the language: \<open>method\<close> and \<open>lower\<close>.\<close>

definition createCaseFirst :: "(units \<Rightarrow> units) \<Rightarrow> units \<Rightarrow> units" where
  "createCaseFirst method string =
     (let strSymbols = (if rx_test reHasComplexSymbol string then stringToArray string else None);
          chr = (case strSymbols of Some symbols \<Rightarrow> (case symbols of y # _ \<Rightarrow> y | [] \<Rightarrow> []) | None \<Rightarrow> take 1 string);
          trailing = (case strSymbols of Some symbols \<Rightarrow> concat (drop 1 symbols) | None \<Rightarrow> drop 1 string)
      in method chr @ trailing)"

definition capitalize :: "(units \<Rightarrow> units) \<Rightarrow> (units \<Rightarrow> units) \<Rightarrow> units \<Rightarrow> units" where
  "capitalize upper lower string = createCaseFirst upper (lower string)"

end
