(* ===== verification/LodashStringLaws.thy ===== *)
theory LodashStringLaws
  imports LodashStrings
begin

text \<open>
  The laws of the string functions: symbols cover a string, escaping is undone by unescaping, repeating
  by squaring repeats, padding and trimming reach what they promise, and when truncating returns.
\<close>

section \<open>Symbols\<close>

lemmas symbol_defs = reComplexSymbol_def rsSymbol_def rsSeq_def rsOptVar_def reOptMod_def rsOptJoin_def
  rsFitz_def rsCombo_def rsNonAstral_def rsAstral_def rsModifier_def

lemma rsSeq_nonempty: "ms rsSeq i s \<noteq> []"
  unfolding rsSeq_def rsOptVar_def reOptMod_def rsOptJoin_def
  by (intro ms_seq_nonempty ms_opt_nonempty ms_star_nonempty)

lemma rsSymbol_nonempty: "ms rsSymbol i (u # us) \<noteq> []"
  by (cases "unit_in rsAstralRange u") (simp_all add: rsSymbol_def rsNonAstral_def rsAstral_def)

lemma reComplexSymbol_nonempty: "ms reComplexSymbol i (u # us) \<noteq> []"
  using ms_seq_nonempty [OF rsSymbol_nonempty rsSeq_nonempty] by (simp add: reComplexSymbol_def)

lemma rsSymbol_pos: "n \<in> set (ms rsSymbol i s) \<Longrightarrow> 0 < n"
  by (auto simp: rsSymbol_def rsNonAstral_def rsAstral_def rsCombo_def rsRegional_def regional_letter_def
      rsSurrPair_def split: list.splits if_splits)

lemma ms_seq_pos: "(\<And>k. k \<in> set (ms a i s) \<Longrightarrow> 0 < k) \<Longrightarrow> n \<in> set (ms (RSeq a b) i s) \<Longrightarrow> 0 < n"
  by auto

lemma ms_unit_pos: "n \<in> set (ms (RUnit p) i s) \<Longrightarrow> 0 < n"
  by (auto split: list.splits if_splits)

lemma reComplexSymbol_pos:
  assumes "n \<in> set (ms reComplexSymbol i s)"
  shows "0 < n"
proof -
  from assms consider "n \<in> set (ms (RSeq rsFitz (RAhead rsFitz)) i s)" | "n \<in> set (ms (RSeq rsSymbol rsSeq) i s)"
    unfolding reComplexSymbol_def ms.simps(4) by auto
  then show ?thesis
  proof cases
    case 1
    then show ?thesis unfolding rsFitz_def by (elim ms_seq_pos [rotated]) (rule ms_unit_pos)
  next
    case 2
    then show ?thesis by (elim ms_seq_pos [rotated]) (rule rsSymbol_pos)
  qed
qed

lemma reComplexSymbol_Nil: "ms reComplexSymbol i [] = []"
  by (simp add: reComplexSymbol_def rsFitz_def rsSymbol_def rsNonAstral_def rsCombo_def rsRegional_def
      regional_letter_def rsSurrPair_def rsAstral_def)

text \<open>The symbols of a string are the string.\<close>

lemma symbols_cover: "concat (match_all reComplexSymbol s) = s"
  unfolding match_all_def
proof (rule match_from_covers)
  fix i u us
  show "ms reComplexSymbol i (u # us) \<noteq> [] \<and> 0 < hd (ms reComplexSymbol i (u # us))"
    using reComplexSymbol_nonempty [of i u us] reComplexSymbol_pos [of _ i "u # us"] hd_in_set by blast
qed (rule reComplexSymbol_Nil)

lemma stringToArray_Some: "s \<noteq> [] \<Longrightarrow> stringToArray s = Some (match_all reComplexSymbol s)"
  using symbols_cover [of s] by (auto simp: stringToArray_def Let_def)

text \<open>Units that are a symbol by themselves.\<close>

definition plain_unit :: "unit16 \<Rightarrow> bool" where
  "plain_unit u \<longleftrightarrow> \<not> unit_in ([(rsZWJ, rsZWJ)] @ rsAstralRange @ rsComboMarksRange @ rsComboSymbolsRange @ rsVarRange) u"

lemma plain_unit_cases:
  "plain_unit u \<Longrightarrow> u \<noteq> rsZWJ" "plain_unit u \<Longrightarrow> \<not> unit_in rsAstralRange u"
  "plain_unit u \<Longrightarrow> \<not> unit_in (rsComboMarksRange @ rsComboSymbolsRange) u"
  "plain_unit u \<Longrightarrow> \<not> unit_in rsVarRange u" "plain_unit u \<Longrightarrow> u \<noteq> 0xd83c"
  by (auto simp: plain_unit_def unit_in_def rsAstralRange_def)

lemma rx_test_unit: "rx_test (RUnit p) s \<longleftrightarrow> list_ex p s"
proof -
  have "ms (RUnit p) i (drop i s) \<noteq> [] \<longleftrightarrow> i < length s \<and> p (s ! i)" for i
    by (cases "i < length s") (simp_all add: Cons_nth_drop_Suc [symmetric])
  then show ?thesis
    by (simp add: rx_test_def list_ex_iff Bex_def in_set_conv_nth less_Suc_eq_le del: ms.simps(1))
      (metis less_imp_le)
qed

lemma complex_test: "rx_test reHasComplexSymbol s \<longleftrightarrow> \<not> list_all plain_unit s"
  by (simp add: reHasComplexSymbol_def rx_test_unit list_ex_iff list_all_iff plain_unit_def)

lemma plain_symbol:
  assumes "list_all plain_unit (u # us)"
  shows "\<exists>ns. ms reComplexSymbol i (u # us) = 1 # ns"
proof -
  note u = plain_unit_cases [of u]
  have "ms rsCombo (Suc i) us = []" "ms rsFitz (Suc i) us = []"
    "ms (RUnit (unit_in rsVarRange)) (Suc i) us = []" "ms (RUnit ((=) rsZWJ)) (Suc i) us = []"
    using assms plain_unit_cases [of "hd us"]
    by (cases us; simp add: rsCombo_def rsFitz_def)+
  then have "ms rsSeq (Suc i) us = [0]"
    by (simp add: rsSeq_def rsOptVar_def reOptMod_def rsModifier_def rsOptJoin_def ms_star_stop)
  with assms u \<open>ms rsCombo (Suc i) us = []\<close> show ?thesis
    by (simp add: reComplexSymbol_def rsFitz_def rsSymbol_def rsNonAstral_def)
qed

lemma plain_symbols: "list_all plain_unit s \<Longrightarrow> match_from reComplexSymbol i s = map (\<lambda>u. [u]) s"
proof (induction s arbitrary: i)
  case (Cons u us)
  with plain_symbol [OF Cons.prems, of i] show ?case by (auto simp: match_from_Cons)
qed (simp add: match_from_Nil reComplexSymbol_Nil)

theorem stringSize_counts_symbols: "stringSize s = length (match_all reComplexSymbol s)"
  by (cases "list_all plain_unit s") (auto simp: stringSize_def complex_test match_all_def plain_symbols)

section \<open>Escaping\<close>

definition escape_unit :: "unit16 \<Rightarrow> units" where
  "escape_unit u = (if u \<in> {38, 60, 62, 34, 39, 96} then escapeHtmlChar [u] else [u])"

lemma ms_reUnescapedHtml:
  "ms reUnescapedHtml i (u # us) = (if u \<in> {38, 60, 62, 34, 39, 96} then [1] else [])"
  by (simp add: reUnescapedHtml_def ascii_def)

lemma replace_escape: "replace_from reUnescapedHtml escapeHtmlChar i s = concat (map escape_unit s)"
proof (induction s arbitrary: i)
  case Nil
  then show ?case by (simp add: replace_from_Nil reUnescapedHtml_def)
next
  case (Cons u us)
  then show ?case by (simp add: replace_from_Cons ms_reUnescapedHtml escape_unit_def)
qed

lemma escape_units: "escape s = concat (map escape_unit s)"
proof (cases "rx_test reUnescapedHtml s")
  case True
  then show ?thesis by (auto simp: escape_def replace_all_def replace_escape)
next
  case False
  then show ?thesis
    using replace_all_no_match [OF False, of escapeHtmlChar]
    by (simp add: escape_def replace_all_def replace_escape)
qed

lemma unescape_replaces: "unescape s = replace_all reEscapedHtml unescapeHtmlChar s"
proof -
  have "ms reEscapedHtml 0 [] = []" by (simp add: reEscapedHtml_def ascii_def)
  then show ?thesis
    using replace_all_no_match [of reEscapedHtml s unescapeHtmlChar]
    by (auto simp: unescape_def replace_all_def replace_from_Nil)
qed

text \<open>An escaped unit is read back, whatever follows.\<close>

lemma replace_unescape_unit:
  "\<exists>j. replace_from reEscapedHtml unescapeHtmlChar i (escape_unit u @ rest) =
     u # replace_from reEscapedHtml unescapeHtmlChar j rest"
proof (cases "u \<in> {38, 60, 62, 34, 39, 96}")
  case True
  then consider "u = 38" | "u = 60" | "u = 62" | "u = 34" | "u = 39" | "u = 96" by blast
  then show ?thesis
    by cases (force simp: escape_unit_def escapeHtmlChar_def htmlEscapes_def unescapeHtmlChar_def htmlUnescapes_def
      reEscapedHtml_def ascii_def replace_from_Cons)+
next
  case False
  then show ?thesis
    by (auto simp: escape_unit_def replace_from_Cons reEscapedHtml_def ascii_def)
qed

text \<open>C30: unescaping undoes escaping, for every string.\<close>

theorem unescape_escape: "unescape (escape s) = s"
proof -
  have "replace_from reEscapedHtml unescapeHtmlChar i (concat (map escape_unit s)) = s" for i
  proof (induction s arbitrary: i)
    case Nil
    then show ?case by (simp add: replace_from_Nil reEscapedHtml_def ascii_def)
  next
    case (Cons u us)
    then show ?case using replace_unescape_unit [of i u "concat (map escape_unit us)"] by auto
  qed
  then show ?thesis by (simp add: unescape_replaces escape_units replace_all_def)
qed

text \<open>An escaped string has none of the characters that end a text or an attribute of HTML.\<close>

theorem escape_is_safe:
  "set (escape s) \<inter> set (ascii [CHR ''<'', CHR ''>'', CHR 0x22, CHR 0x27, CHR 0x60]) = {}"
proof -
  have "set (escape_unit u) \<inter> {60, 62, 34, 39, 96} = {}" for u
  proof (cases "u \<in> {38, 60, 62, 34, 39, 96}")
    case True
    then consider "u = 38" | "u = 60" | "u = 62" | "u = 34" | "u = 39" | "u = 96" by blast
    then show ?thesis
      by cases (simp_all add: escape_unit_def escapeHtmlChar_def htmlEscapes_def ascii_def)
  qed (simp add: escape_unit_def)
  then have "set (escape s) \<inter> {60, 62, 34, 39, 96} = {}" unfolding escape_units set_concat set_map by blast
  then show ?thesis by (simp add: ascii_def)
qed

section \<open>Repeating\<close>

lemma repeat_loop_replicate:
  "1 \<le> n \<Longrightarrow> repeat_loop string n result = result @ concat (replicate (nat n) string)"
proof (induction string n result rule: repeat_loop.induct)
  case (1 string n result)
  let ?r = "if n mod 2 \<noteq> 0 then result @ string else result"
  have rep: "concat (replicate (2 * k) string) = concat (replicate k (string @ string))" for k
    by (induction k) simp_all
  have split: "nat n = (if n mod 2 \<noteq> 0 then 1 else 0) + 2 * nat (n div 2)"
  proof -
    obtain m where "n = int m" using 1(2) by (cases n) auto
    then show ?thesis by (simp add: nat_div_distrib zmod_int) presburger
  qed
  show ?case
  proof (cases "n div 2 > 0")
    case True
    have "repeat_loop string n result = ?r @ concat (replicate (nat (n div 2)) (string @ string))"
      using 1(1) [OF refl refl refl True] True by (subst repeat_loop.simps) (simp add: Let_def)
    with rep [of "nat (n div 2)"] show ?thesis by (subst split) (simp add: replicate_add)
  next
    case False
    then have "n = 1" using 1(2) by simp
    then show ?thesis by (subst repeat_loop.simps) simp
  qed
qed

text \<open>The loop, which doubles the string, repeats it.\<close>

theorem repeat_replicates:
  assumes "n \<le> MAX_SAFE_INTEGER"
  shows "lo_repeat string (Some (num_int n)) = concat (replicate (nat n) string)"
proof (cases "string = [] \<or> n < 1")
  case True
  then show ?thesis by (auto simp: lo_repeat_def repeat_int_def)
next
  case False
  with assms show ?thesis by (simp add: lo_repeat_def repeat_int_def repeat_loop_replicate)
qed

theorem repeat_replicates_witness:
  "lo_repeat (ascii ''ab'') (Some (num_int 5)) = ascii ''ababababab''"
  using repeat_replicates [of 5 "ascii ''ab''"] by (simp add: MAX_SAFE_INTEGER_def ascii_def numeral_eq_Suc)

section \<open>Padding\<close>

text \<open>The padding of \<open>k\<close> units: the characters again and again.\<close>

definition fill_with :: "units \<Rightarrow> nat \<Rightarrow> units" where
  "fill_with chars k = map (\<lambda>i. chars ! (i mod length chars)) [0..<k]"

lemma nth_replicates:
  "i < m * length chars \<Longrightarrow> concat (replicate m chars) ! i = chars ! (i mod length chars)"
proof (induction m arbitrary: i)
  case (Suc m)
  then show ?case by (auto simp: nth_append le_mod_geq not_less)
qed simp

lemma take_replicates:
  assumes "k \<le> m * length chars"
  shows "take k (concat (replicate m chars)) = fill_with chars k"
proof (rule nth_equalityI)
  have len: "length (concat (replicate m chars)) = m * length chars" by (simp add: length_concat sum_list_replicate)
  then show "length (take k (concat (replicate m chars))) = length (fill_with chars k)"
    using assms by (simp add: fill_with_def)
  fix i assume "i < length (take k (concat (replicate m chars)))"
  with len assms show "take k (concat (replicate m chars)) ! i = fill_with chars k ! i"
    using nth_replicates [of i m chars] by (simp add: fill_with_def)
qed

definition pad_chars :: "units option \<Rightarrow> units" where
  "pad_chars chars = (case chars of None \<Rightarrow> ascii '' '' | Some c \<Rightarrow> c)"

lemma plain_size: "list_all plain_unit s \<Longrightarrow> stringSize s = length s"
  by (simp add: stringSize_def complex_test)

lemma ceiling_count:
  assumes "1 \<le> c" and "1 \<le> p"
  shows "0 \<le> \<lceil>of_int p / of_nat c :: rat\<rceil> \<and> \<lceil>of_int p / of_nat c :: rat\<rceil> \<le> p \<and>
    p \<le> \<lceil>of_int p / of_nat c :: rat\<rceil> * int c"
proof -
  have k: "\<lceil>of_int p / of_nat c :: rat\<rceil> = - (- p div int c)"
    using ceiling_divide_eq_div [of p "int c", where 'a = rat] by simp
  have "- p = - p div int c * int c + - p mod int c" by simp
  moreover have "0 \<le> - p mod int c" using assms(1) by simp
  ultimately have "p \<le> - (- p div int c) * int c" by linarith
  moreover have "- p \<le> - p div int c"
  proof -
    have "- p = (- p * int c) div int c"
      by (rule sym, rule nonzero_mult_div_cancel_right) (use assms(1) in simp)
    also have "\<dots> \<le> - p div int c" using assms by (intro zdiv_mono1) (simp_all add: mult_le_cancel_left)
    finally show ?thesis .
  qed
  moreover have "- p div int c \<le> 0" using assms by (simp add: div_nonpos_pos_le0)
  ultimately show ?thesis unfolding k by linarith
qed

lemma half_floor: "\<lfloor>of_int d / (2 :: rat)\<rfloor> = d div 2"
  using floor_divide_of_int_eq [of d 2, where 'a = rat] by simp

lemma half_ceiling: "\<lceil>of_int d / (2 :: rat)\<rceil> = d - d div 2"
  using ceiling_divide_eq_div [of d 2, where 'a = rat] by simp

lemma createPadding_fills:
  assumes "list_all plain_unit (pad_chars chars)" and "pad_chars chars \<noteq> []" and "n \<le> MAX_SAFE_INTEGER"
  shows "createPadding string (Some (num_int n)) chars =
    Some (fill_with (pad_chars chars) (nat (n - int (stringSize string))))"
proof (cases "n = 0 \<or> int (stringSize string) \<ge> n")
  case True
  then show ?thesis by (auto simp: createPadding_def Let_def fill_with_def)
next
  case False
  let ?c = "pad_chars chars" and ?p = "n - int (stringSize string)"
  let ?q = "of_int ?p / of_nat (length ?c) :: rat"
  have "1 \<le> length ?c" using assms(2) by (cases ?c) auto
  moreover have p: "1 \<le> ?p" "?p \<le> n" using False by auto
  ultimately have q: "0 \<le> \<lceil>?q\<rceil>" "\<lceil>?q\<rceil> \<le> ?p" "?p \<le> \<lceil>?q\<rceil> * int (length ?c)"
    using ceiling_count [of "length ?c" ?p] by blast+
  then have le: "\<lceil>?q\<rceil> \<le> MAX_SAFE_INTEGER" using p(2) assms(3) by linarith
  have "nat ?p \<le> nat \<lceil>?q\<rceil> * length ?c"
    using q(1,3) by (metis nat_int nat_le_iff nat_mult_distrib nat_mono)
  then have "take (nat ?p) (concat (replicate (nat \<lceil>?q\<rceil>) ?c)) = fill_with ?c (nat ?p)"
    by (rule take_replicates)
  moreover have "lo_repeat ?c (Some (padding_count ?p (stringSize ?c))) = concat (replicate (nat \<lceil>?q\<rceil>) ?c)"
    using le assms(1,2) by (simp add: padding_count_def plain_size repeat_replicates)
  ultimately show ?thesis
    using False assms(1) by (auto simp: createPadding_def Let_def complex_test pad_chars_def [symmetric])
qed

text \<open>Padding puts characters on both sides until the size is reached, one more on the right.\<close>

theorem pad_centers:
  assumes "list_all plain_unit (pad_chars chars)" and "pad_chars chars \<noteq> []" and "n \<le> MAX_SAFE_INTEGER"
  shows "pad string (Some (num_int n)) chars =
    (let k = nat (n - int (stringSize string))
     in Some (fill_with (pad_chars chars) (k div 2) @ string @ fill_with (pad_chars chars) (k - k div 2)))"
proof (cases "n = 0 \<or> int (stringSize string) \<ge> n")
  case True
  then show ?thesis by (auto simp: pad_def Let_def fill_with_def)
next
  case False
  let ?d = "n - int (stringSize string)"
  have z: "stringSize [] = 0" by (simp add: stringSize_def)
  note pad = createPadding_fills [OF assms(1,2), of _ "[]", unfolded z]
  have n: "nat (?d div 2) = nat ?d div 2" "nat (?d - ?d div 2) = nat ?d - nat ?d div 2"
    using False by (simp_all add: nat_div_distrib nat_diff_distrib)
  have "?d div 2 \<le> MAX_SAFE_INTEGER" "?d - ?d div 2 \<le> MAX_SAFE_INTEGER" using False assms(3) by linarith+
  from pad [OF this(1)] pad [OF this(2)] show ?thesis
    using False n by (simp add: pad_def Let_def half_floor half_ceiling del: of_int_diff)
qed

theorem pad_centers_witness:
  "pad (ascii ''abc'') (Some (num_int 8)) (Some (ascii ''_-'')) = Some (ascii ''_-abc_-_'')"
proof -
  have "nat (8 - int (stringSize (ascii ''abc''))) = 5"
    by (simp add: plain_size ascii_def plain_unit_def unit_in_def rsZWJ_def rsAstralRange_def
        rsComboMarksRange_def rsComboSymbolsRange_def rsVarRange_def)
  moreover have "list_all plain_unit (pad_chars (Some (ascii ''_-'')))"
    by (simp add: pad_chars_def ascii_def plain_unit_def unit_in_def rsZWJ_def rsAstralRange_def
        rsComboMarksRange_def rsComboSymbolsRange_def rsVarRange_def)
  moreover have "[0..<2] = [0, 1 :: nat]" "[0..<3] = [0, 1, 2 :: nat]"
    by (simp_all add: upt_rec)
  moreover have "2 mod Suc (Suc 0) = 0" by (simp add: numeral_2_eq_2)
  ultimately show ?thesis
    using pad_centers [of "Some (ascii ''_-'')" 8 "ascii ''abc''"]
    by (simp add: pad_chars_def MAX_SAFE_INTEGER_def ascii_def fill_with_def)
qed

section \<open>Trimming\<close>

text \<open>What \<open>trim\<close> is for: nothing of a class at either end.\<close>

definition strip_end :: "('a \<Rightarrow> bool) \<Rightarrow> 'a list \<Rightarrow> 'a list" where
  "strip_end p xs = rev (dropWhile p (rev xs))"

definition strip :: "('a \<Rightarrow> bool) \<Rightarrow> 'a list \<Rightarrow> 'a list" where
  "strip p xs = strip_end p (dropWhile p xs)"

lemma strip_end_Cons: "strip_end p (x # xs) = (if p x \<and> list_all p xs then [] else x # strip_end p xs)"
  by (auto simp: strip_end_def dropWhile_append list_all_iff)

lemma strip_end_all: "list_all p xs \<Longrightarrow> strip_end p xs = []"
  by (simp add: strip_end_def list_all_iff)

lemma ms_plus_units:
  "ms (RPlus (RUnit p)) i s = (case s of [] \<Rightarrow> []
     | u # us \<Rightarrow> if p u then map Suc (rev [0..<Suc (length (takeWhile p us))]) else [])"
  by (cases s) (simp_all add: ms_star_units del: upt_Suc)

lemma filter_concat_end:
  "concat (map (\<lambda>n. map ((+) n) (if drop n s = [] then [0] else [])) ns) = filter (\<lambda>n. length s \<le> n) ns"
  by (induction ns) auto

text \<open>At a unit, the expression for trailing white space matches the whole rest or nothing.\<close>

lemma ms_trailing:
  "ms (RSeq (RPlus (RUnit p)) REnd) i (u # us) =
     (if p u \<and> list_all p us then [length (u # us)] else [])"
proof -
  have "ms (RSeq (RPlus (RUnit p)) REnd) i (u # us) =
      filter (\<lambda>n. length (u # us) \<le> n) (ms (RPlus (RUnit p)) i (u # us))"
    unfolding ms.simps(3) [of "RPlus (RUnit p)" REnd] ms.simps(9) filter_concat_end ..
  also have "\<dots> = (if p u \<and> list_all p us then [length (u # us)] else [])"
  proof (cases "p u \<and> list_all p us")
    case True
    then have tw: "takeWhile p us = us" by (simp add: list_all_iff takeWhile_eq_all_conv)
    have "filter (\<lambda>n. Suc k \<le> n) (map Suc (rev [0..<Suc k])) = [Suc k]" for k
      by (auto simp: filter_map comp_def)
    then show ?thesis using True by (simp add: ms_plus_units tw del: upt_Suc ms.simps(3))
  next
    case False
    have "length (takeWhile p us) < length us" if "p u"
      using False that by (metis length_takeWhile_le le_neq_implies_less takeWhile_eq_all_conv list_all_iff takeWhile_eq_take take_all_iff order_refl)
    then show ?thesis using False by (auto simp: ms_plus_units filter_empty_conv simp del: ms.simps(3) upt_Suc)
  qed
  finally show ?thesis .
qed

lemma replace_trailing:
  "0 < i \<Longrightarrow> replace_from (reTrim p) (\<lambda>m. []) i s = strip_end p s"
proof (induction s arbitrary: i)
  case Nil
  then show ?case by (simp add: replace_from_Nil reTrim_def strip_end_def)
next
  case (Cons u us)
  have "ms (reTrim p) i (u # us) = (if p u \<and> list_all p us then [length (u # us)] else [])"
    using Cons.prems ms_trailing [of p i u us] by (simp add: reTrim_def del: ms.simps(3)) simp
  then show ?case using Cons.IH [of "Suc i"]
    by (simp add: replace_from_Cons strip_end_Cons replace_from_Nil reTrim_def)
qed

lemma ms_leading:
  "ms (RSeq RStart (RPlus (RUnit p))) 0 s = ms (RPlus (RUnit p)) 0 s"
proof -
  have "(+) 0 = (\<lambda>n :: nat. n)" by auto
  then show ?thesis by (simp add: ms.simps(3) [of RStart] del: ms.simps(3))
qed

text \<open>The leading white space is the first match; what is left is at a position after zero.\<close>

lemma ms_reTrim_start:
  "p u \<Longrightarrow> \<exists>ns. ms (reTrim p) 0 (u # us) = Suc (length (takeWhile p us)) # ns"
  by (simp add: reTrim_def ms_leading ms_plus_units del: ms.simps(3))

lemma trim_spaces: "replace_all (reTrim p) (\<lambda>m. []) s = strip p s"
proof (cases s)
  case Nil
  then show ?thesis by (simp add: replace_all_def replace_from_Nil reTrim_def strip_def strip_end_def)
next
  case (Cons u us)
  show ?thesis
  proof (cases "p u")
    case True
    obtain ns where "ms (reTrim p) 0 (u # us) = Suc (length (takeWhile p us)) # ns"
      using ms_reTrim_start [of p u us] True by blast
    then show ?thesis
      using Cons True replace_trailing [of "Suc (length (takeWhile p us))" p]
      by (simp add: replace_all_def replace_from_Cons strip_def dropWhile_eq_drop)
  next
    case False
    then have "ms (reTrim p) 0 (u # us) = []"
      by (simp add: reTrim_def ms_leading ms_trailing ms_plus_units del: ms.simps(3))
    then show ?thesis
      using Cons False replace_trailing [of 1 p us]
      by (simp add: replace_all_def replace_from_Cons strip_def strip_end_Cons)
  qed
qed

lemma charsStartIndex_length: "charsStartIndex ss cs = length (takeWhile (\<lambda>x. x \<in> set cs) ss)"
proof (induction ss)
  case (Cons x ss)
  then show ?case
    by (auto simp: charsStartIndex_def find_upt_Suc simp del: upt_Suc split: option.splits)
qed (simp add: charsStartIndex_def)

lemma charsEndIndex_take:
  "take (nat (charsEndIndex ss cs + 1)) ss = strip_end (\<lambda>x. x \<in> set cs) ss"
proof (induction ss rule: rev_induct)
  case (snoc x ss)
  have "find (\<lambda>i. (ss @ [x]) ! i \<notin> set cs) (rev [0..<length ss]) = find (\<lambda>i. ss ! i \<notin> set cs) (rev [0..<length ss])"
    by (intro find_cong) (auto simp: nth_append)
  moreover have "nat (int k + 1) \<le> length ss" if "find (\<lambda>i. ss ! i \<notin> set cs) (rev [0..<length ss]) = Some k" for k
    using that by (auto simp: find_Some_iff rev_nth)
  ultimately show ?case using snoc
    by (auto simp: charsEndIndex_def strip_end_def split: option.splits)
qed (simp add: charsEndIndex_def strip_end_def)

lemma drop_strip_end: "drop (length (takeWhile p xs)) (strip_end p xs) = strip p xs"
proof (induction xs)
  case (Cons x xs)
  then show ?case by (auto simp: strip_def strip_end_Cons strip_end_all)
qed (simp add: strip_def strip_end_def)

lemma strip_none: "strip (\<lambda>y. False) xs = xs"
  by (cases xs) (simp_all add: strip_def strip_end_def dropWhile_eq_self_iff)

text \<open>C19: trimming removes the given symbols, or white space, at both ends.\<close>

theorem trim_strips:
  "lo_trim sp string chars guard =
    (case (if guard then None else chars) of
       None \<Rightarrow> Some (strip sp string)
     | Some cs \<Rightarrow> Some (concat (strip (\<lambda>y. y \<in> set (match_all reComplexSymbol cs)) (match_all reComplexSymbol string))))"
proof (cases "string = []")
  case True
  then show ?thesis
    by (simp add: lo_trim_def strip_def strip_end_def match_all_def match_from_Nil reComplexSymbol_Nil split: option.split)
next
  case False
  then show ?thesis
    using symbols_cover [of string]
    by (auto simp: lo_trim_def trim_spaces stringToArray_Some charsEndIndex_take charsStartIndex_length
        drop_strip_end strip_none match_all_def match_from_Nil reComplexSymbol_Nil split: option.split)
qed

section \<open>Prefixes\<close>

lemma clamp_position_bounds: "clamp_position p len = max 0 (min (toInteger p) (int len))"
  by (simp add: clamp_position_def)

lemma startsWith_occurs:
  "lo_startsWith string target position \<longleftrightarrow>
     occurs_at target string (nat (clamp_position position (length string)))"
proof -
  define p where "p = nat (clamp_position position (length string))"
  have p: "clamp_position position (length string) = int p" "p \<le> length string"
    unfolding p_def clamp_position_bounds by simp_all
  have "find (occurs_at target string) (rev [0..<Suc p]) = Some p" if "occurs_at target string p"
    using that by simp
  moreover have "occurs_at target string p" if "find (occurs_at target string) (rev [0..<Suc p]) = Some p"
    using that find_Some_iff [of "occurs_at target string" "rev [0..<Suc p]" p] by (auto simp del: upt_Suc)
  ultimately show ?thesis
    unfolding lo_startsWith_def js_lastIndexOf_def p(1) using p(2)
    by (auto simp: Let_def p_def [symmetric] simp del: upt_Suc split: option.splits)
qed

section \<open>Truncating\<close>

lemma last_match_hangs:
  assumes "re_exec r s i = Some (i, i)"
  shows "last_match r s i e = None"
proof -
  have "r' = r \<longrightarrow> s' = s \<longrightarrow> k \<noteq> i" if "last_match r' s' k e = Some y" for r' s' k e y
    using that
  proof (rule last_match.raw_induct [rotated])
    fix lm :: "regexp \<Rightarrow> units \<Rightarrow> nat \<Rightarrow> nat option \<Rightarrow> nat option option" and r' s' k e y
    assume "\<And>r' s' k e y. lm r' s' k e = Some y \<Longrightarrow> r' = r \<longrightarrow> s' = s \<longrightarrow> k \<noteq> i"
      and "(case re_exec r' s' k of None \<Rightarrow> Some e | Some (index, matchEnd) \<Rightarrow> lm r' s' matchEnd (Some index)) = Some y"
    then show "r' = r \<longrightarrow> s' = s \<longrightarrow> k \<noteq> i" using assms by (auto split: option.splits)
  qed
  from this [of r s i e] show ?thesis by (cases "last_match r s i e") auto
qed

text \<open>
  What the language promises of \<open>exec\<close>: the match lies between the index the search starts at and the end
  of the string, and a search from its own start finds it again.
\<close>

definition regexp_laws :: "regexp \<Rightarrow> bool" where
  "regexp_laws r \<longleftrightarrow> (\<forall>s k i e. re_exec r s k = Some (i, e) \<longrightarrow>
     k \<le> i \<and> i \<le> e \<and> e \<le> length s \<and> re_exec r s i = Some (i, e))"

text \<open>The indexes a scan for all matches starts a search at.\<close>

inductive scan :: "regexp \<Rightarrow> units \<Rightarrow> nat \<Rightarrow> nat \<Rightarrow> bool" for r s k where
  first: "scan r s k k"
| further: "scan r s k j \<Longrightarrow> re_exec r s j = Some (i, e) \<Longrightarrow> scan r s k e"

lemma scan_head: "scan r s e j \<Longrightarrow> re_exec r s k = Some (i, e) \<Longrightarrow> scan r s k j"
  by (induction rule: scan.induct) (auto intro: scan.intros)

lemma scan_last_match: "scan r s k j \<Longrightarrow> \<exists>y. last_match r s k x = last_match r s j y"
proof (induction rule: scan.induct)
  case (further j i e)
  then obtain y where "last_match r s k x = last_match r s j y" by blast
  also have "\<dots> = last_match r s e (Some i)" using further(2) by (subst last_match.simps) simp
  finally show ?case by blast
qed blast

lemma last_match_None:
  assumes "regexp_laws r"
  shows "last_match r s k x = None \<longleftrightarrow> (\<exists>j i. scan r s k j \<and> re_exec r s j = Some (i, i))"
proof
  assume "\<exists>j i. scan r s k j \<and> re_exec r s j = Some (i, i)"
  then obtain j i where j: "scan r s k j" "re_exec r s j = Some (i, i)" by blast
  obtain y where "last_match r s k x = last_match r s j y" using scan_last_match [OF j(1)] by blast
  also have "\<dots> = last_match r s i (Some i)" using j(2) by (subst last_match.simps) simp
  also have "\<dots> = None" using j(2) assms by (intro last_match_hangs) (simp add: regexp_laws_def)
  finally show "last_match r s k x = None" .
next
  have "(\<forall>j i. scan r s k j \<longrightarrow> re_exec r s j \<noteq> Some (i, i)) \<Longrightarrow> last_match r s k x \<noteq> None"
  proof (induction "Suc (length s) - k" arbitrary: k x rule: less_induct)
    case less
    show ?case
    proof (cases "re_exec r s k")
      case (Some m)
      then obtain i e where m: "re_exec r s k = Some (i, e)" by (cases m) auto
      then have "k \<le> i" "i \<le> e" "e \<le> length s" "i \<noteq> e"
        using assms less.prems scan.first [of r s k] by (auto simp: regexp_laws_def)
      with less.hyps [of e "Some i"] less.prems scan_head [OF _ m] m show ?thesis
        by (subst last_match.simps) auto
    qed (subst last_match.simps, simp)
  qed
  then show "last_match r s k x = None \<Longrightarrow> \<exists>j i. scan r s k j \<and> re_exec r s j = Some (i, i)" by blast
qed

text \<open>C27: On strings without symbols of several units, and with a regular expression that keeps the laws
  of the language as separator, \<open>truncate\<close> fails to return exactly when it shortens the string to at
  least one unit, the expression does not match right at the cut, and the scan of the shortened string
  comes to an empty match: the loop then stays there, as with \<open>/$/\<close>.\<close>

theorem truncate_hangs:
  fixes n :: int and omission :: units
  assumes "list_all plain_unit string" and "regexp_laws r"
  defines "e \<equiv> n - int (stringSize omission)"
  shows "truncate string (Some \<lparr>tr_length = Some (Some (num_int n)), tr_omission = Some omission,
      tr_separator = RegExpSeparator r\<rparr>) = None \<longleftrightarrow>
    n < int (length string) \<and> 1 \<le> e \<and> re_search r (drop (nat e) string) \<noteq> 0 \<and>
    (\<exists>k i. scan r (take (nat e) string) 0 k \<and> re_exec r (take (nat e) string) k = Some (i, i))"
  unfolding last_match_None [OF assms(2), symmetric, where x = None] e_def using assms(1)
  by (auto simp: truncate_def complex_test cut_at_separator_def Let_def split: option.splits)

theorem truncate_hangs_witness:
  "truncate (ascii ''abcdefgh'') (Some \<lparr>tr_length = Some (Some (num_int 6)), tr_omission = Some (ascii ''...''),
     tr_separator = RegExpSeparator \<lparr>re_search = (\<lambda>s. int (length s)),
       re_exec = (\<lambda>s k. if k \<le> length s then Some (length s, length s) else None)\<rparr>\<rparr>) = None"
proof -
  let ?r = "\<lparr>re_search = (\<lambda>s. int (length s)),
    re_exec = (\<lambda>s k. if k \<le> length s then Some (length s, length s) else None)\<rparr> :: regexp"
  have plain: "list_all plain_unit (ascii ''abcdefgh'')" "list_all plain_unit (ascii ''...'')"
    by (simp_all add: ascii_def plain_unit_def unit_in_def rsZWJ_def rsAstralRange_def
        rsComboMarksRange_def rsComboSymbolsRange_def rsVarRange_def)
  have laws: "regexp_laws ?r" by (simp add: regexp_laws_def)
  have "scan ?r (take 3 (ascii ''abcdefgh'')) 0 0" by (rule scan.first)
  moreover have "re_exec ?r (take 3 (ascii ''abcdefgh'')) 0 = Some (3, 3)" by (simp add: ascii_def)
  ultimately have "\<exists>k i. scan ?r (take 3 (ascii ''abcdefgh'')) 0 k \<and>
      re_exec ?r (take 3 (ascii ''abcdefgh'')) k = Some (i, i)" by blast
  then show ?thesis
    using plain by (subst truncate_hangs [OF plain(1) laws]) (simp_all add: plain_size ascii_def)
qed

lemma last_match_returns:
  assumes "\<And>s k i e. re_exec r s k = Some (i, e) \<Longrightarrow> k < e \<and> e \<le> length s"
  shows "\<exists>y. last_match r s k x = Some y"
proof (induction "Suc (length s) - k" arbitrary: k x rule: less_induct)
  case less
  show ?case
  proof (cases "re_exec r s k")
    case (Some m)
    then obtain i e where m: "re_exec r s k = Some (i, e)" by (cases m) auto
    with assms [OF m] less [of e "Some i"] show ?thesis by (subst last_match.simps) auto
  qed (subst last_match.simps, simp)
qed

text \<open>It returns when every match of the separator takes at least one unit.\<close>

theorem truncate_returns:
  assumes "\<And>s k i e. re_exec r s k = Some (i, e) \<Longrightarrow> k < e \<and> e \<le> length s"
    and "tr_separator ops = RegExpSeparator r"
  shows "\<exists>t. truncate string (Some ops) = Some t"
proof -
  have "\<exists>t. cut_at_separator (RegExpSeparator r) s result e = Some t" for s result e
    using last_match_returns [of r result 0 None] assms(1) by (auto simp: cut_at_separator_def)
  then show ?thesis using assms(2) by (simp add: truncate_def Let_def)
qed

theorem truncate_returns_witness:
  "\<exists>t. truncate (ascii ''abcdefgh'') (Some \<lparr>tr_length = Some (Some (num_int 6)), tr_omission = None,
     tr_separator = RegExpSeparator \<lparr>re_search = (\<lambda>s. -1),
       re_exec = (\<lambda>s k. if k < length s then Some (k, k + 1) else None)\<rparr>\<rparr>) = Some t"
  by (rule truncate_returns) (auto split: if_splits)

lemma cut_at_separator_take:
  "cut_at_separator sep string result e = Some t \<Longrightarrow> length t \<le> length result"
  by (auto simp: cut_at_separator_def Let_def split: separator.splits if_splits option.splits)

text \<open>The result is no longer than asked for, unless the omission is.\<close>

theorem truncate_bounded:
  assumes "list_all plain_unit string" and "list_all plain_unit omission"
    and "truncate string (Some \<lparr>tr_length = Some (Some (num_int n)), tr_omission = Some omission,
      tr_separator = sep\<rparr>) = Some t"
  shows "int (length t) \<le> max n (int (length omission))"
  using assms cut_at_separator_take [of sep string "take (nat (n - int (length omission))) string"]
  by (fastforce simp: truncate_def complex_test plain_size Let_def split: if_splits)

end
