(* ===== verification/LodashWords.thy ===== *)
theory LodashWords
  imports LodashStringLaws
begin

text \<open>
  Words in \<open>lodash-4.2.1.js\<close>: the expressions that find them in a string, \<open>deburr\<close>, and the functions
  that put them together again, from \<open>camelCase\<close> to \<open>upperCase\<close>. The tables \<open>toLowerCase\<close> and
  \<open>toUpperCase\<close> of the language are arguments.
\<close>

section \<open>The expressions\<close>

definition rsDingbatRange :: "(unit16 \<times> unit16) list" where
  "rsDingbatRange = [(0x2700, 0x27bf)]"

definition rsLowerRange :: "(unit16 \<times> unit16) list" where
  "rsLowerRange = [(0x61, 0x7a), (0xdf, 0xf6), (0xf8, 0xff)]"

definition rsMathOpRange :: "(unit16 \<times> unit16) list" where
  "rsMathOpRange = [(0xac, 0xac), (0xb1, 0xb1), (0xd7, 0xd7), (0xf7, 0xf7)]"

definition rsNonCharRange :: "(unit16 \<times> unit16) list" where
  "rsNonCharRange = [(0, 0x2f), (0x3a, 0x40), (0x5b, 0x60), (0x7b, 0xbf)]"

definition rsQuoteRange :: "(unit16 \<times> unit16) list" where
  "rsQuoteRange = [(0x2018, 0x2018), (0x2019, 0x2019), (0x201c, 0x201c), (0x201d, 0x201d)]"

definition rsSpaceRange :: "(unit16 \<times> unit16) list" where
  "rsSpaceRange = [(0x20, 0x20), (9, 9), (0xb, 0xb), (0xc, 0xc), (0xa0, 0xa0), (0xfeff, 0xfeff), (0xa, 0xa),
     (0xd, 0xd), (0x2028, 0x2028), (0x2029, 0x2029), (0x1680, 0x1680), (0x180e, 0x180e), (0x2000, 0x2000),
     (0x2001, 0x2001), (0x2002, 0x2002), (0x2003, 0x2003), (0x2004, 0x2004), (0x2005, 0x2005),
     (0x2006, 0x2006), (0x2007, 0x2007), (0x2008, 0x2008), (0x2009, 0x2009), (0x200a, 0x200a),
     (0x202f, 0x202f), (0x205f, 0x205f), (0x3000, 0x3000)]"

definition rsUpperRange :: "(unit16 \<times> unit16) list" where
  "rsUpperRange = [(0x41, 0x5a), (0xc0, 0xd6), (0xd8, 0xde)]"

definition rsBreakRange :: "(unit16 \<times> unit16) list" where
  "rsBreakRange = rsMathOpRange @ rsNonCharRange @ rsQuoteRange @ rsSpaceRange"

text \<open>The digits, and what \<open>\d+\<close> means inside a class: a digit or a plus sign.\<close>

definition digit_range :: "(unit16 \<times> unit16) list" where
  "digit_range = [(0x30, 0x39)]"

definition rsDigits :: rx where
  "rsDigits = RPlus (RUnit (unit_in digit_range))"

definition rsBreak :: rx where
  "rsBreak = RUnit (unit_in rsBreakRange)"

definition rsDingbat :: rx where
  "rsDingbat = RUnit (unit_in rsDingbatRange)"

definition rsLower :: rx where
  "rsLower = RUnit (unit_in rsLowerRange)"

definition rsUpper :: rx where
  "rsUpper = RUnit (unit_in rsUpperRange)"

definition rsMisc :: rx where
  "rsMisc = RUnit (\<lambda>u. \<not> unit_in (rsAstralRange @ rsBreakRange @ digit_range @ [(0x2b, 0x2b)] @
     rsDingbatRange @ rsLowerRange @ rsUpperRange) u)"

definition rsLowerMisc :: rx where
  "rsLowerMisc = RAlt rsLower rsMisc"

definition rsUpperMisc :: rx where
  "rsUpperMisc = RAlt rsUpper rsMisc"

definition rsEmoji :: rx where
  "rsEmoji = RSeq (any_of [rsDingbat, rsRegional, rsSurrPair]) rsSeq"

definition reBasicWord :: rx where
  "reBasicWord = RPlus (RUnit (unit_in [(0x61, 0x7a), (0x41, 0x5a), (0x30, 0x39)]))"

definition reComplexWord :: rx where
  "reComplexWord = any_of
     [RSeq (ROpt rsUpper) (RSeq (RPlus rsLower) (RAhead (any_of [rsBreak, rsUpper, REnd]))),
      RSeq (RPlus rsUpperMisc) (RAhead (any_of [rsBreak, RSeq rsUpper rsLowerMisc, REnd])),
      RSeq (ROpt rsUpper) (RPlus rsLowerMisc),
      RPlus rsUpper,
      rsDigits,
      rsEmoji]"

definition reHasComplexWord :: rx where
  "reHasComplexWord = any_of
     [RSeq (RUnit (unit_in [(0x61, 0x7a)])) (RUnit (unit_in [(0x41, 0x5a)])),
      RSeq (RUnit (unit_in [(0x30, 0x39)])) (RUnit (unit_in [(0x61, 0x7a), (0x41, 0x5a)])),
      RSeq (RUnit (unit_in [(0x61, 0x7a), (0x41, 0x5a)])) (RUnit (unit_in [(0x30, 0x39)])),
      RUnit (\<lambda>u. \<not> unit_in [(0x61, 0x7a), (0x41, 0x5a), (0x30, 0x39), (0x20, 0x20)] u)]"

section \<open>Words\<close>

text \<open>A pattern of the sandbox is the matches it finds; \<open>null\<close> and no matches are the empty list.\<close>

definition words :: "units \<Rightarrow> (units \<Rightarrow> units list) option \<Rightarrow> bool \<Rightarrow> units list" where
  "words string pattern guard =
     (case (if guard then None else pattern) of
        None \<Rightarrow> match_all (if rx_test reHasComplexWord string then reComplexWord else reBasicWord) string
      | Some f \<Rightarrow> f string)"

definition deburredLetters :: "(unit16 \<times> string) list" where
  "deburredLetters =
    [(0xc0, ''A''), (0xc1, ''A''), (0xc2, ''A''), (0xc3, ''A''), (0xc4, ''A''), (0xc5, ''A''),
     (0xe0, ''a''), (0xe1, ''a''), (0xe2, ''a''), (0xe3, ''a''), (0xe4, ''a''), (0xe5, ''a''),
     (0xc7, ''C''), (0xe7, ''c''),
     (0xd0, ''D''), (0xf0, ''d''),
     (0xc8, ''E''), (0xc9, ''E''), (0xca, ''E''), (0xcb, ''E''),
     (0xe8, ''e''), (0xe9, ''e''), (0xea, ''e''), (0xeb, ''e''),
     (0xcc, ''I''), (0xcd, ''I''), (0xce, ''I''), (0xcf, ''I''),
     (0xec, ''i''), (0xed, ''i''), (0xee, ''i''), (0xef, ''i''),
     (0xd1, ''N''), (0xf1, ''n''),
     (0xd2, ''O''), (0xd3, ''O''), (0xd4, ''O''), (0xd5, ''O''), (0xd6, ''O''), (0xd8, ''O''),
     (0xf2, ''o''), (0xf3, ''o''), (0xf4, ''o''), (0xf5, ''o''), (0xf6, ''o''), (0xf8, ''o''),
     (0xd9, ''U''), (0xda, ''U''), (0xdb, ''U''), (0xdc, ''U''),
     (0xf9, ''u''), (0xfa, ''u''), (0xfb, ''u''), (0xfc, ''u''),
     (0xdd, ''Y''), (0xfd, ''y''), (0xff, ''y''),
     (0xc6, ''Ae''), (0xe6, ''ae''),
     (0xde, ''Th''), (0xfe, ''th''),
     (0xdf, ''ss'')]"

definition reLatin1 :: rx where
  "reLatin1 = RUnit (unit_in [(0xc0, 0xd6), (0xd8, 0xde), (0xdf, 0xf6), (0xf8, 0xff)])"

definition reComboMark :: rx where
  "reComboMark = rsCombo"

definition deburrLetter :: "units \<Rightarrow> units" where
  "deburrLetter letter = (case letter of
     [u] \<Rightarrow> (case map_of deburredLetters u of Some t \<Rightarrow> ascii t | None \<Rightarrow> ascii ''undefined'')
   | _ \<Rightarrow> ascii ''undefined'')"

definition deburr :: "units \<Rightarrow> units" where
  "deburr string = (if string = [] then string
     else replace_all reComboMark (\<lambda>m. []) (replace_all reLatin1 deburrLetter string))"

section \<open>Putting words together\<close>

definition createCompounder :: "(units \<Rightarrow> units \<Rightarrow> nat \<Rightarrow> units) \<Rightarrow> units \<Rightarrow> units" where
  "createCompounder callback string =
     (case (arrayReduce (words (deburr string) None False) (\<lambda>result word index. sret (callback result word index))
              [] False :: (unit, unit, units) stm) () of
        (Inr result, s) \<Rightarrow> result
      | r \<Rightarrow> [])"

definition camelCase :: "(units \<Rightarrow> units) \<Rightarrow> (units \<Rightarrow> units) \<Rightarrow> units \<Rightarrow> units" where
  "camelCase upper lower = createCompounder (\<lambda>result word index.
     let word1 = lower word in result @ (if index \<noteq> 0 then capitalize upper lower word1 else word1))"

definition kebabCase :: "(units \<Rightarrow> units) \<Rightarrow> units \<Rightarrow> units" where
  "kebabCase lower = createCompounder (\<lambda>result word index.
     result @ (if index \<noteq> 0 then ascii ''-'' else []) @ lower word)"

definition lowerCase :: "(units \<Rightarrow> units) \<Rightarrow> units \<Rightarrow> units" where
  "lowerCase lower = createCompounder (\<lambda>result word index.
     result @ (if index \<noteq> 0 then ascii '' '' else []) @ lower word)"

definition snakeCase :: "(units \<Rightarrow> units) \<Rightarrow> units \<Rightarrow> units" where
  "snakeCase lower = createCompounder (\<lambda>result word index.
     result @ (if index \<noteq> 0 then ascii ''_'' else []) @ lower word)"

definition startCase :: "(units \<Rightarrow> units) \<Rightarrow> (units \<Rightarrow> units) \<Rightarrow> units \<Rightarrow> units" where
  "startCase upper lower = createCompounder (\<lambda>result word index.
     result @ (if index \<noteq> 0 then ascii '' '' else []) @ capitalize upper lower word)"

definition upperCase :: "(units \<Rightarrow> units) \<Rightarrow> units \<Rightarrow> units" where
  "upperCase upper = createCompounder (\<lambda>result word index.
     result @ (if index \<noteq> 0 then ascii '' '' else []) @ upper word)"

section \<open>Deburring\<close>

lemma replace_from_units:
  "replace_from (RUnit p) f i s = concat (map (\<lambda>u. if p u then f [u] else [u]) s)"
  by (induction s arbitrary: i) (simp_all add: replace_from_Nil replace_from_Cons)

lemma replace_all_units: "replace_all (RUnit p) f s = concat (map (\<lambda>u. if p u then f [u] else [u]) s)"
  by (simp add: replace_all_def replace_from_units)

definition deburr_unit :: "unit16 \<Rightarrow> units" where
  "deburr_unit u = (if unit_in [(0xc0, 0xd6), (0xd8, 0xde), (0xdf, 0xf6), (0xf8, 0xff)] u then deburrLetter [u] else [u])"

lemma deburr_units:
  "deburr s = filter (\<lambda>u. \<not> unit_in (rsComboMarksRange @ rsComboSymbolsRange) u) (concat (map deburr_unit s))"
proof -
  have "concat (map (\<lambda>u. if p u then [] else [u]) us) = filter (\<lambda>u. \<not> p u) us" for p and us :: units
    by (induction us) simp_all
  then show ?thesis
    by (auto simp: deburr_def reLatin1_def reComboMark_def rsCombo_def replace_all_units deburr_unit_def [abs_def])
qed

definition latin1_letter :: "unit16 \<Rightarrow> bool" where
  "latin1_letter u \<longleftrightarrow> 0xc0 \<le> u \<and> u \<le> 0xff \<and> u \<noteq> 0xd7 \<and> u \<noteq> 0xf7"

lemma table_plain: "\<forall>(u, t) \<in> set deburredLetters. list_all (\<lambda>v. \<not> latin1_letter v) (ascii t)"
  by (simp add: deburredLetters_def ascii_def latin1_letter_def)

text \<open>Deburring leaves no letter with a diacritical mark.\<close>

theorem deburr_is_plain: "list_all (\<lambda>u. \<not> latin1_letter u) (deburr s)"
proof -
  have undef: "list_all (\<lambda>v. \<not> latin1_letter v) (ascii ''undefined'')"
    by (simp add: ascii_def latin1_letter_def)
  have "list_all (\<lambda>v. \<not> latin1_letter v) (deburr_unit u)" for u
  proof (cases "unit_in [(0xc0, 0xd6), (0xd8, 0xde), (0xdf, 0xf6), (0xf8, 0xff)] u")
    case True
    then show ?thesis
      using table_plain undef by (auto simp: deburr_unit_def deburrLetter_def split: option.splits dest: map_of_SomeD)
  next
    case False
    then have "\<not> latin1_letter u"
      by (auto simp: unit_in_def latin1_letter_def word_le_nat_alt word_unat_eq_iff)
    with False show ?thesis by (simp add: deburr_unit_def)
  qed
  then show ?thesis by (auto simp: deburr_units list_all_iff)
qed

section \<open>Words that were joined\<close>

fun join_words :: "units \<Rightarrow> units list \<Rightarrow> units" where
  "join_words sep [] = []"
| "join_words sep [w] = w"
| "join_words sep (w # ws) = w @ sep @ join_words sep ws"





text \<open>
  A text of words, each after some joiners. A word after the first has a joiner before it or starts with
  a capital.
\<close>

definition text_of :: "(units \<times> units) list \<Rightarrow> units" where
  "text_of ps = concat (map (\<lambda>(seps, w). seps @ w) ps)"



















lemma text_of_simps [simp]: "text_of [] = []" "text_of ((seps, w) # ps) = seps @ w @ text_of ps"
  by (simp_all add: text_of_def)








lemma createCompounder_fold:
  "createCompounder callback string =
     (let ws = words (deburr string) None False
      in fold (\<lambda>index result. callback result (ws ! index) index) [0..<length ws] [])"
proof -
  have "(arrayReduce ws (\<lambda>result word index. sret (callback result word index)) [] False ::
      (unit, unit, units) stm) () =
      (Inr (fold (\<lambda>index result. callback result (ws ! index) index) [0..<length ws] []), ())" for ws
    unfolding arrayReduce_def for_up_list sbind_sret
    by (simp add: loop_value_def sbind_def for_list_pure pure_loop_fold del: upt_Suc)
  then show ?thesis by (simp add: createCompounder_def Let_def)
qed

lemma join_words_snoc: "ws \<noteq> [] \<Longrightarrow> join_words sep (ws @ [w]) = join_words sep ws @ sep @ w"
  by (induction ws rule: induct_list012) simp_all

text \<open>The functions that join with a separator.\<close>

lemma fold_join:
  "fold (\<lambda>index result. result @ (if index \<noteq> 0 then sep else []) @ f (ws ! index)) [0..<length ws] [] =
     join_words sep (map f ws)"
proof (induction ws rule: rev_induct)
  case (snoc w ws)
  have "fold (\<lambda>index result. result @ (if index \<noteq> 0 then sep else []) @ f ((ws @ [w]) ! index)) [0..<length ws] [] =
      fold (\<lambda>index result. result @ (if index \<noteq> 0 then sep else []) @ f (ws ! index)) [0..<length ws] []"
    by (intro fold_cong) (auto simp: nth_append)
  with snoc show ?case by (cases "ws = []") (simp_all add: join_words_snoc)
qed simp

lemma compound_joins:
  "kebabCase lower s = join_words (ascii ''-'') (map lower (words (deburr s) None False))"
  "snakeCase lower s = join_words (ascii ''_'') (map lower (words (deburr s) None False))"
  "lowerCase lower s = join_words (ascii '' '') (map lower (words (deburr s) None False))"
  "upperCase upper s = join_words (ascii '' '') (map upper (words (deburr s) None False))"
  unfolding kebabCase_def snakeCase_def lowerCase_def upperCase_def createCompounder_fold Let_def fold_join
  by (rule refl)+

end
